(* ===== verification/Infinity_Prelude.thy ===== *)
theory Infinity_Prelude
  imports Main "HOL-Library.Word"
begin

text \<open>
  Shared vocabulary of the development: the error values that model the exceptions of the
  C++ code, the sequencing operator of fallible operations, machine integer conversions,
  and the generic lemmas on lists and alignment that several components use.

  \<^item> \<open>UnrecoverableError\<close>, \<open>RecoverableError\<close> (\<^verbatim>\<open>src/src/common/utility/exception.cpp\<close>) and
    \<open>ParserError\<close> throw; an operation that throws has the value \<open>Inl e\<close>.
  \<^item> \<open>AssertionFailure\<close> is a failed \<^verbatim>\<open>assert\<close>; \<open>UndefinedBehaviour\<close> marks a use of a standard
    container outside its contract (for example splicing a node out of a list that does not
    hold it), so that a theorem stating \<open>Inr\<close> also states that this does not happen.
  \<^item> \<open>StdException\<close> is an exception of the C++ standard library, such as \<^verbatim>\<open>std::out_of_range\<close>.
\<close>

named_theorems res_simps \<open>rewriting of fallible computations\<close>

datatype error =
    UnrecoverableError string
  | RecoverableError string
  | ParserError string
  | AssertionFailure string
  | UndefinedBehaviour string
  | StdException string

type_synonym 'a res = "error + 'a"

definition rbind :: "'a res \<Rightarrow> ('a \<Rightarrow> 'b res) \<Rightarrow> 'b res" where
  "rbind m f = (case m of Inl e \<Rightarrow> Inl e | Inr x \<Rightarrow> f x)"

lemma rbind_Inl [simp]: "rbind (Inl e) f = Inl e"
  by (simp add: rbind_def)

lemma rbind_Inr [simp]: "rbind (Inr x) f = f x"
  by (simp add: rbind_def)

lemma rbind_eq_Inr [res_simps]: "rbind m f = Inr y \<longleftrightarrow> (\<exists>x. m = Inr x \<and> f x = Inr y)"
  by (cases m) auto

lemma rbind_eq_Inl [res_simps]:
  "rbind m f = Inl e \<longleftrightarrow> m = Inl e \<or> (\<exists>x. m = Inr x \<and> f x = Inl e)"
  by (cases m) auto

lemma rbind_assoc: "rbind (rbind m f) g = rbind m (\<lambda>x. rbind (f x) g)"
  by (cases m) auto

lemma rbind_cong [fundef_cong]:
  "m = m' \<Longrightarrow> (\<And>x. m' = Inr x \<Longrightarrow> f x = f' x) \<Longrightarrow> rbind m f = rbind m' f'"
  by (cases m') auto

text \<open>A loop over a vector that stops at the first exception.\<close>

fun rfold :: "('a \<Rightarrow> 's \<Rightarrow> 's res) \<Rightarrow> 'a list \<Rightarrow> 's \<Rightarrow> 's res" where
  "rfold f [] s = Inr s"
| "rfold f (x # xs) s = rbind (f x s) (rfold f xs)"

lemma rfold_append: "rfold f (xs @ ys) s = rbind (rfold f xs s) (rfold f ys)"
proof (induction xs arbitrary: s)
  case (Cons x xs)
  then show ?case by (cases "f x s") simp_all
qed simp

lemma rfold_invariant:
  assumes "rfold f xs s = Inr s'" and "P s"
    and "\<And>x s s'. x \<in> set xs \<Longrightarrow> P s \<Longrightarrow> f x s = Inr s' \<Longrightarrow> P s'"
  shows "P s'"
  using assms
proof (induction xs arbitrary: s)
  case Nil
  then show ?case by simp
next
  case (Cons x xs)
  from Cons.prems(1) obtain t where t: "f x s = Inr t" "rfold f xs t = Inr s'"
    by (auto simp: res_simps)
  have "P t" using Cons.prems(2,3) t(1) by auto
  then show ?case using Cons.IH [OF t(2)] Cons.prems(3) by auto
qed

subsection \<open>Machine integers\<close>

type_synonym byte = "8 word"

text \<open>
  \<^verbatim>\<open>int(x)\<close> for an unsigned \<open>x\<close>: the low 32 bits read as two's complement; and the
  wrap-around of \<^verbatim>\<open>u64\<close> arithmetic on natural numbers below \<open>2 ^ 64\<close>.
\<close>

definition to_i32 :: "int \<Rightarrow> int" where
  "to_i32 x = (x + 2 ^ 31) mod 2 ^ 32 - 2 ^ 31"

definition u64_add :: "nat \<Rightarrow> nat \<Rightarrow> nat" where
  "u64_add a b = (a + b) mod 2 ^ 64"

definition u64_sub :: "nat \<Rightarrow> nat \<Rightarrow> nat" where
  "u64_sub a b = (a + 2 ^ 64 - b mod 2 ^ 64) mod 2 ^ 64"

lemma to_i32_id: "- (2 ^ 31) \<le> x \<Longrightarrow> x < 2 ^ 31 \<Longrightarrow> to_i32 x = x"
  by (simp add: to_i32_def)

lemma to_i32_range: "- (2 ^ 31) \<le> to_i32 x \<and> to_i32 x < 2 ^ 31"
proof -
  have "0 \<le> (x + 2 ^ 31) mod 2 ^ 32" and "(x + 2 ^ 31) mod 2 ^ 32 < 2 ^ 32"
    by simp_all
  then show ?thesis unfolding to_i32_def by (simp add: algebra_simps)
qed

lemma to_i32_of_nat: "n < 2 ^ 31 \<Longrightarrow> to_i32 (int n) = int n"
  by (rule to_i32_id) auto

lemma u64_add_id: "a + b < 2 ^ 64 \<Longrightarrow> u64_add a b = a + b"
  by (simp add: u64_add_def)

lemma u64_sub_id:
  assumes "b \<le> a" "a < 2 ^ 64"
  shows "u64_sub a b = a - b"
proof -
  have "a + 2 ^ 64 - b mod 2 ^ 64 = (a - b) + 2 ^ 64"
    using assms by simp
  then have "u64_sub a b = ((a - b) + 2 ^ 64) mod 2 ^ 64"
    by (simp only: u64_sub_def)
  also have "\<dots> = (a - b) mod 2 ^ 64" by (rule mod_add_self2)
  also have "\<dots> = a - b" using assms by simp
  finally show ?thesis .
qed

subsection \<open>Alignment to eight bytes\<close>

text \<open>
  \<^verbatim>\<open>(x + ObjAlignment - 1) & ~(ObjAlignment - 1)\<close> with \<^verbatim>\<open>ObjAlignment = 8\<close>: clearing the low
  three bits of \<open>x + 7\<close> rounds \<open>x\<close> up to a multiple of eight.  Sizes are natural numbers;
  \<open>align8_word\<close> is the expression on the 64-bit type and \<open>unat_align8_word\<close> shows that the
  two agree as long as \<open>x + 7\<close> does not overflow.
\<close>

unbundle bit_operations_syntax

definition align8 :: "nat \<Rightarrow> nat" where
  "align8 x = (x + 7) div 8 * 8"

definition align8_word :: "64 word \<Rightarrow> 64 word" where
  "align8_word x = (x + 8 - 1) AND NOT (8 - 1)"

lemma align8_ge: "x \<le> align8 x"
  unfolding align8_def by presburger

lemma align8_less: "align8 x < x + 8"
  unfolding align8_def by presburger

lemma align8_dvd [simp]: "8 dvd align8 x"
  by (simp add: align8_def)

lemma align8_mono: "x \<le> y \<Longrightarrow> align8 x \<le> align8 y"
  by (simp add: align8_def div_le_mono)

lemma align8_fix: "8 dvd x \<Longrightarrow> align8 x = x"
  unfolding align8_def by presburger

lemma align8_0 [simp]: "align8 0 = 0"
  by (simp add: align8_def)

lemma align8_pos: "0 < x \<Longrightarrow> 0 < align8 x"
  using align8_ge [of x] by simp

lemma align8_le: "8 dvd y \<Longrightarrow> x \<le> y \<Longrightarrow> align8 x \<le> y"
  using align8_mono [of x y] by (simp add: align8_fix)

lemma align8_add: "8 dvd x \<Longrightarrow> align8 (x + y) = x + align8 y"
  unfolding align8_def by presburger

lemma unat_and_not_mask_3: "unat (w AND NOT (mask 3)) = unat (w :: 64 word) div 8 * 8"
proof -
  have "w AND NOT (mask 3) = push_bit 3 (drop_bit 3 w)"
    by (rule bit_word_eqI) (auto simp: bit_simps)
  moreover have "unat w div 8 * 8 < 2 ^ 64"
  proof (rule order.strict_trans1 [OF div_times_less_eq_dividend])
    show "unat w < 2 ^ 64" using unsigned_less [of w] by simp
  qed
  ultimately show ?thesis
    by (simp add: unat_drop_bit_eq drop_bit_eq_div push_bit_eq_mult unat_word_ariths)
qed

lemma unat_align8_word:
  assumes "unat x + 7 < 2 ^ 64"
  shows "unat (align8_word x) = align8 (unat x)"
proof -
  have "align8_word x = (x + 7) AND NOT (mask 3)"
    by (simp add: align8_word_def mask_eq_exp_minus_1 add.commute)
  moreover have "unat (x + 7) = unat x + 7"
    using assms by (simp add: unat_word_ariths)
  ultimately show ?thesis
    by (simp only: align8_def unat_and_not_mask_3)
qed

end
