(* ===== verification/Serialize.thy ===== *)
theory Serialize
  imports Infinity_Prelude
begin

text \<open>
  The binary encoding primitives of \<^verbatim>\<open>src/src/parser/type/serialize.h\<close>.  A writer that advances
  \<^verbatim>\<open>char *&buf\<close> is the list of bytes it writes, so that writing two values in a row is the
  append of their bytes; a reader that advances \<^verbatim>\<open>const char *&buf\<close> maps the remaining bytes to
  the value and the bytes after it.  Reading past the end of the buffer is undefined behaviour
  in C++ and an error value here.  Plain values are copied by \<^verbatim>\<open>memcpy\<close>, which on the supported
  (little endian) machines stores the low byte first.

  The locale \<open>codec\<close> is the contract every pair of \<^verbatim>\<open>WriteAdv\<close>/\<^verbatim>\<open>ReadAdv\<close> functions and its
  \<^verbatim>\<open>GetSizeInBytes\<close> promise: what was written is read back, and the announced size is the
  number of bytes written.
\<close>

subsection \<open>Bytes of plain values\<close>

fun le_bytes :: "nat \<Rightarrow> nat \<Rightarrow> byte list" where
  "le_bytes 0 n = []"
| "le_bytes (Suc k) n = of_nat n # le_bytes k (n div 256)"

fun le_nat :: "byte list \<Rightarrow> nat" where
  "le_nat [] = 0"
| "le_nat (b # bs) = unat b + 256 * le_nat bs"

lemma length_le_bytes [simp]: "length (le_bytes k n) = k"
  by (induction k arbitrary: n) simp_all

lemma le_nat_le_bytes: "le_nat (le_bytes k n) = n mod 256 ^ k"
proof (induction k arbitrary: n)
  case 0
  then show ?case by simp
next
  case (Suc k)
  have "n mod 256 ^ Suc k = n mod 256 + 256 * (n div 256 mod 256 ^ k)"
    by (simp only: power_Suc mod_mult2_eq add.commute)
  then show ?case using Suc by (simp add: unat_of_nat)
qed

definition byte_of_char :: "char \<Rightarrow> byte" where
  "byte_of_char c = of_nat (of_char c)"

definition char_of_byte :: "byte \<Rightarrow> char" where
  "char_of_byte b = char_of (unat b)"

lemma char_of_byte_of_char [simp]: "char_of_byte (byte_of_char c) = c"
proof -
  have "of_char c < (256 :: nat)" by (rule nat_of_char_less_256)
  then show ?thesis by (simp add: char_of_byte_def byte_of_char_def unat_of_nat)
qed

subsection \<open>The templates \<open>WriteBufAdv\<close> and \<open>ReadBufAdv\<close>\<close>

text \<open>\<open>k\<close> is \<^verbatim>\<open>sizeof(T)\<close>; signed 32-bit values are stored in two's complement.\<close>

definition WriteBufAdv_pod :: "nat \<Rightarrow> nat \<Rightarrow> byte list" where
  "WriteBufAdv_pod k v = le_bytes k v"

definition ReadBufAdv_pod :: "nat \<Rightarrow> byte list \<Rightarrow> (nat \<times> byte list) res" where
  "ReadBufAdv_pod k buf =
     (if length buf < k then Inl (UndefinedBehaviour ''read past the end of the buffer'')
      else Inr (le_nat (take k buf), drop k buf))"

definition WriteBufAdv_i32 :: "int \<Rightarrow> byte list" where
  "WriteBufAdv_i32 v = WriteBufAdv_pod 4 (nat (v mod 2 ^ 32))"

definition ReadBufAdv_i32 :: "byte list \<Rightarrow> (int \<times> byte list) res" where
  "ReadBufAdv_i32 buf = rbind (ReadBufAdv_pod 4 buf) (\<lambda>(n, r). Inr (to_i32 (int n), r))"

text \<open>
  Strings: an \<^verbatim>\<open>int32_t\<close> length and the bytes.  \<^verbatim>\<open>int32_t len = value.length()\<close> truncates; for a
  string of \<open>2 ^ 31\<close> bytes or more the length is negative and \<^verbatim>\<open>memcpy\<close> is called outside its
  contract, which the theorems exclude.
\<close>

definition WriteBufAdv_string :: "string \<Rightarrow> byte list" where
  "WriteBufAdv_string value =
     (let len = to_i32 (int (length value))
      in WriteBufAdv_i32 len @ map byte_of_char (take (nat len) value))"

definition ReadBufAdv_string :: "byte list \<Rightarrow> (string \<times> byte list) res" where
  "ReadBufAdv_string buf =
     rbind (ReadBufAdv_i32 buf) (\<lambda>(size, r).
       if size < 0 \<or> length r < nat size
       then Inl (UndefinedBehaviour ''read past the end of the buffer'')
       else Inr (map char_of_byte (take (nat size) r), drop (nat size) r))"

text \<open>A loop that reads \<open>n\<close> elements one after the other.\<close>

fun read_n :: "(byte list \<Rightarrow> ('a \<times> byte list) res) \<Rightarrow> nat \<Rightarrow> byte list \<Rightarrow> ('a list \<times> byte list) res" where
  "read_n rd 0 buf = Inr ([], buf)"
| "read_n rd (Suc n) buf =
     rbind (rd buf) (\<lambda>(x, r). rbind (read_n rd n r) (\<lambda>(xs, r'). Inr (x # xs, r')))"

lemma ReadBufAdv_pod_write:
  "v < 256 ^ k \<Longrightarrow> ReadBufAdv_pod k (WriteBufAdv_pod k v @ r) = Inr (v, r)"
  by (simp add: ReadBufAdv_pod_def WriteBufAdv_pod_def le_nat_le_bytes)

lemma ReadBufAdv_i32_write:
  assumes "- (2 ^ 31) \<le> v" and "v < 2 ^ 31"
  shows "ReadBufAdv_i32 (WriteBufAdv_i32 v @ r) = Inr (v, r)"
proof -
  have "nat (v mod 2 ^ 32) < 256 ^ 4" by (simp add: nat_less_iff)
  moreover have "to_i32 (int (nat (v mod 2 ^ 32))) = v"
  proof -
    have "to_i32 (v mod 2 ^ 32) = to_i32 v"
      by (simp add: to_i32_def mod_add_left_eq)
    then show ?thesis using assms by (simp add: to_i32_id)
  qed
  ultimately show ?thesis
    by (simp add: ReadBufAdv_i32_def WriteBufAdv_i32_def ReadBufAdv_pod_write)
qed

lemma ReadBufAdv_string_write:
  assumes "length s < 2 ^ 31"
  shows "ReadBufAdv_string (WriteBufAdv_string s @ r) = Inr (s, r)"
proof -
  have len: "to_i32 (int (length s)) = int (length s)"
    using assms by (rule to_i32_of_nat)
  have "ReadBufAdv_i32 (WriteBufAdv_i32 (int (length s)) @ map byte_of_char s @ r)
          = Inr (int (length s), map byte_of_char s @ r)"
    using assms by (intro ReadBufAdv_i32_write) auto
  then show ?thesis
    by (simp add: ReadBufAdv_string_def WriteBufAdv_string_def Let_def len o_def)
qed

lemma length_WriteBufAdv_string:
  "length s < 2 ^ 31 \<Longrightarrow> length (WriteBufAdv_string s) = 4 + length s"
  by (simp add: WriteBufAdv_string_def WriteBufAdv_i32_def WriteBufAdv_pod_def Let_def to_i32_of_nat)

lemma length_WriteBufAdv_pod [simp]: "length (WriteBufAdv_pod k v) = k"
  by (simp add: WriteBufAdv_pod_def)

lemma length_WriteBufAdv_i32 [simp]: "length (WriteBufAdv_i32 v) = 4"
  by (simp add: WriteBufAdv_i32_def)

subsection \<open>The contract of an encoder and its decoder\<close>

locale codec =
  fixes wr :: "'a \<Rightarrow> byte list"
    and rd :: "byte list \<Rightarrow> ('a \<times> byte list) res"
    and sz :: "'a \<Rightarrow> nat"
    and ok :: "'a \<Rightarrow> bool"
  assumes read_write: "ok x \<Longrightarrow> rd (wr x @ r) = Inr (x, r)"
    and size_write: "ok x \<Longrightarrow> length (wr x) = sz x"
begin

text \<open>No encoding is a proper prefix of another: a stream of values has one reading.\<close>

lemma write_prefix_free:
  assumes "ok x" "ok y" "wr x @ r = wr y @ s"
  shows "x = y \<and> r = s"
proof -
  have "rd (wr x @ r) = rd (wr y @ s)"
    by (simp only: assms(3))
  then show ?thesis
    by (simp only: read_write [OF assms(1)] read_write [OF assms(2)] sum.inject prod.inject)
qed

lemma read_n_write:
  "list_all ok xs \<Longrightarrow> read_n rd (length xs) (concat (map wr xs) @ r) = Inr (xs, r)"
  by (induction xs arbitrary: r) (simp_all add: read_write)

lemma read_n_write':
  "list_all ok xs \<Longrightarrow> n = length xs \<Longrightarrow> read_n rd n (concat (map wr xs) @ r) = Inr (xs, r)"
  by (simp add: read_n_write)

lemma size_concat:
  "list_all ok xs \<Longrightarrow> length (concat (map wr xs)) = sum_list (map sz xs)"
  by (induction xs) (simp_all add: size_write)

end

interpretation u8: codec "WriteBufAdv_pod 1" "ReadBufAdv_pod 1" "\<lambda>_. 1" "\<lambda>v. v < 2 ^ 8"
  by unfold_locales (simp_all add: ReadBufAdv_pod_write)

interpretation u16: codec "WriteBufAdv_pod 2" "ReadBufAdv_pod 2" "\<lambda>_. 2" "\<lambda>v. v < 2 ^ 16"
  by unfold_locales (simp_all add: ReadBufAdv_pod_write)

interpretation u32: codec "WriteBufAdv_pod 4" "ReadBufAdv_pod 4" "\<lambda>_. 4" "\<lambda>v. v < 2 ^ 32"
  by unfold_locales (simp_all add: ReadBufAdv_pod_write)

interpretation u64: codec "WriteBufAdv_pod 8" "ReadBufAdv_pod 8" "\<lambda>_. 8" "\<lambda>v. v < 2 ^ 64"
  by unfold_locales (simp_all add: ReadBufAdv_pod_write)

interpretation i32: codec WriteBufAdv_i32 ReadBufAdv_i32 "\<lambda>_. 4" "\<lambda>v. - (2 ^ 31) \<le> v \<and> v < 2 ^ 31"
  by unfold_locales (simp_all add: ReadBufAdv_i32_write)

interpretation str: codec WriteBufAdv_string ReadBufAdv_string "\<lambda>s. 4 + length s"
    "\<lambda>s. length s < 2 ^ 31"
  by unfold_locales (simp_all add: ReadBufAdv_string_write length_WriteBufAdv_string)

lemmas codec_reads = u8.read_write u16.read_write u32.read_write u64.read_write
  i32.read_write str.read_write
lemmas codec_sizes = u8.size_write u16.size_write u32.size_write u64.size_write
  i32.size_write str.size_write

subsection \<open>Further plain values\<close>

text \<open>Signed 64-bit values in two's complement, \<^verbatim>\<open>bool\<close> as one byte, and enumerations whose
  enumerators are numbered in the order of declaration: the list of the enumerators gives their
  values.  A stored value that is no enumerator is reported as undefined behaviour: the program
  would go on with a value that no \<^verbatim>\<open>switch\<close> knows.\<close>

definition to_i64 :: "int \<Rightarrow> int" where
  "to_i64 v = (v + 2 ^ 63) mod 2 ^ 64 - 2 ^ 63"

definition WriteBufAdv_i64 :: "int \<Rightarrow> byte list" where
  "WriteBufAdv_i64 v = WriteBufAdv_pod 8 (nat (v mod 2 ^ 64))"

definition ReadBufAdv_i64 :: "byte list \<Rightarrow> (int \<times> byte list) res" where
  "ReadBufAdv_i64 buf = rbind (ReadBufAdv_pod 8 buf) (\<lambda>(n, r). Inr (to_i64 (int n), r))"

definition WriteBufAdv_bool :: "bool \<Rightarrow> byte list" where
  "WriteBufAdv_bool b = WriteBufAdv_pod 1 (if b then 1 else 0)"

definition ReadBufAdv_bool :: "byte list \<Rightarrow> (bool \<times> byte list) res" where
  "ReadBufAdv_bool buf = rbind (ReadBufAdv_pod 1 buf) (\<lambda>(n, r). Inr (n \<noteq> 0, r))"

definition enum_code :: "'a list \<Rightarrow> 'a \<Rightarrow> nat" where
  "enum_code all x = length (takeWhile (\<lambda>y. y \<noteq> x) all)"

definition WriteBufAdv_enum :: "'a list \<Rightarrow> nat \<Rightarrow> 'a \<Rightarrow> byte list" where
  "WriteBufAdv_enum all k x = WriteBufAdv_pod k (enum_code all x)"

definition ReadBufAdv_enum :: "'a list \<Rightarrow> nat \<Rightarrow> byte list \<Rightarrow> ('a \<times> byte list) res" where
  "ReadBufAdv_enum all k buf =
     rbind (ReadBufAdv_pod k buf) (\<lambda>(n, r).
       if n < length all then Inr (all ! n, r)
       else Inl (UndefinedBehaviour ''value without an enumerator''))"

lemma to_i64_id: "- (2 ^ 63) \<le> v \<Longrightarrow> v < 2 ^ 63 \<Longrightarrow> to_i64 v = v"
  by (simp add: to_i64_def)

lemma to_i64_range: "- (2 ^ 63) \<le> to_i64 v" "to_i64 v < 2 ^ 63"
proof -
  have "0 \<le> (v + 2 ^ 63) mod 2 ^ 64" and "(v + 2 ^ 63) mod 2 ^ 64 < 2 ^ 64" by simp_all
  then show "- (2 ^ 63) \<le> to_i64 v" "to_i64 v < 2 ^ 63" unfolding to_i64_def by simp_all
qed

lemma to_i64_mod: "to_i64 v mod 2 ^ 64 = v mod 2 ^ 64"
  by (simp add: to_i64_def mod_diff_left_eq)

lemma ReadBufAdv_i64_write:
  assumes "- (2 ^ 63) \<le> v" and "v < 2 ^ 63"
  shows "ReadBufAdv_i64 (WriteBufAdv_i64 v @ r) = Inr (v, r)"
proof -
  have "nat (v mod 2 ^ 64) < 256 ^ 8" by (simp add: nat_less_iff)
  moreover have "to_i64 (v mod 2 ^ 64) = to_i64 v" by (simp add: to_i64_def mod_add_left_eq)
  ultimately show ?thesis
    using assms by (simp add: ReadBufAdv_i64_def WriteBufAdv_i64_def ReadBufAdv_pod_write to_i64_id)
qed

lemma ReadBufAdv_bool_write: "ReadBufAdv_bool (WriteBufAdv_bool b @ r) = Inr (b, r)"
  by (simp add: ReadBufAdv_bool_def WriteBufAdv_bool_def ReadBufAdv_pod_write)

lemma enum_code_nth: "x \<in> set all \<Longrightarrow> enum_code all x < length all \<and> all ! enum_code all x = x"
  by (induction all) (auto simp: enum_code_def)

lemma ReadBufAdv_enum_write:
  assumes "x \<in> set all" "length all \<le> 256 ^ k"
  shows "ReadBufAdv_enum all k (WriteBufAdv_enum all k x @ r) = Inr (x, r)"
  using enum_code_nth [OF assms(1)] assms(2)
  by (simp add: ReadBufAdv_enum_def WriteBufAdv_enum_def ReadBufAdv_pod_write)

lemma length_WriteBufAdv_i64 [simp]: "length (WriteBufAdv_i64 v) = 8"
  by (simp add: WriteBufAdv_i64_def)

lemma length_WriteBufAdv_bool [simp]: "length (WriteBufAdv_bool b) = 1"
  by (simp add: WriteBufAdv_bool_def)

lemma length_WriteBufAdv_enum [simp]: "length (WriteBufAdv_enum all k x) = k"
  by (simp add: WriteBufAdv_enum_def)

interpretation i64: codec WriteBufAdv_i64 ReadBufAdv_i64 "\<lambda>_. 8" "\<lambda>v. - (2 ^ 63) \<le> v \<and> v < 2 ^ 63"
  by unfold_locales (simp_all add: ReadBufAdv_i64_write)

subsection \<open>Encoders that can fail\<close>

text \<open>
  Compound values are written by a sequence of writers, some of which raise.  \<open>wseq\<close> is such a
  sequence and \<open>size_sum\<close> the sum of announced sizes, which the code accumulates in an \<^verbatim>\<open>int32_t\<close>.
  A bounded reader also gets the number of bytes it may read, \<^verbatim>\<open>maxbytes\<close>; \<open>bytes_left\<close> is what is
  left of it, \<^verbatim>\<open>ptr_end - ptr\<close>.
\<close>

fun wseq :: "byte list res list \<Rightarrow> byte list res" where
  "wseq [] = Inr []"
| "wseq (w # ws) = rbind w (\<lambda>b. rbind (wseq ws) (\<lambda>bs. Inr (b @ bs)))"

fun size_sum :: "int res list \<Rightarrow> int res" where
  "size_sum [] = Inr 0"
| "size_sum (s # ss) = rbind s (\<lambda>a. rbind (size_sum ss) (\<lambda>b. Inr (to_i32 (a + b))))"

definition bytes_left :: "int \<Rightarrow> byte list \<Rightarrow> byte list \<Rightarrow> int" where
  "bytes_left maxbytes buf rest = maxbytes - (int (length buf) - int (length rest))"

lemma to_i32_add_left [simp]: "to_i32 (to_i32 a + b) = to_i32 (a + b)"
  by (simp add: to_i32_def mod_diff_left_eq mod_add_left_eq add.assoc add.commute [of b])

lemma to_i32_add_right [simp]: "to_i32 (a + to_i32 b) = to_i32 (a + b)"
  using to_i32_add_left [of b a] by (simp add: add.commute)

lemma to_i32_idem [simp]: "to_i32 (to_i32 a) = to_i32 a"
  using to_i32_add_left [of a 0] by simp

text \<open>\<open>encodes w s rd x\<close>: the writer succeeds, the announced size is the number of bytes modulo the
  width of \<^verbatim>\<open>int32_t\<close>, and every reader with enough bytes to go on reads \<open>x\<close> back.\<close>

definition encodes ::
    "byte list res \<Rightarrow> int res \<Rightarrow> (int \<Rightarrow> byte list \<Rightarrow> ('a \<times> byte list) res) \<Rightarrow> 'a \<Rightarrow> bool" where
  "encodes w s rd x \<longleftrightarrow>
     (\<exists>b. w = Inr b \<and> s = Inr (to_i32 (int (length b))) \<and>
          (\<forall>m r. int (length b) \<le> m \<longrightarrow> rd m (b @ r) = Inr (x, r)))"

lemma encodesI:
  "w = Inr b \<Longrightarrow> s = Inr (to_i32 (int (length b))) \<Longrightarrow>
     (\<And>m r. int (length b) \<le> m \<Longrightarrow> rd m (b @ r) = Inr (x, r)) \<Longrightarrow> encodes w s rd x"
  by (auto simp: encodes_def)

lemma encodesE:
  assumes "encodes w s rd x"
  obtains b where "w = Inr b" "s = Inr (to_i32 (int (length b)))"
    "\<forall>m r. int (length b) \<le> m \<longrightarrow> rd m (b @ r) = Inr (x, r)"
  using assms by (auto simp: encodes_def)

subsection \<open>Encoders that store part of a value\<close>

text \<open>
  Some writers leave out fields that the reader sets anew.  The law then names what is read back,
  \<open>norm x\<close>.  \<open>write_counted\<close> and \<open>read_counted_i32\<close> are the loops over a vector behind an \<^verbatim>\<open>int32_t\<close>
  count; \<open>read_counted_vec\<close> first makes a vector of that size, which raises for a negative count.
\<close>

definition write_counted :: "('a \<Rightarrow> byte list res) \<Rightarrow> 'a list \<Rightarrow> byte list res" where
  "write_counted wr xs =
     rbind (wseq (map wr xs)) (\<lambda>b. Inr (WriteBufAdv_i32 (to_i32 (int (length xs))) @ b))"

definition size_counted :: "('a \<Rightarrow> int res) \<Rightarrow> 'a list \<Rightarrow> int res" where
  "size_counted sz xs = rbind (size_sum (map sz xs)) (\<lambda>n. Inr (to_i32 (4 + n)))"

definition read_counted_i32 ::
    "(byte list \<Rightarrow> ('a \<times> byte list) res) \<Rightarrow> byte list \<Rightarrow> ('a list \<times> byte list) res" where
  "read_counted_i32 rd buf = rbind (ReadBufAdv_i32 buf) (\<lambda>(n, b). read_n rd (nat n) b)"

definition read_counted_vec ::
    "(byte list \<Rightarrow> ('a \<times> byte list) res) \<Rightarrow> byte list \<Rightarrow> ('a list \<times> byte list) res" where
  "read_counted_vec rd buf =
     rbind (ReadBufAdv_i32 buf) (\<lambda>(n, b).
       if n < 0 then Inl (StdException ''length_error'') else read_n rd (nat n) b)"

locale normal_codec =
  fixes wr :: "'a \<Rightarrow> byte list res"
    and sz :: "'a \<Rightarrow> int res"
    and rd :: "int \<Rightarrow> byte list \<Rightarrow> ('a \<times> byte list) res"
    and ok :: "'a \<Rightarrow> bool"
    and norm :: "'a \<Rightarrow> 'a"
  assumes stored: "ok x \<Longrightarrow> encodes (wr x) (sz x) rd (norm x)"
begin

lemma stored_list:
  "list_all ok xs \<Longrightarrow>
     encodes (wseq (map wr xs)) (size_sum (map sz xs)) (\<lambda>m. read_n (rd m) (length xs)) (map norm xs)"
proof (induction xs)
  case Nil
  show ?case by (intro encodesI [of _ "[]"]) (simp_all add: to_i32_def)
next
  case (Cons x xs)
  then have "list_all ok xs" and "ok x" by simp_all
  obtain b where b: "wr x = Inr b" "sz x = Inr (to_i32 (int (length b)))"
    "\<forall>m r. int (length b) \<le> m \<longrightarrow> rd m (b @ r) = Inr (norm x, r)"
    by (rule encodesE [OF stored [OF \<open>ok x\<close>]])
  obtain bs where bs: "wseq (map wr xs) = Inr bs" "size_sum (map sz xs) = Inr (to_i32 (int (length bs)))"
    "\<forall>m r. int (length bs) \<le> m \<longrightarrow> read_n (rd m) (length xs) (bs @ r) = Inr (map norm xs, r)"
    by (rule encodesE [OF Cons.IH [OF \<open>list_all ok xs\<close>]])
  show ?case
    by (rule encodesI [of _ "b @ bs"]) (use b bs in simp_all)
qed

lemma stored_counted:
  assumes "list_all ok xs" "length xs < 2 ^ 31"
  obtains b where "write_counted wr xs = Inr b" "size_counted sz xs = Inr (to_i32 (int (length b)))"
    "\<forall>m r. int (length b) \<le> m \<longrightarrow> read_counted_i32 (rd m) (b @ r) = Inr (map norm xs, r)"
    "\<forall>m r. int (length b) \<le> m \<longrightarrow> read_counted_vec (rd m) (b @ r) = Inr (map norm xs, r)"
proof -
  obtain b where b: "wseq (map wr xs) = Inr b" "size_sum (map sz xs) = Inr (to_i32 (int (length b)))"
    "\<forall>m r. int (length b) \<le> m \<longrightarrow> read_n (rd m) (length xs) (b @ r) = Inr (map norm xs, r)"
    by (rule encodesE [OF stored_list [OF assms(1)]])
  have "to_i32 (int (length xs)) = int (length xs)" using assms(2) by (simp add: to_i32_id)
  then show thesis
    by (intro that [of "WriteBufAdv_i32 (int (length xs)) @ b"])
       (use b assms(2) in \<open>simp_all add: write_counted_def size_counted_def read_counted_i32_def read_counted_vec_def
          codec_reads\<close>)
qed

end

text \<open>A codec that stores all of the value.\<close>

locale bounded_codec = normal_codec wr sz rd ok "\<lambda>x. x"
  for wr :: "'a \<Rightarrow> byte list res"
    and sz :: "'a \<Rightarrow> int res"
    and rd :: "int \<Rightarrow> byte list \<Rightarrow> ('a \<times> byte list) res"
    and ok :: "'a \<Rightarrow> bool"
begin

lemmas encoded = stored

lemma encoded_list:
  "list_all ok xs \<Longrightarrow>
     encodes (wseq (map wr xs)) (size_sum (map sz xs)) (\<lambda>m. read_n (rd m) (length xs)) xs"
  using stored_list [of xs] by simp

lemma encoded_prefix_free:
  assumes "ok x" "ok y" "wr x = Inr b" "wr y = Inr c" "b @ r = c @ s"
  shows "x = y \<and> r = s"
proof -
  let ?m = "int (length b + length c)"
  have "rd ?m (b @ r) = Inr (x, r)"
    by (rule encodesE [OF encoded [OF assms(1)]]) (use assms(3) in simp)
  moreover have "rd ?m (c @ s) = Inr (y, s)"
    by (rule encodesE [OF encoded [OF assms(2)]]) (use assms(4) in simp)
  ultimately show ?thesis using assms(5) by simp
qed

end

text \<open>Every total codec is a bounded one.\<close>

sublocale codec \<subseteq> total: bounded_codec "\<lambda>x. Inr (wr x)" "\<lambda>x. Inr (to_i32 (int (sz x)))" "\<lambda>_. rd" ok
  by unfold_locales (auto intro!: encodesI simp: read_write size_write)

lemma size_counted_total:
  assumes "\<And>x. x \<in> set xs \<Longrightarrow> szr x = Inr (int (sz x))"
  shows "size_counted szr xs = Inr (to_i32 (4 + int (sum_list (map sz xs))))"
proof -
  have "size_sum (map szr xs) = Inr (to_i32 (int (sum_list (map sz xs))))"
    using assms by (induction xs) (simp_all add: to_i32_def [of 0])
  then show ?thesis by (simp add: size_counted_def)
qed

context codec
begin

lemma counted:
  assumes "list_all ok xs" "length xs < 2 ^ 31"
  obtains b where "write_counted (\<lambda>x. Inr (wr x)) xs = Inr b" "length b = 4 + sum_list (map sz xs)"
    "\<forall>r. read_counted_i32 rd (b @ r) = Inr (xs, r)" "\<forall>r. read_counted_vec rd (b @ r) = Inr (xs, r)"
proof -
  have n: "to_i32 (int (length xs)) = int (length xs)" using assms(2) by (simp add: to_i32_id)
  have w: "wseq (map (\<lambda>x. Inr (wr x)) xs) = Inr (concat (map wr xs))" by (induction xs) simp_all
  show thesis
    by (rule that [of "WriteBufAdv_i32 (int (length xs)) @ concat (map wr xs)"])
       (use assms in \<open>simp_all add: write_counted_def n w size_concat read_counted_i32_def read_counted_vec_def codec_reads
          read_n_write\<close>)
qed

end

end
