(* ===== verification/Obj_Status.thy ===== *)
theory Obj_Status
  imports Serialize
begin

text \<open>
  \<^verbatim>\<open>src/src/storage/persistence/obj_status.cpp\<close>: the statistics of one object of the object
  store, with the set of byte ranges whose files have been deleted.  \<^verbatim>\<open>Set<Range>\<close> is a
  \<^verbatim>\<open>std::set\<close> ordered by \<^verbatim>\<open>start_\<close>; it is modelled by the list of its elements in order.
  The range bookkeeping of \<^verbatim>\<open>PersistenceManager::CleanupNoLock\<close> works on that set only and is
  modelled and verified here as \<open>delete_range\<close>, against the set of byte positions it covers.
\<close>

subsection \<open>Ranges\<close>

record range =
  r_start :: nat
  r_end :: nat

definition Cover :: "range \<Rightarrow> range \<Rightarrow> bool" where
  "Cover lhs rhs \<longleftrightarrow> r_start lhs \<le> r_start rhs \<and> r_end rhs \<le> r_end lhs"

definition Intersect :: "range \<Rightarrow> range \<Rightarrow> bool" where
  "Intersect lhs rhs \<longleftrightarrow> r_start lhs < r_end rhs \<and> r_start rhs < r_end lhs"

text \<open>The \<^verbatim>\<open>std::set\<close> operations the code uses, on the in-order list of the elements.\<close>

definition set_lower_bound :: "range list \<Rightarrow> range \<Rightarrow> range list \<times> range list" where
  "set_lower_bound rs r =
     (takeWhile (\<lambda>x. r_start x < r_start r) rs, dropWhile (\<lambda>x. r_start x < r_start r) rs)"

fun set_insert :: "range \<Rightarrow> range list \<Rightarrow> range list \<times> bool" where
  "set_insert r [] = ([r], True)"
| "set_insert r (x # xs) =
     (if r_start r < r_start x then (r # x # xs, True)
      else if r_start x < r_start r then (let (ys, ok) = set_insert r xs in (x # ys, ok))
      else (x # xs, False))"

subsection \<open>Object statistics\<close>

datatype ObjCached = kNotCached | kDownloading | kCached

record ObjStat =
  obj_size :: nat
  parts :: nat
  ref_count :: nat
  deleted_ranges :: "range list"
  cached :: ObjCached

definition ObjStat_default :: ObjStat where
  "ObjStat_default =
     \<lparr>obj_size = 0, parts = 0, ref_count = 0, deleted_ranges = [], cached = kCached\<rparr>"

definition ObjStat_new :: "nat \<Rightarrow> nat \<Rightarrow> nat \<Rightarrow> ObjStat" where
  "ObjStat_new sz n rc =
     \<lparr>obj_size = sz, parts = n, ref_count = rc, deleted_ranges = [], cached = kCached\<rparr>"

definition ObjStat_GetSizeInBytes :: "ObjStat \<Rightarrow> nat" where
  "ObjStat_GetSizeInBytes st = (8 + 8 + 8) + (8 + 8) * length (deleted_ranges st)"

definition Range_WriteBufAdv :: "range \<Rightarrow> byte list" where
  "Range_WriteBufAdv r = WriteBufAdv_pod 8 (r_start r) @ WriteBufAdv_pod 8 (r_end r)"

definition Range_ReadBufAdv :: "byte list \<Rightarrow> (range \<times> byte list) res" where
  "Range_ReadBufAdv buf =
     rbind (ReadBufAdv_pod 8 buf) (\<lambda>(s, b1).
     rbind (ReadBufAdv_pod 8 b1) (\<lambda>(e, b2). Inr (\<lparr>r_start = s, r_end = e\<rparr>, b2)))"

definition ObjStat_WriteBufAdv :: "ObjStat \<Rightarrow> byte list" where
  "ObjStat_WriteBufAdv st =
     WriteBufAdv_pod 8 (obj_size st) @ WriteBufAdv_pod 8 (parts st) @
     WriteBufAdv_pod 8 (length (deleted_ranges st)) @
     concat (map Range_WriteBufAdv (deleted_ranges st))"

text \<open>Every range that is read is emplaced into the set, which drops a duplicate start.\<close>

definition ObjStat_ReadBufAdv :: "byte list \<Rightarrow> (ObjStat \<times> byte list) res" where
  "ObjStat_ReadBufAdv buf =
     rbind (ReadBufAdv_pod 8 buf) (\<lambda>(sz, b1).
     rbind (ReadBufAdv_pod 8 b1) (\<lambda>(n, b2).
     rbind (ReadBufAdv_pod 8 b2) (\<lambda>(len, b3).
     rbind (read_n Range_ReadBufAdv len b3) (\<lambda>(rs, b4).
       Inr (\<lparr>obj_size = sz, parts = n, ref_count = 0,
             deleted_ranges = fold (\<lambda>r acc. fst (set_insert r acc)) rs [],
             cached = kCached\<rparr>, b4)))))"

text \<open>\<^verbatim>\<open>CheckValid\<close> only logs; the model returns what it reports.\<close>

datatype range_report = RangesIntersect range range | FullyDeleted

fun check_adjacent :: "range list \<Rightarrow> range_report list" where
  "check_adjacent (it1 # it2 # rs) =
     (if r_start it2 \<le> r_end it1 then [RangesIntersect it1 it2] else []) @ check_adjacent (it2 # rs)"
| "check_adjacent _ = []"

definition ObjStat_CheckValid :: "ObjStat \<Rightarrow> nat \<Rightarrow> range_report list" where
  "ObjStat_CheckValid st current_object_size =
     (if length (deleted_ranges st) \<ge> 2 then check_adjacent (deleted_ranges st)
      else case deleted_ranges st of
        [it1] \<Rightarrow> (if r_start it1 = 0 \<and> r_end it1 = current_object_size then [FullyDeleted] else [])
      | _ \<Rightarrow> [])"

subsection \<open>Deleting a range of an object\<close>

text \<open>
  The range part of \<^verbatim>\<open>CleanupNoLock\<close>.  \<open>lo\<close> and \<open>hi\<close> are the elements before and from the
  iterator \<^verbatim>\<open>inst_it\<close>.  The result is the set after the call and, unless the function returned
  early because the range was deleted before, the merged range that was inserted.
\<close>

definition merge_next :: "range list \<Rightarrow> range list \<Rightarrow> range \<Rightarrow> range \<Rightarrow> (range list \<times> range option) res" where
  "merge_next lo hi orig rng =
     (case hi of
        nxt # hi' \<Rightarrow>
          if Cover nxt orig then Inr (lo @ hi, None)
          else if Intersect nxt orig
          then Inl (UnrecoverableError ''range to delete intersects with next one'')
          else let (hi2, rng2) = (if r_end orig = r_start nxt then (hi', rng\<lparr>r_end := r_end nxt\<rparr>)
                                  else (hi, rng));
                   (rs, inserted) = set_insert rng2 (lo @ hi2)
               in if inserted then Inr (rs, Some rng2)
                  else Inl (UnrecoverableError ''Failed to delete ObjAddr range'')
      | [] \<Rightarrow>
          let (rs, inserted) = set_insert rng (lo @ hi)
          in if inserted then Inr (rs, Some rng)
             else Inl (UnrecoverableError ''Failed to delete ObjAddr range''))"

definition delete_range :: "range list \<Rightarrow> range \<Rightarrow> (range list \<times> range option) res" where
  "delete_range rs orig =
     (let (lo, hi) = set_lower_bound rs orig
      in if lo \<noteq> [] then
           let prv = last lo
           in if Cover prv orig then Inr (rs, None)
              else if Intersect prv orig
              then Inl (UnrecoverableError ''range to delete intersects with prev one'')
              else if r_start orig = r_end prv
              then merge_next (butlast lo) hi orig (orig\<lparr>r_start := r_start prv\<rparr>)
              else merge_next lo hi orig orig
         else merge_next lo hi orig orig)"

subsection \<open>What the set of ranges covers\<close>

definition span :: "range \<Rightarrow> nat set" where
  "span r = {r_start r..<r_end r}"

definition covered :: "range list \<Rightarrow> nat set" where
  "covered rs = (\<Union>r \<in> set rs. span r)"

definition ranges_ok :: "range list \<Rightarrow> bool" where
  "ranges_ok rs \<longleftrightarrow>
     sorted_wrt (\<lambda>a b. r_end a < r_start b) rs \<and> (\<forall>r \<in> set rs. r_start r < r_end r)"

lemma ranges_ok_Nil [simp]: "ranges_ok []"
  by (simp add: ranges_ok_def)

lemma ranges_ok_append:
  "ranges_ok (xs @ ys) \<longleftrightarrow>
     ranges_ok xs \<and> ranges_ok ys \<and> (\<forall>x \<in> set xs. \<forall>y \<in> set ys. r_end x < r_start y)"
  by (auto simp: ranges_ok_def sorted_wrt_append)

lemma ranges_ok_Cons:
  "ranges_ok (x # xs) \<longleftrightarrow>
     r_start x < r_end x \<and> (\<forall>y \<in> set xs. r_end x < r_start y) \<and> ranges_ok xs"
  by (auto simp: ranges_ok_def)

lemma covered_Nil [simp]: "covered [] = {}"
  by (simp add: covered_def)

lemma covered_Cons [simp]: "covered (x # xs) = span x \<union> covered xs"
  by (simp add: covered_def)

lemma covered_append [simp]: "covered (xs @ ys) = covered xs \<union> covered ys"
  by (auto simp: covered_def)

lemma ranges_ok_starts: "ranges_ok rs \<Longrightarrow> sorted_wrt (\<lambda>a b. r_start a < r_start b) rs"
  by (induction rs) (force simp: ranges_ok_Cons)+

text \<open>Where the elements before a point start below it and the ones after start above it.\<close>

lemma set_insert_middle:
  assumes "\<forall>x \<in> set lo. r_start x < r_start r" and "\<forall>x \<in> set hi. r_start r < r_start x"
  shows "set_insert r (lo @ hi) = (lo @ r # hi, True)"
  using assms
proof (induction lo)
  case Nil
  then show ?case by (cases hi) auto
qed auto

lemma fold_set_insert:
  assumes "sorted_wrt (\<lambda>a b. r_start a < r_start b) (acc @ rs)"
  shows "fold (\<lambda>r acc. fst (set_insert r acc)) rs acc = acc @ rs"
  using assms
proof (induction rs arbitrary: acc)
  case (Cons r rs)
  have "set_insert r (acc @ []) = (acc @ [r], True)"
    using Cons.prems by (intro set_insert_middle) (auto simp: sorted_wrt_append)
  then show ?case using Cons by simp
qed simp

lemma ranges_ok_separated:
  assumes "ranges_ok rs" "a \<in> set rs" "b \<in> set rs"
  shows "a = b \<or> r_end a < r_start b \<or> r_end b < r_start a"
  using assms by (induction rs) (auto simp: ranges_ok_Cons)

text \<open>The ranges are never adjacent, so an interval inside their union is inside one of them.\<close>

lemma covered_interval:
  assumes ok: "ranges_ok rs" and ne: "a < b" and sub: "{a..<b} \<subseteq> covered rs"
  shows "\<exists>r \<in> set rs. r_start r \<le> a \<and> b \<le> r_end r"
proof -
  from ne sub obtain r where r: "r \<in> set rs" "r_start r \<le> a" "a < r_end r"
    by (fastforce simp: covered_def span_def)
  have "b \<le> r_end r"
  proof (rule ccontr)
    assume "\<not> b \<le> r_end r"
    then have "r_end r \<in> covered rs" using sub r by auto
    then obtain q where q: "q \<in> set rs" "r_start q \<le> r_end r" "r_end r < r_end q"
      by (auto simp: covered_def span_def)
    from ranges_ok_separated [OF ok r(1) q(1)] q r show False
      by (auto)
  qed
  with r show ?thesis by blast
qed

lemma set_lower_bound_split:
  assumes "ranges_ok rs" and "set_lower_bound rs r = (lo, hi)"
  shows "rs = lo @ hi" and "\<forall>x \<in> set lo. r_start x < r_start r"
    and "\<forall>x \<in> set hi. r_start r \<le> r_start x"
proof -
  from assms(2) have lo: "lo = takeWhile (\<lambda>x. r_start x < r_start r) rs"
    and hi: "hi = dropWhile (\<lambda>x. r_start x < r_start r) rs"
    by (auto simp: set_lower_bound_def)
  show app: "rs = lo @ hi" by (simp add: lo hi)
  show "\<forall>x \<in> set lo. r_start x < r_start r" by (auto simp: lo dest: set_takeWhileD)
  show "\<forall>x \<in> set hi. r_start r \<le> r_start x"
  proof (cases hi)
    case (Cons y ys)
    then have "r_start r \<le> r_start y"
      using hi by (auto simp: dropWhile_eq_Cons_conv)
    moreover have "\<forall>x \<in> set ys. r_start y < r_start x"
      using ranges_ok_starts [OF assms(1)] app Cons by (auto simp: sorted_wrt_append)
    ultimately show ?thesis using Cons by force
  qed simp
qed

lemma merge_next_new:
  assumes ok: "ranges_ok lo" "ranges_ok hi"
    and rng: "r_start rng \<le> r_start orig" "r_start orig < r_end orig" "r_end rng = r_end orig"
    and lo: "\<forall>x \<in> set lo. r_end x < r_start rng"
    and hi: "\<forall>x \<in> set hi. r_end orig \<le> r_start x"
  obtains rs' rg where "merge_next lo hi orig rng = Inr (rs', Some rg)" "ranges_ok rs'"
    "covered rs' = covered lo \<union> span rng \<union> covered hi" "rg \<in> set rs'"
    "r_start rg = r_start rng" "r_end orig \<le> r_end rg"
proof -
  have starts: "\<forall>x \<in> set lo. r_start x < r_start rng"
    using ok(1) lo by (force simp: ranges_ok_def)
  show thesis
  proof (cases hi)
    case Nil
    have "set_insert rng (lo @ []) = (lo @ [rng], True)"
      using starts by (intro set_insert_middle) auto
    with Nil that [of "lo @ [rng]" rng] ok(1) rng lo show thesis
      by (auto simp: merge_next_def ranges_ok_append ranges_ok_Cons)
  next
    case (Cons nxt hi')
    have nxt: "r_end orig \<le> r_start nxt" "r_start nxt < r_end nxt" "ranges_ok hi'"
      "\<forall>x \<in> set hi'. r_end nxt < r_start x"
      using hi ok(2) Cons by (auto simp: ranges_ok_Cons)
    have nc: "\<not> Cover nxt orig" "\<not> Intersect nxt orig"
      using nxt rng by (auto simp: Cover_def Intersect_def)
    show thesis
    proof (cases "r_end orig = r_start nxt")
      case True
      let ?rg = "rng\<lparr>r_end := r_end nxt\<rparr>"
      have "set_insert ?rg (lo @ hi') = (lo @ ?rg # hi', True)"
        using starts nxt rng by (intro set_insert_middle) force+
      then have "merge_next lo hi orig rng = Inr (lo @ ?rg # hi', Some ?rg)"
        using True nc Cons by (simp add: merge_next_def)
      moreover have "ranges_ok (lo @ ?rg # hi')"
        using ok(1) lo nxt rng by (force simp: ranges_ok_append ranges_ok_Cons)
      moreover have "covered (lo @ ?rg # hi') = covered lo \<union> span rng \<union> covered hi"
        using True rng nxt Cons by (auto simp: span_def)
      ultimately show thesis using that nxt rng by simp
    next
      case False
      have "set_insert rng (lo @ hi) = (lo @ rng # hi, True)"
        using starts nxt rng Cons by (intro set_insert_middle) force+
      then have "merge_next lo hi orig rng = Inr (lo @ rng # hi, Some rng)"
        using False nc Cons by (simp add: merge_next_def)
      moreover have "ranges_ok (lo @ rng # hi)"
        using False ok lo nxt rng Cons by (force simp: ranges_ok_append ranges_ok_Cons)
      ultimately show thesis using that rng by auto
    qed
  qed
qed

text \<open>The three outcomes, told apart by the positions the set covers.\<close>

lemma delete_range_new:
  assumes ok: "ranges_ok rs" and ne: "r_start orig < r_end orig"
    and dis: "span orig \<inter> covered rs = {}"
  obtains rs' rg where "delete_range rs orig = Inr (rs', Some rg)" "ranges_ok rs'"
    "covered rs' = covered rs \<union> span orig" "rg \<in> set rs'"
    "r_start rg \<le> r_start orig" "r_end orig \<le> r_end rg"
proof -
  obtain lo hi where lb: "set_lower_bound rs orig = (lo, hi)" by (cases "set_lower_bound rs orig")
  note split = set_lower_bound_split [OF ok lb]
  have apart: "r_end x \<le> r_start orig \<or> r_end orig \<le> r_start x" if "x \<in> set rs" for x
  proof (rule ccontr)
    assume "\<not> ?thesis"
    moreover have "r_start x < r_end x" using ok that by (auto simp: ranges_ok_def)
    ultimately have "max (r_start x) (r_start orig) \<in> span orig \<inter> span x"
      using ne by (auto simp: span_def)
    with dis that show False by (auto simp: covered_def)
  qed
  have hi: "\<forall>x \<in> set hi. r_end orig \<le> r_start x"
  proof
    fix x assume "x \<in> set hi"
    then have "x \<in> set rs" "r_start orig \<le> r_start x" "r_start x < r_end x"
      using split ok by (auto simp: ranges_ok_def)
    then show "r_end orig \<le> r_start x" using apart [of x] by linarith
  qed
  have lo: "\<forall>x \<in> set lo. r_end x \<le> r_start orig"
  proof
    fix x assume "x \<in> set lo"
    then have "x \<in> set rs" "r_start x < r_start orig" using split by auto
    then show "r_end x \<le> r_start orig" using apart [of x] ne by linarith
  qed
  have ok2: "ranges_ok lo" "ranges_ok hi" using ok split(1) by (auto simp: ranges_ok_append)
  show thesis
  proof (cases "lo \<noteq> [] \<and> r_end (last lo) = r_start orig")
    case True
    then obtain lo' prv where lo': "lo = lo' @ [prv]" "r_end prv = r_start orig"
      by (cases lo rule: rev_cases) auto
    have prv: "r_start prv < r_end prv" "ranges_ok lo'" "\<forall>x \<in> set lo'. r_end x < r_start prv"
      using ok2(1) lo'(1) by (auto simp: ranges_ok_append ranges_ok_Cons)
    let ?rng = "orig\<lparr>r_start := r_start prv\<rparr>"
    obtain rs' rg where m: "merge_next lo' hi orig ?rng = Inr (rs', Some rg)" "ranges_ok rs'"
      "covered rs' = covered lo' \<union> span ?rng \<union> covered hi" "rg \<in> set rs'"
      "r_start rg = r_start ?rng" "r_end orig \<le> r_end rg"
      by (rule merge_next_new [of lo' hi ?rng orig]) (use prv ok2 lo' ne hi in auto)
    have "\<not> Cover prv orig" "\<not> Intersect prv orig"
      using lo'(2) ne by (auto simp: Cover_def Intersect_def)
    then have dr: "delete_range rs orig = Inr (rs', Some rg)"
      using lb lo' m(1) by (simp add: delete_range_def)
    have "span ?rng = span prv \<union> span orig"
      using lo'(2) prv(1) ne by (auto simp: span_def)
    then have cov: "covered rs' = covered rs \<union> span orig"
      unfolding m(3) split(1) lo'(1) by (simp add: Un_ac)
    show thesis
      by (rule that [OF dr m(2) cov m(4)]) (use m(5,6) prv(1) lo'(2) in simp_all)
  next
    case False
    then have strict: "\<forall>x \<in> set lo. r_end x < r_start orig"
    proof (cases lo rule: rev_cases)
      case (snoc lo' prv)
      with False lo have "r_end prv < r_start orig" by auto
      moreover have "\<forall>x \<in> set lo'. r_end x < r_start prv" "r_start prv < r_end prv"
        using ok2(1) snoc by (auto simp: ranges_ok_append ranges_ok_Cons)
      ultimately show ?thesis using snoc by force
    qed simp
    obtain rs' rg where m: "merge_next lo hi orig orig = Inr (rs', Some rg)" "ranges_ok rs'"
      "covered rs' = covered lo \<union> span orig \<union> covered hi" "rg \<in> set rs'"
      "r_start rg = r_start orig" "r_end orig \<le> r_end rg"
      by (rule merge_next_new [of lo hi orig orig]) (use ok2 ne strict hi in auto)
    have dr: "delete_range rs orig = Inr (rs', Some rg)"
    proof (cases "lo = []")
      case True
      then show ?thesis using lb m(1) by (simp add: delete_range_def)
    next
      case ne_lo: False
      then have "r_end (last lo) < r_start orig" using strict by simp
      then have "\<not> Cover (last lo) orig" "\<not> Intersect (last lo) orig"
        using ne by (auto simp: Cover_def Intersect_def)
      then show ?thesis using lb m(1) ne_lo False by (simp add: delete_range_def)
    qed
    have cov: "covered rs' = covered rs \<union> span orig"
      unfolding m(3) split(1) by (simp add: Un_ac)
    show thesis
      by (rule that [OF dr m(2) cov m(4)]) (use m(5,6) in simp_all)
  qed
qed

lemma not_covered:
  assumes ok: "ranges_ok rs" and ne: "r_start orig < r_end orig"
    and r: "r \<in> set rs" "Intersect r orig" "\<not> Cover r orig"
  shows "\<not> span orig \<subseteq> covered rs"
proof
  assume "span orig \<subseteq> covered rs"
  then obtain q where q: "q \<in> set rs" "r_start q \<le> r_start orig" "r_end orig \<le> r_end q"
    using covered_interval [OF ok ne] by (auto simp: span_def)
  show False
    using ranges_ok_separated [OF ok r(1) q(1)] r(2,3) q(2,3) by (auto simp: Cover_def Intersect_def)
qed

lemma delete_range_hit_prev:
  assumes ok: "ranges_ok rs" and lb: "set_lower_bound rs orig = (lo, hi)"
    and r: "r \<in> set lo" "Intersect r orig"
  shows "delete_range rs orig =
     (if Cover r orig then Inr (rs, None)
      else Inl (UnrecoverableError ''range to delete intersects with prev one''))"
proof -
  note split = set_lower_bound_split [OF ok lb]
  from r(1) obtain lo' prv where lo': "lo = lo' @ [prv]" by (cases lo rule: rev_cases) auto
  have "r = prv"
  proof (rule ccontr)
    assume "r \<noteq> prv"
    then have "r_end r < r_start prv" using r(1) lo' ok split(1) by (auto simp: ranges_ok_append)
    moreover have "r_start prv < r_start orig" using split(2) lo' by simp
    ultimately show False using r(2) by (simp add: Intersect_def)
  qed
  then show ?thesis using lb lo' r(2) by (simp add: delete_range_def)
qed

lemma delete_range_hit_next:
  assumes ok: "ranges_ok rs" and lb: "set_lower_bound rs orig = (lo, hi)"
    and ne: "r_start orig < r_end orig"
    and lo: "\<forall>x \<in> set lo. \<not> Intersect x orig"
    and r: "r \<in> set hi" "Intersect r orig"
  shows "Intersect (hd hi) orig" and "delete_range rs orig =
     (if Cover (hd hi) orig then Inr (rs, None)
      else Inl (UnrecoverableError ''range to delete intersects with next one''))"
proof -
  note split = set_lower_bound_split [OF ok lb]
  from r(1) obtain nxt hi' where hi': "hi = nxt # hi'" by (cases hi) auto
  have nxt: "r_start orig \<le> r_start nxt" "r_start nxt < r_end nxt"
    using split hi' ok by (auto simp: ranges_ok_append ranges_ok_Cons)
  have "r_start nxt \<le> r_start r"
    using r(1) hi' ok split(1) by (force simp: ranges_ok_append ranges_ok_Cons)
  then show hit: "Intersect (hd hi) orig" using r(2) nxt hi' by (auto simp: Intersect_def)
  show "delete_range rs orig =
     (if Cover (hd hi) orig then Inr (rs, None)
      else Inl (UnrecoverableError ''range to delete intersects with next one''))"
  proof (cases lo rule: rev_cases)
    case Nil
    then show ?thesis using lb hi' hit split(1) by (simp add: delete_range_def merge_next_def)
  next
    case (snoc lo' prv)
    have prv: "r_end prv < r_start nxt" "\<not> Intersect prv orig" "r_start prv < r_start orig"
      using ok split snoc hi' lo by (auto simp: ranges_ok_append ranges_ok_Cons)
    then have "\<not> Cover prv orig" using ne by (auto simp: Intersect_def Cover_def)
    moreover have "\<not> Cover nxt orig" if "r_start orig = r_end prv"
      using that prv(1) nxt by (simp add: Cover_def)
    ultimately show ?thesis
      using lb hi' hit split(1) snoc prv by (auto simp: delete_range_def merge_next_def)
  qed
qed

lemma delete_range_overlap:
  assumes ok: "ranges_ok rs" and ne: "r_start orig < r_end orig"
    and hit: "span orig \<inter> covered rs \<noteq> {}"
  shows "if span orig \<subseteq> covered rs then delete_range rs orig = Inr (rs, None)
         else \<exists>m. delete_range rs orig = Inl (UnrecoverableError m)"
proof -
  obtain lo hi where lb: "set_lower_bound rs orig = (lo, hi)" by (cases "set_lower_bound rs orig")
  note split = set_lower_bound_split [OF ok lb]
  from hit obtain r where r: "r \<in> set rs" "Intersect r orig"
    by (fastforce simp: covered_def span_def Intersect_def)
  have cov: "span orig \<subseteq> covered rs" if "x \<in> set rs" "Cover x orig" for x
  proof -
    have "span orig \<subseteq> span x" using that(2) by (auto simp: span_def Cover_def)
    also have "\<dots> \<subseteq> covered rs" using that(1) by (auto simp: covered_def)
    finally show ?thesis .
  qed
  show ?thesis
  proof (cases "\<exists>x \<in> set lo. Intersect x orig")
    case True
    then obtain x where x: "x \<in> set lo" "Intersect x orig" by blast
    have "x \<in> set rs" using x(1) split(1) by simp
    then show ?thesis
      using delete_range_hit_prev [OF ok lb x] cov [of x] not_covered [OF ok ne _ x(2)] by auto
  next
    case False
    with r split(1) have h: "r \<in> set hi" by auto
    have lo: "\<forall>x \<in> set lo. \<not> Intersect x orig" using False by blast
    note nxt = delete_range_hit_next [OF ok lb ne lo h r(2)]
    have "hd hi \<in> set rs" using h split(1) by (cases hi) auto
    then show ?thesis using nxt cov not_covered [OF ok ne _ nxt(1)] by auto
  qed
qed

subsection \<open>The encoding of object statistics\<close>

definition range_fits :: "range \<Rightarrow> bool" where
  "range_fits r \<longleftrightarrow> r_start r < 2 ^ 64 \<and> r_end r < 2 ^ 64"

text \<open>The reference count and the cache state are not stored: they are reset on reading.\<close>

definition ObjStat_fits :: "ObjStat \<Rightarrow> bool" where
  "ObjStat_fits st \<longleftrightarrow>
     obj_size st < 2 ^ 64 \<and> parts st < 2 ^ 64 \<and> length (deleted_ranges st) < 2 ^ 64 \<and>
     list_all range_fits (deleted_ranges st) \<and>
     sorted_wrt (\<lambda>a b. r_start a < r_start b) (deleted_ranges st)"

interpretation range: codec Range_WriteBufAdv Range_ReadBufAdv "\<lambda>_. 16" range_fits
  by unfold_locales
     (simp_all add: Range_WriteBufAdv_def Range_ReadBufAdv_def range_fits_def codec_reads)

lemma ObjStat_read_write:
  assumes "ObjStat_fits st"
  shows "ObjStat_ReadBufAdv (ObjStat_WriteBufAdv st @ r) =
           Inr (st\<lparr>ref_count := 0, cached := kCached\<rparr>, r)"
  using assms
  by (simp add: ObjStat_fits_def ObjStat_WriteBufAdv_def ObjStat_ReadBufAdv_def codec_reads
      range.read_n_write fold_set_insert)

lemma length_ObjStat_WriteBufAdv:
  "ObjStat_fits st \<Longrightarrow> length (ObjStat_WriteBufAdv st) = ObjStat_GetSizeInBytes st"
  by (simp add: ObjStat_fits_def ObjStat_WriteBufAdv_def ObjStat_GetSizeInBytes_def
      range.size_concat sum_list_triv)

interpretation obj_stat: codec ObjStat_WriteBufAdv ObjStat_ReadBufAdv ObjStat_GetSizeInBytes
    "\<lambda>st. ObjStat_fits st \<and> ref_count st = 0 \<and> cached st = kCached"
  by unfold_locales (simp_all add: ObjStat_read_write length_ObjStat_WriteBufAdv)

subsection \<open>Validation\<close>

lemma check_adjacent_ok: "ranges_ok rs \<Longrightarrow> check_adjacent rs = []"
  by (induction rs rule: check_adjacent.induct) (auto simp: ranges_ok_Cons)

subsection \<open>Properties\<close>

text \<open>(C3) Deleting a range maintains the exact set of deleted bytes.  On an ordered set of separate
  ranges, a range that touches none of them is added, merged with its neighbours, so that the set
  covers exactly the old and the new bytes and stays ordered with gaps between its ranges; a range
  that is already deleted leaves the set as it is; a range that is deleted in part is refused.\<close>

theorem delete_range_refines_union:
  assumes "ranges_ok rs" and "r_start orig < r_end orig"
  shows "if span orig \<inter> covered rs = {}
         then \<exists>rs' rg. delete_range rs orig = Inr (rs', Some rg) \<and> ranges_ok rs' \<and>
                covered rs' = covered rs \<union> span orig \<and> rg \<in> set rs' \<and> span orig \<subseteq> span rg
         else if span orig \<subseteq> covered rs then delete_range rs orig = Inr (rs, None)
         else \<exists>m. delete_range rs orig = Inl (UnrecoverableError m)"
proof (cases "span orig \<inter> covered rs = {}")
  case True
  show ?thesis
    by (rule delete_range_new [OF assms True]) (use True in \<open>auto simp: span_def\<close>)
next
  case False
  then show ?thesis using delete_range_overlap [OF assms False] by simp
qed

theorem delete_range_refines_union_witness:
  "\<exists>rs' rg. delete_range [\<lparr>r_start = 0, r_end = 8\<rparr>, \<lparr>r_start = 16, r_end = 24\<rparr>]
     \<lparr>r_start = 8, r_end = 16\<rparr> = Inr (rs', Some rg) \<and> covered rs' = {0..<24}"
proof -
  let ?rs = "[\<lparr>r_start = 0, r_end = 8\<rparr>, \<lparr>r_start = 16, r_end = 24\<rparr>]" and ?o = "\<lparr>r_start = 8, r_end = 16\<rparr>"
  have c: "covered ?rs = {0..<8} \<union> {16..<24}" "span ?o = {8..<16}" by (auto simp: covered_def span_def)
  have "span ?o \<inter> covered ?rs = {}" "covered ?rs \<union> span ?o = {0..<24}" unfolding c by auto
  moreover have "ranges_ok ?rs" by (simp add: ranges_ok_def)
  ultimately show ?thesis using delete_range_refines_union [of ?rs ?o] by auto
qed

end
