(* ===== verification/Obj_Stat_Accessor.thy ===== *)
theory Obj_Stat_Accessor
  imports Obj_Status "HOL-Library.AList" "HOL-Library.Multiset"
begin

text \<open>
  \<^verbatim>\<open>src/src/storage/persistence/obj_stat_accessor.cpp\<close>: the table from object keys to object
  statistics.  \<open>ObjectStatMap\<close> keeps every entry in one of three linked lists (least recently
  used, in use, cleaned up) and a hash map of iterators into them; \<open>ObjectStatAccessor_LocalStorage\<close>
  is a plain hash map; \<open>ObjectStatAccessor_ObjectStorage\<close> puts a disk budget on top of
  \<open>ObjectStatMap\<close>.

  An entry is reached through its key, so an iterator is modelled by the key, the entries by the
  association list \<open>om_stats\<close> and the three lists by lists of keys.  \<^verbatim>\<open>splice\<close> and \<^verbatim>\<open>erase\<close> on a
  list that does not hold the node are undefined behaviour.
\<close>

type_synonym stat_map = "(string \<times> ObjStat) list"

subsection \<open>\<open>ObjectStatMap\<close>\<close>

record ObjectStatMap =
  om_stats :: stat_map
  lru_list :: "string list"
  using_list :: "string list"
  cleanuped_list :: "string list"

definition ObjectStatMap_empty :: ObjectStatMap where
  "ObjectStatMap_empty = \<lparr>om_stats = [], lru_list = [], using_list = [], cleanuped_list = []\<rparr>"

definition not_in_list :: error where
  "not_in_list = UndefinedBehaviour ''iterator does not belong to the list''"

definition incr_ref :: "ObjStat \<Rightarrow> ObjStat" where
  "incr_ref st = st\<lparr>ref_count := ref_count st + 1\<rparr>"

definition decr_ref :: "ObjStat \<Rightarrow> ObjStat" where
  "decr_ref st = st\<lparr>ref_count := ref_count st - 1\<rparr>"

definition ObjectStatMap_Get :: "string \<Rightarrow> ObjectStatMap \<Rightarrow> (ObjStat option \<times> ObjectStatMap) res" where
  "ObjectStatMap_Get key m =
     (case map_of (om_stats m) key of
        None \<Rightarrow> Inr (None, m)
      | Some st \<Rightarrow>
          let m' = m\<lparr>om_stats := AList.update key (incr_ref st) (om_stats m)\<rparr>
          in if ref_count st = 0 then
               if key \<in> set (lru_list m)
               then Inr (Some (incr_ref st), m'\<lparr>lru_list := remove1 key (lru_list m),
                                               using_list := key # using_list m\<rparr>)
               else Inl not_in_list
             else Inr (Some (incr_ref st), m'))"

definition ObjectStatMap_GetNoCount :: "ObjectStatMap \<Rightarrow> string \<Rightarrow> ObjStat option" where
  "ObjectStatMap_GetNoCount m key = map_of (om_stats m) key"

definition ObjectStatMap_Release ::
    "string \<Rightarrow> ObjectStatMap \<Rightarrow> ((bool \<times> ObjStat option) \<times> ObjectStatMap) res" where
  "ObjectStatMap_Release key m =
     (case map_of (om_stats m) key of
        None \<Rightarrow> Inr ((False, None), m)
      | Some st \<Rightarrow>
          if ref_count st = 0 then Inl (UnrecoverableError ''Release object ref count is 0'')
          else let st' = decr_ref st; m' = m\<lparr>om_stats := AList.update key st' (om_stats m)\<rparr>
               in if ref_count st' > 0 then Inr ((False, Some st'), m')
                  else if key \<in> set (using_list m)
                  then Inr ((True, Some st'), m'\<lparr>using_list := remove1 key (using_list m),
                                                lru_list := key # lru_list m\<rparr>)
                  else Inl not_in_list)"

definition ObjectStatMap_PutNew :: "string \<Rightarrow> ObjStat \<Rightarrow> ObjectStatMap \<Rightarrow> ObjectStatMap" where
  "ObjectStatMap_PutNew key st m =
     (case map_of (om_stats m) key of
        Some _ \<Rightarrow> m\<lparr>om_stats := AList.update key st (om_stats m)\<rparr>
      | None \<Rightarrow> m\<lparr>om_stats := AList.update key st (om_stats m), lru_list := key # lru_list m\<rparr>)"

definition ObjectStatMap_Recover :: "string \<Rightarrow> ObjectStatMap \<Rightarrow> ObjectStatMap res" where
  "ObjectStatMap_Recover key m =
     (case map_of (om_stats m) key of
        None \<Rightarrow> Inl (UnrecoverableError ''Recover object not found'')
      | Some st \<Rightarrow>
          if ref_count st > 0 then Inl (UnrecoverableError ''Recover object is referenced'')
          else if key \<notin> set (cleanuped_list m) then Inl not_in_list
          else if cached st \<noteq> kNotCached then Inl (UnrecoverableError ''Recover object not cleaned'')
          else Inr (m\<lparr>om_stats := AList.update key (st\<lparr>cached := kCached\<rparr>) (om_stats m),
                      cleanuped_list := remove1 key (cleanuped_list m),
                      lru_list := key # lru_list m\<rparr>))"

definition ObjectStatMap_Invalidate ::
    "string \<Rightarrow> ObjectStatMap \<Rightarrow> (ObjStat option \<times> ObjectStatMap) res" where
  "ObjectStatMap_Invalidate key m =
     (case map_of (om_stats m) key of
        None \<Rightarrow> Inr (None, m)
      | Some st \<Rightarrow>
          if ref_count st > 0 then Inl (UnrecoverableError ''Invalidate object is referenced'')
          else if cached st = kDownloading
          then Inl (UnrecoverableError ''Invalidate object is downloading'')
          else let m' = m\<lparr>om_stats := AList.delete key (om_stats m)\<rparr>
               in if cached st = kCached then
                    if key \<in> set (lru_list m)
                    then Inr (Some st, m'\<lparr>lru_list := remove1 key (lru_list m)\<rparr>)
                    else Inl not_in_list
                  else
                    if key \<in> set (cleanuped_list m)
                    then Inr (Some st, m'\<lparr>cleanuped_list := remove1 key (cleanuped_list m)\<rparr>)
                    else Inl not_in_list)"

text \<open>The entry an iterator of \<^verbatim>\<open>lru_list_\<close> points to always exists; a key without one is a dangling
  iterator.\<close>

definition ObjectStatMap_EnvictLast ::
    "ObjectStatMap \<Rightarrow> ((string \<times> ObjStat) option \<times> ObjectStatMap) res" where
  "ObjectStatMap_EnvictLast m =
     (if lru_list m = [] then Inr (None, m)
      else let key = last (lru_list m)
           in case map_of (om_stats m) key of
                None \<Rightarrow> Inl (UndefinedBehaviour ''dangling iterator'')
              | Some st \<Rightarrow>
                  if ref_count st > 0 then Inl (UnrecoverableError ''EnvictLast object is referenced'')
                  else if cached st \<noteq> kCached
                  then Inl (UnrecoverableError ''EnvictLast object is already cleaned'')
                  else let st' = st\<lparr>cached := kNotCached\<rparr>
                       in Inr (Some (key, st'),
                               m\<lparr>om_stats := AList.update key st' (om_stats m),
                                 lru_list := butlast (lru_list m),
                                 cleanuped_list := key # cleanuped_list m\<rparr>))"

subsection \<open>\<open>ObjectStatAccessor_LocalStorage\<close>\<close>

definition LocalStorage_Get :: "string \<Rightarrow> stat_map \<Rightarrow> (ObjStat option \<times> stat_map) res" where
  "LocalStorage_Get key m =
     (case map_of m key of
        None \<Rightarrow> Inr (None, m)
      | Some st \<Rightarrow> Inr (Some (incr_ref st), AList.update key (incr_ref st) m))"

definition LocalStorage_GetNoCount :: "stat_map \<Rightarrow> string \<Rightarrow> ObjStat option" where
  "LocalStorage_GetNoCount m key = map_of m key"

definition LocalStorage_Release :: "string \<Rightarrow> stat_map \<Rightarrow> (ObjStat option \<times> stat_map) res" where
  "LocalStorage_Release key m =
     (case map_of m key of
        None \<Rightarrow> Inr (None, m)
      | Some st \<Rightarrow>
          if ref_count st = 0 then Inl (UnrecoverableError ''Release object ref count is 0'')
          else Inr (Some (decr_ref st), AList.update key (decr_ref st) m))"

definition LocalStorage_PutNew :: "string \<Rightarrow> ObjStat \<Rightarrow> stat_map \<Rightarrow> stat_map res" where
  "LocalStorage_PutNew key st m =
     (if map_of m key \<noteq> None then Inl (UnrecoverableError ''PutNew object is already in object map'')
      else Inr (AList.update key (st\<lparr>cached := kCached\<rparr>) m))"

definition LocalStorage_PutNoCount :: "string \<Rightarrow> ObjStat \<Rightarrow> stat_map \<Rightarrow> stat_map" where
  "LocalStorage_PutNoCount key st m = AList.update key (st\<lparr>cached := kCached\<rparr>) m"

definition LocalStorage_Invalidate :: "string \<Rightarrow> stat_map \<Rightarrow> ObjStat option \<times> stat_map" where
  "LocalStorage_Invalidate key m =
     (case map_of m key of None \<Rightarrow> (None, m) | Some st \<Rightarrow> (Some st, AList.delete key m))"

definition LocalStorage_CheckValid :: "nat \<Rightarrow> stat_map \<Rightarrow> (string \<times> range_report) list" where
  "LocalStorage_CheckValid current_object_size m =
     concat (map (\<lambda>(key, st). map (Pair key) (ObjStat_CheckValid st current_object_size)) m)"

subsection \<open>\<open>ObjectStatAccessor_ObjectStorage\<close>\<close>

record ObjectStorage =
  os_map :: ObjectStatMap
  disk_capacity_limit :: nat
  disk_used :: nat

definition ObjectStorage_new :: "nat \<Rightarrow> ObjectStorage" where
  "ObjectStorage_new limit = \<lparr>os_map = ObjectStatMap_empty, disk_capacity_limit = limit, disk_used = 0\<rparr>"

definition ObjectStorage_Get :: "string \<Rightarrow> ObjectStorage \<Rightarrow> (ObjStat option \<times> ObjectStorage) res" where
  "ObjectStorage_Get key s =
     rbind (ObjectStatMap_Get key (os_map s)) (\<lambda>(r, m).
       case r of
         None \<Rightarrow> Inr (None, s\<lparr>os_map := m\<rparr>)
       | Some st \<Rightarrow>
           if disk_used s < obj_size st
           then Inl (UnrecoverableError ''Object size is larger than disk used'')
           else Inr (Some st, s\<lparr>os_map := m, disk_used := u64_sub (disk_used s) (obj_size st)\<rparr>))"

lemma EnvictLast_shorter:
  "ObjectStatMap_EnvictLast m = Inr (Some e, m') \<Longrightarrow> length (lru_list m') < length (lru_list m)"
  by (auto simp: ObjectStatMap_EnvictLast_def Let_def split: if_splits option.splits)

function ObjectStorage_Envict_loop ::
    "ObjectStorage \<Rightarrow> string list \<Rightarrow> (ObjectStorage \<times> string list) res" where
  "ObjectStorage_Envict_loop s drop_keys =
     (if disk_used s > disk_capacity_limit s then
        (case ObjectStatMap_EnvictLast (os_map s) of
           Inl e \<Rightarrow> Inl e
         | Inr (None, m) \<Rightarrow> Inr (s\<lparr>os_map := m\<rparr>, drop_keys)
         | Inr (Some (key, st), m) \<Rightarrow>
             ObjectStorage_Envict_loop
               (s\<lparr>os_map := m, disk_used := u64_sub (disk_used s) (obj_size st)\<rparr>)
               (drop_keys @ [key]))
      else Inr (s, drop_keys))"
  by pat_completeness auto
termination
  by (relation "measure (\<lambda>(s, d). length (lru_list (os_map s)))")
     (auto dest: EnvictLast_shorter)

declare ObjectStorage_Envict_loop.simps [simp del]

definition ObjectStorage_Envict ::
    "ObjectStorage \<Rightarrow> string list \<Rightarrow> (bool \<times> ObjectStorage \<times> string list) res" where
  "ObjectStorage_Envict s drop_keys =
     rbind (ObjectStorage_Envict_loop s drop_keys) (\<lambda>(s', d).
       Inr (\<not> disk_used s' > disk_capacity_limit s', s', d))"

definition ObjectStorage_Release ::
    "string \<Rightarrow> ObjectStorage \<Rightarrow> string list \<Rightarrow> (ObjStat option \<times> ObjectStorage \<times> string list) res" where
  "ObjectStorage_Release key s drop_keys =
     rbind (ObjectStatMap_Release key (os_map s)) (\<lambda>((release_ok, r), m).
       case r of
         Some st \<Rightarrow>
           if \<not> release_ok then Inr (Some st, s\<lparr>os_map := m\<rparr>, drop_keys)
           else let s1 = s\<lparr>os_map := m, disk_used := u64_add (disk_used s) (obj_size st)\<rparr>
                in if disk_used s1 > disk_capacity_limit s1
                   then rbind (ObjectStorage_Envict s1 drop_keys) (\<lambda>(_, s2, d). Inr (Some st, s2, d))
                   else Inr (Some st, s1, drop_keys)
       | None \<Rightarrow> Inr (None, s\<lparr>os_map := m\<rparr>, drop_keys))"

definition ObjectStorage_PutNew ::
    "string \<Rightarrow> ObjStat \<Rightarrow> ObjectStorage \<Rightarrow> string list \<Rightarrow> (ObjectStorage \<times> string list) res" where
  "ObjectStorage_PutNew key st s drop_keys =
     (let s1 = s\<lparr>os_map := ObjectStatMap_PutNew key st (os_map s),
                 disk_used := u64_add (disk_used s) (obj_size st)\<rparr>
      in if disk_used s1 > disk_capacity_limit s1
         then rbind (ObjectStorage_Envict s1 drop_keys) (\<lambda>(_, s2, d). Inr (s2, d))
         else Inr (s1, drop_keys))"

definition ObjectStorage_PutNoCount :: "string \<Rightarrow> ObjStat \<Rightarrow> ObjectStorage \<Rightarrow> ObjectStorage" where
  "ObjectStorage_PutNoCount key st s = s\<lparr>os_map := ObjectStatMap_PutNew key st (os_map s)\<rparr>"

definition ObjectStorage_Invalidate ::
    "string \<Rightarrow> ObjectStorage \<Rightarrow> (ObjStat option \<times> ObjectStorage) res" where
  "ObjectStorage_Invalidate key s =
     rbind (ObjectStatMap_Invalidate key (os_map s)) (\<lambda>(r, m).
       case r of
         None \<Rightarrow> Inr (None, s\<lparr>os_map := m\<rparr>)
       | Some st \<Rightarrow>
           Inr (Some st, s\<lparr>os_map := m, disk_used := u64_sub (disk_used s) (obj_size st)\<rparr>))"

subsection \<open>The invariant of \<open>ObjectStatMap\<close>\<close>

text \<open>
  Every entry is in exactly one list: the referenced ones in \<^verbatim>\<open>using_list_\<close>, the ones removed from
  the local disk in \<^verbatim>\<open>cleanuped_list_\<close>, all others in \<^verbatim>\<open>lru_list_\<close>.
\<close>

definition om_inv :: "ObjectStatMap \<Rightarrow> bool" where
  "om_inv m \<longleftrightarrow>
     distinct (lru_list m @ using_list m @ cleanuped_list m) \<and>
     set (lru_list m @ using_list m @ cleanuped_list m) = dom (map_of (om_stats m)) \<and>
     (\<forall>k st. map_of (om_stats m) k = Some st \<longrightarrow>
        (k \<in> set (using_list m) \<longleftrightarrow> 0 < ref_count st) \<and>
        (k \<in> set (cleanuped_list m) \<longleftrightarrow> cached st = kNotCached) \<and>
        cached st \<noteq> kDownloading)"

lemma om_inv_empty: "om_inv ObjectStatMap_empty"
  by (simp add: om_inv_def ObjectStatMap_empty_def)

lemma om_inv_lists:
  assumes "om_inv m" "map_of (om_stats m) k = Some st"
  shows "k \<in> set (using_list m) \<longleftrightarrow> 0 < ref_count st"
    and "k \<in> set (cleanuped_list m) \<longleftrightarrow> cached st = kNotCached"
    and "k \<in> set (lru_list m) \<longleftrightarrow> ref_count st = 0 \<and> cached st = kCached"
proof -
  show u: "k \<in> set (using_list m) \<longleftrightarrow> 0 < ref_count st"
    and c: "k \<in> set (cleanuped_list m) \<longleftrightarrow> cached st = kNotCached"
    using assms by (auto simp: om_inv_def)
  have "k \<in> set (lru_list m @ using_list m @ cleanuped_list m)"
    using assms unfolding om_inv_def by blast
  moreover have "cached st \<noteq> kDownloading" using assms by (auto simp: om_inv_def)
  ultimately show "k \<in> set (lru_list m) \<longleftrightarrow> ref_count st = 0 \<and> cached st = kCached"
    using u c assms(1) by (cases "cached st") (auto simp: om_inv_def)
qed

lemmas alist_simps = update_conv' delete_conv' incr_ref_def decr_ref_def

lemma incr_ref_simps [simp]:
  "ref_count (incr_ref st) = Suc (ref_count st)" "cached (incr_ref st) = cached st"
  "obj_size (incr_ref st) = obj_size st" "deleted_ranges (incr_ref st) = deleted_ranges st"
  by (simp_all add: incr_ref_def)

lemma decr_ref_simps [simp]:
  "ref_count (decr_ref st) = ref_count st - 1" "cached (decr_ref st) = cached st"
  "obj_size (decr_ref st) = obj_size st" "deleted_ranges (decr_ref st) = deleted_ranges st"
  by (simp_all add: decr_ref_def)

lemma decr_incr_ref [simp]: "decr_ref (incr_ref st) = st"
  by (simp add: incr_ref_def decr_ref_def)

lemma ObjStat_eqI:
  "st\<lparr>ref_count := 0\<rparr> = st'\<lparr>ref_count := 0\<rparr> \<Longrightarrow> ref_count st = ref_count st' \<Longrightarrow> st = (st' :: ObjStat)"
  by (cases st; cases st') simp

lemma om_inv_Get:
  assumes inv: "om_inv m" and get: "ObjectStatMap_Get k m = Inr (r, m')"
  shows "om_inv m'"
proof (cases "map_of (om_stats m) k")
  case None
  with get inv show ?thesis by (simp add: ObjectStatMap_Get_def)
next
  case (Some st)
  note lists = om_inv_lists [OF inv Some]
  show ?thesis
  proof (cases "ref_count st = 0")
    case True
    with get Some have k: "k \<in> set (lru_list m)"
      and m': "m' = m\<lparr>om_stats := AList.update k (incr_ref st) (om_stats m),
                      lru_list := remove1 k (lru_list m), using_list := k # using_list m\<rparr>"
      by (auto simp: ObjectStatMap_Get_def Let_def split: if_splits)
    from inv k lists True show ?thesis
      unfolding m' om_inv_def by (auto simp: update_conv')
  next
    case False
    with get Some have m': "m' = m\<lparr>om_stats := AList.update k (incr_ref st) (om_stats m)\<rparr>"
      by (auto simp: ObjectStatMap_Get_def Let_def)
    from inv lists False Some show ?thesis
      unfolding m' om_inv_def by (auto simp: update_conv')
  qed
qed

lemma om_inv_Release:
  assumes inv: "om_inv m" and rel: "ObjectStatMap_Release k m = Inr (r, m')"
  shows "om_inv m'"
proof (cases "map_of (om_stats m) k")
  case None
  with rel inv show ?thesis by (simp add: ObjectStatMap_Release_def)
next
  case (Some st)
  note lists = om_inv_lists [OF inv Some]
  from rel Some have pos: "0 < ref_count st"
    by (auto simp: ObjectStatMap_Release_def split: if_splits)
  show ?thesis
  proof (cases "ref_count st = 1")
    case True
    with rel Some have k: "k \<in> set (using_list m)"
      and m': "m' = m\<lparr>om_stats := AList.update k (decr_ref st) (om_stats m),
                      using_list := remove1 k (using_list m), lru_list := k # lru_list m\<rparr>"
      by (auto simp: ObjectStatMap_Release_def Let_def split: if_splits)
    have "k \<notin> set (cleanuped_list m)" using inv k by (auto simp: om_inv_def)
    moreover have "cached st \<noteq> kDownloading" using inv Some by (auto simp: om_inv_def)
    ultimately have "cached st = kCached" using lists(2) by (cases "cached st") simp_all
    with inv k lists True show ?thesis
      unfolding m' om_inv_def by (auto simp: update_conv')
  next
    case False
    with rel Some pos have m': "m' = m\<lparr>om_stats := AList.update k (decr_ref st) (om_stats m)\<rparr>"
      by (auto simp: ObjectStatMap_Release_def Let_def split: if_splits)
    from inv lists False Some pos show ?thesis
      unfolding m' om_inv_def by (auto simp: update_conv')
  qed
qed

lemma om_inv_PutNew:
  assumes inv: "om_inv m" and new: "map_of (om_stats m) k = None"
    and st: "ref_count st = 0" "cached st = kCached"
  shows "om_inv (ObjectStatMap_PutNew k st m)"
proof -
  have "k \<notin> set (lru_list m @ using_list m @ cleanuped_list m)"
    using inv new unfolding om_inv_def by blast
  then show ?thesis
    using inv new st unfolding om_inv_def
    by (auto simp: ObjectStatMap_PutNew_def update_conv')
qed

lemma om_inv_Recover:
  assumes inv: "om_inv m" and rec: "ObjectStatMap_Recover k m = Inr m'"
  shows "om_inv m'"
proof -
  obtain st where st: "map_of (om_stats m) k = Some st"
    using rec by (auto simp: ObjectStatMap_Recover_def split: option.splits)
  with rec have k: "ref_count st = 0" "k \<in> set (cleanuped_list m)" "cached st = kNotCached"
    and m': "m' = m\<lparr>om_stats := AList.update k (st\<lparr>cached := kCached\<rparr>) (om_stats m),
                    cleanuped_list := remove1 k (cleanuped_list m), lru_list := k # lru_list m\<rparr>"
    by (auto simp: ObjectStatMap_Recover_def split: if_splits)
  from inv k om_inv_lists [OF inv st] show ?thesis
    unfolding m' om_inv_def by (auto simp: update_conv')
qed

lemma om_inv_Invalidate:
  assumes inv: "om_inv m" and del: "ObjectStatMap_Invalidate k m = Inr (r, m')"
  shows "om_inv m'"
proof (cases "map_of (om_stats m) k")
  case None
  with del inv show ?thesis by (simp add: ObjectStatMap_Invalidate_def)
next
  case (Some st)
  note lists = om_inv_lists [OF inv Some]
  from del Some have "ref_count st = 0"
    by (auto simp: ObjectStatMap_Invalidate_def split: if_splits)
  with lists have nu: "k \<notin> set (using_list m)" by simp
  show ?thesis
  proof (cases "cached st = kCached")
    case True
    with del Some have k: "k \<in> set (lru_list m)"
      and m': "m' = m\<lparr>om_stats := AList.delete k (om_stats m), lru_list := remove1 k (lru_list m)\<rparr>"
      by (auto simp: ObjectStatMap_Invalidate_def Let_def split: if_splits)
    from inv k lists nu True show ?thesis
      unfolding m' om_inv_def by (auto simp: delete_conv' split: if_splits)
  next
    case False
    with del Some have k: "k \<in> set (cleanuped_list m)"
      and m': "m' = m\<lparr>om_stats := AList.delete k (om_stats m),
                      cleanuped_list := remove1 k (cleanuped_list m)\<rparr>"
      by (auto simp: ObjectStatMap_Invalidate_def Let_def split: if_splits)
    from inv k lists nu False show ?thesis
      unfolding m' om_inv_def by (auto simp: delete_conv' split: if_splits)
  qed
qed

text \<open>On a state that satisfies the invariant eviction never fails: it takes the oldest unused
  object off the local disk.\<close>

lemma EnvictLast_inv:
  assumes inv: "om_inv m" and ne: "lru_list m = ks @ [k]"
  obtains st m' where "map_of (om_stats m) k = Some st" "ref_count st = 0"
    "ObjectStatMap_EnvictLast m = Inr (Some (k, st\<lparr>cached := kNotCached\<rparr>), m')" "om_inv m'"
    "lru_list m' = ks" "using_list m' = using_list m" "cleanuped_list m' = k # cleanuped_list m"
    "map_of (om_stats m') = (map_of (om_stats m))(k \<mapsto> st\<lparr>cached := kNotCached\<rparr>)"
proof -
  have "k \<in> set (lru_list m @ using_list m @ cleanuped_list m)" using ne by simp
  then obtain st where st: "map_of (om_stats m) k = Some st"
    using inv unfolding om_inv_def by blast
  note lists = om_inv_lists [OF inv st]
  with ne have k: "ref_count st = 0" "cached st = kCached" by auto
  let ?m' = "m\<lparr>om_stats := AList.update k (st\<lparr>cached := kNotCached\<rparr>) (om_stats m),
               lru_list := ks, cleanuped_list := k # cleanuped_list m\<rparr>"
  have ev: "ObjectStatMap_EnvictLast m = Inr (Some (k, st\<lparr>cached := kNotCached\<rparr>), ?m')"
    using ne st k by (simp add: ObjectStatMap_EnvictLast_def Let_def)
  have inv': "om_inv ?m'"
    using inv k lists ne unfolding om_inv_def by (auto simp: update_conv')
  show thesis by (rule that [OF st k(1) ev inv']) (simp_all add: update_conv')
qed

subsection \<open>The reference counting contract\<close>

text \<open>
  What the users of a table rely on: \<^verbatim>\<open>Get\<close> adds a reference to the entry of its key and changes
  nothing else, \<^verbatim>\<open>Release\<close> takes one away and succeeds whenever there is one to take.
\<close>

locale stat_table =
  fixes lookup :: "'s \<Rightarrow> string \<Rightarrow> ObjStat option"
    and get :: "string \<Rightarrow> 's \<Rightarrow> (ObjStat option \<times> 's) res"
    and release :: "string \<Rightarrow> 's \<Rightarrow> (ObjStat option \<times> 's) res"
    and invar :: "'s \<Rightarrow> bool"
  assumes get_lookup: "invar s \<Longrightarrow> get k s = Inr (r, s') \<Longrightarrow>
      r = map_option incr_ref (lookup s k) \<and> lookup s' = (lookup s)(k := r)"
    and get_invar: "invar s \<Longrightarrow> get k s = Inr (r, s') \<Longrightarrow> invar s'"
    and release_lookup: "invar s \<Longrightarrow> release k s = Inr (r, s') \<Longrightarrow>
      r = map_option decr_ref (lookup s k) \<and> lookup s' = (lookup s)(k := r)"
    and release_invar: "invar s \<Longrightarrow> release k s = Inr (r, s') \<Longrightarrow> invar s'"
    and release_ok: "invar s \<Longrightarrow> lookup s k = Some st \<Longrightarrow> 0 < ref_count st \<Longrightarrow>
      \<exists>r s'. release k s = Inr (r, s')"
begin

text \<open>The number of references to a key; an absent key has none.\<close>

definition refs :: "'s \<Rightarrow> string \<Rightarrow> nat" where
  "refs s k = (case lookup s k of None \<Rightarrow> 0 | Some st \<Rightarrow> ref_count st)"

definition same_but_refs :: "'s \<Rightarrow> 's \<Rightarrow> bool" where
  "same_but_refs s t \<longleftrightarrow>
     (\<forall>k. map_option (\<lambda>st. st\<lparr>ref_count := 0\<rparr>) (lookup s k)
          = map_option (\<lambda>st. st\<lparr>ref_count := 0\<rparr>) (lookup t k))"

lemma same_but_refs_eqI:
  assumes "same_but_refs s t" and "\<And>k. refs s k = refs t k"
  shows "lookup s = lookup t"
proof
  fix k
  from assms(1) have "map_option (\<lambda>st. st\<lparr>ref_count := 0\<rparr>) (lookup s k)
      = map_option (\<lambda>st. st\<lparr>ref_count := 0\<rparr>) (lookup t k)"
    by (simp add: same_but_refs_def)
  with assms(2) [of k] show "lookup s k = lookup t k"
    by (auto simp: refs_def intro: ObjStat_eqI split: option.splits)
qed

lemma get_step:
  assumes "invar s" "get k s = Inr (Some st, s')"
  shows "invar s'" "same_but_refs s' s" "refs s' = (refs s)(k := Suc (refs s k))"
  using get_invar [OF assms] get_lookup [OF assms]
  by (cases "lookup s k"; auto simp: same_but_refs_def refs_def incr_ref_def fun_eq_iff)+

lemma release_step:
  assumes "invar s" "release k s = Inr (Some st, s')"
  shows "invar s'" "same_but_refs s' s" "refs s' = (refs s)(k := refs s k - 1)"
  using release_invar [OF assms] release_lookup [OF assms]
  by (cases "lookup s k"; auto simp: same_but_refs_def refs_def decr_ref_def fun_eq_iff)+

definition get_all :: "string list \<Rightarrow> 's \<Rightarrow> 's res" where
  "get_all = rfold (\<lambda>k s. rbind (get k s) (\<lambda>(r, s').
     if r = None then Inl (UnrecoverableError ''object not found'') else Inr s'))"

definition release_all :: "string list \<Rightarrow> 's \<Rightarrow> 's res" where
  "release_all = rfold (\<lambda>k s. rbind (release k s) (\<lambda>(r, s').
     if r = None then Inl (UnrecoverableError ''object not found'') else Inr s'))"

lemma get_all_refs:
  "invar s \<Longrightarrow> get_all ks s = Inr s' \<Longrightarrow>
     invar s' \<and> same_but_refs s' s \<and> (\<forall>k. refs s' k = refs s k + count_list ks k)"
proof (induction ks arbitrary: s)
  case Nil
  then show ?case by (simp add: get_all_def same_but_refs_def)
next
  case (Cons k ks)
  from Cons.prems(2) obtain st t where t: "get k s = Inr (Some st, t)" "get_all ks t = Inr s'"
    by (auto simp: get_all_def res_simps split: if_splits)
  note step = get_step [OF Cons.prems(1) t(1)]
  from Cons.IH [OF step(1) t(2)] step show ?case
    by (auto simp: same_but_refs_def)
qed

lemma release_all_refs:
  assumes "invar s" and "\<forall>k. count_list ks k \<le> refs s k"
  shows "\<exists>s'. release_all ks s = Inr s' \<and> invar s' \<and> same_but_refs s' s \<and>
           (\<forall>k. refs s' k = refs s k - count_list ks k)"
  using assms
proof (induction ks arbitrary: s)
  case Nil
  then show ?case by (simp add: release_all_def same_but_refs_def)
next
  case (Cons k ks)
  from Cons.prems(2) have "Suc (count_list ks k) \<le> refs s k"
    by (auto dest: spec [of _ k])
  then obtain st0 where "lookup s k = Some st0" "0 < ref_count st0"
    by (auto simp: refs_def split: option.splits)
  with release_ok [OF Cons.prems(1)] release_lookup [OF Cons.prems(1)]
  obtain st t where t: "release k s = Inr (Some st, t)"
    by fastforce
  note step = release_step [OF Cons.prems(1) t]
  have "\<forall>j. count_list ks j \<le> refs t j"
  proof
    fix j
    show "count_list ks j \<le> refs t j"
      using Cons.prems(2) [rule_format, of j] step(3) by (cases "j = k") auto
  qed
  from Cons.IH [OF step(1) this] obtain s' where s': "release_all ks t = Inr s'" "invar s'"
    "same_but_refs s' t" "\<forall>j. refs s' j = refs t j - count_list ks j"
    by blast
  have "release_all (k # ks) s = Inr s'" using t s'(1) by (simp add: release_all_def)
  moreover have "same_but_refs s' s" using s'(3) step(2) by (simp add: same_but_refs_def)
  moreover have "\<forall>j. refs s' j = refs s j - count_list (k # ks) j"
    using s'(4) step(3) by simp
  ultimately show ?case using s'(2) by blast
qed

text \<open>However the references are released, the table is what it was before they were taken.\<close>

lemma balanced:
  assumes "invar s" "get_all ks s = Inr s1" "\<forall>k. count_list ks' k = count_list ks k"
  shows "\<exists>s2. release_all ks' s1 = Inr s2 \<and> invar s2 \<and> lookup s2 = lookup s"
proof -
  from get_all_refs [OF assms(1,2)] have s1: "invar s1" "same_but_refs s1 s"
    "\<forall>k. refs s1 k = refs s k + count_list ks k" by auto
  then obtain s2 where s2: "release_all ks' s1 = Inr s2" "invar s2" "same_but_refs s2 s1"
    "\<forall>k. refs s2 k = refs s1 k - count_list ks' k"
    using release_all_refs [of s1 ks'] assms(3) by auto
  have "same_but_refs s2 s" using s2(3) s1(2) by (simp add: same_but_refs_def)
  then have "lookup s2 = lookup s"
    by (rule same_but_refs_eqI) (simp add: s2(4) s1(3) assms(3))
  with s2 show ?thesis by blast
qed

end

interpretation local_table: stat_table LocalStorage_GetNoCount LocalStorage_Get LocalStorage_Release
    "\<lambda>_. True"
  by unfold_locales
     (auto simp: LocalStorage_GetNoCount_def LocalStorage_Get_def LocalStorage_Release_def update_conv'
        fun_eq_iff split: option.splits if_splits)

definition ObjectStatMap_Release_stat :: "string \<Rightarrow> ObjectStatMap \<Rightarrow> (ObjStat option \<times> ObjectStatMap) res" where
  "ObjectStatMap_Release_stat k m =
     rbind (ObjectStatMap_Release k m) (\<lambda>((release_ok, st), m'). Inr (st, m'))"

interpretation lru_table: stat_table ObjectStatMap_GetNoCount ObjectStatMap_Get
    ObjectStatMap_Release_stat om_inv
proof unfold_locales
  fix s k st
  assume inv: "om_inv s" and st: "ObjectStatMap_GetNoCount s k = Some st" "0 < ref_count st"
  then have "k \<in> set (using_list s)"
    using om_inv_lists(1) [OF inv] by (simp add: ObjectStatMap_GetNoCount_def)
  with st show "\<exists>r s'. ObjectStatMap_Release_stat k s = Inr (r, s')"
    by (auto simp: ObjectStatMap_Release_stat_def ObjectStatMap_Release_def
        ObjectStatMap_GetNoCount_def Let_def)
next
  fix s k r s'
  assume inv: "om_inv s"
  { assume "ObjectStatMap_Release_stat k s = Inr (r, s')"
    then obtain b where rel: "ObjectStatMap_Release k s = Inr ((b, r), s')"
      by (auto simp: ObjectStatMap_Release_stat_def res_simps)
    then show "om_inv s'" using om_inv_Release [OF inv] by blast
    from rel show "r = map_option decr_ref (ObjectStatMap_GetNoCount s k) \<and>
        ObjectStatMap_GetNoCount s' = (ObjectStatMap_GetNoCount s)(k := r)"
      by (auto simp: ObjectStatMap_Release_def ObjectStatMap_GetNoCount_def update_conv' Let_def
          fun_eq_iff split: option.splits if_splits) }
  { assume get: "ObjectStatMap_Get k s = Inr (r, s')"
    then show "om_inv s'" using om_inv_Get [OF inv] by blast
    from get show "r = map_option incr_ref (ObjectStatMap_GetNoCount s k) \<and>
        ObjectStatMap_GetNoCount s' = (ObjectStatMap_GetNoCount s)(k := r)"
      by (auto simp: ObjectStatMap_Get_def ObjectStatMap_GetNoCount_def update_conv' Let_def
          fun_eq_iff split: option.splits if_splits) }
qed

subsection \<open>Eviction under a disk budget\<close>

definition stat_bytes :: "stat_map \<Rightarrow> string \<Rightarrow> nat" where
  "stat_bytes m k = (case map_of m k of None \<Rightarrow> 0 | Some st \<Rightarrow> obj_size st)"

text \<open>The bytes on the local disk that belong to unused objects: what \<^verbatim>\<open>disk_used_\<close> is to count.\<close>

definition lru_bytes :: "ObjectStatMap \<Rightarrow> nat" where
  "lru_bytes m = sum_list (map (stat_bytes (om_stats m)) (lru_list m))"

definition os_inv :: "ObjectStorage \<Rightarrow> bool" where
  "os_inv s \<longleftrightarrow> om_inv (os_map s) \<and> disk_used s = lru_bytes (os_map s) \<and> disk_used s < 2 ^ 64"

lemma lru_bytes_evict:
  assumes "om_inv m" "lru_list m = ks @ [k]" "map_of (om_stats m) k = Some st"
    "lru_list m' = ks" "map_of (om_stats m') = (map_of (om_stats m))(k \<mapsto> st\<lparr>cached := kNotCached\<rparr>)"
  shows "lru_bytes m = lru_bytes m' + obj_size st"
proof -
  have "stat_bytes (om_stats m') = stat_bytes (om_stats m)"
    using assms(3,5) by (auto simp: stat_bytes_def fun_eq_iff)
  moreover have "stat_bytes (om_stats m) k = obj_size st"
    using assms(3) by (simp add: stat_bytes_def)
  ultimately show ?thesis using assms(2,4) by (simp add: lru_bytes_def)
qed

lemma Envict_loop_spec:
  assumes "os_inv s"
  shows "\<exists>s' d. ObjectStorage_Envict_loop s drop_keys = Inr (s', drop_keys @ d) \<and> os_inv s' \<and>
     disk_capacity_limit s' = disk_capacity_limit s \<and>
     using_list (os_map s') = using_list (os_map s) \<and>
     lru_list (os_map s) = lru_list (os_map s') @ rev d \<and>
     (disk_used s' \<le> disk_capacity_limit s \<or> lru_list (os_map s') = [])"
  using assms
proof (induction s drop_keys rule: ObjectStorage_Envict_loop.induct)
  case (1 s drop_keys)
  show ?case
  proof (cases "disk_used s > disk_capacity_limit s")
    case False
    then show ?thesis using "1.prems"
      by (intro exI [of _ s] exI [of _ "[]"]) (simp add: ObjectStorage_Envict_loop.simps)
  next
    case over: True
    show ?thesis
    proof (cases "lru_list (os_map s)" rule: rev_cases)
      case Nil
      then have "ObjectStatMap_EnvictLast (os_map s) = Inr (None, os_map s)"
        by (simp add: ObjectStatMap_EnvictLast_def)
      then show ?thesis using over Nil "1.prems"
        by (intro exI [of _ s] exI [of _ "[]"]) (simp add: ObjectStorage_Envict_loop.simps)
    next
      case (snoc ks k)
      have inv: "om_inv (os_map s)" using "1.prems" by (simp add: os_inv_def)
      obtain st m' where e: "map_of (om_stats (os_map s)) k = Some st"
        "ObjectStatMap_EnvictLast (os_map s) = Inr (Some (k, st\<lparr>cached := kNotCached\<rparr>), m')"
        "om_inv m'" "lru_list m' = ks" "using_list m' = using_list (os_map s)"
        "map_of (om_stats m') = (map_of (om_stats (os_map s)))(k \<mapsto> st\<lparr>cached := kNotCached\<rparr>)"
        by (rule EnvictLast_inv [OF inv snoc])
      let ?s1 = "s\<lparr>os_map := m', disk_used := u64_sub (disk_used s) (obj_size st)\<rparr>"
      have bytes: "disk_used s = lru_bytes m' + obj_size st"
        using lru_bytes_evict [OF inv snoc e(1,4,6)] "1.prems" by (simp add: os_inv_def)
      moreover have "disk_used s < 2 ^ 64" using "1.prems" by (simp add: os_inv_def)
      ultimately have "u64_sub (disk_used s) (obj_size st) = lru_bytes m'"
        by (simp add: u64_sub_id)
      then have inv1: "os_inv ?s1"
        using e(3) bytes \<open>disk_used s < 2 ^ 64\<close> by (simp add: os_inv_def)
      obtain s' d where ih: "ObjectStorage_Envict_loop ?s1 (drop_keys @ [k]) = Inr (s', drop_keys @ [k] @ d)"
        "os_inv s'" "disk_capacity_limit s' = disk_capacity_limit s"
        "using_list (os_map s') = using_list (os_map s)" "ks = lru_list (os_map s') @ rev d"
        "disk_used s' \<le> disk_capacity_limit s \<or> lru_list (os_map s') = []"
        using "1.IH" [OF over e(2) refl refl refl] inv1 e(4,5) by auto
      have "ObjectStorage_Envict_loop s drop_keys = Inr (s', drop_keys @ k # d)"
        using over e(2) ih(1) by (simp add: ObjectStorage_Envict_loop.simps [of s])
      then show ?thesis using ih snoc by (intro exI [of _ s'] exI [of _ "k # d"]) simp
    qed
  qed
qed

lemma ObjectStorage_Get_first:
  assumes inv: "os_inv s" and st: "map_of (om_stats (os_map s)) k = Some st" "ref_count st = 0" "cached st = kCached"
  obtains s1 where "ObjectStorage_Get k s = Inr (Some (incr_ref st), s1)" "os_inv s1"
    "map_of (om_stats (os_map s1)) k = Some (incr_ref st)" "lru_bytes (os_map s) = lru_bytes (os_map s1) + obj_size st"
proof -
  let ?m = "os_map s"
  have om: "om_inv ?m" using inv by (simp add: os_inv_def)
  have k: "k \<in> set (lru_list ?m)" using om_inv_lists(3) [OF om st(1)] st by simp
  let ?m1 = "?m\<lparr>om_stats := AList.update k (incr_ref st) (om_stats ?m), lru_list := remove1 k (lru_list ?m),
                using_list := k # using_list ?m\<rparr>"
  have get: "ObjectStatMap_Get k ?m = Inr (Some (incr_ref st), ?m1)"
    using st k by (simp add: ObjectStatMap_Get_def)
  have same: "stat_bytes (om_stats ?m1) = stat_bytes (om_stats ?m)"
    using st(1) by (auto simp: stat_bytes_def update_conv' fun_eq_iff)
  have bytes: "lru_bytes ?m = lru_bytes ?m1 + obj_size st"
    using same st(1) sum_list_map_remove1 [OF k, of "stat_bytes (om_stats ?m)"] by (simp add: lru_bytes_def stat_bytes_def)
  have d: "disk_used s = lru_bytes ?m" "disk_used s < 2 ^ 64" using inv by (simp_all add: os_inv_def)
  then have sub: "u64_sub (disk_used s) (obj_size st) = lru_bytes ?m1" using bytes by (simp add: u64_sub_id)
  show thesis
    by (rule that [of "s\<lparr>os_map := ?m1, disk_used := lru_bytes ?m1\<rparr>"])
       (use get sub bytes d om_inv_Get [OF om get] in \<open>simp_all add: ObjectStorage_Get_def os_inv_def update_conv'\<close>)
qed

subsection \<open>Properties\<close>

text \<open>A table with one unused object of ten bytes, for the witnesses.\<close>

definition demo_map :: ObjectStatMap where
  "demo_map = ObjectStatMap_PutNew ''k'' (ObjStat_new 10 1 0) ObjectStatMap_empty"

lemma demo_map_inv: "om_inv demo_map"
  unfolding demo_map_def
  by (rule om_inv_PutNew [OF om_inv_empty]) (simp_all add: ObjectStatMap_empty_def ObjStat_new_def)

lemma demo_map_eq: "demo_map = \<lparr>om_stats = [(''k'', ObjStat_new 10 1 0)], lru_list = [''k''], using_list = [],
    cleanuped_list = []\<rparr>"
  by (simp add: demo_map_def ObjectStatMap_PutNew_def ObjectStatMap_empty_def)

text \<open>Reference counting is balanced.  From a consistent table, after taking references to a list
  of keys, releasing the same keys the same number of times in any order succeeds, leaves the table
  consistent and gives every object the statistics it had before.\<close>

lemma ObjectStatMap_references_balanced:
  assumes "om_inv m"
    and "rfold (\<lambda>k s. rbind (ObjectStatMap_Get k s) (\<lambda>(r, s').
           if r = None then Inl (UnrecoverableError ''object not found'') else Inr s')) ks m = Inr m1"
    and "mset ks' = mset ks"
  shows "\<exists>m2. rfold (\<lambda>k s. rbind (ObjectStatMap_Release_stat k s) (\<lambda>(r, s').
           if r = None then Inl (UnrecoverableError ''object not found'') else Inr s')) ks' m1 = Inr m2 \<and>
         om_inv m2 \<and> map_of (om_stats m2) = map_of (om_stats m)"
proof -
  have "\<forall>k. count_list ks' k = count_list ks k" using assms(3) by (simp flip: count_mset)
  from lru_table.balanced [OF assms(1) _ this, unfolded lru_table.get_all_def, OF assms(2)]
  show ?thesis by (simp add: lru_table.release_all_def ObjectStatMap_GetNoCount_def fun_eq_iff)
qed

lemma ObjectStatMap_references_balanced_example:
  "\<exists>m1 m2. rfold (\<lambda>k s. rbind (ObjectStatMap_Get k s) (\<lambda>(r, s').
       if r = None then Inl (UnrecoverableError ''object not found'') else Inr s')) [''k'', ''k''] demo_map = Inr m1 \<and>
     rfold (\<lambda>k s. rbind (ObjectStatMap_Release_stat k s) (\<lambda>(r, s').
       if r = None then Inl (UnrecoverableError ''object not found'') else Inr s')) [''k'', ''k''] m1 = Inr m2 \<and> om_inv m2"
proof -
  have "\<exists>m1. rfold (\<lambda>k s. rbind (ObjectStatMap_Get k s) (\<lambda>(r, s').
       if r = None then Inl (UnrecoverableError ''object not found'') else Inr s')) [''k'', ''k''] demo_map = Inr m1"
    by (simp add: demo_map_eq ObjectStatMap_Get_def ObjStat_new_def incr_ref_def)
  then show ?thesis using ObjectStatMap_references_balanced [OF demo_map_inv _ refl] by blast
qed

text \<open>(C5) Eviction terminates, never touches an object in use, and stops only when the disk budget
  holds or nothing evictable is left.  The evicted keys are the least recently used ones, in that
  order, and the byte count stays exact.\<close>

theorem ObjectStorage_Envict_correct:
  assumes "os_inv s"
  shows "\<exists>ok s' d. ObjectStorage_Envict s drop_keys = Inr (ok, s', drop_keys @ d) \<and> os_inv s' \<and>
     using_list (os_map s') = using_list (os_map s) \<and>
     lru_list (os_map s) = lru_list (os_map s') @ rev d \<and>
     (ok \<longleftrightarrow> disk_used s' \<le> disk_capacity_limit s) \<and> (\<not> ok \<longrightarrow> lru_list (os_map s') = [])"
  using Envict_loop_spec [OF assms, of drop_keys] by (auto simp: ObjectStorage_Envict_def)

definition demo_storage :: ObjectStorage where
  "demo_storage = \<lparr>os_map = demo_map, disk_capacity_limit = 4, disk_used = 10\<rparr>"

lemma demo_storage_inv: "os_inv demo_storage"
  using demo_map_inv by (simp add: os_inv_def demo_storage_def lru_bytes_def demo_map_eq stat_bytes_def ObjStat_new_def)

theorem ObjectStorage_Envict_correct_witness:
  "\<exists>ok s'. ObjectStorage_Envict demo_storage [] = Inr (ok, s', [''k'']) \<and> os_inv s'"
proof -
  have "\<exists>ok s'. ObjectStorage_Envict demo_storage [] = Inr (ok, s', [''k''])"
    by (auto simp: ObjectStorage_Envict_def ObjectStorage_Envict_loop.simps ObjectStatMap_EnvictLast_def
        demo_storage_def demo_map_eq ObjStat_new_def u64_sub_def Let_def)
  then show ?thesis using ObjectStorage_Envict_correct [OF demo_storage_inv, of "[]"] by auto
qed

text \<open>The disk accounting of \<^verbatim>\<open>ObjectStatAccessor_ObjectStorage::Get\<close> holds for the first
  reference only: taking a second reference to an object subtracts its size again although the
  object left the evictable list with the first one, so that either \<^verbatim>\<open>Get\<close> raises or
  \<^verbatim>\<open>disk_used_\<close> is too small by the size of the object.\<close>

lemma ObjectStorage_second_Get_undercounts:
  assumes "os_inv s" and "map_of (om_stats (os_map s)) k = Some st"
    and "ref_count st = 0" and "cached st = kCached" and "0 < obj_size st"
  shows "\<exists>s1. ObjectStorage_Get k s = Inr (Some (incr_ref st), s1) \<and> os_inv s1 \<and>
     (case ObjectStorage_Get k s1 of
        Inl e \<Rightarrow> disk_used s1 < obj_size st
      | Inr (r, s2) \<Rightarrow> disk_used s2 + obj_size st = lru_bytes (os_map s2))"
proof -
  obtain s1 where s1: "ObjectStorage_Get k s = Inr (Some (incr_ref st), s1)" "os_inv s1"
    "map_of (om_stats (os_map s1)) k = Some (incr_ref st)"
    by (rule ObjectStorage_Get_first [OF assms(1-4)])
  let ?m2 = "os_map s1\<lparr>om_stats := AList.update k (incr_ref (incr_ref st)) (om_stats (os_map s1))\<rparr>"
  have "stat_bytes (om_stats ?m2) = stat_bytes (om_stats (os_map s1))"
    using s1(3) by (auto simp: stat_bytes_def update_conv' fun_eq_iff)
  then have "lru_bytes ?m2 = disk_used s1" "disk_used s1 < 2 ^ 64"
    using s1(2) by (simp_all add: lru_bytes_def os_inv_def)
  then have "case ObjectStorage_Get k s1 of Inl e \<Rightarrow> disk_used s1 < obj_size st
      | Inr (r, s2) \<Rightarrow> disk_used s2 + obj_size st = lru_bytes (os_map s2)"
    using s1(3) by (simp add: ObjectStorage_Get_def ObjectStatMap_Get_def u64_sub_id)
  then show ?thesis using s1 by blast
qed

lemma ObjectStorage_second_Get_undercounts_example:
  "\<exists>s1 e. ObjectStorage_Get ''k'' demo_storage = Inr (Some (incr_ref (ObjStat_new 10 1 0)), s1) \<and>
     ObjectStorage_Get ''k'' s1 = Inl e"
proof -
  obtain s1 where s1: "ObjectStorage_Get ''k'' demo_storage = Inr (Some (incr_ref (ObjStat_new 10 1 0)), s1)"
    using ObjectStorage_second_Get_undercounts [OF demo_storage_inv, of "''k''" "ObjStat_new 10 1 0"]
    by (auto simp: demo_storage_def demo_map_eq ObjStat_new_def)
  then have "\<exists>e. ObjectStorage_Get ''k'' s1 = Inl e"
    by (auto simp: ObjectStorage_Get_def ObjectStatMap_Get_def demo_storage_def demo_map_eq ObjStat_new_def
        incr_ref_def u64_sub_def)
  with s1 show ?thesis by blast
qed

end
