(* ===== verification/Persistence_Manager.thy ===== *)
theory Persistence_Manager
  imports Obj_Stat_Accessor
begin

text \<open>
  \<^verbatim>\<open>src/src/storage/persistence/persistence_manager.cpp\<close> and \<^verbatim>\<open>persist_result_handler.cpp\<close>: files of
  the data directory are stored as parts of larger objects.  A small file is appended to the
  current, unsealed object at an offset aligned to eight bytes; a large one becomes an object of
  its own.  The manager keeps, for every local path, the address of its part, and for every sealed
  object the ranges whose files were cleaned up; when all of an object is deleted the object goes.

  The state is the C++ object plus the disk (\<open>fs\<close>, from paths to contents).  \<^verbatim>\<open>ObjCreate\<close> returns
  a random UUID: the model draws the next name from the sequence \<open>uuids\<close>, and the theorems assume
  what a UUID promises, that no two draws are equal (\<open>uuids_fresh\<close>).  The public operations hold
  \<^verbatim>\<open>mtx_\<close> while they touch the state and are modelled as atomic; \<^verbatim>\<open>Persist\<close> takes the lock twice, and
  the interleaving of another operation between its cleanup and its insertion is not modelled.  I/O failures of
  the operating system other than a missing file are not modelled; logging is left out.
  Offsets and sizes are natural numbers (the C++ type is a 64-bit \<^verbatim>\<open>SizeT\<close>, see \<open>align8\<close>); the casts
  to 32-bit \<^verbatim>\<open>int\<close> in the room computation are written out.
\<close>

subsection \<open>State\<close>

record ObjAddr =
  obj_key :: string
  part_offset :: nat
  part_size :: nat

definition KeyEmpty :: string where
  "KeyEmpty = ''KEY_EMPTY''"

definition ObjAddr_default :: ObjAddr where
  "ObjAddr_default = \<lparr>obj_key = [], part_offset = 0, part_size = 0\<rparr>"

definition ObjAddr_Valid :: "ObjAddr \<Rightarrow> bool" where
  "ObjAddr_Valid a \<longleftrightarrow> obj_key a \<noteq> []"

record PersistWriteResult =
  pw_obj_addr :: ObjAddr
  persist_keys :: "string list"
  drop_keys :: "string list"
  drop_from_remote_keys :: "string list"

definition PersistWriteResult_default :: PersistWriteResult where
  "PersistWriteResult_default =
     \<lparr>pw_obj_addr = ObjAddr_default, persist_keys = [], drop_keys = [], drop_from_remote_keys = []\<rparr>"

record PersistReadResult =
  pr_obj_addr :: ObjAddr
  pr_obj_stat :: "ObjStat option"

type_synonym disk = "string \<rightharpoonup> byte list"

record PersistenceManager =
  workspace :: string
  local_data_dir :: string
  object_size_limit :: nat
  objects :: stat_map
  local_path_obj :: "(string \<times> ObjAddr) list"
  current_object_key :: string
  current_object_size :: nat
  current_object_parts :: nat
  current_object_ref_count :: nat
  fs :: disk
  uuids :: "nat \<Rightarrow> string"
  uuid_count :: nat

subsection \<open>Paths and names\<close>

definition starts_with :: "string \<Rightarrow> string \<Rightarrow> bool" where
  "starts_with s p \<longleftrightarrow> take (length p) s = p"

text \<open>\<^verbatim>\<open>std::filesystem::path::append\<close>: an absolute operand replaces the path, a separator is added
  unless there is one.\<close>

definition path_append :: "string \<Rightarrow> string \<Rightarrow> string" where
  "path_append p k =
     (if starts_with k ''/'' then k
      else if p = [] \<or> last p = CHR ''/'' then p @ k else p @ ''/'' @ k)"

definition GetObjPath :: "PersistenceManager \<Rightarrow> string \<Rightarrow> string" where
  "GetObjPath pm key = path_append (workspace pm) key"

definition RemovePrefix :: "PersistenceManager \<Rightarrow> string \<Rightarrow> string" where
  "RemovePrefix pm path =
     (if starts_with path (local_data_dir pm) then drop (length (local_data_dir pm)) path
      else if \<not> starts_with path ''/'' then path
      else [])"

definition ObjCreate :: "PersistenceManager \<Rightarrow> string \<times> PersistenceManager" where
  "ObjCreate pm = (uuids pm (uuid_count pm), pm\<lparr>uuid_count := Suc (uuid_count pm)\<rparr>)"

text \<open>The constructor creates the empty object with \<^verbatim>\<open>VirtualStore::Truncate\<close>, which refuses a path that is not absolute.\<close>

definition PersistenceManager_new ::
    "string \<Rightarrow> string \<Rightarrow> nat \<Rightarrow> bool \<Rightarrow> (nat \<Rightarrow> string) \<Rightarrow> disk \<Rightarrow> PersistenceManager res" where
  "PersistenceManager_new ws data_dir limit local_storage names disk =
     (if \<not> local_storage then Inl (UnrecoverableError ''Remote storage is not supported yet.'')
      else
        let dir = (if data_dir = [] \<or> last data_dir \<noteq> CHR ''/'' then data_dir @ ''/'' else data_dir);
            read_path_empty = path_append ws KeyEmpty
        in if \<not> starts_with read_path_empty ''/'' then Inl (UnrecoverableError ''path is not absolute'')
           else Inr \<lparr>workspace = ws, local_data_dir = dir, object_size_limit = limit, objects = [],
                local_path_obj = [], current_object_key = names 0, current_object_size = 0,
                current_object_parts = 0, current_object_ref_count = 0,
                fs = disk(read_path_empty \<mapsto> []), uuids = names, uuid_count = 1\<rparr>)"

subsection \<open>The current object\<close>

definition CurrentObjRoomNoLock :: "PersistenceManager \<Rightarrow> int" where
  "CurrentObjRoomNoLock pm =
     to_i32 (to_i32 (int (object_size_limit pm)) - to_i32 (int (current_object_size pm)))"

definition disk_content :: "disk \<Rightarrow> string \<Rightarrow> byte list" where
  "disk_content d p = (case d p of None \<Rightarrow> [] | Some c \<Rightarrow> c)"

text \<open>The file of the current object is padded with zeros up to the aligned size and the source
  is copied behind it, block by block; opening it for append creates it.\<close>

definition CurrentObjAppendNoLock ::
    "string \<Rightarrow> nat \<Rightarrow> PersistenceManager \<Rightarrow> PersistenceManager res" where
  "CurrentObjAppendNoLock tmp_file_path file_size pm =
     (case fs pm tmp_file_path of
        None \<Rightarrow> Inl (UnrecoverableError ''Failed to open source file'')
      | Some src \<Rightarrow>
          let dst = GetObjPath pm (current_object_key pm);
              old = disk_content (fs pm) dst;
              padding = replicate (current_object_size pm - length old) 0;
              pm' = pm\<lparr>fs := (fs pm)(dst \<mapsto> old @ padding @ src),
                       current_object_size := current_object_size pm + file_size,
                       current_object_parts := current_object_parts pm + 1\<rparr>
          in if current_object_size pm' \<ge> object_size_limit pm'
             then Inl (UnrecoverableError ''CurrentObjAppendNoLock object size exceeds limit'')
             else Inr pm')"

text \<open>Sealing: a footer for a composed object, an entry in the object table, a new current object.
  The first component of the result is \<^verbatim>\<open>persist_keys\<close>.\<close>

definition CurrentObjFinalizeNoLock ::
    "string list \<Rightarrow> PersistenceManager \<Rightarrow> (string list \<times> PersistenceManager) res" where
  "CurrentObjFinalizeNoLock keys pm =
     (if current_object_size pm > 0 then
        let dst = GetObjPath pm (current_object_key pm);
            fs1 = (if current_object_parts pm > 1
                   then (fs pm)(dst \<mapsto> disk_content (fs pm) dst @ WriteBufAdv_pod 4 1)
                   else fs pm)
        in rbind (LocalStorage_PutNew (current_object_key pm)
                    (ObjStat_new (current_object_size pm) (current_object_parts pm)
                       (current_object_ref_count pm)) (objects pm)) (\<lambda>objs.
             let (key, pm1) = ObjCreate (pm\<lparr>fs := fs1, objects := objs\<rparr>)
             in Inr (keys @ [current_object_key pm],
                     pm1\<lparr>current_object_key := key, current_object_size := 0,
                         current_object_parts := 0, current_object_ref_count := 0\<rparr>))
      else Inr (keys, pm))"

text \<open>\<^verbatim>\<open>CheckValid\<close> only writes to the log: the model returns the local paths without an object and
  the range reports of the objects.\<close>

definition PersistenceManager_CheckValid :: "PersistenceManager \<Rightarrow> string list \<times> (string \<times> range_report) list" where
  "PersistenceManager_CheckValid pm =
     (map fst (filter (\<lambda>(path, a). obj_key a \<noteq> KeyEmpty \<and>
                          LocalStorage_GetNoCount (objects pm) (obj_key a) = None) (local_path_obj pm)),
      LocalStorage_CheckValid (current_object_size pm) (objects pm))"

definition CurrentObjFinalize ::
    "bool \<Rightarrow> PersistenceManager \<Rightarrow>
       (PersistWriteResult \<times> (string list \<times> (string \<times> range_report) list) \<times> PersistenceManager) res" where
  "CurrentObjFinalize validate pm =
     rbind (CurrentObjFinalizeNoLock [] pm) (\<lambda>(keys, pm').
       Inr (PersistWriteResult_default\<lparr>persist_keys := keys\<rparr>,
            if validate then PersistenceManager_CheckValid pm' else ([], []), pm'))"

subsection \<open>Cleanup\<close>

definition cleanup_in_object ::
    "ObjAddr \<Rightarrow> ObjStat \<Rightarrow> string list \<Rightarrow> bool \<Rightarrow> PersistenceManager \<Rightarrow>
       (string list \<times> PersistenceManager) res" where
  "cleanup_in_object a st remote check_ref_count pm =
     (let range_end = align8 (part_offset a + part_size a);
          orig = \<lparr>r_start = part_offset a, r_end = range_end\<rparr>
      in rbind (delete_range (deleted_ranges st) orig) (\<lambda>(rs, inserted).
           let pm' = pm\<lparr>objects := AList.update (obj_key a) (st\<lparr>deleted_ranges := rs\<rparr>) (objects pm)\<rparr>
           in case inserted of
                None \<Rightarrow> Inr (remote, pm')
              | Some rng \<Rightarrow>
                  if r_start rng = 0 \<and> r_end rng = align8 (obj_size st) \<and>
                     obj_key a \<noteq> current_object_key pm
                  then if obj_key a = [] then Inl (UnrecoverableError ''Failed to find object key'')
                       else if check_ref_count \<and> ref_count st > 0
                       then Inl (UnrecoverableError ''CleanupNoLock object ref count is positive'')
                       else Inr (remote @ [obj_key a],
                                 pm'\<lparr>objects := snd (LocalStorage_Invalidate (obj_key a) (objects pm'))\<rparr>)
                  else Inr (remote, pm')))"

text \<open>The first two components of the result are \<^verbatim>\<open>persist_keys\<close> and \<^verbatim>\<open>drop_from_remote_keys\<close>.\<close>

definition CleanupNoLock ::
    "ObjAddr \<Rightarrow> string list \<Rightarrow> string list \<Rightarrow> bool \<Rightarrow> PersistenceManager \<Rightarrow>
       (string list \<times> string list \<times> PersistenceManager) res" where
  "CleanupNoLock a keys remote check_ref_count pm =
     (case LocalStorage_GetNoCount (objects pm) (obj_key a) of
        Some st \<Rightarrow>
          rbind (cleanup_in_object a st remote check_ref_count pm) (\<lambda>(remote', pm').
            Inr (keys, remote', pm'))
      | None \<Rightarrow>
          if obj_key a = KeyEmpty then
            if part_size a = 0 then Inr (keys, remote, pm)
            else Inl (AssertionFailure ''object_addr.part_size_ == 0'')
          else if obj_key a = current_object_key pm then
            rbind (CurrentObjFinalizeNoLock keys pm) (\<lambda>(keys', pm1).
              case LocalStorage_GetNoCount (objects pm1) (obj_key a) of
                None \<Rightarrow> Inl (AssertionFailure ''obj_stat != nullptr'')
              | Some st \<Rightarrow>
                  rbind (cleanup_in_object a st remote check_ref_count pm1) (\<lambda>(remote', pm').
                    Inr (keys', remote', pm')))
          else Inl (UnrecoverableError ''CleanupNoLock Failed to find object''))"

definition Cleanup :: "string \<Rightarrow> PersistenceManager \<Rightarrow> (PersistWriteResult \<times> PersistenceManager) res" where
  "Cleanup file_path pm =
     (let local_path = RemovePrefix pm file_path
      in if local_path = [] then Inl (UnrecoverableError ''Failed to find local path'')
         else case map_of (local_path_obj pm) local_path of
           None \<Rightarrow> Inr (PersistWriteResult_default, pm)
         | Some a \<Rightarrow>
             rbind (CleanupNoLock a [] [] True pm) (\<lambda>(keys, remote, pm').
               Inr (PersistWriteResult_default\<lparr>persist_keys := keys, drop_from_remote_keys := remote\<rparr>,
                    pm'\<lparr>local_path_obj := AList.delete local_path (local_path_obj pm')\<rparr>)))"

subsection \<open>Persisting a file\<close>

definition persist_empty ::
    "string \<Rightarrow> string \<Rightarrow> PersistWriteResult \<Rightarrow> PersistenceManager \<Rightarrow>
       (PersistWriteResult \<times> PersistenceManager) res" where
  "persist_empty local_path tmp_file_path result pm =
     (let a = \<lparr>obj_key = KeyEmpty, part_offset = 0, part_size = 0\<rparr>
      in Inr (result\<lparr>persist_keys := persist_keys result @ [KeyEmpty], pw_obj_addr := a\<rparr>,
              pm\<lparr>fs := (fs pm)(tmp_file_path := None),
                 local_path_obj := AList.update local_path a (local_path_obj pm)\<rparr>))"

definition persist_dedicated ::
    "string \<Rightarrow> string \<Rightarrow> nat \<Rightarrow> PersistWriteResult \<Rightarrow> PersistenceManager \<Rightarrow>
       (PersistWriteResult \<times> PersistenceManager) res" where
  "persist_dedicated local_path tmp_file_path src_size result pm =
     (let (key, pm1) = ObjCreate pm;
          fs1 = (fs pm1)(GetObjPath pm1 key := fs pm1 tmp_file_path, tmp_file_path := None);
          a = \<lparr>obj_key = key, part_offset = 0, part_size = src_size\<rparr>
      in rbind (LocalStorage_PutNew key (ObjStat_new src_size 1 0) (objects pm1)) (\<lambda>objs.
           Inr (result\<lparr>persist_keys := persist_keys result @ [key], pw_obj_addr := a\<rparr>,
                pm1\<lparr>fs := fs1, objects := objs,
                    local_path_obj := AList.update local_path a (local_path_obj pm1)\<rparr>)))"

definition persist_compose ::
    "string \<Rightarrow> string \<Rightarrow> nat \<Rightarrow> PersistWriteResult \<Rightarrow> PersistenceManager \<Rightarrow>
       (PersistWriteResult \<times> PersistenceManager) res" where
  "persist_compose local_path tmp_file_path src_size result pm =
     rbind (if to_i32 (int src_size) \<ge> CurrentObjRoomNoLock pm
            then CurrentObjFinalizeNoLock (persist_keys result) pm
            else Inr (persist_keys result, pm)) (\<lambda>(keys, pm1).
       let pm2 = pm1\<lparr>current_object_size := align8 (current_object_size pm1)\<rparr>;
           a = \<lparr>obj_key = current_object_key pm2, part_offset = current_object_size pm2,
                part_size = src_size\<rparr>
       in rbind (CurrentObjAppendNoLock tmp_file_path src_size pm2) (\<lambda>pm3.
            Inr (result\<lparr>persist_keys := keys, pw_obj_addr := a\<rparr>,
                 pm3\<lparr>fs := (fs pm3)(tmp_file_path := None),
                     local_path_obj := AList.update local_path a (local_path_obj pm3)\<rparr>)))"

definition persist_cleanup_old ::
    "string \<Rightarrow> PersistenceManager \<Rightarrow> (PersistWriteResult \<times> PersistenceManager) res" where
  "persist_cleanup_old local_path pm =
     (case map_of (local_path_obj pm) local_path of
        None \<Rightarrow> Inr (PersistWriteResult_default, pm)
      | Some old \<Rightarrow>
          rbind (CleanupNoLock old [] [] False pm) (\<lambda>(keys, remote, pm').
            Inr (PersistWriteResult_default\<lparr>persist_keys := keys, drop_from_remote_keys := remote\<rparr>, pm')))"

definition Persist ::
    "string \<Rightarrow> string \<Rightarrow> bool \<Rightarrow> PersistenceManager \<Rightarrow> (PersistWriteResult \<times> PersistenceManager) res" where
  "Persist file_path tmp_file_path try_compose pm =
     (let local_path = RemovePrefix pm file_path
      in if local_path = [] then Inl (UnrecoverableError ''Failed to find local path'')
         else rbind (persist_cleanup_old local_path pm) (\<lambda>(result, pm1).
           case fs pm1 tmp_file_path of
             None \<Rightarrow> Inl (UnrecoverableError ''Failed to get file size'')
           | Some src \<Rightarrow>
               let src_size = length src
               in if src_size = 0 then persist_empty local_path tmp_file_path result pm1
                  else if \<not> try_compose \<or> src_size \<ge> object_size_limit pm1
                  then persist_dedicated local_path tmp_file_path src_size result pm1
                  else persist_compose local_path tmp_file_path src_size result pm1))"

subsection \<open>Reading\<close>

definition GetObjCache :: "string \<Rightarrow> PersistenceManager \<Rightarrow> (PersistReadResult \<times> PersistenceManager) res" where
  "GetObjCache file_path pm =
     (let local_path = RemovePrefix pm file_path
      in if local_path = [] then Inl (UnrecoverableError ''Failed to find local path'')
         else case map_of (local_path_obj pm) local_path of
           None \<Rightarrow> Inr (\<lparr>pr_obj_addr = ObjAddr_default, pr_obj_stat = None\<rparr>, pm)
         | Some a \<Rightarrow>
             if part_size a = 0 then
               if obj_key a \<noteq> KeyEmpty then Inl (UnrecoverableError ''GetObjCache object is empty'')
               else Inr (\<lparr>pr_obj_addr = a, pr_obj_stat = None\<rparr>, pm)
             else rbind (LocalStorage_Get (obj_key a) (objects pm)) (\<lambda>(r, objs).
               case r of
                 Some st \<Rightarrow>
                   if fs pm (GetObjPath pm (obj_key a)) = None then
                     let st' = (if cached st = kCached then st\<lparr>cached := kNotCached\<rparr> else st)
                     in Inr (\<lparr>pr_obj_addr = a, pr_obj_stat = Some st'\<rparr>,
                             pm\<lparr>objects := AList.update (obj_key a) st' objs\<rparr>)
                   else Inr (\<lparr>pr_obj_addr = a, pr_obj_stat = None\<rparr>, pm\<lparr>objects := objs\<rparr>)
               | None \<Rightarrow>
                   if obj_key a \<noteq> current_object_key pm
                   then Inl (UnrecoverableError ''GetObjCache object not found'')
                   else Inr (\<lparr>pr_obj_addr = a, pr_obj_stat = None\<rparr>,
                             pm\<lparr>current_object_ref_count := current_object_ref_count pm + 1\<rparr>)))"

definition PutObjCache :: "string \<Rightarrow> PersistenceManager \<Rightarrow> (PersistWriteResult \<times> PersistenceManager) res" where
  "PutObjCache file_path pm =
     (let local_path = RemovePrefix pm file_path
      in if local_path = [] then Inl (UnrecoverableError ''Failed to find file path'')
         else case map_of (local_path_obj pm) local_path of
           None \<Rightarrow> Inl (UnrecoverableError ''Failed to find stored object'')
         | Some a \<Rightarrow>
             if part_size a = 0 then Inr (PersistWriteResult_default, pm)
             else rbind (LocalStorage_Release (obj_key a) (objects pm)) (\<lambda>(r, objs).
               case r of
                 None \<Rightarrow>
                   if obj_key a \<noteq> current_object_key pm
                   then Inl (UnrecoverableError ''PutObjCache object not found'')
                   else if current_object_ref_count pm = 0
                   then Inl (UnrecoverableError ''PutObjCache object ref count is 0'')
                   else Inr (PersistWriteResult_default,
                             pm\<lparr>current_object_ref_count := current_object_ref_count pm - 1\<rparr>)
               | Some st \<Rightarrow> Inr (PersistWriteResult_default, pm\<lparr>objects := objs\<rparr>)))"

definition GetFileSize :: "string \<Rightarrow> PersistenceManager \<Rightarrow> (nat option) res" where
  "GetFileSize file_path pm =
     (let local_path = RemovePrefix pm file_path
      in if local_path = [] then Inl (UnrecoverableError ''Failed to find local path'')
         else Inr (map_option part_size (map_of (local_path_obj pm) local_path)))"

definition GetObjCacheWithoutCnt :: "string \<Rightarrow> PersistenceManager \<Rightarrow> ObjAddr res" where
  "GetObjCacheWithoutCnt file_path pm =
     (let local_path = RemovePrefix pm file_path
      in if local_path = [] then Inl (UnrecoverableError ''Failed to find local path'')
         else case map_of (local_path_obj pm) local_path of
           None \<Rightarrow> Inr ObjAddr_default
         | Some a \<Rightarrow> Inr a)"

definition GetObjStatByObjAddr :: "ObjAddr \<Rightarrow> PersistenceManager \<Rightarrow> ObjStat" where
  "GetObjStatByObjAddr a pm =
     (case LocalStorage_GetNoCount (objects pm) (obj_key a) of
        None \<Rightarrow> ObjStat_default
      | Some st \<Rightarrow> st)"

definition SaveLocalPath :: "string \<Rightarrow> ObjAddr \<Rightarrow> PersistenceManager \<Rightarrow> PersistenceManager res" where
  "SaveLocalPath file_path a pm =
     (let local_path = RemovePrefix pm file_path
      in if local_path = [] then Inl (UnrecoverableError ''Failed to find local path'')
         else Inr (pm\<lparr>local_path_obj := AList.update local_path a (local_path_obj pm)\<rparr>))"

definition SaveObjStat :: "ObjAddr \<Rightarrow> ObjStat \<Rightarrow> PersistenceManager \<Rightarrow> PersistenceManager" where
  "SaveObjStat a st pm = pm\<lparr>objects := LocalStorage_PutNoCount (obj_key a) st (objects pm)\<rparr>"

text \<open>\<^verbatim>\<open>PersistResultHandler::HandleWriteResult\<close>: the dropped objects leave the local disk; a leader or
  standalone node also uploads the new objects to the object store and removes the dropped ones
  from it.  \<open>remote\<close> is the content of the object store.\<close>

definition HandleWriteResult ::
    "bool \<Rightarrow> PersistWriteResult \<Rightarrow> PersistenceManager \<Rightarrow> disk \<Rightarrow> PersistenceManager \<times> disk" where
  "HandleWriteResult leader_or_standalone result pm remote =
     (let remote1 = (if leader_or_standalone
                     then fold (\<lambda>key r. r(key := fs pm (GetObjPath pm key))) (persist_keys result) remote
                     else remote);
          fs1 = fold (\<lambda>key f. f(GetObjPath pm key := None)) (drop_keys result) (fs pm);
          fs2 = fold (\<lambda>key f. f(GetObjPath pm key := None)) (drop_from_remote_keys result) fs1;
          remote2 = (if leader_or_standalone
                     then fold (\<lambda>key r. r(key := None)) (drop_from_remote_keys result) remote1
                     else remote1)
      in (pm\<lparr>fs := fs2\<rparr>, remote2))"

end
