(* ===== verification/Persistence_Invariant.thy ===== *)
theory Persistence_Invariant
  imports Persistence_Manager
begin

text \<open>
  The invariant of the persistence manager and its preservation.  It says that the addresses of
  the local paths are parts of existing objects, aligned, pairwise disjoint and untouched by
  deletion, that the object table and the disk agree, and that the names drawn so far are the only
  ones in use.  The statements take the table of live paths as a parameter \<open>L\<close>, because
  \<^verbatim>\<open>Persist\<close> and \<^verbatim>\<open>Cleanup\<close> drop a path from it before the entry itself is overwritten or erased.
\<close>

subsection \<open>Definitions\<close>

definition uuids_fresh :: "(nat \<Rightarrow> string) \<Rightarrow> bool" where
  "uuids_fresh names \<longleftrightarrow>
     inj names \<and> (\<forall>n. names n \<noteq> KeyEmpty \<and> names n \<noteq> [] \<and> \<not> starts_with (names n) ''/'')"

definition keys_ok :: "PersistenceManager \<Rightarrow> bool" where
  "keys_ok pm \<longleftrightarrow>
     uuids_fresh (uuids pm) \<and>
     current_object_key pm \<in> uuids pm ` {..<uuid_count pm} \<and>
     dom (map_of (objects pm)) \<subseteq> uuids pm ` {..<uuid_count pm} - {current_object_key pm}"

definition stat_ok :: "ObjStat \<Rightarrow> bool" where
  "stat_ok st \<longleftrightarrow>
     0 < obj_size st \<and> ranges_ok (deleted_ranges st) \<and>
     covered (deleted_ranges st) \<subseteq> {..<align8 (obj_size st)}"

definition files_ok :: "PersistenceManager \<Rightarrow> bool" where
  "files_ok pm \<longleftrightarrow>
     (\<forall>k st. map_of (objects pm) k = Some st \<longrightarrow>
        (\<exists>c. fs pm (GetObjPath pm k) = Some c \<and> obj_size st \<le> length c)) \<and>
     (if current_object_size pm = 0 then fs pm (GetObjPath pm (current_object_key pm)) = None
      else \<exists>c. fs pm (GetObjPath pm (current_object_key pm)) = Some c \<and>
               length c = current_object_size pm) \<and>
     (\<forall>i \<ge> uuid_count pm. fs pm (GetObjPath pm (uuids pm i)) = None)"

text \<open>The size of an object, sealed or current, and the positions of it that were deleted.\<close>

definition extent :: "PersistenceManager \<Rightarrow> string \<Rightarrow> nat option" where
  "extent pm k =
     (case map_of (objects pm) k of
        Some st \<Rightarrow> Some (obj_size st)
      | None \<Rightarrow> if k = current_object_key pm then Some (current_object_size pm) else None)"

definition dead :: "PersistenceManager \<Rightarrow> string \<Rightarrow> nat set" where
  "dead pm k = (case map_of (objects pm) k of Some st \<Rightarrow> covered (deleted_ranges st) | None \<Rightarrow> {})"

definition part_span :: "ObjAddr \<Rightarrow> nat set" where
  "part_span a = {part_offset a..<align8 (part_offset a + part_size a)}"

definition empty_addr :: ObjAddr where
  "empty_addr = \<lparr>obj_key = KeyEmpty, part_offset = 0, part_size = 0\<rparr>"

definition addr_ok :: "PersistenceManager \<Rightarrow> ObjAddr \<Rightarrow> bool" where
  "addr_ok pm a \<longleftrightarrow>
     a = empty_addr \<or>
     0 < part_size a \<and> 8 dvd part_offset a \<and> obj_key a \<noteq> KeyEmpty \<and>
     (\<exists>n. extent pm (obj_key a) = Some n \<and> part_offset a + part_size a \<le> n) \<and>
     part_span a \<inter> dead pm (obj_key a) = {}"

definition live_disjoint :: "(string \<rightharpoonup> ObjAddr) \<Rightarrow> bool" where
  "live_disjoint L \<longleftrightarrow>
     (\<forall>p q a b. L p = Some a \<longrightarrow> L q = Some b \<longrightarrow> p \<noteq> q \<longrightarrow> obj_key a = obj_key b \<longrightarrow>
        part_span a \<inter> part_span b = {})"

definition pm_inv_on :: "(string \<rightharpoonup> ObjAddr) \<Rightarrow> PersistenceManager \<Rightarrow> bool" where
  "pm_inv_on L pm \<longleftrightarrow>
     keys_ok pm \<and> (\<forall>k st. map_of (objects pm) k = Some st \<longrightarrow> stat_ok st) \<and> files_ok pm \<and>
     (\<forall>p a. L p = Some a \<longrightarrow> addr_ok pm a) \<and> live_disjoint L"

definition pm_inv :: "PersistenceManager \<Rightarrow> bool" where
  "pm_inv pm \<longleftrightarrow> pm_inv_on (map_of (local_path_obj pm)) pm"

text \<open>The bytes stored at an address, and the content of a local path.\<close>

definition part_bytes :: "PersistenceManager \<Rightarrow> ObjAddr \<Rightarrow> byte list option" where
  "part_bytes pm a =
     (if part_size a = 0 then Some []
      else map_option (\<lambda>c. take (part_size a) (drop (part_offset a) c))
             (fs pm (GetObjPath pm (obj_key a))))"

definition read_file :: "PersistenceManager \<Rightarrow> string \<Rightarrow> byte list option" where
  "read_file pm path = Option.bind (map_of (local_path_obj pm) path) (part_bytes pm)"

text \<open>\<open>pm'\<close> has the same configuration as \<open>pm\<close>.\<close>

definition same_config :: "PersistenceManager \<Rightarrow> PersistenceManager \<Rightarrow> bool" where
  "same_config pm pm' \<longleftrightarrow>
     workspace pm' = workspace pm \<and> local_data_dir pm' = local_data_dir pm \<and>
     object_size_limit pm' = object_size_limit pm \<and> uuids pm' = uuids pm \<and>
     local_path_obj pm' = local_path_obj pm"

subsection \<open>Names and paths\<close>

lemma GetObjPath_cong: "workspace pm' = workspace pm \<Longrightarrow> GetObjPath pm' k = GetObjPath pm k"
  by (simp add: GetObjPath_def)

lemma GetObjPath_updates [simp]:
  "GetObjPath (pm\<lparr>fs := f\<rparr>) k = GetObjPath pm k"
  "GetObjPath (pm\<lparr>objects := os\<rparr>) k = GetObjPath pm k"
  "GetObjPath (pm\<lparr>local_path_obj := l\<rparr>) k = GetObjPath pm k"
  "GetObjPath (pm\<lparr>uuid_count := n\<rparr>) k = GetObjPath pm k"
  "GetObjPath (pm\<lparr>current_object_key := key\<rparr>) k = GetObjPath pm k"
  "GetObjPath (pm\<lparr>current_object_size := n\<rparr>) k = GetObjPath pm k"
  "GetObjPath (pm\<lparr>current_object_parts := n\<rparr>) k = GetObjPath pm k"
  "GetObjPath (pm\<lparr>current_object_ref_count := n\<rparr>) k = GetObjPath pm k"
  by (simp_all add: GetObjPath_def)

lemma path_append_inj:
  "\<not> starts_with k ''/'' \<Longrightarrow> \<not> starts_with k' ''/'' \<Longrightarrow> path_append p k = path_append p k' \<longleftrightarrow> k = k'"
  by (auto simp: path_append_def)

lemma keys_ok_path_inj:
  assumes "keys_ok pm"
  shows "GetObjPath pm (uuids pm i) = GetObjPath pm (uuids pm j) \<longleftrightarrow> i = j"
  using assms by (auto simp: keys_ok_def uuids_fresh_def GetObjPath_def path_append_inj inj_eq)

lemma keys_ok_object_path:
  assumes "keys_ok pm" "map_of (objects pm) k = Some st"
  shows "GetObjPath pm k \<noteq> GetObjPath pm (current_object_key pm)"
    and "uuid_count pm \<le> i \<Longrightarrow> GetObjPath pm k \<noteq> GetObjPath pm (uuids pm i)"
    and "map_of (objects pm) k' = Some st' \<Longrightarrow> GetObjPath pm k = GetObjPath pm k' \<longleftrightarrow> k = k'"
proof -
  note ok = assms(1) [unfolded keys_ok_def]
  from assms(2) ok obtain j where j: "k = uuids pm j" "j < uuid_count pm"
    "k \<noteq> current_object_key pm" by blast
  from ok obtain c where c: "current_object_key pm = uuids pm c" "c < uuid_count pm" by blast
  show "GetObjPath pm k \<noteq> GetObjPath pm (current_object_key pm)"
    using j c keys_ok_path_inj [OF assms(1)] by auto
  show "uuid_count pm \<le> i \<Longrightarrow> GetObjPath pm k \<noteq> GetObjPath pm (uuids pm i)"
    using j keys_ok_path_inj [OF assms(1)] by auto
  assume "map_of (objects pm) k' = Some st'"
  with ok obtain j' where "k' = uuids pm j'" by blast
  then show "GetObjPath pm k = GetObjPath pm k' \<longleftrightarrow> k = k'"
    using j(1) keys_ok_path_inj [OF assms(1), of j j'] by blast
qed

lemma keys_ok_current_path:
  assumes "keys_ok pm" "uuid_count pm \<le> i"
  shows "GetObjPath pm (current_object_key pm) \<noteq> GetObjPath pm (uuids pm i)"
  using assms keys_ok_path_inj [OF assms(1)] by (auto simp: keys_ok_def)

lemma keys_ok_not_empty:
  assumes "keys_ok pm"
  shows "map_of (objects pm) KeyEmpty = None" and "current_object_key pm \<noteq> KeyEmpty"
proof -
  have ne: "KeyEmpty \<noteq> uuids pm i" for i
    using assms by (auto simp: keys_ok_def uuids_fresh_def dest: sym)
  have "KeyEmpty \<notin> dom (map_of (objects pm))"
    using assms ne unfolding keys_ok_def by blast
  then show "map_of (objects pm) KeyEmpty = None" by (simp add: domIff)
  show "current_object_key pm \<noteq> KeyEmpty" using ne assms unfolding keys_ok_def by auto
qed

text \<open>A key that was drawn before and denotes no object any more.\<close>

definition gone :: "PersistenceManager \<Rightarrow> string \<Rightarrow> bool" where
  "gone pm k \<longleftrightarrow> k \<in> uuids pm ` {..<uuid_count pm} \<and> extent pm k = None"

lemma gone_not_live: "gone pm k \<Longrightarrow> addr_ok pm a \<Longrightarrow> a \<noteq> empty_addr \<Longrightarrow> obj_key a \<noteq> k"
  by (auto simp: gone_def addr_ok_def)

subsection \<open>Sealing the current object\<close>

lemma keys_ok_current_not_object: "keys_ok pm \<Longrightarrow> map_of (objects pm) (current_object_key pm) = None"
  by (auto simp: keys_ok_def)

lemma extent_key:
  assumes "keys_ok pm" "extent pm k = Some n"
  shows "k = current_object_key pm \<or> (\<exists>st. map_of (objects pm) k = Some st)"
  using assms by (auto simp: extent_def split: option.splits if_splits)

text \<open>Bytes appended behind the end of a part do not change it.\<close>

lemma part_bytes_append:
  assumes "fs pm (GetObjPath pm (obj_key a)) = Some c" "fs pm' (GetObjPath pm' (obj_key a)) = Some (c @ x)"
    "part_offset a + part_size a \<le> length c"
  shows "part_bytes pm' a = part_bytes pm a"
  using assms by (simp add: part_bytes_def)

lemma part_bytes_cong:
  "fs pm' (GetObjPath pm' (obj_key a)) = fs pm (GetObjPath pm (obj_key a)) \<Longrightarrow>
     part_bytes pm' a = part_bytes pm a"
  by (simp add: part_bytes_def)

text \<open>Sealing always succeeds, keeps every address valid and the bytes it denotes.\<close>

lemma finalize_nonempty:
  assumes inv: "pm_inv_on L pm" and pos: "0 < current_object_size pm"
    and c: "fs pm (GetObjPath pm (current_object_key pm)) = Some c"
  shows "\<exists>x. CurrentObjFinalizeNoLock keys pm = Inr (keys @ [current_object_key pm],
     pm\<lparr>fs := (fs pm)(GetObjPath pm (current_object_key pm) \<mapsto> c @ x),
        objects := AList.update (current_object_key pm)
          (ObjStat_new (current_object_size pm) (current_object_parts pm) (current_object_ref_count pm))
          (objects pm),
        uuid_count := Suc (uuid_count pm), current_object_key := uuids pm (uuid_count pm),
        current_object_size := 0, current_object_parts := 0, current_object_ref_count := 0\<rparr>)"
proof -
  have new: "map_of (objects pm) (current_object_key pm) = None"
    using inv by (simp add: pm_inv_on_def keys_ok_current_not_object)
  let ?x = "if current_object_parts pm > 1 then WriteBufAdv_pod 4 1 else []"
  have "(if current_object_parts pm > 1
         then (fs pm)(GetObjPath pm (current_object_key pm) \<mapsto>
                disk_content (fs pm) (GetObjPath pm (current_object_key pm)) @ WriteBufAdv_pod 4 1)
         else fs pm) = (fs pm)(GetObjPath pm (current_object_key pm) \<mapsto> c @ ?x)"
    using c by (auto simp: disk_content_def fun_eq_iff)
  then show ?thesis
    using new pos
    by (intro exI [of _ ?x])
       (simp add: CurrentObjFinalizeNoLock_def LocalStorage_PutNew_def ObjCreate_def Let_def ObjStat_new_def)
qed

lemma finalize_ok:
  assumes inv: "pm_inv_on L pm"
  obtains keys' pm' where "CurrentObjFinalizeNoLock keys pm = Inr (keys', pm')" "pm_inv_on L pm'"
    "same_config pm pm'" "current_object_size pm' = 0"
    "\<And>a. addr_ok pm a \<Longrightarrow> addr_ok pm' a \<and> part_bytes pm' a = part_bytes pm a"
    "\<And>p. p \<notin> GetObjPath pm ` range (uuids pm) \<Longrightarrow> fs pm' p = fs pm p"
    "0 < current_object_size pm \<Longrightarrow> map_of (objects pm') (current_object_key pm) =
       Some (ObjStat_new (current_object_size pm) (current_object_parts pm) (current_object_ref_count pm))"
    "\<And>k. gone pm k \<Longrightarrow> gone pm' k"
proof (cases "current_object_size pm = 0")
  case True
  with inv show thesis
    by (intro that [of keys pm]) (simp_all add: CurrentObjFinalizeNoLock_def same_config_def)
next
  case False
  let ?key = "current_object_key pm" and ?k2 = "uuids pm (uuid_count pm)"
  let ?st = "ObjStat_new (current_object_size pm) (current_object_parts pm) (current_object_ref_count pm)"
  have K: "keys_ok pm" and F: "files_ok pm" using inv by (auto simp: pm_inv_on_def)
  obtain c where c: "fs pm (GetObjPath pm ?key) = Some c" "length c = current_object_size pm"
    using F False by (auto simp: files_ok_def)
  obtain x where x: "CurrentObjFinalizeNoLock keys pm = Inr (keys @ [?key],
     pm\<lparr>fs := (fs pm)(GetObjPath pm ?key \<mapsto> c @ x), objects := AList.update ?key ?st (objects pm),
        uuid_count := Suc (uuid_count pm), current_object_key := ?k2,
        current_object_size := 0, current_object_parts := 0, current_object_ref_count := 0\<rparr>)"
      (is "_ = Inr (_, ?pm')")
    using finalize_nonempty [OF inv _ c(1)] False by auto
  have k2: "?k2 \<notin> uuids pm ` {..<uuid_count pm}"
    using K by (auto simp: keys_ok_def uuids_fresh_def inj_eq)
  have K': "keys_ok ?pm'"
    using K k2 unfolding keys_ok_def by (auto simp: update_conv' lessThan_Suc)
  have st: "stat_ok ?st" using False by (simp add: stat_ok_def ObjStat_new_def)
  have F': "files_ok ?pm'"
  proof -
    have "\<exists>d. fs ?pm' (GetObjPath ?pm' k) = Some d \<and> obj_size s \<le> length d"
      if "map_of (objects ?pm') k = Some s" for k s
    proof (cases "k = ?key")
      case True
      with that c show ?thesis by (auto simp: update_conv' ObjStat_new_def)
    next
      case False
      with that have k: "map_of (objects pm) k = Some s" by (simp add: update_conv')
      with F keys_ok_object_path(1) [OF K k] show ?thesis by (auto simp: files_ok_def)
    qed
    moreover have "fs ?pm' (GetObjPath ?pm' (uuids pm i)) = None" if "uuid_count pm \<le> i" for i
      using that F keys_ok_current_path [OF K that] by (auto simp: files_ok_def)
    ultimately show ?thesis by (auto simp: files_ok_def)
  qed
  have ext: "extent ?pm' k = Some n" if "extent pm k = Some n" for k n
    using that keys_ok_current_not_object [OF K]
    by (auto simp: extent_def update_conv' ObjStat_new_def split: option.splits if_splits)
  have dead: "dead ?pm' k = dead pm k" for k
    using keys_ok_current_not_object [OF K] by (auto simp: dead_def update_conv' ObjStat_new_def)
  have addr: "addr_ok ?pm' a \<and> part_bytes ?pm' a = part_bytes pm a" if a: "addr_ok pm a" for a
  proof (cases "a = empty_addr")
    case True
    then show ?thesis by (simp add: addr_ok_def part_bytes_def empty_addr_def)
  next
    case False
    with a obtain n where n: "extent pm (obj_key a) = Some n" "part_offset a + part_size a \<le> n"
      by (auto simp: addr_ok_def)
    have "addr_ok ?pm' a" using a False n ext dead by (auto simp: addr_ok_def)
    moreover have "part_bytes ?pm' a = part_bytes pm a"
    proof (cases "obj_key a = ?key")
      case True
      then have "n = current_object_size pm"
        using n keys_ok_current_not_object [OF K] by (simp add: extent_def)
      then show ?thesis using True c n by (intro part_bytes_append [of pm a c _ x]) simp_all
    next
      case neq: False
      then obtain s where "map_of (objects pm) (obj_key a) = Some s"
        using extent_key [OF K n(1)] by blast
      then show ?thesis using keys_ok_object_path(1) [OF K] by (intro part_bytes_cong) simp
    qed
    ultimately show ?thesis ..
  qed
  have inv': "pm_inv_on L ?pm'"
    using inv K' F' st addr by (auto simp: pm_inv_on_def update_conv' split: if_splits)
  have gone: "gone ?pm' k" if "gone pm k" for k
  proof -
    have "k \<noteq> ?k2" using that k2 unfolding gone_def by blast
    then show ?thesis
      using that by (auto simp: gone_def extent_def update_conv' lessThan_Suc split: option.splits if_splits)
  qed
  show thesis
    by (rule that [OF x inv' _ _ addr _ _ gone])
       (use K in \<open>auto simp: same_config_def update_conv' keys_ok_def\<close>)
qed

subsection \<open>Deleting a part\<close>

lemma live_disjoint_remove: "live_disjoint L \<Longrightarrow> live_disjoint (L(p := None))"
  by (auto simp: live_disjoint_def)

lemma addr_ok_cong:
  "extent pm' (obj_key a) = extent pm (obj_key a) \<Longrightarrow> dead pm' (obj_key a) = dead pm (obj_key a) \<Longrightarrow>
     addr_ok pm' a \<longleftrightarrow> addr_ok pm a"
  by (simp add: addr_ok_def)

text \<open>An object loses the range of one part; every other part keeps its address.\<close>

lemma mark_deleted_ok:
  assumes inv: "pm_inv_on L pm" and p: "L p = Some a" and st: "map_of (objects pm) (obj_key a) = Some st"
    and rs: "ranges_ok rs" "covered rs = covered (deleted_ranges st) \<union> part_span a"
      "part_span a \<subseteq> {..<align8 (obj_size st)}"
  shows "pm_inv_on (L(p := None))
     (pm\<lparr>objects := AList.update (obj_key a) (st\<lparr>deleted_ranges := rs\<rparr>) (objects pm)\<rparr>)"
    (is "pm_inv_on _ ?pm'")
proof -
  have K: "keys_ok pm" and F: "files_ok pm" and S: "stat_ok st"
    using inv st by (auto simp: pm_inv_on_def)
  have "keys_ok ?pm'" using K st unfolding keys_ok_def by (auto simp: update_conv')
  moreover have "files_ok ?pm'" using F st by (auto simp: files_ok_def update_conv')
  moreover have "stat_ok (st\<lparr>deleted_ranges := rs\<rparr>)" using S rs by (auto simp: stat_ok_def)
  moreover have "addr_ok ?pm' b" if b: "(L(p := None)) q = Some b" for q b
  proof (cases "obj_key b = obj_key a")
    case False
    have "addr_ok pm b" using inv b by (auto simp: pm_inv_on_def split: if_splits)
    with False show ?thesis
      by (subst addr_ok_cong [where pm = pm])
         (simp_all add: extent_def dead_def update_conv' split: option.split)
  next
    case True
    have b': "addr_ok pm b" "part_span b \<inter> part_span a = {}"
      using inv b p True by (auto simp: pm_inv_on_def live_disjoint_def split: if_splits)
    then show ?thesis using True st rs(2)
      by (auto simp: addr_ok_def extent_def dead_def update_conv')
  qed
  ultimately show ?thesis
    using inv by (auto simp: pm_inv_on_def update_conv' live_disjoint_remove split: if_splits)
qed

text \<open>An object no live part refers to can go.\<close>

lemma drop_object_ok:
  assumes inv: "pm_inv_on L pm" and unused: "\<forall>q b. L q = Some b \<longrightarrow> obj_key b \<noteq> k"
    and k: "map_of (objects pm) k = Some st"
  shows "pm_inv_on L (pm\<lparr>objects := AList.delete k (objects pm)\<rparr>)" (is "pm_inv_on L ?pm'")
proof -
  have K: "keys_ok pm" and F: "files_ok pm" using inv by (auto simp: pm_inv_on_def)
  have "keys_ok ?pm'" using K unfolding keys_ok_def by (auto simp: delete_conv')
  moreover have "files_ok ?pm'" using F by (auto simp: files_ok_def delete_conv')
  moreover have "addr_ok ?pm' b" if "L q = Some b" for q b
  proof -
    have "addr_ok pm b" "obj_key b \<noteq> k" using inv that unused by (auto simp: pm_inv_on_def)
    then show ?thesis
      by (subst addr_ok_cong [where pm = pm])
         (simp_all add: extent_def dead_def delete_conv' split: option.split)
  qed
  ultimately show ?thesis
    using inv by (auto simp: pm_inv_on_def delete_conv' split: if_splits)
qed

lemma covered_whole_unused:
  assumes inv: "pm_inv_on L pm" and st: "map_of (objects pm) k = Some st"
    and whole: "{..<align8 (obj_size st)} \<subseteq> covered (deleted_ranges st)"
    and b: "L q = Some b"
  shows "obj_key b \<noteq> k"
proof
  assume key: "obj_key b = k"
  have K: "keys_ok pm" and A: "addr_ok pm b" using inv b by (auto simp: pm_inv_on_def)
  have "b \<noteq> empty_addr" using key st keys_ok_not_empty(1) [OF K] by (auto simp: empty_addr_def)
  with A key st have b': "0 < part_size b" "part_offset b + part_size b \<le> obj_size st"
    "part_span b \<inter> covered (deleted_ranges st) = {}"
    by (auto simp: addr_ok_def extent_def dead_def)
  then have "part_offset b \<in> part_span b"
    using align8_ge [of "part_offset b + part_size b"] by (auto simp: part_span_def)
  moreover have "part_offset b < align8 (obj_size st)"
    using b' align8_ge [of "obj_size st"] by simp
  ultimately show False using whole b'(3) by blast
qed

lemma cleanup_in_object_ok:
  assumes inv: "pm_inv_on L pm" and p: "L p = Some a" and a: "a \<noteq> empty_addr"
    and st: "map_of (objects pm) (obj_key a) = Some st"
    and res: "cleanup_in_object a st remote chk pm = Inr (remote', pm')"
  shows "pm_inv_on (L(p := None)) pm'" and "same_config pm pm'" and "fs pm' = fs pm" and "uuid_count pm' = uuid_count pm"
    and "remote' = remote \<or>
         remote' = remote @ [obj_key a] \<and> extent pm' (obj_key a) = None"
proof -
  have S: "stat_ok st" and A: "addr_ok pm a" using inv st p by (auto simp: pm_inv_on_def)
  from A a st have a': "0 < part_size a" "part_offset a + part_size a \<le> obj_size st"
    "part_span a \<inter> covered (deleted_ranges st) = {}"
    by (auto simp: addr_ok_def extent_def dead_def)
  let ?orig = "\<lparr>r_start = part_offset a, r_end = align8 (part_offset a + part_size a)\<rparr>"
  have span: "span ?orig = part_span a" by (simp add: span_def part_span_def)
  have ne: "r_start ?orig < r_end ?orig"
    using a'(1) align8_ge [of "part_offset a + part_size a"] by simp
  have sub: "part_span a \<subseteq> {..<align8 (obj_size st)}"
    using align8_mono [OF a'(2)] by (auto simp: part_span_def)
  obtain rs rg where d: "delete_range (deleted_ranges st) ?orig = Inr (rs, Some rg)" "ranges_ok rs"
    "covered rs = covered (deleted_ranges st) \<union> span ?orig" "rg \<in> set rs"
    by (rule delete_range_new [of "deleted_ranges st" ?orig]) (use S a' span ne in \<open>auto simp: stat_ok_def\<close>)
  let ?st = "st\<lparr>deleted_ranges := rs\<rparr>"
  let ?pm1 = "pm\<lparr>objects := AList.update (obj_key a) ?st (objects pm)\<rparr>"
  have inv1: "pm_inv_on (L(p := None)) ?pm1"
    using mark_deleted_ok [OF inv p st d(2)] d(3) span sub by simp
  have st1: "map_of (objects ?pm1) (obj_key a) = Some ?st" by (simp add: update_conv')
  let ?drop = "r_start rg = 0 \<and> r_end rg = align8 (obj_size st) \<and> obj_key a \<noteq> current_object_key pm"
  have "pm_inv_on (L(p := None)) pm' \<and> same_config pm pm' \<and> fs pm' = fs pm \<and> uuid_count pm' = uuid_count pm \<and>
        (remote' = remote \<or>
         remote' = remote @ [obj_key a] \<and> extent pm' (obj_key a) = None)"
  proof (cases ?drop)
    case False
    then have "remote' = remote \<and> pm' = ?pm1"
      using res d(1) by (auto simp: cleanup_in_object_def Let_def split: if_splits)
    with inv1 show ?thesis by (simp add: same_config_def)
  next
    case True
    then have r: "remote' = remote @ [obj_key a]"
      and pm': "pm' = ?pm1\<lparr>objects := AList.delete (obj_key a) (objects ?pm1)\<rparr>"
      using res d(1) st1 by (auto simp: cleanup_in_object_def LocalStorage_Invalidate_def Let_def split: if_splits)
    have "span rg \<subseteq> covered rs" using d(4) by (auto simp: covered_def)
    then have whole: "{..<align8 (obj_size ?st)} \<subseteq> covered (deleted_ranges ?st)"
      using True by (auto simp: span_def)
    have unused: "\<forall>q b. (L(p := None)) q = Some b \<longrightarrow> obj_key b \<noteq> obj_key a"
      using covered_whole_unused [OF inv1 st1 whole] by blast
    have "pm_inv_on (L(p := None)) pm'"
      unfolding pm' by (rule drop_object_ok [OF inv1 unused st1])
    then show ?thesis
      using r True by (auto simp: pm' same_config_def delete_conv' extent_def)
  qed
  then show "pm_inv_on (L(p := None)) pm'" and "same_config pm pm'" and "fs pm' = fs pm" and "uuid_count pm' = uuid_count pm"
    and "remote' = remote \<or>
         remote' = remote @ [obj_key a] \<and> extent pm' (obj_key a) = None"
    by blast+
qed

lemma same_config_trans: "same_config a b \<Longrightarrow> same_config b c \<Longrightarrow> same_config a c"
  by (simp add: same_config_def)

lemma same_config_path: "same_config pm pm' \<Longrightarrow> GetObjPath pm' k = GetObjPath pm k"
  by (simp add: same_config_def GetObjPath_def)

text \<open>What an operation that drops a live path guarantees to everything else.\<close>

definition drops_only ::
    "(string \<rightharpoonup> ObjAddr) \<Rightarrow> string list \<Rightarrow> PersistenceManager \<Rightarrow> PersistenceManager \<Rightarrow> bool" where
  "drops_only L remote pm pm' \<longleftrightarrow>
     same_config pm pm' \<and> pm_inv_on L pm' \<and>
     (\<forall>b. addr_ok pm b \<longrightarrow> part_bytes pm' b = part_bytes pm b) \<and>
     (\<forall>q. q \<notin> GetObjPath pm ` range (uuids pm) \<longrightarrow> fs pm' q = fs pm q) \<and>
     (\<forall>k \<in> set remote. gone pm' k)"

lemma object_key_uuid: "keys_ok pm \<Longrightarrow> map_of (objects pm) k = Some st \<Longrightarrow> k \<in> range (uuids pm)"
  by (fastforce simp: keys_ok_def)

lemma cleanup_in_object_drops_only:
  assumes "pm_inv_on L pm" "L p = Some a" "a \<noteq> empty_addr" "map_of (objects pm) (obj_key a) = Some st"
    "cleanup_in_object a st [] chk pm = Inr (remote, pm')"
  shows "drops_only (L(p := None)) remote pm pm'"
proof -
  note ok = cleanup_in_object_ok [OF assms]
  have "obj_key a \<in> uuids pm ` {..<uuid_count pm}"
    using assms(1,4) by (auto simp: pm_inv_on_def keys_ok_def)
  moreover have "uuids pm' = uuids pm" using ok(2) by (simp add: same_config_def)
  ultimately show ?thesis
    using ok same_config_path [OF ok(2)]
    by (auto simp: drops_only_def part_bytes_def gone_def simp del: fun_upd_apply)
qed

lemma CleanupNoLock_drops_only:
  assumes inv: "pm_inv_on L pm" and p: "L p = Some a"
    and res: "CleanupNoLock a keys [] chk pm = Inr (keys', remote, pm')"
  shows "drops_only (L(p := None)) remote pm pm'"
proof -
  have K: "keys_ok pm" and A: "addr_ok pm a" using inv p by (auto simp: pm_inv_on_def)
  show ?thesis
  proof (cases "a = empty_addr")
    case True
    then have "remote = [] \<and> pm' = pm"
      using res keys_ok_not_empty [OF K]
      by (auto simp: CleanupNoLock_def LocalStorage_GetNoCount_def empty_addr_def)
    moreover have "pm_inv_on (L(p := None)) pm"
      using inv by (auto simp: pm_inv_on_def live_disjoint_remove split: if_splits)
    ultimately show ?thesis by (simp add: drops_only_def same_config_def)
  next
    case ne: False
    with A have key: "obj_key a \<noteq> KeyEmpty" by (auto simp: addr_ok_def)
    show ?thesis
    proof (cases "map_of (objects pm) (obj_key a)")
      case (Some st)
      with res have "cleanup_in_object a st [] chk pm = Inr (remote, pm')"
        by (auto simp: CleanupNoLock_def LocalStorage_GetNoCount_def res_simps)
      then show ?thesis by (rule cleanup_in_object_drops_only [OF inv p ne Some])
    next
      case None
      obtain keys1 pm1 where f: "CurrentObjFinalizeNoLock keys pm = Inr (keys1, pm1)"
        "pm_inv_on L pm1" "same_config pm pm1" 
        "\<And>a. addr_ok pm a \<Longrightarrow> addr_ok pm1 a \<and> part_bytes pm1 a = part_bytes pm a"
        "\<And>p. p \<notin> GetObjPath pm ` range (uuids pm) \<Longrightarrow> fs pm1 p = fs pm p"
        by (rule finalize_ok [OF inv, of keys]) blast
      from None key res f(1) obtain st where st: "map_of (objects pm1) (obj_key a) = Some st"
        "cleanup_in_object a st [] chk pm1 = Inr (remote, pm')"
        by (auto simp: CleanupNoLock_def LocalStorage_GetNoCount_def res_simps split: if_splits option.splits)
      have d: "drops_only (L(p := None)) remote pm1 pm'"
        by (rule cleanup_in_object_drops_only [OF f(2) p ne st])
      have u: "uuids pm1 = uuids pm" using f(3) by (simp add: same_config_def)
      show ?thesis
        using d f(4,5) same_config_trans [OF f(3)] u same_config_path [OF f(3)]
        unfolding drops_only_def by (simp add: image_def)
    qed
  qed
qed

subsection \<open>Adding a path\<close>

lemma inv_updates [simp]:
  "extent (pm\<lparr>local_path_obj := l\<rparr>) k = extent pm k" "extent (pm\<lparr>fs := f\<rparr>) k = extent pm k"
  "dead (pm\<lparr>local_path_obj := l\<rparr>) k = dead pm k" "dead (pm\<lparr>fs := f\<rparr>) k = dead pm k"
  "addr_ok (pm\<lparr>local_path_obj := l\<rparr>) a = addr_ok pm a" "addr_ok (pm\<lparr>fs := f\<rparr>) a = addr_ok pm a"
  "keys_ok (pm\<lparr>local_path_obj := l\<rparr>) = keys_ok pm" "keys_ok (pm\<lparr>fs := f\<rparr>) = keys_ok pm"
  "files_ok (pm\<lparr>local_path_obj := l\<rparr>) = files_ok pm"
  "part_bytes (pm\<lparr>local_path_obj := l\<rparr>) a = part_bytes pm a"
proof -
  show e: "extent (pm\<lparr>local_path_obj := l\<rparr>) k = extent pm k" "extent (pm\<lparr>fs := f\<rparr>) k = extent pm k"
    for k by (auto simp: extent_def split: option.split)
  show d: "dead (pm\<lparr>local_path_obj := l\<rparr>) k = dead pm k" "dead (pm\<lparr>fs := f\<rparr>) k = dead pm k"
    for k by (auto simp: dead_def split: option.split)
  show "addr_ok (pm\<lparr>local_path_obj := l\<rparr>) a = addr_ok pm a" "addr_ok (pm\<lparr>fs := f\<rparr>) a = addr_ok pm a"
    by (simp_all add: addr_ok_def e d)
  show "keys_ok (pm\<lparr>local_path_obj := l\<rparr>) = keys_ok pm" "keys_ok (pm\<lparr>fs := f\<rparr>) = keys_ok pm"
    by (simp_all add: keys_ok_def)
  show "files_ok (pm\<lparr>local_path_obj := l\<rparr>) = files_ok pm" by (simp add: files_ok_def)
  show "part_bytes (pm\<lparr>local_path_obj := l\<rparr>) a = part_bytes pm a" by (simp add: part_bytes_def)
qed

lemma pm_inv_on_lpo [simp]: "pm_inv_on L (pm\<lparr>local_path_obj := l\<rparr>) = pm_inv_on L pm"
  by (simp add: pm_inv_on_def)

lemma pm_inv_on_add:
  assumes "pm_inv_on L pm" "addr_ok pm a"
    and "\<forall>q b. L q = Some b \<longrightarrow> obj_key b = obj_key a \<longrightarrow> part_span a \<inter> part_span b = {}"
  shows "pm_inv_on (L(p \<mapsto> a)) pm"
proof -
  have "live_disjoint (L(p \<mapsto> a))"
    using assms by (auto simp: pm_inv_on_def live_disjoint_def)
  then show ?thesis using assms by (auto simp: pm_inv_on_def split: if_splits)
qed

lemma files_ok_write_tmp:
  assumes "keys_ok pm" "files_ok pm" "tmp \<notin> GetObjPath pm ` range (uuids pm)"
  shows "files_ok (pm\<lparr>fs := (fs pm)(tmp := x)\<rparr>)"
proof -
  have o: "tmp \<noteq> GetObjPath pm k" if "map_of (objects pm) k = Some st" for k st
    using assms(1,3) object_key_uuid [OF assms(1) that] by auto
  have c: "GetObjPath pm (current_object_key pm) \<noteq> tmp" and u: "GetObjPath pm (uuids pm i) \<noteq> tmp" for i
    using assms(1,3) by (auto simp: keys_ok_def)
  have "\<exists>c. ((fs pm)(tmp := x)) (GetObjPath pm k) = Some c \<and> obj_size st \<le> length c"
    if "map_of (objects pm) k = Some st" for k st
    using assms(2) that o [OF that] by (auto simp: files_ok_def)
  then show ?thesis
    using assms(2) c u unfolding files_ok_def by (auto simp del: fun_upd_apply simp: fun_upd_other)
qed

lemma pm_inv_on_write_tmp:
  assumes "pm_inv_on L pm" "tmp \<notin> GetObjPath pm ` range (uuids pm)"
  shows "pm_inv_on L (pm\<lparr>fs := (fs pm)(tmp := x)\<rparr>)"
  using assms files_ok_write_tmp [of pm tmp] by (auto simp: pm_inv_on_def)

lemma addr_key_path:
  assumes "keys_ok pm" "addr_ok pm a" "a \<noteq> empty_addr"
  shows "GetObjPath pm (obj_key a) \<in> GetObjPath pm ` range (uuids pm)"
proof -
  obtain n where "extent pm (obj_key a) = Some n" using assms(2,3) by (auto simp: addr_ok_def)
  from extent_key [OF assms(1) this] have "obj_key a \<in> range (uuids pm)"
  proof
    assume "obj_key a = current_object_key pm"
    then show ?thesis using assms(1) by (auto simp: keys_ok_def)
  next
    assume "\<exists>st. map_of (objects pm) (obj_key a) = Some st"
    then show ?thesis using object_key_uuid [OF assms(1)] by blast
  qed
  then show ?thesis by blast
qed

lemma part_bytes_other_file:
  assumes "keys_ok pm" "addr_ok pm a" "GetObjPath pm' (obj_key a) = GetObjPath pm (obj_key a)"
    and "\<And>q. q \<in> GetObjPath pm ` range (uuids pm) \<Longrightarrow> fs pm' q = fs pm q"
  shows "part_bytes pm' a = part_bytes pm a"
proof (cases "a = empty_addr")
  case True
  then show ?thesis by (simp add: part_bytes_def empty_addr_def)
next
  case False
  then show ?thesis
    using assms(3,4) addr_key_path [OF assms(1,2)] by (intro part_bytes_cong) simp
qed

text \<open>Writing or removing a temporary file changes no stored byte.\<close>

lemma part_bytes_write_tmp:
  assumes "keys_ok pm" "addr_ok pm a" "tmp \<notin> GetObjPath pm ` range (uuids pm)"
  shows "part_bytes (pm\<lparr>fs := (fs pm)(tmp := x), local_path_obj := l\<rparr>) a = part_bytes pm a"
  using assms by (intro part_bytes_other_file) auto

text \<open>Appending a file to the current object.\<close>

lemma append_ok:
  fixes pm :: PersistenceManager
  defines "n \<equiv> current_object_size pm" and "key \<equiv> current_object_key pm"
  defines "dst \<equiv> GetObjPath pm key" and "old \<equiv> disk_content (fs pm) (GetObjPath pm (current_object_key pm))"
  assumes inv: "pm_inv_on L pm" and src: "src \<noteq> []"
    and a: "a = \<lparr>obj_key = key, part_offset = align8 n, part_size = length src\<rparr>"
    and pm': "pm' = pm\<lparr>fs := (fs pm)(dst \<mapsto> old @ replicate (align8 n - length old) 0 @ src),
                       current_object_size := align8 n + length src,
                       current_object_parts := current_object_parts pm + 1\<rparr>"
  shows "pm_inv_on (L(p \<mapsto> a)) pm'" and "part_bytes pm' a = Some src"
    and "\<And>b. addr_ok pm b \<Longrightarrow> addr_ok pm' b \<and> part_bytes pm' b = part_bytes pm b"
    and "\<And>k. gone pm k \<Longrightarrow> gone pm' k"
proof -
  have K: "keys_ok pm" and F: "files_ok pm" using inv by (auto simp: pm_inv_on_def)
  have none: "map_of (objects pm) key = None" by (simp add: key_def keys_ok_current_not_object K)
  have len: "length old = n" using F by (auto simp: files_ok_def old_def n_def disk_content_def split: if_splits)
  have n_le: "n \<le> align8 n" by (rule align8_ge)
  have ext: "extent pm' k = (if k = key then Some (align8 n + length src) else extent pm k)" for k
    using none by (auto simp: pm' extent_def key_def split: option.split)
  have dead: "dead pm' k = dead pm k" for k by (auto simp: pm' dead_def split: option.split)
  have path: "GetObjPath pm' k = GetObjPath pm k" for k by (simp add: pm')
  have K': "keys_ok pm'" using K by (simp add: pm' keys_ok_def)
  have F': "files_ok pm'"
  proof -
    have "\<exists>c. fs pm' (GetObjPath pm' k) = Some c \<and> obj_size st \<le> length c"
      if "map_of (objects pm') k = Some st" for k st
      using that F keys_ok_object_path(1) [OF K, of k st] by (auto simp: pm' files_ok_def dst_def key_def)
    moreover have "fs pm' (GetObjPath pm' (uuids pm i)) = None" if "uuid_count pm \<le> i" for i
      using that F keys_ok_current_path [OF K that] by (auto simp: pm' files_ok_def dst_def key_def)
    moreover have "fs pm' dst = Some (old @ replicate (align8 n - length old) 0 @ src)"
      by (simp add: pm')
    ultimately show ?thesis
      using src len n_le by (auto simp: files_ok_def pm' dst_def key_def)
  qed
  have addr: "addr_ok pm' b \<and> part_bytes pm' b = part_bytes pm b" if b: "addr_ok pm b" for b
  proof (cases "b = empty_addr")
    case True
    then show ?thesis by (simp add: addr_ok_def part_bytes_def empty_addr_def)
  next
    case False
    with b obtain m where m: "extent pm (obj_key b) = Some m" "part_offset b + part_size b \<le> m"
      "0 < part_size b" by (auto simp: addr_ok_def)
    show ?thesis
    proof (cases "obj_key b = key")
      case True
      then have mn: "m = n" using m(1) none by (simp add: extent_def key_def n_def)
      then have "n \<noteq> 0" using m by simp
      then have "fs pm dst = Some old"
        using F by (auto simp: files_ok_def old_def n_def disk_content_def dst_def key_def)
      then have "part_bytes pm' b = part_bytes pm b"
        using True m mn len by (intro part_bytes_append [where c = old]) (simp_all add: pm' dst_def)
      moreover have "addr_ok pm' b"
        using b False True m mn n_le dead ext by (auto simp: addr_ok_def)
      ultimately show ?thesis by simp
    next
      case other: False
      then obtain st where st: "map_of (objects pm) (obj_key b) = Some st"
        using extent_key [OF K m(1)] by (auto simp: key_def)
      have "part_bytes pm' b = part_bytes pm b"
        by (rule part_bytes_cong) (use keys_ok_object_path(1) [OF K st] in \<open>simp add: pm' dst_def key_def\<close>)
      moreover have "addr_ok pm' b" using b other by (subst addr_ok_cong [where pm = pm]) (simp_all add: ext dead)
      ultimately show ?thesis by simp
    qed
  qed
  have new: "addr_ok pm' a"
    using src none ext dead keys_ok_not_empty(2) [OF K]
    by (auto simp: addr_ok_def a dead_def key_def)
  have disj: "part_span a \<inter> part_span b = {}" if b: "L q = Some b" "obj_key b = obj_key a" for q b
  proof -
    have "addr_ok pm b" using inv b by (auto simp: pm_inv_on_def)
    moreover have "b \<noteq> empty_addr"
      using b(2) keys_ok_not_empty(2) [OF K] by (auto simp: a empty_addr_def key_def)
    ultimately have "part_offset b + part_size b \<le> n"
      using b(2) none by (auto simp: addr_ok_def a extent_def key_def n_def)
    then have "align8 (part_offset b + part_size b) \<le> align8 n" by (rule align8_mono)
    then show ?thesis by (auto simp: part_span_def a)
  qed
  have "pm_inv_on L pm'"
    using inv K' F' addr by (auto simp: pm_inv_on_def pm')
  then show "pm_inv_on (L(p \<mapsto> a)) pm'" using new disj by (intro pm_inv_on_add) auto
  show "part_bytes pm' a = Some src"
    using src len n_le by (simp add: part_bytes_def a pm' dst_def)
  show "\<And>b. addr_ok pm b \<Longrightarrow> addr_ok pm' b \<and> part_bytes pm' b = part_bytes pm b" using addr by blast
  show "\<And>k. gone pm k \<Longrightarrow> gone pm' k"
    using none ext by (auto simp: gone_def pm' extent_def key_def split: if_splits)
qed

end
