(* ===== verification/Persistence_Properties.thy ===== *)
theory Persistence_Properties
  imports Persistence_Invariant
begin

text \<open>
  What the operations of the persistence manager guarantee: the invariant, the bytes a later read
  returns, which objects may be dropped, and when an operation fails.
\<close>

subsection \<open>The three ways to store a file\<close>

text \<open>\<open>adds L p a src pm pm'\<close>: path \<open>p\<close> now denotes the bytes \<open>src\<close>, nothing else changed for a
  reader, and no dropped object came back.\<close>

definition adds ::
    "(string \<rightharpoonup> ObjAddr) \<Rightarrow> string \<Rightarrow> ObjAddr \<Rightarrow> byte list \<Rightarrow> PersistenceManager \<Rightarrow> PersistenceManager \<Rightarrow> bool" where
  "adds L p a src pm pm' \<longleftrightarrow>
     pm_inv_on (L(p \<mapsto> a)) pm' \<and> part_bytes pm' a = Some src \<and>
     (\<forall>b. addr_ok pm b \<longrightarrow> part_bytes pm' b = part_bytes pm b) \<and>
     local_path_obj pm' = AList.update p a (local_path_obj pm) \<and>
     (\<forall>k. gone pm k \<longrightarrow> gone pm' k) \<and>
     workspace pm' = workspace pm \<and> local_data_dir pm' = local_data_dir pm \<and>
     object_size_limit pm' = object_size_limit pm \<and> uuids pm' = uuids pm"

lemma gone_updates [simp]:
  "gone (pm\<lparr>local_path_obj := l\<rparr>) k = gone pm k" "gone (pm\<lparr>fs := f\<rparr>) k = gone pm k"
  by (simp_all add: gone_def)

text \<open>The common end of the three branches: the temporary file goes, the path is entered.\<close>

lemma adds_finish:
  assumes inv: "pm_inv_on (L(p \<mapsto> a)) pm1" and tmp: "tmp \<notin> GetObjPath pm1 ` range (uuids pm1)"
    and bytes: "part_bytes pm1 a = Some src"
    and old: "\<And>b. addr_ok pm b \<Longrightarrow> addr_ok pm1 b \<and> part_bytes pm1 b = part_bytes pm b"
    and gone: "\<And>k. gone pm k \<Longrightarrow> gone pm1 k" and cfg: "same_config pm pm1"
  shows "adds L p a src pm
    (pm1\<lparr>fs := (fs pm1)(tmp := None), local_path_obj := AList.update p a (local_path_obj pm1)\<rparr>)"
proof -
  have K: "keys_ok pm1" using inv by (simp add: pm_inv_on_def)
  have "(L(p \<mapsto> a)) p = Some a" by simp
  then have A: "addr_ok pm1 a" using inv unfolding pm_inv_on_def by blast
  have same: "part_bytes (pm1\<lparr>fs := (fs pm1)(tmp := None), local_path_obj := l\<rparr>) b = part_bytes pm1 b"
    if "addr_ok pm1 b" for l b
    by (rule part_bytes_write_tmp [OF K that tmp])
  show ?thesis
    using pm_inv_on_write_tmp [OF inv tmp] same [OF A] same old gone cfg bytes
    by (simp add: adds_def same_config_def)
qed

lemma fresh_key:
  assumes "pm_inv_on L pm"
  shows "uuids pm (uuid_count pm) \<notin> uuids pm ` {..<uuid_count pm}"
    and "map_of (objects pm) (uuids pm (uuid_count pm)) = None"
    and "uuids pm (uuid_count pm) \<noteq> current_object_key pm"
    and "uuids pm (uuid_count pm) \<noteq> KeyEmpty"
    and "extent pm (uuids pm (uuid_count pm)) = None"
proof -
  have K: "keys_ok pm" using assms by (simp add: pm_inv_on_def)
  show f: "uuids pm (uuid_count pm) \<notin> uuids pm ` {..<uuid_count pm}"
    using K by (auto simp: keys_ok_def uuids_fresh_def inj_eq)
  with K have "uuids pm (uuid_count pm) \<notin> dom (map_of (objects pm))" unfolding keys_ok_def by blast
  then show n: "map_of (objects pm) (uuids pm (uuid_count pm)) = None" by (simp add: domIff)
  show c: "uuids pm (uuid_count pm) \<noteq> current_object_key pm" using K f unfolding keys_ok_def by metis
  show "uuids pm (uuid_count pm) \<noteq> KeyEmpty" using K by (simp add: keys_ok_def uuids_fresh_def)
  show "extent pm (uuids pm (uuid_count pm)) = None" using n c by (simp add: extent_def)
qed

text \<open>A file in an object of its own.\<close>

lemma new_object_ok:
  fixes pm :: PersistenceManager
  defines "key \<equiv> uuids pm (uuid_count pm)"
  assumes inv: "pm_inv_on L pm" and src: "src \<noteq> []"
    and a: "a = \<lparr>obj_key = key, part_offset = 0, part_size = length src\<rparr>"
    and pm': "pm' = pm\<lparr>fs := (fs pm)(GetObjPath pm key \<mapsto> src), uuid_count := Suc (uuid_count pm),
                       objects := AList.update key (ObjStat_new (length src) 1 0) (objects pm)\<rparr>"
  shows "pm_inv_on (L(p \<mapsto> a)) pm'" and "part_bytes pm' a = Some src"
    and "\<And>b. addr_ok pm b \<Longrightarrow> addr_ok pm' b \<and> part_bytes pm' b = part_bytes pm b"
    and "\<And>k. gone pm k \<Longrightarrow> gone pm' k"
proof -
  have K: "keys_ok pm" and F: "files_ok pm" using inv by (auto simp: pm_inv_on_def)
  note fresh = fresh_key [OF inv, folded key_def]
  have ext: "extent pm' k = (if k = key then Some (length src) else extent pm k)" for k
    by (auto simp: pm' extent_def update_conv' ObjStat_new_def split: option.split)
  have dead: "dead pm' k = dead pm k" for k
    using fresh(2) by (auto simp: pm' dead_def update_conv' ObjStat_new_def split: option.split)
  have K': "keys_ok pm'"
    using K fresh unfolding keys_ok_def pm' by (auto simp: update_conv' lessThan_Suc key_def)
  have path: "GetObjPath pm k \<noteq> GetObjPath pm key" if "map_of (objects pm) k = Some st" for k st
    using keys_ok_object_path(2) [OF K that] by (simp add: key_def)
  have F': "files_ok pm'"
  proof -
    have "\<exists>c. fs pm' (GetObjPath pm' k) = Some c \<and> obj_size st \<le> length c"
      if "map_of (objects pm') k = Some st" for k st
      using that F path [of k] by (auto simp: pm' files_ok_def update_conv' ObjStat_new_def split: if_splits)
    moreover have "fs pm' (GetObjPath pm' (uuids pm i)) = None" if "Suc (uuid_count pm) \<le> i" for i
      using that F keys_ok_path_inj [OF K, of i "uuid_count pm"] by (auto simp: pm' files_ok_def key_def)
    ultimately show ?thesis
      using F keys_ok_current_path [OF K, of "uuid_count pm"]
      by (auto simp: files_ok_def pm' key_def)
  qed
  have addr: "addr_ok pm' b \<and> part_bytes pm' b = part_bytes pm b" if b: "addr_ok pm b" for b
  proof (cases "b = empty_addr")
    case True
    then show ?thesis by (simp add: addr_ok_def part_bytes_def empty_addr_def)
  next
    case False
    with b obtain m where m: "extent pm (obj_key b) = Some m" by (auto simp: addr_ok_def)
    then have other: "obj_key b \<noteq> key" using fresh(5) by auto
    have "addr_ok pm' b" using b other by (subst addr_ok_cong [where pm = pm]) (simp_all add: ext dead)
    moreover have "GetObjPath pm (obj_key b) \<noteq> GetObjPath pm key"
      using extent_key [OF K m] path keys_ok_current_path [OF K, of "uuid_count pm"] by (auto simp: key_def)
    then have "part_bytes pm' b = part_bytes pm b" by (intro part_bytes_cong) (simp add: pm')
    ultimately show ?thesis ..
  qed
  have new: "addr_ok pm' a"
    using src fresh ext dead by (auto simp: addr_ok_def a dead_def)
  have unused: "obj_key b \<noteq> key" if "L q = Some b" for q b
  proof -
    have "addr_ok pm b" using inv that by (auto simp: pm_inv_on_def)
    then show ?thesis using fresh(4,5) by (auto simp: addr_ok_def empty_addr_def)
  qed
  have "stat_ok (ObjStat_new (length src) 1 0)" using src by (simp add: stat_ok_def ObjStat_new_def)
  then have "pm_inv_on L pm'"
    using inv K' F' addr by (auto simp: pm_inv_on_def pm' update_conv' split: if_splits)
  then show "pm_inv_on (L(p \<mapsto> a)) pm'"
    using new unused by (intro pm_inv_on_add) (auto simp: a)
  show "part_bytes pm' a = Some src" using src by (simp add: part_bytes_def a pm')
  show "\<And>b. addr_ok pm b \<Longrightarrow> addr_ok pm' b \<and> part_bytes pm' b = part_bytes pm b" using addr by blast
  show "gone pm' k" if "gone pm k" for k
  proof -
    have "k \<noteq> key" using that fresh(1) unfolding gone_def by blast
    then show ?thesis using that ext by (auto simp: gone_def pm' lessThan_Suc)
  qed
qed

lemma persist_empty_adds:
  assumes inv: "pm_inv_on L pm" and tmp: "tmp \<notin> GetObjPath pm ` range (uuids pm)"
  obtains pm' where "persist_empty p tmp result pm =
      Inr (result\<lparr>persist_keys := persist_keys result @ [KeyEmpty], pw_obj_addr := empty_addr\<rparr>, pm')"
    "adds L p empty_addr [] pm pm'"
proof -
  have "pm_inv_on (L(p \<mapsto> empty_addr)) pm"
    using inv by (intro pm_inv_on_add) (auto simp: addr_ok_def part_span_def empty_addr_def)
  then have "adds L p empty_addr [] pm (pm\<lparr>fs := (fs pm)(tmp := None),
       local_path_obj := AList.update p empty_addr (local_path_obj pm)\<rparr>)"
    using tmp by (intro adds_finish) (auto simp: part_bytes_def empty_addr_def same_config_def)
  then show thesis by (intro that) (simp_all add: persist_empty_def empty_addr_def Let_def)
qed

lemma persist_dedicated_adds:
  assumes inv: "pm_inv_on L pm" and tmp: "tmp \<notin> GetObjPath pm ` range (uuids pm)"
    and src: "fs pm tmp = Some src" "src \<noteq> []"
  obtains r a pm' where "persist_dedicated p tmp (length src) result pm = Inr (r, pm')"
    "adds L p a src pm pm'" "pw_obj_addr r = a" "drop_from_remote_keys r = drop_from_remote_keys result"
    "persist_keys r = persist_keys result @ [obj_key a]"
proof -
  let ?key = "uuids pm (uuid_count pm)"
  let ?a = "\<lparr>obj_key = ?key, part_offset = 0, part_size = length src\<rparr>"
  let ?pm1 = "pm\<lparr>fs := (fs pm)(GetObjPath pm ?key \<mapsto> src), uuid_count := Suc (uuid_count pm),
                objects := AList.update ?key (ObjStat_new (length src) 1 0) (objects pm)\<rparr>"
  note ok = new_object_ok [OF inv src(2) refl refl]
  have "adds L p ?a src pm (?pm1\<lparr>fs := (fs ?pm1)(tmp := None),
          local_path_obj := AList.update p ?a (local_path_obj ?pm1)\<rparr>)"
    by (rule adds_finish [OF ok(1) _ ok(2-4)]) (use tmp in \<open>auto simp: same_config_def\<close>)
  then show thesis
    using fresh_key(2) [OF inv] src
    by (intro that [of "result\<lparr>persist_keys := persist_keys result @ [?key], pw_obj_addr := ?a\<rparr>"])
       (auto simp: persist_dedicated_def ObjCreate_def LocalStorage_PutNew_def ObjStat_new_def Let_def)
qed

text \<open>When the file fits behind the current object, appending it succeeds.\<close>

lemma append_adds:
  assumes inv: "pm_inv_on L pm" and tmp: "tmp \<notin> GetObjPath pm ` range (uuids pm)"
    and src: "fs pm tmp = Some src" "src \<noteq> []"
    and fit: "align8 (current_object_size pm) + length src < object_size_limit pm"
  obtains pm1 where
    "CurrentObjAppendNoLock tmp (length src) (pm\<lparr>current_object_size := align8 (current_object_size pm)\<rparr>) = Inr pm1"
    "adds L p \<lparr>obj_key = current_object_key pm, part_offset = align8 (current_object_size pm), part_size = length src\<rparr>
       src pm (pm1\<lparr>fs := (fs pm1)(tmp := None), local_path_obj := AList.update p
         \<lparr>obj_key = current_object_key pm, part_offset = align8 (current_object_size pm), part_size = length src\<rparr>
         (local_path_obj pm1)\<rparr>)"
proof -
  note ok = append_ok [OF inv src(2) refl refl]
  show thesis
    by (rule that [OF _ adds_finish [OF ok(1) _ ok(2-4)]])
       (use tmp fit src in \<open>auto simp: same_config_def CurrentObjAppendNoLock_def Let_def\<close>)
qed

lemma adds_after_finalize:
  assumes "adds L p a src pm1 pm'" "same_config pm pm1"
    and "\<And>a. addr_ok pm a \<Longrightarrow> addr_ok pm1 a \<and> part_bytes pm1 a = part_bytes pm a"
    and "\<And>k. gone pm k \<Longrightarrow> gone pm1 k"
  shows "adds L p a src pm pm'"
  using assms by (auto simp: adds_def same_config_def)

text \<open>Appending either succeeds or reports that the aligned end reaches the limit.\<close>

lemma append_tail:
  assumes inv: "pm_inv_on L pm" and tmp: "tmp \<notin> GetObjPath pm ` range (uuids pm)"
    and src: "fs pm tmp = Some src" "src \<noteq> []"
    and a: "a = \<lparr>obj_key = current_object_key pm, part_offset = align8 (current_object_size pm), part_size = length src\<rparr>"
  shows "case rbind (CurrentObjAppendNoLock tmp (length src)
                       (pm\<lparr>current_object_size := align8 (current_object_size pm)\<rparr>)) (\<lambda>pm3.
                Inr (r, pm3\<lparr>fs := (fs pm3)(tmp := None),
                            local_path_obj := AList.update p a (local_path_obj pm3)\<rparr>)) of
           Inl e \<Rightarrow> object_size_limit pm \<le> align8 (current_object_size pm) + length src
         | Inr (r', pm') \<Rightarrow> align8 (current_object_size pm) + length src < object_size_limit pm \<and>
                          r' = r \<and> adds L p a src pm pm'"
proof (cases "align8 (current_object_size pm) + length src < object_size_limit pm")
  case True
  show ?thesis
    by (rule append_adds [OF inv tmp src True, where p = p]) (use True in \<open>simp add: a\<close>)
next
  case False
  then show ?thesis using src by (simp add: CurrentObjAppendNoLock_def Let_def)
qed

lemma persist_compose_cases:
  assumes inv: "pm_inv_on L pm" and tmp: "tmp \<notin> GetObjPath pm ` range (uuids pm)"
    and src: "fs pm tmp = Some src" "src \<noteq> []"
  shows "case persist_compose p tmp (length src) result pm of
           Inl e \<Rightarrow> object_size_limit pm \<le> length src \<or>
                    to_i32 (int (length src)) < CurrentObjRoomNoLock pm \<and>
                    object_size_limit pm \<le> align8 (current_object_size pm) + length src
         | Inr (r, pm') \<Rightarrow>
             (to_i32 (int (length src)) < CurrentObjRoomNoLock pm \<longrightarrow>
                align8 (current_object_size pm) + length src < object_size_limit pm) \<and>
             drop_from_remote_keys r = drop_from_remote_keys result \<and>
             adds L p (pw_obj_addr r) src pm pm'"
proof (cases "to_i32 (int (length src)) \<ge> CurrentObjRoomNoLock pm")
  case False
  show ?thesis
    using append_tail [OF inv tmp src refl, where p = p and r = "result\<lparr>persist_keys := persist_keys result,
        pw_obj_addr := \<lparr>obj_key = current_object_key pm, part_offset = align8 (current_object_size pm),
                        part_size = length src\<rparr>\<rparr>"] False
    by (auto simp: persist_compose_def Let_def split: sum.splits)
next
  case True
  obtain keys pm1 where f: "CurrentObjFinalizeNoLock (persist_keys result) pm = Inr (keys, pm1)"
      "pm_inv_on L pm1" "same_config pm pm1" "current_object_size pm1 = 0"
      "\<And>a. addr_ok pm a \<Longrightarrow> addr_ok pm1 a \<and> part_bytes pm1 a = part_bytes pm a"
      "\<And>p. p \<notin> GetObjPath pm ` range (uuids pm) \<Longrightarrow> fs pm1 p = fs pm p"
      "\<And>k. gone pm k \<Longrightarrow> gone pm1 k"
    by (rule finalize_ok [OF inv, of "persist_keys result"]) blast
  have tmp1: "tmp \<notin> GetObjPath pm1 ` range (uuids pm1)"
    using tmp f(3) same_config_path [OF f(3)] by (simp add: same_config_def image_def)
  have src1: "fs pm1 tmp = Some src" using f(6) tmp src(1) by simp
  have lim: "object_size_limit pm1 = object_size_limit pm" using f(3) by (simp add: same_config_def)
  show ?thesis
    using append_tail [OF f(2) tmp1 src1 src(2) refl, where p = p and r = "result\<lparr>persist_keys := keys,
        pw_obj_addr := \<lparr>obj_key = current_object_key pm1, part_offset = align8 (current_object_size pm1),
                        part_size = length src\<rparr>\<rparr>"] True f(1,4) lim
      adds_after_finalize [OF _ f(3,5,7)]
    by (auto simp: persist_compose_def Let_def split: sum.splits)
qed

text \<open>The old address of an overwritten path is cleaned up first, and this cannot fail.\<close>

lemma cleanup_in_object_total:
  assumes inv: "pm_inv_on L pm" and p: "L p = Some a" and a: "a \<noteq> empty_addr"
    and st: "map_of (objects pm) (obj_key a) = Some st"
  shows "\<exists>remote' pm'. cleanup_in_object a st remote False pm = Inr (remote', pm')"
proof -
  have S: "stat_ok st" and A: "addr_ok pm a" and K: "keys_ok pm" using inv st p by (auto simp: pm_inv_on_def)
  from A a st have a': "0 < part_size a" "part_span a \<inter> covered (deleted_ranges st) = {}"
    by (auto simp: addr_ok_def extent_def dead_def)
  obtain i where i: "obj_key a = uuids pm i" using object_key_uuid [OF K st] by blast
  have ne: "obj_key a \<noteq> []" using K unfolding i by (simp add: keys_ok_def uuids_fresh_def)
  let ?orig = "\<lparr>r_start = part_offset a, r_end = align8 (part_offset a + part_size a)\<rparr>"
  obtain rs rg where "delete_range (deleted_ranges st) ?orig = Inr (rs, Some rg)"
    by (rule delete_range_new [of "deleted_ranges st" ?orig])
       (use S a' align8_ge [of "part_offset a + part_size a"] in
          \<open>auto simp: stat_ok_def span_def part_span_def\<close>)
  then show ?thesis using ne by (simp add: cleanup_in_object_def Let_def)
qed

lemma CleanupNoLock_total:
  assumes inv: "pm_inv_on L pm" and p: "L p = Some a"
  shows "\<exists>keys' remote' pm'. CleanupNoLock a keys remote False pm = Inr (keys', remote', pm')"
proof -
  have K: "keys_ok pm" and A: "addr_ok pm a" using inv p by (auto simp: pm_inv_on_def)
  show ?thesis
  proof (cases "a = empty_addr")
    case True
    then show ?thesis
      using keys_ok_not_empty(1) [OF K] by (simp add: CleanupNoLock_def LocalStorage_GetNoCount_def empty_addr_def)
  next
    case ne: False
    with A have a': "obj_key a \<noteq> KeyEmpty" "0 < part_size a" and "\<exists>n. extent pm (obj_key a) = Some n \<and>
        part_offset a + part_size a \<le> n" by (auto simp: addr_ok_def)
    then obtain n where n: "extent pm (obj_key a) = Some n" "0 < n" by auto
    show ?thesis
    proof (cases "map_of (objects pm) (obj_key a)")
      case (Some st)
      then show ?thesis
        using cleanup_in_object_total [OF inv p ne Some, of remote]
        by (auto simp: CleanupNoLock_def LocalStorage_GetNoCount_def)
    next
      case None
      with n have cur: "obj_key a = current_object_key pm" "0 < current_object_size pm"
        by (auto simp: extent_def split: if_splits)
      obtain keys1 pm1 st where f: "CurrentObjFinalizeNoLock keys pm = Inr (keys1, pm1)" "pm_inv_on L pm1"
        "map_of (objects pm1) (obj_key a) = Some st"
        unfolding cur(1) by (rule finalize_ok [OF inv, of keys]) (use cur(2) in blast)
      show ?thesis
        using cleanup_in_object_total [OF f(2) p ne f(3), of remote] f None cur a'
        by (auto simp: CleanupNoLock_def LocalStorage_GetNoCount_def)
    qed
  qed
qed

lemma persist_cleanup_old_ok:
  assumes "pm_inv pm"
  obtains r pm1 where "persist_cleanup_old p pm = Inr (r, pm1)"
    "drops_only ((map_of (local_path_obj pm))(p := None)) (drop_from_remote_keys r) pm pm1"
proof (cases "map_of (local_path_obj pm) p")
  case None
  then show thesis
    using assms
    by (intro that [of PersistWriteResult_default pm])
       (auto simp: persist_cleanup_old_def drops_only_def same_config_def pm_inv_def fun_upd_idem
         PersistWriteResult_default_def)
next
  case (Some a)
  note inv = assms [unfolded pm_inv_def]
  obtain keys remote pm1 where c: "CleanupNoLock a [] [] False pm = Inr (keys, remote, pm1)"
    using CleanupNoLock_total [OF inv Some] by blast
  show thesis
    by (rule that [of "PersistWriteResult_default\<lparr>persist_keys := keys, drop_from_remote_keys := remote\<rparr>" pm1])
       (use Some c CleanupNoLock_drops_only [OF inv Some c] in \<open>simp_all add: persist_cleanup_old_def\<close>)
qed

text \<open>The address of a path before an operation that dropped another path.\<close>

lemma read_file_adds:
  assumes inv: "pm_inv pm"
    and d: "drops_only ((map_of (local_path_obj pm))(p := None)) remote pm pm1"
    and a: "adds ((map_of (local_path_obj pm))(p := None)) p a src pm1 pm'"
  shows "pm_inv pm'" and "read_file pm' p = Some src"
    and "q \<noteq> p \<Longrightarrow> read_file pm' q = read_file pm q" and "\<forall>k \<in> set remote. gone pm' k"
proof -
  have lpo: "map_of (local_path_obj pm') = (map_of (local_path_obj pm))(p \<mapsto> a)"
    using d a by (simp add: drops_only_def adds_def same_config_def update_conv' fun_eq_iff)
  show "pm_inv pm'" unfolding pm_inv_def lpo using a by (simp add: adds_def)
  have "part_bytes pm' a = Some src" using a by (simp add: adds_def)
  then show "read_file pm' p = Some src" by (simp add: read_file_def lpo)
  show "\<forall>k \<in> set remote. gone pm' k" using d a by (auto simp: drops_only_def adds_def)
  show "read_file pm' q = read_file pm q" if "q \<noteq> p"
  proof (cases "map_of (local_path_obj pm) q")
    case None
    then show ?thesis using that by (simp add: read_file_def lpo)
  next
    case (Some b)
    with inv have "addr_ok pm b" by (auto simp: pm_inv_def pm_inv_on_def)
    moreover have "addr_ok pm1 b" using d Some that by (auto simp: drops_only_def pm_inv_on_def split: if_splits)
    ultimately have "part_bytes pm' b = part_bytes pm b" using d a by (simp add: drops_only_def adds_def)
    then show ?thesis using that Some by (simp add: read_file_def lpo)
  qed
qed

text \<open>\<^verbatim>\<open>Persist\<close> as a whole: the old part is dropped, then the file is added.\<close>

lemma Persist_steps:
  assumes inv: "pm_inv pm" and tmp: "tmp \<notin> GetObjPath pm ` range (uuids pm)"
    and src: "fs pm tmp = Some src" and p: "p = RemovePrefix pm path"
    and res: "Persist path tmp c pm = Inr (r, pm')"
  obtains remote pm1 where "drops_only ((map_of (local_path_obj pm))(p := None)) remote pm pm1"
    "adds ((map_of (local_path_obj pm))(p := None)) p (pw_obj_addr r) src pm1 pm'"
    "drop_from_remote_keys r = remote"
proof -
  obtain r0 pm1 where d: "persist_cleanup_old p pm = Inr (r0, pm1)"
    "drops_only ((map_of (local_path_obj pm))(p := None)) (drop_from_remote_keys r0) pm pm1"
    by (rule persist_cleanup_old_ok [OF inv])
  have cfg: "same_config pm pm1" and inv1: "pm_inv_on ((map_of (local_path_obj pm))(p := None)) pm1"
    using d(2) by (auto simp: drops_only_def)
  have tmp1: "tmp \<notin> GetObjPath pm1 ` range (uuids pm1)"
    using tmp cfg same_config_path [OF cfg] by (simp add: same_config_def image_def)
  have src1: "fs pm1 tmp = Some src" using d(2) tmp src by (simp add: drops_only_def)
  have "p \<noteq> []" using res p by (auto simp: Persist_def)
  then consider "src = []" "persist_empty p tmp r0 pm1 = Inr (r, pm')"
    | "src \<noteq> []" "persist_dedicated p tmp (length src) r0 pm1 = Inr (r, pm')"
    | "src \<noteq> []" "persist_compose p tmp (length src) r0 pm1 = Inr (r, pm')"
    using res d(1) src1 by (auto simp: Persist_def Let_def p split: if_splits)
  then have "adds ((map_of (local_path_obj pm))(p := None)) p (pw_obj_addr r) src pm1 pm' \<and>
      drop_from_remote_keys r = drop_from_remote_keys r0"
  proof cases
    case 1
    then show ?thesis using persist_empty_adds [OF inv1 tmp1, where p = p and result = r0] by fastforce
  next
    case 2
    then show ?thesis using persist_dedicated_adds [OF inv1 tmp1 src1, where p = p and result = r0] by fastforce
  next
    case 3
    then show ?thesis using persist_compose_cases [OF inv1 tmp1 src1, where p = p and result = r0] by auto
  qed
  then show thesis using that [OF d(2)] by blast
qed

lemma Cleanup_steps:
  assumes inv: "pm_inv pm" and p: "p = RemovePrefix pm path" and res: "Cleanup path pm = Inr (r, pm')"
  obtains pm1 where "drops_only ((map_of (local_path_obj pm))(p := None)) (drop_from_remote_keys r) pm pm1"
    "pm' = pm1\<lparr>local_path_obj := AList.delete p (local_path_obj pm)\<rparr>"
proof (cases "map_of (local_path_obj pm) p")
  case None
  have del: "AList.delete p (local_path_obj pm) = local_path_obj pm"
    using None by (simp add: AList.delete_idem map_of_eq_None_iff)
  show thesis
    by (rule that [of pm])
       (use None res inv del in \<open>auto simp: Cleanup_def Let_def p drops_only_def same_config_def pm_inv_def
          fun_upd_idem PersistWriteResult_default_def split: if_splits\<close>)
next
  case (Some a)
  with res p obtain keys remote pm1 where c: "CleanupNoLock a [] [] True pm = Inr (keys, remote, pm1)"
    "r = PersistWriteResult_default\<lparr>persist_keys := keys, drop_from_remote_keys := remote\<rparr>"
    "pm' = pm1\<lparr>local_path_obj := AList.delete p (local_path_obj pm1)\<rparr>"
    by (auto simp: Cleanup_def Let_def res_simps split: if_splits)
  have d: "drops_only ((map_of (local_path_obj pm))(p := None)) remote pm pm1"
    by (rule CleanupNoLock_drops_only [OF inv [unfolded pm_inv_def] Some c(1)])
  show thesis
    by (rule that [of pm1]) (use c d in \<open>auto simp: drops_only_def same_config_def\<close>)
qed

text \<open>Removing the files of gone objects.\<close>

lemma fold_remove:
  "fold (\<lambda>key f. f(P key := None)) ks f q = (if q \<in> P ` set ks then None else f q)"
  by (induction ks arbitrary: f) auto

lemma gone_path:
  assumes "keys_ok pm" "gone pm k" "extent pm k' = Some n"
  shows "GetObjPath pm k \<noteq> GetObjPath pm k'"
proof -
  obtain i where i: "k = uuids pm i" using assms(2) by (auto simp: gone_def)
  have "k' \<in> range (uuids pm)"
    using extent_key [OF assms(1,3)] object_key_uuid [OF assms(1)] assms(1) by (auto simp: keys_ok_def)
  then obtain j where j: "k' = uuids pm j" by blast
  have "k \<noteq> k'" using assms(2,3) by (auto simp: gone_def)
  then show ?thesis using keys_ok_path_inj [OF assms(1), of i j] i j by auto
qed

lemma handle_write_result_ok:
  assumes inv: "pm_inv pm" and none: "drop_keys r = []"
    and gone: "\<forall>k \<in> set (drop_from_remote_keys r). gone pm k"
    and pm': "pm' = fst (HandleWriteResult leader r pm remote)"
  shows "pm_inv pm'" and "read_file pm' q = read_file pm q"
proof -
  let ?G = "GetObjPath pm ` set (drop_from_remote_keys r)"
  define f where "f = (\<lambda>q. if q \<in> ?G then None else fs pm q)"
  have pm'_eq: "pm' = pm\<lparr>fs := f\<rparr>"
    using none by (simp add: pm' HandleWriteResult_def Let_def f_def fun_eq_iff fold_remove)
  have K: "keys_ok pm" and F: "files_ok pm" using inv by (auto simp: pm_inv_def pm_inv_on_def)
  have keep: "f (GetObjPath pm k) = fs pm (GetObjPath pm k)" if "extent pm k = Some n" for k n
    using gone gone_path [OF K _ that] unfolding f_def image_iff by metis
  have obj: "f (GetObjPath pm k) = fs pm (GetObjPath pm k)" if "map_of (objects pm) k = Some st" for k st
    by (rule keep [of _ "obj_size st"]) (simp add: extent_def that)
  have cur: "f (GetObjPath pm (current_object_key pm)) = fs pm (GetObjPath pm (current_object_key pm))"
    by (rule keep [of _ "current_object_size pm"])
       (simp add: extent_def keys_ok_current_not_object [OF K])
  have f_none: "f q = None" if "fs pm q = None" for q using that by (simp add: f_def)
  have "files_ok pm'" using F obj cur f_none by (auto simp: files_ok_def pm'_eq)
  then show "pm_inv pm'"
    using inv by (auto simp: pm_inv_def pm_inv_on_def pm'_eq)
  show "read_file pm' q = read_file pm q"
  proof (cases "map_of (local_path_obj pm) q")
    case None
    then show ?thesis by (simp add: read_file_def pm'_eq)
  next
    case (Some b)
    have "addr_ok pm b" using inv Some by (auto simp: pm_inv_def pm_inv_on_def)
    then have "part_size b = 0 \<or> (\<exists>n. extent pm (obj_key b) = Some n)"
      by (auto simp: addr_ok_def empty_addr_def)
    then have "part_bytes pm' b = part_bytes pm b"
      using keep by (auto simp: part_bytes_def pm'_eq)
    then show ?thesis using Some by (simp add: read_file_def pm'_eq)
  qed
qed

text \<open>The results of \<^verbatim>\<open>Persist\<close> and \<^verbatim>\<open>Cleanup\<close> drop keys through \<open>drop_from_remote_keys\<close> only.\<close>

lemma branch_drop_keys:
  "persist_empty p tmp r0 pm = Inr (r, pm') \<Longrightarrow> drop_keys r = drop_keys r0"
  "persist_dedicated p tmp n r0 pm = Inr (r, pm') \<Longrightarrow> drop_keys r = drop_keys r0"
  "persist_compose p tmp n r0 pm = Inr (r, pm') \<Longrightarrow> drop_keys r = drop_keys r0"
  "persist_cleanup_old p pm = Inr (r0, pm') \<Longrightarrow> drop_keys r0 = []"
  by (auto simp: persist_empty_def persist_dedicated_def persist_compose_def persist_cleanup_old_def
      Let_def res_simps PersistWriteResult_default_def split: prod.splits option.splits)

lemma Persist_drop_keys: "Persist path tmp c pm = Inr (r, pm') \<Longrightarrow> drop_keys r = []"
  by (auto simp: Persist_def Let_def res_simps dest!: branch_drop_keys split: if_splits option.splits)

lemma Cleanup_drop_keys: "Cleanup path pm = Inr (r, pm') \<Longrightarrow> drop_keys r = []"
  by (auto simp: Cleanup_def Let_def res_simps PersistWriteResult_default_def
      split: if_splits option.splits prod.splits)

lemma Cleanup_reads:
  assumes inv: "pm_inv pm" and res: "Cleanup path pm = Inr (r, pm')"
  shows "pm_inv pm'" and "read_file pm' (RemovePrefix pm path) = None"
    and "q \<noteq> RemovePrefix pm path \<Longrightarrow> read_file pm' q = read_file pm q"
    and "\<forall>k \<in> set (drop_from_remote_keys r). gone pm' k"
proof -
  let ?p = "RemovePrefix pm path"
  obtain pm1 where d: "drops_only ((map_of (local_path_obj pm))(?p := None)) (drop_from_remote_keys r) pm pm1"
    "pm' = pm1\<lparr>local_path_obj := AList.delete ?p (local_path_obj pm)\<rparr>"
    by (rule Cleanup_steps [OF inv refl res])
  have lpo: "map_of (local_path_obj pm') = (map_of (local_path_obj pm))(?p := None)"
    by (simp add: d(2) delete_conv' fun_eq_iff)
  show "pm_inv pm'" unfolding pm_inv_def lpo using d by (simp add: drops_only_def)
  show "read_file pm' ?p = None" by (simp add: read_file_def lpo)
  show "\<forall>k \<in> set (drop_from_remote_keys r). gone pm' k" using d by (simp add: drops_only_def)
  assume q: "q \<noteq> ?p"
  show "read_file pm' q = read_file pm q"
  proof (cases "map_of (local_path_obj pm) q")
    case None
    then show ?thesis using q by (simp add: read_file_def lpo)
  next
    case (Some b)
    then have "addr_ok pm b" using inv by (auto simp: pm_inv_def pm_inv_on_def)
    then have "part_bytes pm' b = part_bytes pm b" using d by (simp add: drops_only_def)
    then show ?thesis using Some q by (simp add: read_file_def lpo)
  qed
qed

subsection \<open>Reference counts and the first state\<close>

text \<open>A change of the reference count or the cache flag of an object is invisible to the invariant.\<close>

lemma pm_inv_on_stat:
  assumes inv: "pm_inv_on L pm" and st: "map_of (objects pm) k = Some st"
    and st': "obj_size st' = obj_size st" "deleted_ranges st' = deleted_ranges st"
  shows "pm_inv_on L (pm\<lparr>objects := AList.update k st' (objects pm)\<rparr>)" (is "pm_inv_on L ?pm'")
proof -
  have ext: "extent ?pm' j = extent pm j" and dead: "dead ?pm' j = dead pm j" for j
    using st st' by (auto simp: extent_def dead_def update_conv' split: option.split)
  have "addr_ok ?pm' b = addr_ok pm b" for b by (rule addr_ok_cong) (rule ext dead)+
  moreover have "keys_ok ?pm'"
    using inv st unfolding pm_inv_on_def keys_ok_def by (auto simp: update_conv')
  moreover have "files_ok ?pm'"
    using inv st st' by (auto simp: pm_inv_on_def files_ok_def update_conv')
  ultimately show ?thesis
    using inv st st' by (auto simp: pm_inv_on_def update_conv' stat_ok_def split: if_splits)
qed

lemma pm_inv_current_refs: "pm_inv_on L (pm\<lparr>current_object_ref_count := n\<rparr>) = pm_inv_on L pm"
proof -
  let ?pm' = "pm\<lparr>current_object_ref_count := n\<rparr>"
  have "extent ?pm' j = extent pm j" "dead ?pm' j = dead pm j" for j
    by (auto simp: extent_def dead_def split: option.split)
  then have "addr_ok ?pm' b = addr_ok pm b" for b by (intro addr_ok_cong) auto
  then show ?thesis by (simp add: pm_inv_on_def keys_ok_def files_ok_def)
qed

lemma incr_ref_fields: "obj_size (incr_ref st) = obj_size st" "deleted_ranges (incr_ref st) = deleted_ranges st"
  "obj_size (decr_ref st) = obj_size st" "deleted_ranges (decr_ref st) = deleted_ranges st"
  "decr_ref (incr_ref st) = st" "ref_count (incr_ref st) = Suc (ref_count st)"
  by (simp_all add: incr_ref_def decr_ref_def)

text \<open>Under the invariant the file of every live address exists, so \<^verbatim>\<open>GetObjCache\<close> takes one of
  three branches.\<close>

lemma live_file_exists:
  assumes "pm_inv_on L pm" "L p = Some a" "part_size a \<noteq> 0" "map_of (objects pm) (obj_key a) = Some st"
  shows "fs pm (GetObjPath pm (obj_key a)) \<noteq> None"
proof -
  have "files_ok pm" using assms(1) by (simp add: pm_inv_on_def)
  then show ?thesis using assms(4) unfolding files_ok_def by fastforce
qed

lemma GetObjCache_cases:
  assumes inv: "pm_inv pm" and p: "map_of (local_path_obj pm) (RemovePrefix pm path) = Some a"
    and ne: "RemovePrefix pm path \<noteq> []"
  obtains "part_size a = 0" "GetObjCache path pm = Inr (\<lparr>pr_obj_addr = a, pr_obj_stat = None\<rparr>, pm)"
  | st where "part_size a \<noteq> 0" "map_of (objects pm) (obj_key a) = Some st"
      "GetObjCache path pm = Inr (\<lparr>pr_obj_addr = a, pr_obj_stat = None\<rparr>,
         pm\<lparr>objects := AList.update (obj_key a) (incr_ref st) (objects pm)\<rparr>)"
  | "part_size a \<noteq> 0" "map_of (objects pm) (obj_key a) = None" "obj_key a = current_object_key pm"
      "GetObjCache path pm = Inr (\<lparr>pr_obj_addr = a, pr_obj_stat = None\<rparr>,
         pm\<lparr>current_object_ref_count := current_object_ref_count pm + 1\<rparr>)"
proof -
  note inv' = inv [unfolded pm_inv_def]
  have A: "addr_ok pm a" and K: "keys_ok pm" using inv' p by (auto simp: pm_inv_on_def)
  consider "part_size a = 0" | "part_size a \<noteq> 0" "map_of (objects pm) (obj_key a) = None"
    | st where "part_size a \<noteq> 0" "map_of (objects pm) (obj_key a) = Some st" by blast
  then show thesis
  proof cases
    case 1
    then have "a = empty_addr" using A by (auto simp: addr_ok_def)
    with 1 show thesis using that(1) p ne by (simp add: GetObjCache_def Let_def empty_addr_def)
  next
    case 2
    then obtain n where n: "extent pm (obj_key a) = Some n" using A by (auto simp: addr_ok_def empty_addr_def)
    have "obj_key a = current_object_key pm" using 2 extent_key [OF K n] by auto
    with 2 show thesis using that(3) p ne by (simp add: GetObjCache_def Let_def LocalStorage_Get_def)
  next
    case 3
    with live_file_exists [OF inv' p] show thesis
      using that(2) p ne by (simp add: GetObjCache_def Let_def LocalStorage_Get_def)
  qed
qed

lemma new_state:
  assumes "PersistenceManager_new ws dir limit True names disk = Inr pm"
  shows "workspace pm = ws" "objects pm = []" "local_path_obj pm = []" "current_object_key pm = names 0" "current_object_size pm = 0"
    "current_object_parts pm = 0" "current_object_ref_count pm = 0" "fs pm = disk(path_append ws KeyEmpty \<mapsto> [])" "uuids pm = names" "uuid_count pm = 1"
  using assms by (auto simp: PersistenceManager_new_def Let_def split: if_splits)

lemma new_inv:
  assumes "uuids_fresh names" and "\<forall>i. disk (path_append ws (names i)) = None"
    and "PersistenceManager_new ws dir limit True names disk = Inr pm"
  shows "pm_inv pm"
proof -
  have "path_append ws (names i) \<noteq> path_append ws KeyEmpty" for i
    using assms(1) path_append_inj [of "names i" KeyEmpty ws]
    by (auto simp: uuids_fresh_def KeyEmpty_def starts_with_def)
  then show ?thesis
    using assms(1,2) new_state [OF assms(3)]
    by (auto simp: pm_inv_def pm_inv_on_def keys_ok_def files_ok_def live_disjoint_def GetObjPath_def)
qed

subsection \<open>Histories\<close>

text \<open>A client's view: each operation with the handling of its result.  \<open>OpPersist\<close> carries the
  content the client wrote to the temporary file.\<close>

datatype pm_op =
    OpPersist string string "byte list" bool
  | OpCleanup string
  | OpGet string
  | OpPut string
  | OpFinalize

inductive pm_step :: "PersistenceManager \<Rightarrow> pm_op \<Rightarrow> PersistenceManager \<Rightarrow> bool" where
  step_persist: "pm_step pm (OpPersist path tmp src c) (fst (HandleWriteResult leader r pm' remote))"
    if "tmp \<notin> GetObjPath pm ` range (uuids pm)"
      "Persist path tmp c (pm\<lparr>fs := (fs pm)(tmp \<mapsto> src)\<rparr>) = Inr (r, pm')"
| step_cleanup: "pm_step pm (OpCleanup path) (fst (HandleWriteResult leader r pm' remote))"
    if "Cleanup path pm = Inr (r, pm')"
| step_get: "pm_step pm (OpGet path) pm'" if "GetObjCache path pm = Inr (r, pm')"
| step_put: "pm_step pm (OpPut path) pm'" if "PutObjCache path pm = Inr (r, pm')"
| step_finalize: "pm_step pm OpFinalize (fst (HandleWriteResult leader r pm' remote))"
    if "CurrentObjFinalize validate pm = Inr (r, report, pm')"

inductive pm_run :: "PersistenceManager \<Rightarrow> pm_op list \<Rightarrow> PersistenceManager \<Rightarrow> bool" where
  run_nil: "pm_run pm [] pm"
| run_snoc: "pm_run pm (ops @ [op]) pm''" if "pm_run pm ops pm'" "pm_step pm' op pm''"

text \<open>The specification: a map from local paths to contents; \<open>name\<close> strips the data directory.\<close>

fun files_step :: "(string \<Rightarrow> string) \<Rightarrow> pm_op \<Rightarrow> (string \<rightharpoonup> byte list) \<Rightarrow> (string \<rightharpoonup> byte list)" where
  "files_step name (OpPersist path tmp src c) m = m(name path \<mapsto> src)"
| "files_step name (OpCleanup path) m = m(name path := None)"
| "files_step name _ m = m"

lemma read_file_updates [simp]:
  "read_file (pm\<lparr>objects := os\<rparr>) = read_file pm"
  "read_file (pm\<lparr>current_object_ref_count := n\<rparr>) = read_file pm"
  "RemovePrefix (pm\<lparr>objects := os\<rparr>) = RemovePrefix pm"
  "RemovePrefix (pm\<lparr>current_object_ref_count := n\<rparr>) = RemovePrefix pm"
  "RemovePrefix (pm\<lparr>fs := f\<rparr>) = RemovePrefix pm"
  by (auto simp: read_file_def part_bytes_def RemovePrefix_def fun_eq_iff intro!: Option.bind_cong)

lemma RemovePrefix_cong: "local_data_dir pm' = local_data_dir pm \<Longrightarrow> RemovePrefix pm' = RemovePrefix pm"
  by (simp add: RemovePrefix_def fun_eq_iff)

definition same_view :: "PersistenceManager \<Rightarrow> PersistenceManager \<Rightarrow> bool" where
  "same_view pm pm' \<longleftrightarrow> pm_inv pm' \<and> read_file pm' = read_file pm \<and> RemovePrefix pm' = RemovePrefix pm"

lemma same_view_refl: "pm_inv pm \<Longrightarrow> same_view pm pm"
  by (simp add: same_view_def)

lemma same_view_stat:
  assumes "pm_inv pm" "map_of (objects pm) k = Some st"
    "obj_size st' = obj_size st" "deleted_ranges st' = deleted_ranges st"
  shows "same_view pm (pm\<lparr>objects := AList.update k st' (objects pm)\<rparr>)"
  using assms pm_inv_on_stat [of "map_of (local_path_obj pm)" pm k st st']
  by (simp add: same_view_def pm_inv_def)

lemma same_view_current_refs: "pm_inv pm \<Longrightarrow> same_view pm (pm\<lparr>current_object_ref_count := n\<rparr>)"
  by (simp add: same_view_def pm_inv_def pm_inv_current_refs)

lemma GetObjCache_view:
  assumes inv: "pm_inv pm" and res: "GetObjCache path pm = Inr (r, pm')"
  shows "same_view pm pm'"
proof (cases "map_of (local_path_obj pm) (RemovePrefix pm path)")
  case None
  then show ?thesis
    using res inv by (auto simp: GetObjCache_def Let_def same_view_refl split: if_splits)
next
  case (Some a)
  have ne: "RemovePrefix pm path \<noteq> []" using res by (auto simp: GetObjCache_def)
  show ?thesis
    by (rule GetObjCache_cases [OF inv Some ne])
       (use res inv in \<open>auto simp: same_view_refl same_view_stat same_view_current_refs incr_ref_fields\<close>)
qed

lemma PutObjCache_view:
  assumes "pm_inv pm" "PutObjCache path pm = Inr (r, pm')"
  shows "same_view pm pm'"
  using assms
  by (auto simp: PutObjCache_def Let_def res_simps LocalStorage_Release_def same_view_refl same_view_stat
      same_view_current_refs incr_ref_fields split: if_splits option.splits)

lemma CurrentObjFinalize_view:
  assumes inv: "pm_inv pm" and res: "CurrentObjFinalize validate pm = Inr (r, report, pm')"
  shows "same_view pm pm'" and "drop_keys r = []" and "drop_from_remote_keys r = []"
proof -
  obtain keys pm1 where f: "CurrentObjFinalizeNoLock [] pm = Inr (keys, pm1)"
      "pm_inv_on (map_of (local_path_obj pm)) pm1" "same_config pm pm1"
      "\<And>a. addr_ok pm a \<Longrightarrow> addr_ok pm1 a \<and> part_bytes pm1 a = part_bytes pm a"
    by (rule finalize_ok [OF inv [unfolded pm_inv_def], of "[]"]) blast
  have r: "pm' = pm1" "r = PersistWriteResult_default\<lparr>persist_keys := keys\<rparr>"
    using res f(1) by (auto simp: CurrentObjFinalize_def)
  then show "drop_keys r = []" and "drop_from_remote_keys r = []"
    by (simp_all add: PersistWriteResult_default_def)
  have lpo: "local_path_obj pm1 = local_path_obj pm" using f(3) by (simp add: same_config_def)
  have "read_file pm1 q = read_file pm q" for q
  proof (cases "map_of (local_path_obj pm) q")
    case None
    then show ?thesis by (simp add: read_file_def lpo)
  next
    case (Some b)
    then have "addr_ok pm b" using inv by (auto simp: pm_inv_def pm_inv_on_def)
    with f(4) Some show ?thesis by (simp add: read_file_def lpo)
  qed
  then show "same_view pm pm'"
    using f(2,3) lpo by (auto simp: same_view_def r pm_inv_def same_config_def fun_eq_iff RemovePrefix_def)
qed

lemma handle_view:
  assumes "pm_inv pm" "drop_keys r = []" "\<forall>k \<in> set (drop_from_remote_keys r). gone pm k"
  shows "same_view pm (fst (HandleWriteResult leader r pm remote))"
  using handle_write_result_ok [OF assms refl]
  by (auto simp: same_view_def fun_eq_iff) (simp add: HandleWriteResult_def Let_def RemovePrefix_def)

lemma Persist_view:
  assumes inv: "pm_inv pm" and tmp: "tmp \<notin> GetObjPath pm ` range (uuids pm)" "fs pm tmp = Some src"
    and res: "Persist path tmp c pm = Inr (r, pm')"
  shows "pm_inv pm'" and "read_file pm' = (read_file pm)(RemovePrefix pm path \<mapsto> src)"
    and "RemovePrefix pm' = RemovePrefix pm" and "\<forall>k \<in> set (drop_from_remote_keys r). gone pm' k"
proof -
  let ?p = "RemovePrefix pm path"
  obtain pm1 where d: "drops_only ((map_of (local_path_obj pm))(?p := None)) (drop_from_remote_keys r) pm pm1"
    and a: "adds ((map_of (local_path_obj pm))(?p := None)) ?p (pw_obj_addr r) src pm1 pm'"
    by (rule Persist_steps [OF inv tmp refl res]) blast
  note reads = read_file_adds [OF inv d a]
  show "pm_inv pm'" and "\<forall>k \<in> set (drop_from_remote_keys r). gone pm' k" by (rule reads)+
  show "read_file pm' = (read_file pm)(?p \<mapsto> src)" using reads(2,3) by (auto simp: fun_eq_iff)
  show "RemovePrefix pm' = RemovePrefix pm"
    using d a by (intro RemovePrefix_cong) (simp add: drops_only_def adds_def same_config_def)
qed

lemma Cleanup_view:
  assumes inv: "pm_inv pm" and res: "Cleanup path pm = Inr (r, pm')"
  shows "read_file pm' = (read_file pm)(RemovePrefix pm path := None)"
    and "RemovePrefix pm' = RemovePrefix pm"
proof -
  show "read_file pm' = (read_file pm)(RemovePrefix pm path := None)"
    using Cleanup_reads(2,3) [OF inv res] by (auto simp: fun_eq_iff)
  show "RemovePrefix pm' = RemovePrefix pm"
    by (rule Cleanup_steps [OF inv refl res])
       (intro RemovePrefix_cong, simp add: drops_only_def same_config_def)
qed

lemma write_tmp_view:
  assumes inv: "pm_inv pm" and tmp: "tmp \<notin> GetObjPath pm ` range (uuids pm)"
  shows "same_view pm (pm\<lparr>fs := (fs pm)(tmp := x)\<rparr>)"
proof -
  have K: "keys_ok pm" using inv by (simp add: pm_inv_def pm_inv_on_def)
  have "part_bytes (pm\<lparr>fs := (fs pm)(tmp := x)\<rparr>) b = part_bytes pm b" if "addr_ok pm b" for b
    using part_bytes_write_tmp [OF K that tmp, where x = x and l = "local_path_obj pm"] by simp
  then have "read_file (pm\<lparr>fs := (fs pm)(tmp := x)\<rparr>) q = read_file pm q" for q
    using inv by (cases "map_of (local_path_obj pm) q") (auto simp: read_file_def pm_inv_def pm_inv_on_def)
  then show ?thesis
    using pm_inv_on_write_tmp [OF inv [unfolded pm_inv_def] tmp, where x = x]
    by (simp add: same_view_def pm_inv_def fun_eq_iff)
qed

lemma pm_step_refines:
  assumes "pm_step pm op pm'" "pm_inv pm"
  shows "pm_inv pm' \<and> RemovePrefix pm' = RemovePrefix pm \<and>
         read_file pm' = files_step (RemovePrefix pm) op (read_file pm)"
  using assms
proof cases
  case (step_persist tmp path c src r pm1 leader remote)
  let ?pm0 = "pm\<lparr>fs := (fs pm)(tmp \<mapsto> src)\<rparr>"
  have v: "same_view pm ?pm0" using write_tmp_view [OF assms(2) step_persist(3)] .
  have inv0: "pm_inv ?pm0" using v by (simp add: same_view_def)
  have tmp: "tmp \<notin> GetObjPath ?pm0 ` range (uuids ?pm0)" using step_persist(3) by (simp add: image_def)
  note P = Persist_view [OF inv0 tmp _ step_persist(4), of src]
  show ?thesis
    using P v handle_view [OF P(1) Persist_drop_keys [OF step_persist(4)] P(4), of leader remote]
    by (simp add: same_view_def step_persist(1,2))
next
  case (step_cleanup path r pm1 leader remote)
  note C = Cleanup_reads [OF assms(2) step_cleanup(3)]
  show ?thesis
    using Cleanup_view [OF assms(2) step_cleanup(3)]
      handle_view [OF C(1) Cleanup_drop_keys [OF step_cleanup(3)] C(4), of leader remote]
    by (simp add: same_view_def step_cleanup(1,2))
next
  case (step_get path r)
  then show ?thesis using GetObjCache_view [OF assms(2)] by (auto simp: same_view_def)
next
  case (step_put path r)
  then show ?thesis using PutObjCache_view [OF assms(2)] by (auto simp: same_view_def)
next
  case (step_finalize validate r report pm1 leader remote)
  note F = CurrentObjFinalize_view [OF assms(2) step_finalize(3)]
  show ?thesis
    using F handle_view [of pm1 r leader remote] by (simp add: same_view_def step_finalize(1,2))
qed

lemma pm_run_refines:
  assumes "pm_run pm ops pm'" "pm_inv pm"
  shows "pm_inv pm' \<and> RemovePrefix pm' = RemovePrefix pm \<and>
         read_file pm' = fold (files_step (RemovePrefix pm)) ops (read_file pm)"
  using assms
proof (induction rule: pm_run.induct)
  case (run_snoc pm ops pm' op pm'')
  then show ?case using pm_step_refines [OF run_snoc(2)] by simp
qed simp

subsection \<open>Properties\<close>

text \<open>A concrete manager for the witnesses: an empty workspace, object names \<open>u\<close>, \<open>uu\<close>, ..., and
  two files waiting to be persisted.\<close>

definition demo_names :: "nat \<Rightarrow> string" where
  "demo_names n = replicate (Suc n) CHR ''u''"

definition demo_pm :: PersistenceManager where
  "demo_pm = \<lparr>workspace = ''/ws'', local_data_dir = ''d/'', object_size_limit = 100, objects = [],
     local_path_obj = [], current_object_key = demo_names 0, current_object_size = 0,
     current_object_parts = 0, current_object_ref_count = 0,
     fs = [''t1'' \<mapsto> [1, 2, 3], ''t2'' \<mapsto> [4], path_append ''/ws'' KeyEmpty \<mapsto> []],
     uuids = demo_names, uuid_count = 1\<rparr>"

lemma demo_names_fresh: "uuids_fresh demo_names"
proof -
  have "starts_with (demo_names n) ''/'' = False" "demo_names n \<noteq> []" "hd (demo_names n) = CHR ''u''" for n
    by (simp_all add: demo_names_def starts_with_def)
  moreover have "hd KeyEmpty \<noteq> CHR ''u''" by (simp add: KeyEmpty_def)
  ultimately have "demo_names n \<noteq> KeyEmpty \<and> demo_names n \<noteq> [] \<and> \<not> starts_with (demo_names n) ''/''" for n
    by metis
  moreover have "inj demo_names"
    by (rule injI) (metis demo_names_def length_replicate nat.inject)
  ultimately show ?thesis by (simp add: uuids_fresh_def)
qed

lemma demo_paths:
  "t \<noteq> [] \<Longrightarrow> hd t \<noteq> CHR ''/'' \<Longrightarrow> t \<notin> GetObjPath demo_pm ` range (uuids demo_pm)"
  "path_append ''/ws'' (demo_names i) = ''/ws/'' @ demo_names i" "starts_with (path_append ''/ws'' KeyEmpty) ''/''"
  by (auto simp: GetObjPath_def demo_pm_def path_append_def demo_names_def KeyEmpty_def starts_with_def)

lemma demo_inv: "pm_inv demo_pm"
  by (rule new_inv [of demo_names "[''t1'' \<mapsto> [1, 2, 3], ''t2'' \<mapsto> [4]]" "''/ws''" "''d/''" 100])
     (simp_all add: demo_names_fresh demo_paths PersistenceManager_new_def Let_def demo_pm_def)

lemma demo_files: "fs demo_pm ''t1'' = Some [1, 2, 3]" "(fs demo_pm)(''t1'' \<mapsto> [1, 2, 3]) = fs demo_pm"
  "RemovePrefix demo_pm ''d/a'' = ''a''" "read_file demo_pm = Map.empty"
  by (auto simp: demo_pm_def path_append_def KeyEmpty_def starts_with_def RemovePrefix_def read_file_def fun_eq_iff)

lemma demo_persist:
  "\<exists>r pm'. Persist ''d/a'' ''t1'' True demo_pm = Inr (r, pm') \<and> drop_from_remote_keys r = [] \<and>
     local_path_obj pm' = [(''a'', \<lparr>obj_key = ''u'', part_offset = 0, part_size = 3\<rparr>)]"
  by (simp add: Persist_def persist_cleanup_old_def persist_compose_def CurrentObjRoomNoLock_def
      CurrentObjAppendNoLock_def RemovePrefix_def starts_with_def demo_pm_def demo_names_def
      path_append_def GetObjPath_def disk_content_def KeyEmpty_def to_i32_def align8_def
      PersistWriteResult_default_def Let_def)

lemma demo_cleanup:
  "\<exists>r0 pm r pm'. Persist ''d/a'' ''t1'' True demo_pm = Inr (r0, pm) \<and> Cleanup ''d/a'' pm = Inr (r, pm') \<and>
     drop_from_remote_keys r = [''u''] \<and> fs pm ''t2'' = Some [4] \<and> workspace pm = ''/ws'' \<and> uuids pm = demo_names"
  by (simp add: Persist_def persist_cleanup_old_def persist_compose_def CurrentObjRoomNoLock_def
      CurrentObjAppendNoLock_def RemovePrefix_def starts_with_def demo_pm_def demo_names_def
      path_append_def GetObjPath_def disk_content_def KeyEmpty_def to_i32_def align8_def
      PersistWriteResult_default_def Let_def Cleanup_def CleanupNoLock_def LocalStorage_GetNoCount_def
      CurrentObjFinalizeNoLock_def LocalStorage_PutNew_def ObjStat_new_def ObjCreate_def
      cleanup_in_object_def delete_range_def set_lower_bound_def merge_next_def
      LocalStorage_Invalidate_def)

lemma demo_new: "PersistenceManager_new ''/ws'' ''d'' 100 True demo_names
    [''t1'' \<mapsto> [1, 2, 3], ''t2'' \<mapsto> [4]] = Inr demo_pm"
  by (simp add: PersistenceManager_new_def Let_def demo_pm_def demo_paths(3))

lemma demo_disk: "([''t1'' \<mapsto> [1, 2, 3], ''t2'' \<mapsto> [4]] :: disk) (path_append ''/ws'' (demo_names i)) = None"
  by (simp add: demo_paths)

text \<open>(C1) The persistence layer implements a map from local paths to file contents.  Start with an
  empty workspace and names that never repeat, and run any sequence of persisting (composed or
  not, new or replacing), cleanup, reference taking, reference releasing and sealing, with the result
  handler removing dropped objects from the disk after each: as long as no operation raises, the
  state is consistent and reading any path through its object address gives exactly what the map
  gives, so sharing objects, merging deleted ranges and dropping objects never lose or mix up a
  file.\<close>

theorem persistence_refines_file_map:
  assumes "uuids_fresh names" and "\<forall>i. disk (path_append ws (names i)) = None"
    and "PersistenceManager_new ws dir limit True names disk = Inr pm0"
    and "pm_run pm0 ops pm"
  shows "pm_inv pm \<and> read_file pm = fold (files_step (RemovePrefix pm0)) ops Map.empty"
proof -
  have "read_file pm0 = Map.empty"
    by (simp add: new_state(3) [OF assms(3)] read_file_def fun_eq_iff)
  then show ?thesis using pm_run_refines [OF assms(4) new_inv [OF assms(1-3)]] by simp
qed

theorem persistence_refines_file_map_witness:
  "\<exists>pm. pm_run demo_pm [OpPersist ''d/a'' ''t1'' [1, 2, 3] True] pm \<and> pm_inv pm \<and> read_file pm = [''a'' \<mapsto> [1, 2, 3]]"
proof -
  obtain r pm' where r: "Persist ''d/a'' ''t1'' True demo_pm = Inr (r, pm')" using demo_persist by blast
  have "demo_pm\<lparr>fs := (fs demo_pm)(''t1'' \<mapsto> [1, 2, 3])\<rparr> = demo_pm" by (simp add: demo_files)
  then have "pm_step demo_pm (OpPersist ''d/a'' ''t1'' [1, 2, 3] True)
      (fst (HandleWriteResult True r pm' Map.empty))"
    using r demo_paths(1) [of "''t1''"] by (intro step_persist) simp_all
  from run_snoc [OF run_nil this]
  have run: "pm_run demo_pm [OpPersist ''d/a'' ''t1'' [1, 2, 3] True]
      (fst (HandleWriteResult True r pm' Map.empty))" by simp
  then show ?thesis
    using persistence_refines_file_map [OF demo_names_fresh _ demo_new run] demo_disk
    by (auto simp: demo_files)
qed

text \<open>Persisting a file stores its bytes and nothing else changes: from a consistent state,
  whenever \<^verbatim>\<open>Persist\<close> returns, the state is consistent, reading the path back through its address
  gives exactly the bytes of the temporary file, and every other path reads as before, whether the
  file replaced an older version or not and whichever of the three storage branches was taken.\<close>

lemma Persist_stores_file:
  assumes "pm_inv pm" and "fs pm tmp = Some src" and "tmp \<notin> GetObjPath pm ` range (uuids pm)"
    and "Persist path tmp c pm = Inr (r, pm')"
  shows "pm_inv pm' \<and> read_file pm' (RemovePrefix pm path) = Some src \<and>
         (\<forall>q. q \<noteq> RemovePrefix pm path \<longrightarrow> read_file pm' q = read_file pm q)"
  using Persist_view [OF assms(1,3,2,4)] by simp

lemma Persist_stores_file_example:
  "\<exists>r pm'. Persist ''d/a'' ''t1'' True demo_pm = Inr (r, pm') \<and> pm_inv pm' \<and>
     read_file pm' ''a'' = Some [1, 2, 3]"
proof -
  obtain r pm' where r: "Persist ''d/a'' ''t1'' True demo_pm = Inr (r, pm')" using demo_persist by blast
  have "RemovePrefix demo_pm ''d/a'' = ''a''" by (simp add: RemovePrefix_def demo_pm_def starts_with_def)
  moreover have "fs demo_pm ''t1'' = Some [1, 2, 3]" by (simp add: demo_files)
  ultimately show ?thesis
    using Persist_stores_file [OF demo_inv _ _ r, of "[1, 2, 3]"] r demo_paths(1) [of "''t1''"] by auto
qed

text \<open>Cleaning up a path forgets that path and no other: from a consistent state, whenever
  \<^verbatim>\<open>Cleanup\<close> returns, the state is consistent, the path has no content any more, and every other
  path reads as before, also when the part was in the current object and had to be sealed first.\<close>

lemma Cleanup_forgets_path:
  assumes "pm_inv pm" and "Cleanup path pm = Inr (r, pm')"
  shows "pm_inv pm' \<and> read_file pm' = (read_file pm)(RemovePrefix pm path := None)"
  using Cleanup_reads(1) [OF assms] Cleanup_view(1) [OF assms] by simp

lemma Cleanup_forgets_path_example:
  "\<exists>r pm pm'. pm_inv pm \<and> read_file pm ''a'' = Some [1, 2, 3] \<and> Cleanup ''d/a'' pm = Inr (r, pm') \<and>
     drop_from_remote_keys r = [''u''] \<and> read_file pm' ''a'' = None"
proof -
  obtain r0 pm where p: "Persist ''d/a'' ''t1'' True demo_pm = Inr (r0, pm)" using demo_persist by blast
  note v = Persist_view [OF demo_inv demo_paths(1) demo_files(1) p]
  have "\<exists>r pm'. Cleanup ''d/a'' pm = Inr (r, pm') \<and> drop_from_remote_keys r = [''u'']"
    using demo_cleanup p by auto
  then obtain r pm' where c: "Cleanup ''d/a'' pm = Inr (r, pm')" "drop_from_remote_keys r = [''u'']" by blast
  show ?thesis
    using Cleanup_forgets_path [OF v(1) c(1)] c v demo_files by (intro exI) auto
qed

text \<open>(C2) An object is only dropped when no file lives in it: the keys that \<^verbatim>\<open>Persist\<close> and
  \<^verbatim>\<open>Cleanup\<close> hand to the result handler for removal belong to no local path of the new state and are
  not the current object.\<close>

theorem dropped_objects_hold_no_file:
  assumes "pm_inv pm" and "tmp \<notin> GetObjPath pm ` range (uuids pm)" and "fs pm tmp = Some src"
    and "Persist path tmp c pm = Inr (r, pm') \<or> Cleanup path pm = Inr (r, pm')"
    and "k \<in> set (drop_from_remote_keys r)"
  shows "k \<noteq> current_object_key pm' \<and> (\<forall>q a. map_of (local_path_obj pm') q = Some a \<longrightarrow> obj_key a \<noteq> k)"
proof -
  have inv: "pm_inv pm'" and gone: "gone pm' k"
    using assms(4,5) Persist_view(1,4) [OF assms(1-3)] Cleanup_reads(1,4) [OF assms(1)] by blast+
  have "k \<noteq> current_object_key pm'"
    using gone by (auto simp: gone_def extent_def split: option.splits)
  moreover have "obj_key a \<noteq> k" if "map_of (local_path_obj pm') q = Some a" for q a
  proof -
    have "addr_ok pm' a" and K: "keys_ok pm'" using inv that by (auto simp: pm_inv_def pm_inv_on_def)
    moreover have "k \<noteq> KeyEmpty" using gone K by (auto simp: gone_def keys_ok_def uuids_fresh_def)
    ultimately show ?thesis using gone_not_live [OF gone] by (cases "a = empty_addr") (auto simp: empty_addr_def)
  qed
  ultimately show ?thesis by blast
qed

theorem dropped_objects_hold_no_file_witness:
  "\<exists>r pm pm'. Cleanup ''d/a'' pm = Inr (r, pm') \<and> ''u'' \<in> set (drop_from_remote_keys r) \<and>
     ''u'' \<noteq> current_object_key pm'"
proof -
  obtain r0 pm r pm' where c: "Persist ''d/a'' ''t1'' True demo_pm = Inr (r0, pm)" "Cleanup ''d/a'' pm = Inr (r, pm')"
    "drop_from_remote_keys r = [''u'']" "fs pm ''t2'' = Some [4]" "workspace pm = ''/ws''" "uuids pm = demo_names"
    using demo_cleanup by blast
  have inv: "pm_inv pm" by (rule Persist_view(1) [OF demo_inv demo_paths(1) demo_files(1) c(1)]) simp_all
  have "''t2'' \<notin> GetObjPath pm ` range (uuids pm)"
    using demo_paths(1) [of "''t2''"] c(5,6) by (simp add: GetObjPath_def demo_pm_def)
  then show ?thesis
    using dropped_objects_hold_no_file [OF inv _ c(4) disjI2 [OF c(2)], of "''u''"] c(2,3)
    by (intro exI [of _ r] exI [of _ pm] exI [of _ pm'] conjI) auto
qed

lemma room_exact:
  assumes "object_size_limit pm < 2 ^ 31" "current_object_size pm \<le> object_size_limit pm"
  shows "CurrentObjRoomNoLock pm = int (object_size_limit pm) - int (current_object_size pm)"
  using assms by (simp add: CurrentObjRoomNoLock_def to_i32_id)

text \<open>(C4) When composing can fail.  For a new path and a non-empty file below the size limit, with
  the current object below the limit as well, \<^verbatim>\<open>Persist\<close> raises exactly when the file fits behind
  the unaligned end of the current object, which is what the room check looks at, but not behind
  the end aligned to eight bytes, where the file is actually put.  In every other case it succeeds.\<close>

theorem Persist_compose_fails_iff:
  assumes inv: "pm_inv pm" and new: "map_of (local_path_obj pm) (RemovePrefix pm path) = None"
    and path: "RemovePrefix pm path \<noteq> []"
    and src: "fs pm tmp = Some src" "src \<noteq> []" "length src < object_size_limit pm"
    and tmp: "tmp \<notin> GetObjPath pm ` range (uuids pm)"
    and lim: "object_size_limit pm < 2 ^ 31" "current_object_size pm < object_size_limit pm"
  shows "(\<exists>e. Persist path tmp True pm = Inl e) \<longleftrightarrow>
         current_object_size pm + length src < object_size_limit pm \<and>
         object_size_limit pm \<le> align8 (current_object_size pm) + length src"
proof -
  let ?p = "RemovePrefix pm path" and ?r = PersistWriteResult_default
  have P: "Persist path tmp True pm = persist_compose ?p tmp (length src) ?r pm"
    using new path src by (simp add: Persist_def persist_cleanup_old_def)
  have "to_i32 (int (length src)) < CurrentObjRoomNoLock pm \<longleftrightarrow>
      current_object_size pm + length src < object_size_limit pm"
    using room_exact [OF lim(1)] lim src(3) by (auto simp: to_i32_id)
  with persist_compose_cases [OF inv [unfolded pm_inv_def] tmp src(1,2), where p = ?p and result = ?r] src(3)
  show ?thesis unfolding P by (auto split: sum.splits)
qed

definition tight_pm :: PersistenceManager where
  "tight_pm = demo_pm\<lparr>object_size_limit := 10, local_path_obj := [(''b'', \<lparr>obj_key = ''u'', part_offset = 0, part_size = 1\<rparr>)],
     current_object_size := 1, current_object_parts := 1, fs := (fs demo_pm)(''/ws/u'' \<mapsto> [9])\<rparr>"

lemma tight_inv: "pm_inv tight_pm"
proof -
  let ?pm = "demo_pm\<lparr>object_size_limit := 10, fs := (fs demo_pm)(''t3'' \<mapsto> [9])\<rparr>"
  have inv: "pm_inv ?pm"
    by (rule new_inv [of demo_names "[''t1'' \<mapsto> [1, 2, 3], ''t2'' \<mapsto> [4], ''t3'' \<mapsto> [9]]" "''/ws''" "''d/''" 10])
       (auto simp: demo_names_fresh demo_paths PersistenceManager_new_def demo_pm_def path_append_def
          starts_with_def KeyEmpty_def fun_eq_iff)
  have tmp: "''t3'' \<notin> GetObjPath ?pm ` range (uuids ?pm)"
    using demo_paths(1) [of "''t3''"] by (simp add: GetObjPath_def)
  have "\<exists>r pm'. Persist ''b'' ''t3'' True ?pm = Inr (r, pm') \<and> pm' = tight_pm"
    by (simp add: Persist_def persist_cleanup_old_def persist_compose_def CurrentObjRoomNoLock_def
      CurrentObjAppendNoLock_def RemovePrefix_def starts_with_def demo_pm_def demo_names_def tight_pm_def
      path_append_def GetObjPath_def disk_content_def KeyEmpty_def to_i32_def align8_def fun_eq_iff
      PersistWriteResult_default_def Let_def)
  then show ?thesis using Persist_view(1) [OF inv tmp, of "[9]"] by auto
qed

theorem Persist_compose_fails_iff_witness:
  "\<exists>e. Persist ''d/a'' ''t1'' True tight_pm = Inl e"
proof -
  have "''t1'' \<notin> GetObjPath tight_pm ` range (uuids tight_pm)"
    using demo_paths(1) [of "''t1''"] by (simp add: GetObjPath_def tight_pm_def demo_pm_def)
  moreover have "fs tight_pm ''t1'' = Some [1, 2, 3]" "RemovePrefix tight_pm ''d/a'' = ''a''"
    using demo_files(1) by (simp_all add: tight_pm_def RemovePrefix_def demo_pm_def starts_with_def)
  ultimately show ?thesis
    using Persist_compose_fails_iff [OF tight_inv, of "''d/a''" "''t1''" "[1, 2, 3]"]
    by (simp add: tight_pm_def align8_def)
qed

text \<open>Taking and returning a reference is neutral: on a consistent state \<^verbatim>\<open>GetObjCache\<close> of a known
  path succeeds and returns its address, and \<^verbatim>\<open>PutObjCache\<close> of the same path then succeeds and
  restores exactly the state before, for empty files, sealed objects and the current object.\<close>

lemma GetObjCache_PutObjCache_neutral:
  assumes inv: "pm_inv pm" and p: "map_of (local_path_obj pm) (RemovePrefix pm path) = Some a"
    and ne: "RemovePrefix pm path \<noteq> []"
  shows "\<exists>r pm1. GetObjCache path pm = Inr (r, pm1) \<and> pr_obj_addr r = a \<and>
           PutObjCache path pm1 = Inr (PersistWriteResult_default, pm)"
  by (rule GetObjCache_cases [OF inv p ne])
     (use p ne in \<open>auto simp: PutObjCache_def Let_def LocalStorage_Release_def update_conv' incr_ref_fields update_triv\<close>)

lemma GetObjCache_PutObjCache_neutral_example:
  "\<exists>r pm1. GetObjCache ''b'' tight_pm = Inr (r, pm1) \<and> current_object_ref_count pm1 = 1 \<and>
     PutObjCache ''b'' pm1 = Inr (PersistWriteResult_default, tight_pm)"
proof -
  have b: "RemovePrefix tight_pm ''b'' = ''b''"
    by (simp add: RemovePrefix_def tight_pm_def demo_pm_def starts_with_def)
  have "\<exists>r pm1. GetObjCache ''b'' tight_pm = Inr (r, pm1) \<and> current_object_ref_count pm1 = 1"
    using b by (simp add: GetObjCache_def Let_def LocalStorage_Get_def tight_pm_def demo_pm_def demo_names_def)
  then show ?thesis
    using GetObjCache_PutObjCache_neutral [OF tight_inv, of "''b''"] b by (auto simp: tight_pm_def)
qed

end
