(* ===== verification/Logical_Type.thy ===== *)
theory Logical_Type
  imports Serialize "HOL-Library.Char_ord"
begin

text \<open>
  \<^verbatim>\<open>src/src/parser/type/logical_type.h\<close> and \<^verbatim>\<open>logical_type.cpp\<close>: the logical types of column values,
  their names and their widths.  The tables are indexed by the value of the enumerator, that is, by
  its position in the declaration (\<open>LogicalTypes\<close>).
\<close>

subsection \<open>The enumeration and its tables\<close>

datatype LogicalType =
    kBoolean | kTinyInt | kSmallInt | kInteger | kBigInt | kHugeInt | kDecimal | kFloat | kDouble
    | kVarchar | kDate | kTime | kDateTime | kTimestamp | kInterval | kArray | kTuple | kPoint
    | kLine | kLineSeg | kBox | kCircle | kUuid | kEmbedding | kRowID | kMixed | kNull | kMissing
    | kTensor | kTensorArray | kSparse | kEmptyArray | kFloat16 | kBFloat16 | kMultiVector
    | kInvalid

definition LogicalTypes :: "LogicalType list" where
  "LogicalTypes = [
     kBoolean, kTinyInt, kSmallInt, kInteger, kBigInt, kHugeInt, kDecimal, kFloat, kDouble
     , kVarchar, kDate, kTime, kDateTime, kTimestamp, kInterval, kArray, kTuple, kPoint, kLine
     , kLineSeg, kBox, kCircle, kUuid, kEmbedding, kRowID, kMixed, kNull, kMissing, kTensor
     , kTensorArray, kSparse, kEmptyArray, kFloat16, kBFloat16, kMultiVector, kInvalid]"

definition to_underlying_val :: "LogicalType \<Rightarrow> nat" where
  "to_underlying_val t = enum_code LogicalTypes t"

definition type2name :: "string list" where
  "type2name = [
     ''Boolean'', ''TinyInt'', ''SmallInt'', ''Integer'', ''BigInt'', ''HugeInt'', ''Decimal''
     , ''Float'', ''Double'', ''Varchar'', ''Date'', ''Time'', ''DateTime'', ''Timestamp''
     , ''Interval'', ''Array'', ''Tuple'', ''Point'', ''Line'', ''LineSegment'', ''Box''
     , ''Circle'', ''UUID'', ''Embedding'', ''RowID'', ''Heterogeneous'', ''Null'', ''Missing''
     , ''Tensor'', ''TensorArray'', ''Sparse'', ''EmptyArray'', ''Float16'', ''BFloat16''
     , ''MultiVector'', ''Invalid'']"

definition name2type :: "(string \<times> LogicalType) list" where
  "name2type = [
     (''boolean'', kBoolean), (''bool'', kBoolean), (''tinyint'', kTinyInt), (''int8'', kTinyInt)
     , (''smallint'', kSmallInt), (''int16'', kSmallInt), (''integer'', kInteger)
     , (''int'', kInteger), (''int32'', kInteger), (''bigint'', kBigInt), (''int64'', kBigInt)
     , (''hugeint'', kHugeInt), (''decimal'', kDecimal), (''float'', kFloat)
     , (''float32'', kFloat), (''double'', kDouble), (''float64'', kDouble)
     , (''varchar'', kVarchar), (''date'', kDate), (''time'', kTime), (''datetime'', kDateTime)
     , (''timestamp'', kTimestamp), (''interval'', kInterval), (''array'', kArray)
     , (''tuple'', kTuple), (''point'', kPoint), (''line'', kLine), (''linesegment'', kLineSeg)
     , (''box'', kBox), (''circle'', kCircle), (''uuid'', kUuid), (''embedding'', kEmbedding)
     , (''rowid'', kRowID), (''heterogeneous'', kMixed), (''null'', kNull)
     , (''missing'', kMissing), (''tensor'', kTensor), (''tensorarray'', kTensorArray)
     , (''sparse'', kSparse), (''emptyarray'', kEmptyArray), (''float16'', kFloat16)
     , (''bfloat16'', kBFloat16), (''multivector'', kMultiVector), (''invalid'', kInvalid)]"

text \<open>\<^verbatim>\<open>sizeof(ArrayType)\<close> is 8 and \<^verbatim>\<open>sizeof(SparseType)\<close> is 16.\<close>

definition type_size :: "int list" where
  "type_size = [1, 1, 2, 4, 8, 16, 16, 4, 8, 16, 4, 4, 8, 8, 8, 8, 4, 16, 24, 32, 32, 24, 16, 8, 8, 16, 0, 0, 8, 8, 16, 0, 2, 2, 8, 0]"

definition LogicalType2Str :: "LogicalType \<Rightarrow> string" where
  "LogicalType2Str t = type2name ! to_underlying_val t"

definition Str2LogicalType :: "string \<Rightarrow> LogicalType" where
  "Str2LogicalType str = (case map_of name2type str of Some t \<Rightarrow> t | None \<Rightarrow> kInvalid)"

definition LogicalTypeWidth :: "LogicalType \<Rightarrow> int" where
  "LogicalTypeWidth t = type_size ! to_underlying_val t"

subsection \<open>Properties\<close>

lemma LogicalTypes_complete: "t \<in> set LogicalTypes"
  by (cases t) (simp_all add: LogicalTypes_def)

lemma length_LogicalTypes: "length LogicalTypes = 36"
  by (simp add: LogicalTypes_def)

lemma to_underlying_val_less: "to_underlying_val t < 36"
  using enum_code_nth [OF LogicalTypes_complete [of t]] by (simp add: to_underlying_val_def length_LogicalTypes)

definition tolower_char :: "char \<Rightarrow> char" where
  "tolower_char c = (if CHR ''A'' \<le> c \<and> c \<le> CHR ''Z'' then char_of (of_char c + (32 :: nat)) else c)"

text \<open>The three tables fit the enumeration: every logical type has a name and a width, and the
  name in lower case parses back to the type it was printed from.\<close>

lemma LogicalType_name_roundtrip:
  "to_underlying_val t < length type2name \<and> to_underlying_val t < length type_size \<and>
   Str2LogicalType (map tolower_char (LogicalType2Str t)) = t"
proof -
  have "to_underlying_val t < length type2name" "to_underlying_val t < length type_size"
    using to_underlying_val_less [of t] by (simp_all add: type2name_def type_size_def)
  moreover have "Str2LogicalType (map tolower_char (LogicalType2Str t)) = t"
    by (cases t) (simp_all add: Str2LogicalType_def LogicalType2Str_def to_underlying_val_def enum_code_def
      LogicalTypes_def type2name_def name2type_def tolower_char_def char_of_def bit_numeral_rec bit_0)
  ultimately show ?thesis by simp
qed

end
