(* ===== verification/Data_Type.thy ===== *)
theory Data_Type
  imports Logical_Type
begin

text \<open>
  \<^verbatim>\<open>src/src/parser/type/data_type.cpp\<close> and the classes of \<^verbatim>\<open>parser/type/info\<close>: a data type is a logical type
  with an optional \<^verbatim>\<open>TypeInfo\<close>.  A \<^verbatim>\<open>dynamic_cast\<close> that fails gives a null pointer, and its use is
  undefined behaviour.  The binary form, its size and its reader are modelled branch by branch, with
  the promotion \<^verbatim>\<open>MaxDataType\<close> of two types; the comparison with Arrow types and the JSON form are not
  modelled (third-party types).
\<close>

subsection \<open>Types\<close>

datatype EmbeddingDataType =
    kElemBit | kElemInt8 | kElemInt16 | kElemInt32 | kElemInt64 | kElemFloat | kElemDouble
  | kElemUInt8 | kElemFloat16 | kElemBFloat16 | kElemInvalid

definition EmbeddingDataTypes :: "EmbeddingDataType list" where
  "EmbeddingDataTypes = [kElemBit, kElemInt8, kElemInt16, kElemInt32, kElemInt64, kElemFloat,
     kElemDouble, kElemUInt8, kElemFloat16, kElemBFloat16, kElemInvalid]"

datatype SparseStoreType = kSort | kSorted | kInvalidStore

definition SparseStoreTypes :: "SparseStoreType list" where
  "SparseStoreTypes = [kSort, kSorted, kInvalidStore]"

datatype DataType = DataType (dt_type: LogicalType) (dt_info: "TypeInfo option")
  and TypeInfo =
    ArrayInfo DataType
  | DecimalInfo int int
  | EmbeddingInfo EmbeddingDataType nat
  | SparseInfo EmbeddingDataType EmbeddingDataType nat SparseStoreType

definition EMBEDDING_LIMIT_INTERNAL :: int where
  "EMBEDDING_LIMIT_INTERNAL = 65536"

definition null_deref :: error where
  "null_deref = UndefinedBehaviour ''null pointer''"

subsection \<open>Constructors of the type infos\<close>

definition DecimalInfo_Make :: "int \<Rightarrow> int \<Rightarrow> TypeInfo res" where
  "DecimalInfo_Make precision scale =
     (let (precision, scale) = (if precision = 0 \<and> scale = 0 then (38, 38) else (precision, scale))
      in if \<not> scale \<le> precision then Inl (ParserError ''Decimal scale is greater than precision'')
         else if \<not> precision \<le> 38 then Inl (ParserError ''Decimal precision is greater than 38'')
         else Inr (DecimalInfo precision scale))"

text \<open>The dimension is a \<^verbatim>\<open>size_t\<close>: a negative \<^verbatim>\<open>int32_t\<close> argument becomes a huge one.\<close>

definition EmbeddingInfo_Make :: "EmbeddingDataType \<Rightarrow> int \<Rightarrow> TypeInfo res" where
  "EmbeddingInfo_Make t dimension =
     (if dimension mod 2 ^ 64 \<le> EMBEDDING_LIMIT_INTERNAL
      then Inr (EmbeddingInfo t (nat (dimension mod 2 ^ 64)))
      else Inl (ParserError ''Embedding dimension is too large''))"

subsection \<open>Binary form\<close>

fun DataType_GetSizeInBytes :: "DataType \<Rightarrow> int res" where
  "DataType_GetSizeInBytes (DataType t info) =
     (case info of
        None \<Rightarrow> Inr 1
      | Some i \<Rightarrow>
          if t = kArray then
            (case i of ArrayInfo elem \<Rightarrow> size_sum [Inr 1, DataType_GetSizeInBytes elem]
                     | _ \<Rightarrow> Inl null_deref)
          else if t = kDecimal then Inr (1 + 8 * 2)
          else if t \<in> {kTensor, kTensorArray, kMultiVector, kEmbedding} then Inr (1 + 1 + 4)
          else if t = kSparse then Inr (1 + 1 * 2 + 8 + 1)
          else Inl (ParserError ''Unexpected type here''))"

fun DataType_WriteAdv :: "DataType \<Rightarrow> byte list res" where
  "DataType_WriteAdv (DataType t info) =
     (let head = WriteBufAdv_enum LogicalTypes 1 t
      in if t = kArray then
           (case info of
              Some i \<Rightarrow> (case i of ArrayInfo elem \<Rightarrow> wseq [Inr head, DataType_WriteAdv elem]
                                 | _ \<Rightarrow> Inl null_deref)
            | None \<Rightarrow> Inl null_deref)
         else if t = kDecimal then
           (let (precision, scale) =
                  (case info of Some (DecimalInfo p s) \<Rightarrow> (p, s) | _ \<Rightarrow> (0, 0))
            in wseq [Inr head, Inr (WriteBufAdv_i64 precision), Inr (WriteBufAdv_i64 scale)])
         else if t \<in> {kTensor, kTensorArray, kMultiVector, kEmbedding} then
           (case info of
              Some (EmbeddingInfo et dimension) \<Rightarrow>
                wseq [Inr head, Inr (WriteBufAdv_enum EmbeddingDataTypes 1 et),
                      Inr (WriteBufAdv_i32 (to_i32 (int dimension)))]
            | _ \<Rightarrow> Inl (ParserError ''kEmbedding associated type_info is nullptr here''))
         else if t = kSparse then
           (case info of
              Some (SparseInfo data_type index_type dimension store_type) \<Rightarrow>
                wseq [Inr head, Inr (WriteBufAdv_enum EmbeddingDataTypes 1 data_type),
                      Inr (WriteBufAdv_enum EmbeddingDataTypes 1 index_type),
                      Inr (WriteBufAdv_i64 (to_i64 (int dimension))),
                      Inr (WriteBufAdv_enum SparseStoreTypes 1 store_type)]
            | _ \<Rightarrow> Inl null_deref)
         else Inr head)"

definition read_type_info :: "LogicalType \<Rightarrow> byte list \<Rightarrow> (TypeInfo option \<times> byte list) res" where
  "read_type_info t b1 =
     (if t = kDecimal then
        rbind (ReadBufAdv_i64 b1) (\<lambda>(precision, b2).
        rbind (ReadBufAdv_i64 b2) (\<lambda>(scale, b3).
        rbind (DecimalInfo_Make precision scale) (\<lambda>i. Inr (Some i, b3))))
      else if t \<in> {kTensor, kTensorArray, kMultiVector, kEmbedding} then
        rbind (ReadBufAdv_enum EmbeddingDataTypes 1 b1) (\<lambda>(embedding_type, b2).
        rbind (ReadBufAdv_i32 b2) (\<lambda>(dimension, b3).
        rbind (EmbeddingInfo_Make embedding_type dimension) (\<lambda>i. Inr (Some i, b3))))
      else if t = kSparse then
        rbind (ReadBufAdv_enum EmbeddingDataTypes 1 b1) (\<lambda>(data_type, b2).
        rbind (ReadBufAdv_enum EmbeddingDataTypes 1 b2) (\<lambda>(index_type, b3).
        rbind (ReadBufAdv_i64 b3) (\<lambda>(dimension, b4).
        rbind (ReadBufAdv_enum SparseStoreTypes 1 b4) (\<lambda>(store_type, b5).
          Inr (Some (SparseInfo data_type index_type (nat (dimension mod 2 ^ 64)) store_type), b5)))))
      else Inr (None, b1))"

lemma ReadBufAdv_pod_length: "ReadBufAdv_pod k buf = Inr (v, r) \<Longrightarrow> length buf = k + length r"
  by (auto simp: ReadBufAdv_pod_def split: if_splits)

lemma ReadBufAdv_enum_length: "ReadBufAdv_enum all k buf = Inr (v, r) \<Longrightarrow> length buf = k + length r"
  by (auto simp: ReadBufAdv_enum_def res_simps split: if_splits dest: ReadBufAdv_pod_length)

function DataType_ReadAdv :: "int \<Rightarrow> byte list \<Rightarrow> (DataType \<times> byte list) res" where
  "DataType_ReadAdv maxbytes buf =
     rbind (ReadBufAdv_enum LogicalTypes 1 buf) (\<lambda>(t, b1).
     rbind (if t = kArray then
              if bytes_left maxbytes buf b1 > 0
              then rbind (DataType_ReadAdv (bytes_left maxbytes buf b1) b1) (\<lambda>(elem, b2).
                     Inr (Some (ArrayInfo elem), b2))
              else Inl (ParserError ''ptr goes out of range when reading Array element DataType'')
            else read_type_info t b1) (\<lambda>(info, rest).
       if bytes_left maxbytes buf rest \<ge> 0 then Inr (DataType t info, rest)
       else Inl (ParserError ''ptr goes out of range when reading DataType'')))"
  by pat_completeness auto
termination
  by (relation "measure (\<lambda>(m, buf). length buf)") (auto dest: ReadBufAdv_enum_length)

declare DataType_ReadAdv.simps [simp del]

subsection \<open>Equality and promotion\<close>

fun plain_type :: "LogicalType \<Rightarrow> bool" where
  "plain_type t =
     (if t = kBoolean then False
      else if t \<in> {kTinyInt, kSmallInt, kInteger, kBigInt, kHugeInt, kDecimal, kFloat, kDouble, kFloat16,
                   kBFloat16, kDate, kTime, kDateTime, kTimestamp, kInterval, kPoint, kLine, kLineSeg,
                   kBox, kCircle, kUuid, kEmbedding, kRowID} then True
      else if t \<in> {kMixed, kVarchar, kSparse, kTensor, kTensorArray, kMultiVector, kArray, kTuple} then False
      else if t \<in> {kNull, kEmptyArray, kMissing} then True
      else False)"

text \<open>\<^verbatim>\<open>SparseInfo::operator==\<close> does not look at the store type.\<close>

fun DataType_eq :: "DataType \<Rightarrow> DataType \<Rightarrow> bool"
  and TypeInfo_eq :: "TypeInfo \<Rightarrow> TypeInfo \<Rightarrow> bool" where
  "DataType_eq (DataType t i) (DataType t' i') =
     (if t \<noteq> t' then False
      else if plain_type t \<noteq> plain_type t' then False
      else case i of
        None \<Rightarrow> i' = None
      | Some a \<Rightarrow> (case i' of None \<Rightarrow> False | Some b \<Rightarrow> TypeInfo_eq a b))"
| "TypeInfo_eq (ArrayInfo d) (ArrayInfo d') = DataType_eq d d'"
| "TypeInfo_eq (DecimalInfo p s) (DecimalInfo p' s') = (p = p' \<and> s = s')"
| "TypeInfo_eq (EmbeddingInfo t d) (EmbeddingInfo t' d') = (d = d' \<and> t = t')"
| "TypeInfo_eq (SparseInfo t x d st) (SparseInfo t' x' d' st') = (t = t' \<and> x = x' \<and> d = d')"
| "TypeInfo_eq _ _ = False"

fun IsNumeric :: "DataType \<Rightarrow> bool" where
  "IsNumeric (DataType t i) =
     (t \<in> {kTinyInt, kSmallInt, kInteger, kBigInt, kHugeInt, kFloat, kDouble, kFloat16, kBFloat16, kDecimal})"

definition MaxDataType :: "DataType \<Rightarrow> DataType \<Rightarrow> DataType res" where
  "MaxDataType this right =
     (if DataType_eq this right then Inr this
      else if dt_type this = kInvalid then Inr right
      else if dt_type right = kInvalid then Inr this
      else if IsNumeric this \<and> IsNumeric right then
        if to_underlying_val (dt_type this) > to_underlying_val (dt_type right) then Inr this else Inr right
      else if dt_type this = kVarchar then Inr this
      else if dt_type right = kVarchar then Inr right
      else if dt_type this = kDateTime \<and> dt_type right = kTimestamp then Inr right
      else if dt_type this = kTimestamp \<and> dt_type right = kDateTime then Inr this
      else Inl (ParserError ''Max type''))"

subsection \<open>The round trip\<close>

text \<open>The data types the constructors and factory functions build.\<close>

fun DataType_ok :: "DataType \<Rightarrow> bool" where
  "DataType_ok (DataType t info) =
     (if t = kArray then
        (case info of Some i \<Rightarrow> (case i of ArrayInfo elem \<Rightarrow> DataType_ok elem | _ \<Rightarrow> False) | None \<Rightarrow> False)
      else if t = kDecimal then
        (case info of
           Some (DecimalInfo p s) \<Rightarrow> - (2 ^ 63) \<le> s \<and> s \<le> p \<and> p \<le> 38 \<and> (p \<noteq> 0 \<or> s \<noteq> 0)
         | _ \<Rightarrow> False)
      else if t \<in> {kTensor, kTensorArray, kMultiVector, kEmbedding} then
        (case info of Some (EmbeddingInfo et d) \<Rightarrow> int d \<le> EMBEDDING_LIMIT_INTERNAL | _ \<Rightarrow> False)
      else if t = kSparse then
        (case info of Some (SparseInfo a b d st) \<Rightarrow> d < 2 ^ 64 | _ \<Rightarrow> False)
      else info = None)"

lemma enums_complete: "et \<in> set EmbeddingDataTypes" "st \<in> set SparseStoreTypes"
  by (cases et; simp add: EmbeddingDataTypes_def) (cases st; simp add: SparseStoreTypes_def)

lemma power_256_ge: "0 < k \<Longrightarrow> n \<le> 256 \<Longrightarrow> n \<le> 256 ^ k" for n :: nat
  using power_increasing [of 1 k "256 :: nat"] by simp

lemma read_enums:
  "0 < k \<Longrightarrow> ReadBufAdv_enum LogicalTypes k (WriteBufAdv_enum LogicalTypes k t @ r) = Inr (t, r)"
  "0 < k \<Longrightarrow> ReadBufAdv_enum EmbeddingDataTypes k (WriteBufAdv_enum EmbeddingDataTypes k et @ r) = Inr (et, r)"
  "0 < k \<Longrightarrow> ReadBufAdv_enum SparseStoreTypes k (WriteBufAdv_enum SparseStoreTypes k st @ r) = Inr (st, r)"
  by (rule ReadBufAdv_enum_write; simp add: LogicalTypes_complete enums_complete length_LogicalTypes power_256_ge
      EmbeddingDataTypes_def [THEN arg_cong [where f = length]] SparseStoreTypes_def [THEN arg_cong [where f = length]])+

lemma read_write_type_info:
  assumes "DataType_ok (DataType t info)" "t \<noteq> kArray"
  obtains b where "DataType_WriteAdv (DataType t info) = Inr (WriteBufAdv_enum LogicalTypes 1 t @ b)"
    "DataType_GetSizeInBytes (DataType t info) = Inr (1 + int (length b))" "length b < 20"
    "\<forall>r. read_type_info t (b @ r) = Inr (info, r)"
proof -
  consider "t = kDecimal" | "t \<in> {kTensor, kTensorArray, kMultiVector, kEmbedding}" | "t = kSparse"
    | "t \<noteq> kDecimal" "t \<notin> {kTensor, kTensorArray, kMultiVector, kEmbedding}" "t \<noteq> kSparse" by blast
  then show thesis
  proof cases
    case 1
    with assms obtain p s where i: "info = Some (DecimalInfo p s)" "- (2 ^ 63) \<le> s" "s \<le> p" "p \<le> 38"
      "p \<noteq> 0 \<or> s \<noteq> 0" by (auto split: option.splits TypeInfo.splits)
    with 1 show thesis
      by (intro that [of "WriteBufAdv_i64 p @ WriteBufAdv_i64 s"])
         (auto simp: read_type_info_def codec_reads i64.read_write DecimalInfo_Make_def Let_def)
  next
    case 2
    with assms obtain et d where i: "info = Some (EmbeddingInfo et d)" "int d \<le> 65536"
      by (auto simp: EMBEDDING_LIMIT_INTERNAL_def split: option.splits TypeInfo.splits)
    then have "to_i32 (int d) = int d" by (simp add: to_i32_id)
    with i 2 show thesis
      by (intro that [of "WriteBufAdv_enum EmbeddingDataTypes 1 et @ WriteBufAdv_i32 (int d)"])
         (auto simp: read_type_info_def codec_reads read_enums EmbeddingInfo_Make_def
            EMBEDDING_LIMIT_INTERNAL_def Let_def)
  next
    case 3
    with assms obtain a b d st where i: "info = Some (SparseInfo a b d st)" "d < 2 ^ 64"
      by (auto split: option.splits TypeInfo.splits)
    then have "- (2 ^ 63) \<le> to_i64 (int d) \<and> to_i64 (int d) < 2 ^ 63" "nat (to_i64 (int d) mod 2 ^ 64) = d"
      using to_i64_range [of "int d"] to_i64_mod [of "int d"] by simp_all
    with i 3 show thesis
      by (intro that [of "WriteBufAdv_enum EmbeddingDataTypes 1 a @ WriteBufAdv_enum EmbeddingDataTypes 1 b @
           WriteBufAdv_i64 (to_i64 (int d)) @ WriteBufAdv_enum SparseStoreTypes 1 st"])
         (simp_all add: read_type_info_def i64.read_write read_enums Let_def)
  next
    case 4
    with assms show thesis by (intro that [of "[]"]) (auto simp: read_type_info_def Let_def)
  qed
qed

lemma DataType_ReadAdv_Nil: "\<exists>e. DataType_ReadAdv m [] = Inl e"
  by (subst DataType_ReadAdv.simps) (simp add: ReadBufAdv_enum_def ReadBufAdv_pod_def)

lemma DataType_encoded:
  "DataType_ok d \<Longrightarrow> encodes (DataType_WriteAdv d) (DataType_GetSizeInBytes d) DataType_ReadAdv d"
proof (induction d rule: DataType_ok.induct)
  case (1 t info)
  let ?h = "WriteBufAdv_enum LogicalTypes 1 t"
  show ?case
  proof (cases "t = kArray")
    case True
    with "1.prems" obtain elem where e: "info = Some (ArrayInfo elem)" "DataType_ok elem"
      by (auto split: option.splits TypeInfo.splits)
    obtain b where b: "DataType_WriteAdv elem = Inr b" "DataType_GetSizeInBytes elem = Inr (to_i32 (int (length b)))"
      "\<forall>m r. int (length b) \<le> m \<longrightarrow> DataType_ReadAdv m (b @ r) = Inr (elem, r)"
      by (rule encodesE [OF "1.IH" [OF True e(1) refl e(2)]])
    have "b \<noteq> []" using b(3) [rule_format, of 0 "[]"] DataType_ReadAdv_Nil [of 0] by auto
    then obtain n where n: "length b = Suc n" by (cases b) auto
    have "DataType_ReadAdv m ((?h @ b) @ r) = Inr (DataType t info, r)" if "int (length (?h @ b)) \<le> m" for m r
      using that True e b(3) n by (subst DataType_ReadAdv.simps) (simp add: read_enums bytes_left_def)
    then show ?thesis
      by (rule encodesI [rotated 2]) (use True e b in \<open>simp_all add: Let_def\<close>)
  next
    case False
    obtain b where b: "DataType_WriteAdv (DataType t info) = Inr (?h @ b)"
      "DataType_GetSizeInBytes (DataType t info) = Inr (1 + int (length b))" "length b < 20"
      "\<forall>r. read_type_info t (b @ r) = Inr (info, r)"
      by (rule read_write_type_info [OF "1.prems" False])
    have "to_i32 (1 + int (length b)) = 1 + int (length b)" using b(3) by (simp add: to_i32_id)
    moreover have "DataType_ReadAdv m ((?h @ b) @ r) = Inr (DataType t info, r)" if "int (length (?h @ b)) \<le> m" for m r
      using that False b(4) by (subst DataType_ReadAdv.simps) (simp add: read_enums bytes_left_def)
    ultimately show ?thesis
      by (intro encodesI [OF b(1)]) (simp_all add: b(2) del: DataType_GetSizeInBytes.simps)
  qed
qed

interpretation data_type: bounded_codec DataType_WriteAdv DataType_GetSizeInBytes DataType_ReadAdv DataType_ok
  by unfold_locales (rule DataType_encoded)

lemma DataType_eq_sym: "DataType_eq x y = DataType_eq y x" "TypeInfo_eq i j = TypeInfo_eq j i"
proof (induction x y and i j rule: DataType_eq_TypeInfo_eq.induct)
  case (1 t i t' i')
  then show ?case by (cases i; cases i') auto
qed auto

lemma DataType_eq_refl: "DataType_eq d d" "TypeInfo_eq i i"
  by (induction d and i) (auto split: option.splits)

lemma DataType_eq_type: "DataType_eq x y \<Longrightarrow> dt_type x = dt_type y"
  by (cases x; cases y) (auto split: if_splits)

lemma IsNumeric_type: "IsNumeric x \<Longrightarrow> dt_type x \<noteq> kInvalid \<and> dt_type x \<noteq> kVarchar"
  by (cases x) auto

subsection \<open>Properties\<close>

text \<open>Data types survive serialization.  For every data type that the factory functions can build,
  nested arrays included, \<^verbatim>\<open>WriteAdv\<close> succeeds, \<^verbatim>\<open>GetSizeInBytes\<close> announces exactly the number of bytes
  written (modulo the width of \<^verbatim>\<open>int32_t\<close>), and \<^verbatim>\<open>ReadAdv\<close> reads the same data type back from any
  buffer that starts with these bytes and leaves the rest.\<close>

lemma DataType_roundtrip:
  assumes "DataType_ok d"
  shows "\<exists>b. DataType_WriteAdv d = Inr b \<and> DataType_GetSizeInBytes d = Inr (to_i32 (int (length b))) \<and>
             (\<forall>m r. int (length b) \<le> m \<longrightarrow> DataType_ReadAdv m (b @ r) = Inr (d, r))"
  by (rule encodesE [OF data_type.encoded [OF assms]]) blast

lemma DataType_roundtrip_example:
  "\<exists>b. DataType_WriteAdv (DataType kArray (Some (ArrayInfo (DataType kEmbedding (Some (EmbeddingInfo kElemFloat 4)))))) = Inr b \<and>
       length b = 7"
proof -
  let ?d = "DataType kArray (Some (ArrayInfo (DataType kEmbedding (Some (EmbeddingInfo kElemFloat 4)))))"
  have "DataType_ok ?d" by (simp add: EMBEDDING_LIMIT_INTERNAL_def)
  from DataType_roundtrip [OF this] show ?thesis by (auto simp: Let_def)
qed

text \<open>A decimal type without type info breaks the size contract: \<^verbatim>\<open>GetSizeInBytes\<close> announces one
  byte, \<^verbatim>\<open>WriteAdv\<close> writes seventeen, so a buffer of the announced size overflows.\<close>

lemma Decimal_without_info_overflows:
  "\<exists>b. DataType_WriteAdv (DataType kDecimal None) = Inr b \<and> length b = 17 \<and>
       DataType_GetSizeInBytes (DataType kDecimal None) = Inr 1"
  by (simp add: Let_def)

text \<open>Promotion does not depend on the order of its operands as far as the logical type is
  concerned: either both orders fail or both give the same logical type, which for two numeric
  types is the one declared later.\<close>

lemma MaxDataType_type_commutes:
  "(case MaxDataType a b of Inl e \<Rightarrow> None | Inr d \<Rightarrow> Some (dt_type d)) =
   (case MaxDataType b a of Inl e \<Rightarrow> None | Inr d \<Rightarrow> Some (dt_type d))"
proof (cases "dt_type a = dt_type b")
  case True
  then show ?thesis using DataType_eq_sym(1) [of a b] by (cases "dt_type b = kDateTime") (simp_all add: MaxDataType_def conj_commute)
next
  case False
  have "\<not> DataType_eq a b" "\<not> DataType_eq b a" using False DataType_eq_type by metis+
  moreover have "to_underlying_val (dt_type a) \<noteq> to_underlying_val (dt_type b)"
    using False enum_code_nth [OF LogicalTypes_complete] unfolding to_underlying_val_def by metis
  moreover note IsNumeric_type [of a] IsNumeric_type [of b]
  ultimately show ?thesis
    using False by (simp add: MaxDataType_def conj_commute)
qed

text \<open>The order of promotion is the order of declaration, in which the two half-precision types come
  after all other numeric types: the promotion of a double and a half-precision value is half
  precision, whose width is two bytes instead of eight.\<close>

lemma MaxDataType_narrows_Float16:
  "MaxDataType (DataType kDouble None) (DataType kFloat16 None) = Inr (DataType kFloat16 None) \<and>
   LogicalTypeWidth kFloat16 = 2 \<and> LogicalTypeWidth kDouble = 8"
  by (simp add: MaxDataType_def to_underlying_val_def enum_code_def LogicalTypes_def LogicalTypeWidth_def type_size_def)

end
