(* ===== verification/Number_Text.thy ===== *)
theory Number_Text
  imports Infinity_Prelude "HOL-Library.Char_ord"
begin

text \<open>
  Decimal numbers in texts: the conversions of the C++ standard library that the code uses on index
  parameters and file names (\<^verbatim>\<open>std::stoi\<close>, \<^verbatim>\<open>std::stoul\<close>, \<^verbatim>\<open>std::stoll\<close>, \<^verbatim>\<open>strtoul\<close>), and the printing of an
  unsigned number.  A conversion that throws has the value \<open>Inl\<close>.
\<close>

definition is_space :: "char \<Rightarrow> bool" where
  "is_space c \<longleftrightarrow> c = CHR '' '' \<or> CHR 0x09 \<le> c \<and> c \<le> CHR 0x0D"

definition is_digit :: "char \<Rightarrow> bool" where
  "is_digit c \<longleftrightarrow> CHR ''0'' \<le> c \<and> c \<le> CHR ''9''"

definition digits_value :: "string \<Rightarrow> nat" where
  "digits_value ds = foldl (\<lambda>n d. 10 * n + (of_char d - 48)) 0 ds"

text \<open>The common part of \<^verbatim>\<open>strtol\<close> and \<^verbatim>\<open>strtoul\<close> in base ten: white space, a sign and digits.\<close>

definition parse_decimal :: "string \<Rightarrow> (bool \<times> nat) option" where
  "parse_decimal str =
     (let s = dropWhile is_space str;
          neg = (s \<noteq> [] \<and> hd s = CHR ''-'');
          s' = (if s \<noteq> [] \<and> hd s \<in> {CHR ''-'', CHR ''+''} then tl s else s);
          ds = takeWhile is_digit s'
      in if ds = [] then None else Some (neg, digits_value ds))"

definition signed :: "bool \<Rightarrow> nat \<Rightarrow> int" where
  "signed neg n = (if neg then - int n else int n)"

definition stoi :: "string \<Rightarrow> int res" where
  "stoi str =
     (case parse_decimal str of
        None \<Rightarrow> Inl (StdException ''invalid_argument'')
      | Some (neg, n) \<Rightarrow>
          (if - (2 ^ 31) \<le> signed neg n \<and> signed neg n < 2 ^ 31 then Inr (signed neg n)
           else Inl (StdException ''out_of_range'')))"

definition stoul :: "string \<Rightarrow> nat res" where
  "stoul str =
     (case parse_decimal str of
        None \<Rightarrow> Inl (StdException ''invalid_argument'')
      | Some (neg, n) \<Rightarrow>
          (if n < 2 ^ 64 then Inr (nat (signed neg n mod 2 ^ 64)) else Inl (StdException ''out_of_range'')))"

definition strtoul :: "string \<Rightarrow> nat" where
  "strtoul str =
     (case parse_decimal str of
        None \<Rightarrow> 0
      | Some (neg, n) \<Rightarrow> (if n < 2 ^ 64 then nat (signed neg n mod 2 ^ 64) else 2 ^ 64 - 1))"

definition stoll :: "string \<Rightarrow> int res" where
  "stoll str =
     (case parse_decimal str of
        None \<Rightarrow> Inl (StdException ''invalid_argument'')
      | Some (neg, n) \<Rightarrow>
          (if - (2 ^ 63) \<le> signed neg n \<and> signed neg n < 2 ^ 63 then Inr (signed neg n)
           else Inl (StdException ''out_of_range'')))"

fun show_nat :: "nat \<Rightarrow> string" where
  "show_nat n = (if n < 10 then [char_of (48 + n)] else show_nat (n div 10) @ [char_of (48 + n mod 10)])"

declare show_nat.simps [simp del]

subsection \<open>Reading a printed number\<close>

lemma digit_char:
  assumes "n < (10 :: nat)"
  shows "is_digit (char_of (48 + n))" "of_char (char_of (48 + n) :: char) - 48 = n"
proof -
  have "of_char (char_of (48 + n) :: char) = (48 + n) mod 256" by (rule of_char_of)
  then have n: "of_char (char_of (48 + n) :: char) = 48 + n" using assms by simp
  show "is_digit (char_of (48 + n))" unfolding is_digit_def less_eq_char_def n using assms by simp
  show "of_char (char_of (48 + n) :: char) - 48 = n" unfolding n by simp
qed

lemma show_nat_digits: "show_nat n \<noteq> [] \<and> list_all is_digit (show_nat n)"
proof (induction n rule: show_nat.induct)
  case (1 n)
  then show ?case using digit_char(1) [of n] digit_char(1) [of "n mod 10"] by (cases "n < 10") (simp_all add: show_nat.simps [of n])
qed

lemma digits_value_snoc: "digits_value (ds @ [d]) = 10 * digits_value ds + (of_char d - 48)"
  by (simp add: digits_value_def)

lemma digits_value_show_nat: "digits_value (show_nat n) = n"
proof (induction n rule: show_nat.induct)
  case (1 n)
  show ?case
  proof (cases "n < 10")
    case True
    then show ?thesis using digit_char(2) [of n] by (subst show_nat.simps) (simp add: digits_value_def)
  next
    case False
    then show ?thesis using 1 digit_char(2) [of "n mod 10"] by (subst show_nat.simps) (simp add: digits_value_snoc)
  qed
qed

text \<open>A printed number, followed by the end of the text or by something that is no digit.\<close>

lemma parse_decimal_show_nat:
  assumes "rest = [] \<or> \<not> is_digit (hd rest)"
  shows "parse_decimal (show_nat n @ rest) = Some (False, n)"
proof -
  obtain c cs where s: "show_nat n = c # cs" "is_digit c" using show_nat_digits [of n] by (cases "show_nat n") auto
  have c: "\<not> is_space c" "c \<noteq> CHR ''-''" "c \<noteq> CHR ''+''"
    using s(2) by (auto simp: is_digit_def is_space_def less_eq_char_def)
  have "takeWhile is_digit rest = []" using assms by (cases rest) auto
  then have "takeWhile is_digit (show_nat n @ rest) = show_nat n"
    using show_nat_digits [of n] by (simp add: list_all_iff takeWhile_append2)
  then show ?thesis
    using c s(1) digits_value_show_nat [of n] show_nat_digits [of n] by (simp add: parse_decimal_def Let_def)
qed

lemma stoll_show_nat:
  "n < 2 ^ 63 \<Longrightarrow> rest = [] \<or> \<not> is_digit (hd rest) \<Longrightarrow> stoll (show_nat n @ rest) = Inr (int n)"
  by (simp add: stoll_def parse_decimal_show_nat signed_def)

end
