(* ===== verification/Interval_Type.thy ===== *)
theory Interval_Type
  imports Number_Text
begin

text \<open>
  Units of time and intervals (\<^verbatim>\<open>src/src/parser/type/datetime/interval_type.h\<close> and \<^verbatim>\<open>interval_type.cpp\<close>), which literals, dates and times share.
\<close>

datatype TimeUnit = kYear | kMonth | kDay | kHour | kMinute | kSecond | kInvalidUnit

definition TimeUnits :: "TimeUnit list" where
  "TimeUnits = [kYear, kMonth, kDay, kHour, kMinute, kSecond, kInvalidUnit]"

record IntervalType =
  it_unit :: TimeUnit
  it_value :: int

definition IntervalType_Reset :: "IntervalType \<Rightarrow> IntervalType" where
  "IntervalType_Reset interval = interval\<lparr>it_unit := kInvalidUnit, it_value := 0\<rparr>"

text \<open>\<^verbatim>\<open>std::format("{:0wd}")\<close>: the width includes the sign.\<close>

definition format_0d :: "nat \<Rightarrow> int \<Rightarrow> string" where
  "format_0d w v =
     (let ds = show_nat (nat \<bar>v\<bar>); n = (if v < 0 then w - 1 else w)
      in (if v < 0 then ''-'' else []) @ replicate (n - length ds) (CHR ''0'') @ ds)"

definition IntervalType_ToString :: "IntervalType \<Rightarrow> string res" where
  "IntervalType_ToString interval =
     (case it_unit interval of
        kYear \<Rightarrow> Inr (format_0d 0 (it_value interval) @ '' YEAR'')
      | kMonth \<Rightarrow> Inr (format_0d 0 (it_value interval) @ '' MONTH'')
      | kDay \<Rightarrow> Inr (format_0d 0 (it_value interval) @ '' DAY'')
      | kHour \<Rightarrow> Inr (format_0d 0 (it_value interval) @ '' HOUR'')
      | kMinute \<Rightarrow> Inr (format_0d 0 (it_value interval) @ '' MINUTE'')
      | kSecond \<Rightarrow> Inr (format_0d 0 (it_value interval) @ '' SECOND'')
      | kInvalidUnit \<Rightarrow> Inl (ParserError ''ToString() isn't implemented''))"

end
