(* ===== verification/Constant_Expr.thy ===== *)
theory Constant_Expr
  imports Data_Type Interval_Type
begin

text \<open>
  The binary form of constant expressions, \<^verbatim>\<open>src/src/parser/expr/constant_expr.cpp\<close>: a tagged union over
  the literal kinds, with nested arrays.  A double is its 64-bit pattern.  String values are C
  strings, without null characters; the reader copies what it read with \<^verbatim>\<open>strdup\<close>, up to the first
  null character.

  The reader recurses on nested arrays.  The model gives it fuel; \<open>ConstantExpr_ReadAdv\<close> starts it with
  one unit more than there are bytes, and \<open>ConstantExpr_read_fuel\<close> shows that more fuel never changes the
  result, because every level of nesting consumes bytes.
\<close>

subsection \<open>Constant expressions\<close>

datatype LiteralType =
    LitBoolean | LitDouble | LitString | LitInteger | LitNull | LitDate | LitTime | LitDateTime
  | LitTimestamp | LitIntegerArray | LitDoubleArray | LitSubArrayArray | LitInterval
  | LitLongSparseArray | LitDoubleSparseArray | LitEmptyArray | LitCurlyBracketsArray

definition LiteralTypes :: "LiteralType list" where
  "LiteralTypes = [LitBoolean, LitDouble, LitString, LitInteger, LitNull, LitDate, LitTime, LitDateTime,
     LitTimestamp, LitIntegerArray, LitDoubleArray, LitSubArrayArray, LitInterval,
     LitLongSparseArray, LitDoubleSparseArray, LitEmptyArray, LitCurlyBracketsArray]"

datatype ConstantExpr =
    CBoolean bool
  | CDouble "64 word"
  | CString string
  | CInteger int
  | CNull
  | CDate string
  | CTime string
  | CDateTime string
  | CTimestamp string
  | CIntegerArray "int list"
  | CDoubleArray "64 word list"
  | CSubArrayArray "ConstantExpr list"
  | CInterval TimeUnit int
  | CLongSparseArray "int list" "int list"
  | CDoubleSparseArray "int list" "64 word list"
  | CEmptyArray
  | CCurlyBracketsArray "ConstantExpr list"

subsection \<open>Size and writer\<close>

fun ConstantExpr_GetSizeInBytes :: "ConstantExpr \<Rightarrow> int" where
  "ConstantExpr_GetSizeInBytes (CBoolean b) = 4 + 1"
| "ConstantExpr_GetSizeInBytes (CDouble d) = 4 + 8"
| "ConstantExpr_GetSizeInBytes (CString s) = to_i32 (4 + (4 + int (length s)))"
| "ConstantExpr_GetSizeInBytes (CInteger i) = 4 + 8"
| "ConstantExpr_GetSizeInBytes CEmptyArray = 4"
| "ConstantExpr_GetSizeInBytes CNull = 4"
| "ConstantExpr_GetSizeInBytes (CDate s) = to_i32 (4 + (4 + int (length s)))"
| "ConstantExpr_GetSizeInBytes (CTime s) = to_i32 (4 + (4 + int (length s)))"
| "ConstantExpr_GetSizeInBytes (CDateTime s) = to_i32 (4 + (4 + int (length s)))"
| "ConstantExpr_GetSizeInBytes (CTimestamp s) = to_i32 (4 + (4 + int (length s)))"
| "ConstantExpr_GetSizeInBytes (CIntegerArray xs) = to_i32 (4 + 8 + 8 * int (length xs))"
| "ConstantExpr_GetSizeInBytes (CDoubleArray xs) = to_i32 (4 + 8 + 8 * int (length xs))"
| "ConstantExpr_GetSizeInBytes (CSubArrayArray es) =
     to_i32 (4 + 8 + sum_list (map ConstantExpr_GetSizeInBytes es))"
| "ConstantExpr_GetSizeInBytes (CLongSparseArray xs ys) =
     to_i32 (4 + (8 + 8 * int (length xs)) + (8 + 8 * int (length ys)))"
| "ConstantExpr_GetSizeInBytes (CDoubleSparseArray xs ys) =
     to_i32 (4 + (8 + 8 * int (length xs)) + (8 + 8 * int (length ys)))"
| "ConstantExpr_GetSizeInBytes (CInterval u i) = 4 + 4 + 8"
| "ConstantExpr_GetSizeInBytes (CCurlyBracketsArray es) =
     to_i32 (4 + 8 + sum_list (map ConstantExpr_GetSizeInBytes es))"

definition WriteBufAdv_double :: "64 word \<Rightarrow> byte list" where
  "WriteBufAdv_double d = WriteBufAdv_pod 8 (unat d)"

definition ReadBufAdv_double :: "byte list \<Rightarrow> (64 word \<times> byte list) res" where
  "ReadBufAdv_double buf = rbind (ReadBufAdv_pod 8 buf) (\<lambda>(n, r). Inr (of_nat n, r))"

definition write_literal_type :: "LiteralType \<Rightarrow> byte list" where
  "write_literal_type t = WriteBufAdv_enum LiteralTypes 4 t"

definition write_i64s :: "int list \<Rightarrow> byte list" where
  "write_i64s xs = WriteBufAdv_i64 (int (length xs)) @ concat (map WriteBufAdv_i64 xs)"

definition write_doubles :: "64 word list \<Rightarrow> byte list" where
  "write_doubles xs = WriteBufAdv_i64 (int (length xs)) @ concat (map WriteBufAdv_double xs)"

fun ConstantExpr_WriteAdv :: "ConstantExpr \<Rightarrow> byte list" where
  "ConstantExpr_WriteAdv (CBoolean b) = write_literal_type LitBoolean @ WriteBufAdv_bool b"
| "ConstantExpr_WriteAdv (CDouble d) = write_literal_type LitDouble @ WriteBufAdv_double d"
| "ConstantExpr_WriteAdv (CString s) = write_literal_type LitString @ WriteBufAdv_string s"
| "ConstantExpr_WriteAdv (CInteger i) = write_literal_type LitInteger @ WriteBufAdv_i64 i"
| "ConstantExpr_WriteAdv CEmptyArray = write_literal_type LitEmptyArray"
| "ConstantExpr_WriteAdv CNull = write_literal_type LitNull"
| "ConstantExpr_WriteAdv (CDate s) = write_literal_type LitDate @ WriteBufAdv_string s"
| "ConstantExpr_WriteAdv (CTime s) = write_literal_type LitTime @ WriteBufAdv_string s"
| "ConstantExpr_WriteAdv (CDateTime s) = write_literal_type LitDateTime @ WriteBufAdv_string s"
| "ConstantExpr_WriteAdv (CTimestamp s) = write_literal_type LitTimestamp @ WriteBufAdv_string s"
| "ConstantExpr_WriteAdv (CIntegerArray xs) = write_literal_type LitIntegerArray @ write_i64s xs"
| "ConstantExpr_WriteAdv (CDoubleArray xs) = write_literal_type LitDoubleArray @ write_doubles xs"
| "ConstantExpr_WriteAdv (CSubArrayArray es) =
     write_literal_type LitSubArrayArray @ WriteBufAdv_i64 (int (length es)) @
     concat (map ConstantExpr_WriteAdv es)"
| "ConstantExpr_WriteAdv (CInterval u i) =
     write_literal_type LitInterval @ WriteBufAdv_enum TimeUnits 4 u @ WriteBufAdv_i64 i"
| "ConstantExpr_WriteAdv (CLongSparseArray xs ys) =
     write_literal_type LitLongSparseArray @ write_i64s xs @ write_i64s ys"
| "ConstantExpr_WriteAdv (CDoubleSparseArray xs ys) =
     write_literal_type LitDoubleSparseArray @ write_i64s xs @ write_doubles ys"
| "ConstantExpr_WriteAdv (CCurlyBracketsArray es) =
     write_literal_type LitCurlyBracketsArray @ WriteBufAdv_i64 (int (length es)) @
     concat (map ConstantExpr_WriteAdv es)"

subsection \<open>Reader\<close>

definition c_str :: "string \<Rightarrow> string" where
  "c_str s = takeWhile (\<lambda>c. c \<noteq> CHR 0x00) s"

definition read_c_str :: "byte list \<Rightarrow> (string \<times> byte list) res" where
  "read_c_str buf = rbind (ReadBufAdv_string buf) (\<lambda>(s, r). Inr (c_str s, r))"

text \<open>\<^verbatim>\<open>size_t len = ReadBufAdv<int64_t>(ptr)\<close> and a loop that reads \<^verbatim>\<open>len\<close> elements.\<close>

definition read_counted :: "(byte list \<Rightarrow> ('a \<times> byte list) res) \<Rightarrow> byte list \<Rightarrow> ('a list \<times> byte list) res" where
  "read_counted rd buf =
     rbind (ReadBufAdv_i64 buf) (\<lambda>(len, b). read_n rd (nat (len mod 2 ^ 64)) b)"

definition read_literal ::
    "(byte list \<Rightarrow> (ConstantExpr \<times> byte list) res) \<Rightarrow> LiteralType \<Rightarrow> byte list \<Rightarrow> (ConstantExpr \<times> byte list) res" where
  "read_literal rec t b =
     (case t of
        LitBoolean \<Rightarrow> rbind (ReadBufAdv_bool b) (\<lambda>(v, r). Inr (CBoolean v, r))
      | LitDouble \<Rightarrow> rbind (ReadBufAdv_double b) (\<lambda>(v, r). Inr (CDouble v, r))
      | LitString \<Rightarrow> rbind (read_c_str b) (\<lambda>(v, r). Inr (CString v, r))
      | LitInteger \<Rightarrow> rbind (ReadBufAdv_i64 b) (\<lambda>(v, r). Inr (CInteger v, r))
      | LitEmptyArray \<Rightarrow> Inr (CEmptyArray, b)
      | LitNull \<Rightarrow> Inr (CNull, b)
      | LitDate \<Rightarrow> rbind (read_c_str b) (\<lambda>(v, r). Inr (CDate v, r))
      | LitTime \<Rightarrow> rbind (read_c_str b) (\<lambda>(v, r). Inr (CTime v, r))
      | LitDateTime \<Rightarrow> rbind (read_c_str b) (\<lambda>(v, r). Inr (CDateTime v, r))
      | LitTimestamp \<Rightarrow> rbind (read_c_str b) (\<lambda>(v, r). Inr (CTimestamp v, r))
      | LitIntegerArray \<Rightarrow> rbind (read_counted ReadBufAdv_i64 b) (\<lambda>(xs, r). Inr (CIntegerArray xs, r))
      | LitDoubleArray \<Rightarrow> rbind (read_counted ReadBufAdv_double b) (\<lambda>(xs, r). Inr (CDoubleArray xs, r))
      | LitSubArrayArray \<Rightarrow> rbind (read_counted rec b) (\<lambda>(es, r). Inr (CSubArrayArray es, r))
      | LitInterval \<Rightarrow>
          rbind (ReadBufAdv_enum TimeUnits 4 b) (\<lambda>(u, r).
          rbind (ReadBufAdv_i64 r) (\<lambda>(i, r'). Inr (CInterval u i, r')))
      | LitLongSparseArray \<Rightarrow>
          rbind (read_counted ReadBufAdv_i64 b) (\<lambda>(xs, r).
          rbind (read_counted ReadBufAdv_i64 r) (\<lambda>(ys, r'). Inr (CLongSparseArray xs ys, r')))
      | LitDoubleSparseArray \<Rightarrow>
          rbind (read_counted ReadBufAdv_i64 b) (\<lambda>(xs, r).
          rbind (read_counted ReadBufAdv_double r) (\<lambda>(ys, r'). Inr (CDoubleSparseArray xs ys, r')))
      | LitCurlyBracketsArray \<Rightarrow> rbind (read_counted rec b) (\<lambda>(es, r). Inr (CCurlyBracketsArray es, r)))"

fun ConstantExpr_read :: "nat \<Rightarrow> int \<Rightarrow> byte list \<Rightarrow> (ConstantExpr \<times> byte list) res" where
  "ConstantExpr_read 0 maxbytes buf = Inl (AssertionFailure ''nesting'')"
| "ConstantExpr_read (Suc n) maxbytes buf =
     rbind (ReadBufAdv_enum LiteralTypes 4 buf) (\<lambda>(t, b).
     rbind (read_literal (\<lambda>b'. ConstantExpr_read n (bytes_left maxbytes buf b') b') t b) (\<lambda>(e, rest).
       if bytes_left maxbytes buf rest \<ge> 0 then Inr (e, rest)
       else Inl (ParserError ''ptr goes out of range when reading constant expression'')))"

definition ConstantExpr_ReadAdv :: "int \<Rightarrow> byte list \<Rightarrow> (ConstantExpr \<times> byte list) res" where
  "ConstantExpr_ReadAdv maxbytes buf = ConstantExpr_read (Suc (length buf)) maxbytes buf"

subsection \<open>Enough fuel\<close>

text \<open>A reader never returns more bytes than it was given.\<close>

definition shrinks :: "(byte list \<Rightarrow> ('a \<times> byte list) res) \<Rightarrow> bool" where
  "shrinks rd \<longleftrightarrow> (\<forall>b x r. rd b = Inr (x, r) \<longrightarrow> length r \<le> length b)"

lemma shrinksD: "shrinks rd \<Longrightarrow> rd b = Inr (x, r) \<Longrightarrow> length r \<le> length b"
  by (simp add: shrinks_def)

lemma read_shorter:
  "ReadBufAdv_pod k b = Inr (n, r) \<Longrightarrow> length r \<le> length b"
  "ReadBufAdv_enum all k b = Inr (v, r) \<Longrightarrow> length r \<le> length b"
  "ReadBufAdv_i32 b = Inr (i, r) \<Longrightarrow> length r \<le> length b"
  "ReadBufAdv_i64 b = Inr (i, r) \<Longrightarrow> length r \<le> length b"
  "ReadBufAdv_bool b = Inr (t, r) \<Longrightarrow> length r \<le> length b"
  "ReadBufAdv_double b = Inr (d, r) \<Longrightarrow> length r \<le> length b"
  by (auto dest!: ReadBufAdv_pod_length ReadBufAdv_enum_length simp: ReadBufAdv_i32_def ReadBufAdv_i64_def
      ReadBufAdv_bool_def ReadBufAdv_double_def res_simps)

lemma read_c_str_shorter: "read_c_str b = Inr (s, r) \<Longrightarrow> length r \<le> length b"
  by (auto simp: read_c_str_def ReadBufAdv_string_def res_simps split: if_splits dest!: read_shorter)

lemma shrinks_values: "shrinks ReadBufAdv_i64" "shrinks ReadBufAdv_double"
  by (auto simp: shrinks_def dest: read_shorter)

lemma shrinks_read_n: "shrinks rd \<Longrightarrow> read_n rd n b = Inr (xs, r) \<Longrightarrow> length r \<le> length b"
proof (induction n arbitrary: b xs)
  case (Suc n)
  then obtain x b1 ys where "rd b = Inr (x, b1)" "read_n rd n b1 = Inr (ys, r)"
    by (auto simp: res_simps)
  then show ?case using Suc.IH [OF Suc.prems(1)] shrinksD [OF Suc.prems(1)] le_trans by blast
qed simp

lemma read_counted_shorter: "shrinks rd \<Longrightarrow> read_counted rd b = Inr (xs, r) \<Longrightarrow> length r \<le> length b"
  by (auto simp: read_counted_def res_simps dest!: read_shorter shrinks_read_n)

lemma read_literal_shorter:
  assumes "shrinks rec" "read_literal rec t b = Inr (e, r)"
  shows "length r \<le> length b"
proof -
  note c = read_counted_shorter [OF assms(1)] read_counted_shorter [OF shrinks_values(1)]
    read_counted_shorter [OF shrinks_values(2)]
  from assms(2) show ?thesis
    by (cases t; auto simp: read_literal_def res_simps dest!: c read_shorter read_c_str_shorter)
qed

lemma ConstantExpr_read_shorter: "ConstantExpr_read n m b = Inr (e, r) \<Longrightarrow> length r < length b"
proof (induction n arbitrary: m b e r)
  case (Suc n)
  let ?rec = "\<lambda>b'. ConstantExpr_read n (bytes_left m b b') b'"
  have "shrinks ?rec" using Suc.IH by (auto simp: shrinks_def intro: less_imp_le)
  moreover obtain t b1 where "ReadBufAdv_enum LiteralTypes 4 b = Inr (t, b1)" "read_literal ?rec t b1 = Inr (e, r)"
    using Suc.prems by (auto simp: res_simps split: if_splits)
  ultimately show ?case using read_literal_shorter [of ?rec t b1] ReadBufAdv_enum_length by fastforce
qed simp

lemma read_n_cong:
  assumes "\<And>b. length b \<le> k \<Longrightarrow> f b = g b" "shrinks g" "length b \<le> k"
  shows "read_n f n b = read_n g n b"
  using assms(3)
proof (induction n arbitrary: b)
  case (Suc n)
  have "rbind (g b) (\<lambda>(x, r). rbind (read_n f n r) (\<lambda>(xs, r'). Inr (x # xs, r'))) =
        rbind (g b) (\<lambda>(x, r). rbind (read_n g n r) (\<lambda>(xs, r'). Inr (x # xs, r')))"
  proof (rule rbind_cong)
    fix y assume y: "g b = Inr y"
    obtain x r where [simp]: "y = (x, r)" by (cases y)
    have "length r \<le> k" using shrinksD [OF assms(2), of b x r] y Suc.prems by simp
    then show "(case y of (x, r) \<Rightarrow> rbind (read_n f n r) (\<lambda>(xs, r'). Inr (x # xs, r'))) =
        (case y of (x, r) \<Rightarrow> rbind (read_n g n r) (\<lambda>(xs, r'). Inr (x # xs, r')))"
      using Suc.IH by simp
  qed simp
  then show ?case using assms(1) Suc.prems by simp
qed simp

lemma read_counted_cong:
  assumes "\<And>b. length b \<le> k \<Longrightarrow> f b = g b" "shrinks g" "length b \<le> k"
  shows "read_counted f b = read_counted g b"
  unfolding read_counted_def
proof (rule rbind_cong)
  fix y assume y: "ReadBufAdv_i64 b = Inr y"
  obtain n b1 where [simp]: "y = (n, b1)" by (cases y)
  have "length b1 \<le> k" using read_shorter(4) [of b n b1] y assms(3) by simp
  then have "read_n f i b1 = read_n g i b1" for i using read_n_cong [of k f g b1 i] assms(1,2) by blast
  then show "(case y of (len, b) \<Rightarrow> read_n f (nat (len mod 2 ^ 64)) b) =
      (case y of (len, b) \<Rightarrow> read_n g (nat (len mod 2 ^ 64)) b)" by simp
qed simp

lemma ConstantExpr_read_fuel:
  "length b < n \<Longrightarrow> length b < k \<Longrightarrow> ConstantExpr_read n m b = ConstantExpr_read k m b"
proof (induction n arbitrary: k m b)
  case (Suc n)
  then obtain k' where k: "k = Suc k'" by (cases k) auto
  let ?f = "\<lambda>n b'. ConstantExpr_read n (bytes_left m b b') b'"
  have rec: "?f n b' = ?f k' b'" if "length b' < length b" for b'
    using Suc.IH [of b' k'] that Suc.prems k by simp
  have sh: "shrinks (?f k')"
    unfolding shrinks_def using ConstantExpr_read_shorter less_imp_le by blast
  have "read_literal (?f n) t b1 = read_literal (?f k') t b1" if "length b1 < length b" for t b1
  proof -
    have "read_counted (?f n) b1 = read_counted (?f k') b1"
      by (rule read_counted_cong [of "length b1"]) (use that rec sh in auto)
    then show ?thesis by (simp add: read_literal_def cong: LiteralType.case_cong)
  qed
  moreover have "length b1 < length b" if "ReadBufAdv_enum LiteralTypes 4 b = Inr (t, b1)" for t b1
    using ReadBufAdv_enum_length [OF that] by simp
  ultimately show ?case
    unfolding k ConstantExpr_read.simps by (intro rbind_cong) auto
qed simp

subsection \<open>The round trip\<close>

definition c_string_ok :: "string \<Rightarrow> bool" where
  "c_string_ok s \<longleftrightarrow> length s < 2 ^ 31 \<and> CHR 0x00 \<notin> set s"

definition i64_ok :: "int \<Rightarrow> bool" where
  "i64_ok v \<longleftrightarrow> - (2 ^ 63) \<le> v \<and> v < 2 ^ 63"

definition count_ok :: "'a list \<Rightarrow> bool" where
  "count_ok xs \<longleftrightarrow> length xs < 2 ^ 63"

fun ConstantExpr_ok :: "ConstantExpr \<Rightarrow> bool" where
  "ConstantExpr_ok (CString s) = c_string_ok s"
| "ConstantExpr_ok (CDate s) = c_string_ok s"
| "ConstantExpr_ok (CTime s) = c_string_ok s"
| "ConstantExpr_ok (CDateTime s) = c_string_ok s"
| "ConstantExpr_ok (CTimestamp s) = c_string_ok s"
| "ConstantExpr_ok (CInteger i) = i64_ok i"
| "ConstantExpr_ok (CInterval u i) = i64_ok i"
| "ConstantExpr_ok (CIntegerArray xs) = (count_ok xs \<and> list_all i64_ok xs)"
| "ConstantExpr_ok (CDoubleArray xs) = count_ok xs"
| "ConstantExpr_ok (CLongSparseArray xs ys) =
     (count_ok xs \<and> list_all i64_ok xs \<and> count_ok ys \<and> list_all i64_ok ys)"
| "ConstantExpr_ok (CDoubleSparseArray xs ys) = (count_ok xs \<and> list_all i64_ok xs \<and> count_ok ys)"
| "ConstantExpr_ok (CSubArrayArray es) = (count_ok es \<and> list_all ConstantExpr_ok es)"
| "ConstantExpr_ok (CCurlyBracketsArray es) = (count_ok es \<and> list_all ConstantExpr_ok es)"
| "ConstantExpr_ok _ = True"

lemma read_write_double: "ReadBufAdv_double (WriteBufAdv_double d @ r) = Inr (d, r)"
proof -
  have "unat d < 256 ^ 8" using unsigned_less [of d] by simp
  then show ?thesis by (simp add: ReadBufAdv_double_def WriteBufAdv_double_def ReadBufAdv_pod_write)
qed

lemma length_WriteBufAdv_double [simp]: "length (WriteBufAdv_double d) = 8"
  by (simp add: WriteBufAdv_double_def)

interpretation double: codec WriteBufAdv_double ReadBufAdv_double "\<lambda>_. 8" "\<lambda>_. True"
  by unfold_locales (simp_all add: read_write_double)

lemma c_str_id: "CHR 0x00 \<notin> set s \<Longrightarrow> c_str s = s"
  unfolding c_str_def by (induction s) auto

lemma read_write_c_str: "c_string_ok s \<Longrightarrow> read_c_str (WriteBufAdv_string s @ r) = Inr (s, r)"
  by (simp add: read_c_str_def c_string_ok_def codec_reads c_str_id)

lemma literal_enums_complete: "t \<in> set LiteralTypes" "u \<in> set TimeUnits"
  by (cases t; simp add: LiteralTypes_def) (cases u; simp add: TimeUnits_def)

lemma read_literal_type: "ReadBufAdv_enum LiteralTypes 4 (write_literal_type t @ r) = Inr (t, r)"
  unfolding write_literal_type_def
  by (rule ReadBufAdv_enum_write [OF literal_enums_complete(1)]) (simp add: LiteralTypes_def)

lemma read_time_unit: "ReadBufAdv_enum TimeUnits 4 (WriteBufAdv_enum TimeUnits 4 u @ r) = Inr (u, r)"
  by (rule ReadBufAdv_enum_write [OF literal_enums_complete(2)]) (simp add: TimeUnits_def)

lemma length_write_literal_type [simp]: "length (write_literal_type t) = 4"
  by (simp add: write_literal_type_def)

text \<open>A counted sequence is read back when each of its elements is, whatever follows.\<close>

lemma read_n_concat:
  assumes "\<And>x r'. x \<in> set xs \<Longrightarrow> length r \<le> length r' \<Longrightarrow> f (w x @ r') = Inr (x, r')"
  shows "read_n f (length xs) (concat (map w xs) @ r) = Inr (xs, r)"
  using assms by (induction xs) auto

lemma read_counted_concat:
  assumes "count_ok xs" "\<And>x r'. x \<in> set xs \<Longrightarrow> length r \<le> length r' \<Longrightarrow> f (w x @ r') = Inr (x, r')"
  shows "read_counted f (WriteBufAdv_i64 (int (length xs)) @ concat (map w xs) @ r) = Inr (xs, r)"
proof -
  have "- (2 ^ 63) \<le> int (length xs) \<and> int (length xs) < 2 ^ 63" using assms(1) by (simp add: count_ok_def)
  then show ?thesis
    using read_n_concat [of xs r f w] assms(2) by (simp add: read_counted_def i64.read_write)
qed

lemma read_counted_values:
  "count_ok xs \<Longrightarrow> list_all i64_ok xs \<Longrightarrow> read_counted ReadBufAdv_i64 (write_i64s xs @ r) = Inr (xs, r)"
  "count_ok ds \<Longrightarrow> read_counted ReadBufAdv_double (write_doubles ds @ r) = Inr (ds, r)"
  unfolding write_i64s_def write_doubles_def append_assoc
  by (rule read_counted_concat, simp, auto simp: i64_ok_def list_all_iff i64.read_write read_write_double)+

text \<open>One level of the reader, for any reader of the nested expressions.\<close>

lemma ConstantExpr_read_step:
  assumes "ConstantExpr_WriteAdv e = write_literal_type t @ w" "int (length (ConstantExpr_WriteAdv e)) \<le> m"
    and "read_literal (\<lambda>b'. ConstantExpr_read n (bytes_left m (ConstantExpr_WriteAdv e @ r) b') b') t (w @ r) = Inr (e, r)"
  shows "ConstantExpr_read (Suc n) m (ConstantExpr_WriteAdv e @ r) = Inr (e, r)"
  using assms by (simp add: read_literal_type bytes_left_def)

lemmas literal_reads = read_literal_def ReadBufAdv_bool_write read_write_double read_write_c_str i64_ok_def
  i64.read_write read_time_unit read_counted_values append_assoc

lemma nested_read:
  assumes ih: "\<And>x m r. x \<in> set es \<Longrightarrow> ConstantExpr_ok x \<Longrightarrow> int (length (ConstantExpr_WriteAdv x)) \<le> m \<Longrightarrow>
      ConstantExpr_read n m (ConstantExpr_WriteAdv x @ r) = Inr (x, r)"
    and ok: "count_ok es" "list_all ConstantExpr_ok es"
    and w: "w = WriteBufAdv_i64 (int (length es)) @ concat (map ConstantExpr_WriteAdv es)"
    and m: "int (4 + length w) \<le> m" and buf: "length buf = 4 + length w + length r"
  shows "read_counted (\<lambda>b'. ConstantExpr_read n (bytes_left m buf b') b') (w @ r) = Inr (es, r)"
  unfolding w append_assoc
proof (rule read_counted_concat [OF ok(1)])
  fix x and r' :: "byte list" assume x: "x \<in> set es" and r': "length r \<le> length r'"
  have "int (length (ConstantExpr_WriteAdv x)) \<le> bytes_left m buf (ConstantExpr_WriteAdv x @ r')"
    using m r' buf by (simp add: bytes_left_def)
  then show "ConstantExpr_read n (bytes_left m buf (ConstantExpr_WriteAdv x @ r')) (ConstantExpr_WriteAdv x @ r') = Inr (x, r')"
    using ih x ok(2) by (simp add: list_all_iff)
qed

lemma ConstantExpr_read_write:
  "ConstantExpr_ok e \<Longrightarrow> size e < n \<Longrightarrow> int (length (ConstantExpr_WriteAdv e)) \<le> m \<Longrightarrow>
     ConstantExpr_read n m (ConstantExpr_WriteAdv e @ r) = Inr (e, r)"
proof (induction n arbitrary: e m r)
  case (Suc n)
  have nested: "ConstantExpr_read n m (ConstantExpr_WriteAdv x @ r) = Inr (x, r)"
    if "x \<in> set es" "e = CSubArrayArray es \<or> e = CCurlyBracketsArray es" "ConstantExpr_ok x"
      "int (length (ConstantExpr_WriteAdv x)) \<le> m" for x es m r
  proof -
    have "size x < size e" using that(1,2) by (auto simp: size_list_estimation' less_Suc_eq_le)
    then show ?thesis using Suc.IH that(3,4) Suc.prems(2) by simp
  qed
  have sub: "read_counted (\<lambda>b'. ConstantExpr_read n (bytes_left m (ConstantExpr_WriteAdv e @ r) b') b')
      ((WriteBufAdv_i64 (int (length es)) @ concat (map ConstantExpr_WriteAdv es)) @ r) = Inr (es, r)"
    if "e = CSubArrayArray es \<or> e = CCurlyBracketsArray es" for es
    by (rule nested_read [OF nested [OF _ that] _ _ refl]) (use that Suc.prems in auto)
  show ?case
  proof (cases e)
    case (CSubArrayArray es)
    with Suc.prems sub [of es] show ?thesis
      by (intro ConstantExpr_read_step [where t = LitSubArrayArray and
            w = "WriteBufAdv_i64 (int (length es)) @ concat (map ConstantExpr_WriteAdv es)"])
         (simp_all add: read_literal_def)
  next
    case (CCurlyBracketsArray es)
    with Suc.prems sub [of es] show ?thesis
      by (intro ConstantExpr_read_step [where t = LitCurlyBracketsArray and
            w = "WriteBufAdv_i64 (int (length es)) @ concat (map ConstantExpr_WriteAdv es)"])
         (simp_all add: read_literal_def)
  qed (use Suc.prems in \<open>simp_all add: read_literal_type bytes_left_def literal_reads\<close>)
qed simp

lemma ConstantExpr_ReadAdv_write:
  assumes "ConstantExpr_ok e" "int (length (ConstantExpr_WriteAdv e)) \<le> m"
  shows "ConstantExpr_ReadAdv m (ConstantExpr_WriteAdv e @ r) = Inr (e, r)"
proof -
  let ?b = "ConstantExpr_WriteAdv e @ r"
  have "ConstantExpr_read (Suc (length ?b)) m ?b = ConstantExpr_read (Suc (length ?b + size e)) m ?b"
    by (rule ConstantExpr_read_fuel) simp_all
  then show ?thesis
    using ConstantExpr_read_write [OF assms(1) _ assms(2)] by (simp add: ConstantExpr_ReadAdv_def del: ConstantExpr_read.simps)
qed

lemma to_i32_sum_list:
  "(\<And>x. x \<in> set xs \<Longrightarrow> g x = to_i32 (h x)) \<Longrightarrow>
     to_i32 (c + sum_list (map g xs)) = to_i32 (c + sum_list (map h xs))"
proof (induction xs arbitrary: c)
  case (Cons x xs)
  have "to_i32 (c + (g x + sum_list (map g xs))) = to_i32 ((c + h x) + sum_list (map g xs))"
    using Cons.prems [of x] to_i32_add_left [of "h x" "c + sum_list (map g xs)"] by (simp add: algebra_simps)
  also have "\<dots> = to_i32 ((c + h x) + sum_list (map h xs))" using Cons by simp
  finally show ?case by (simp add: algebra_simps)
qed simp

lemma length_concat_int: "int (length (concat xss)) = sum_list (map (\<lambda>xs. int (length xs)) xss)"
  by (induction xss) simp_all

lemma length_write_values:
  "int (length (write_i64s xs)) = 8 + 8 * int (length xs)"
  "int (length (write_doubles ds)) = 8 + 8 * int (length ds)"
  by (simp_all add: write_i64s_def write_doubles_def length_concat_int o_def sum_list_triv)

lemma ConstantExpr_size:
  "ConstantExpr_ok e \<Longrightarrow> ConstantExpr_GetSizeInBytes e = to_i32 (int (length (ConstantExpr_WriteAdv e)))"
proof (induction e)
  case (CSubArrayArray es)
  then show ?case
    by (simp add: length_concat_int list_all_iff to_i32_sum_list [of es ConstantExpr_GetSizeInBytes
        "\<lambda>e. int (length (ConstantExpr_WriteAdv e))"] o_def)
next
  case (CCurlyBracketsArray es)
  then show ?case
    by (simp add: length_concat_int list_all_iff to_i32_sum_list [of es ConstantExpr_GetSizeInBytes
        "\<lambda>e. int (length (ConstantExpr_WriteAdv e))"] o_def)
qed (simp_all add: to_i32_id codec_sizes c_string_ok_def length_write_values of_nat_add)

interpretation constant_expr: bounded_codec "\<lambda>e. Inr (ConstantExpr_WriteAdv e)"
    "\<lambda>e. Inr (ConstantExpr_GetSizeInBytes e)" ConstantExpr_ReadAdv ConstantExpr_ok
  by unfold_locales
     (auto intro!: encodesI ConstantExpr_ReadAdv_write simp: ConstantExpr_size)

subsection \<open>Properties\<close>

text \<open>(C32) Constant expressions survive serialization: for every expression whose strings hold no null
  character and whose counts and integers fit their types, with arrays nested to any depth, the
  announced size is the number of bytes written (modulo the width of \<^verbatim>\<open>int32_t\<close>) and reading them
  back from any buffer that starts with them gives the expression and leaves the rest.\<close>

theorem ConstantExpr_roundtrip:
  assumes "ConstantExpr_ok e" and "int (length (ConstantExpr_WriteAdv e)) \<le> m"
  shows "ConstantExpr_ReadAdv m (ConstantExpr_WriteAdv e @ r) = Inr (e, r) \<and>
         ConstantExpr_GetSizeInBytes e = to_i32 (int (length (ConstantExpr_WriteAdv e)))"
  using ConstantExpr_ReadAdv_write [OF assms] ConstantExpr_size [OF assms(1)] by simp

theorem ConstantExpr_roundtrip_witness:
  "ConstantExpr_ReadAdv 100 (ConstantExpr_WriteAdv (CSubArrayArray [CIntegerArray [1, - 2], CString ''ab'']) @ [7]) =
     Inr (CSubArrayArray [CIntegerArray [1, - 2], CString ''ab''], [7])"
proof -
  have "ConstantExpr_ok (CSubArrayArray [CIntegerArray [1, - 2], CString ''ab''])"
    by (simp add: count_ok_def i64_ok_def c_string_ok_def)
  moreover have "int (length (ConstantExpr_WriteAdv (CSubArrayArray [CIntegerArray [1, - 2], CString ''ab'']))) \<le> 100"
    by (simp add: write_i64s_def codec_sizes)
  ultimately show ?thesis using ConstantExpr_roundtrip by blast
qed

end
