(* ===== verification/Column_Def.thy ===== *)
theory Column_Def
  imports Constant_Expr "HOL-Library.AList"
begin

text \<open>
  \<^verbatim>\<open>src/src/parser/definition/column_def.cpp\<close>, \<^verbatim>\<open>parser/type/info/sparse_info.cpp\<close> and
  \<^verbatim>\<open>storage/definition/table_def.cpp\<close>: how a column declaration becomes a data type, and the binary
  form of column and table definitions.  A constructor replaces a missing default expression by the
  null literal, so the field always holds an expression.  \<^verbatim>\<open>std::set<ConstraintType>\<close> is the list of its
  elements in increasing order.
\<close>

subsection \<open>From column declarations to data types\<close>

record InitParameter =
  param_name :: string
  param_value :: string

definition ParseStoreType :: "InitParameter list \<Rightarrow> SparseStoreType" where
  "ParseStoreType options =
     fold (\<lambda>option store_type.
             if param_name option = ''sort'' then kSort
             else if param_name option = ''sorted'' then kSorted
             else kInvalidStore) options kSort"

definition GetIndexType :: "nat \<Rightarrow> EmbeddingDataType res" where
  "GetIndexType dimension =
     (if dimension \<le> 127 + 1 then Inr kElemInt8
      else if dimension \<le> 32767 + 1 then Inr kElemInt16
      else if dimension \<le> 2147483647 + 1 then Inr kElemInt32
      else if dimension \<le> 9223372036854775807 + 1 then Inr kElemInt64
      else Inl (ParserError ''Sparse embedding dimension is too large''))"

definition SparseInfo_Make :: "EmbeddingDataType \<Rightarrow> nat \<Rightarrow> SparseStoreType \<Rightarrow> TypeInfo option res" where
  "SparseInfo_Make data_type dimension store_type =
     (if dimension = 0 \<or> store_type = kInvalidStore then Inr None
      else rbind (GetIndexType dimension) (\<lambda>index_type.
        Inr (Some (SparseInfo data_type index_type dimension store_type))))"

datatype ColumnType =
  ColumnType (ct_logical_type: LogicalType) (ct_width: int) (ct_precision: int) (ct_scale: int)
    (ct_embedding_type: EmbeddingDataType) (ct_element_types: "ColumnType list")

text \<open>The result is \<open>None\<close> where the code returns a null pointer with a reason.\<close>

fun GetDataTypeFromColumnType :: "InitParameter list \<Rightarrow> ColumnType \<Rightarrow> DataType option res" where
  "GetDataTypeFromColumnType params (ColumnType t width precision scale et elems) =
     (if t = kDecimal then
        rbind (DecimalInfo_Make precision scale) (\<lambda>i. Inr (Some (DataType t (Some i))))
      else if t \<in> {kEmbedding, kMultiVector, kTensor, kTensorArray} then
        rbind (EmbeddingInfo_Make et width) (\<lambda>i. Inr (Some (DataType t (Some i))))
      else if t = kSparse then
        rbind (SparseInfo_Make et (nat (width mod 2 ^ 64)) (ParseStoreType params)) (\<lambda>i.
          Inr (map_option (\<lambda>i. DataType t (Some i)) i))
      else if t = kArray then
        (case elems of
           [elem] \<Rightarrow>
             rbind (GetDataTypeFromColumnType params elem) (\<lambda>d.
               Inr (map_option (\<lambda>d. DataType t (Some (ArrayInfo d))) d))
         | _ \<Rightarrow> Inr None)
      else Inr (Some (DataType t None)))"

subsection \<open>Column definitions\<close>

datatype ConstraintType = cNull | cNotNull | cPrimaryKey | cUnique | cInvalid

definition ConstraintTypes :: "ConstraintType list" where
  "ConstraintTypes = [cNull, cNotNull, cPrimaryKey, cUnique, cInvalid]"

definition constraint_code :: "ConstraintType \<Rightarrow> nat" where
  "constraint_code c = enum_code ConstraintTypes c"

definition constraint_insert :: "ConstraintType \<Rightarrow> ConstraintType list \<Rightarrow> ConstraintType list" where
  "constraint_insert c cs = (if c \<in> set cs then cs else insort_key constraint_code c cs)"

record ColumnDef =
  cd_id :: int
  column_type :: DataType
  cd_name :: string
  constraints :: "ConstraintType list"
  cd_comment :: string
  default_expr :: ConstantExpr
  build_bloom_filter :: bool

definition ColumnDef_GetSizeInBytes :: "ColumnDef \<Rightarrow> int res" where
  "ColumnDef_GetSizeInBytes cd =
     size_sum [Inr 8, DataType_GetSizeInBytes (column_type cd), Inr (4 + int (length (cd_name cd))),
               Inr (4 + int (length (constraints cd)) * 1), Inr (4 + int (length (cd_comment cd))),
               Inr (ConstantExpr_GetSizeInBytes (default_expr cd)), Inr 1]"

definition ColumnDef_WriteAdv :: "ColumnDef \<Rightarrow> byte list res" where
  "ColumnDef_WriteAdv cd =
     wseq [Inr (WriteBufAdv_i64 (cd_id cd)),
           DataType_WriteAdv (column_type cd),
           Inr (WriteBufAdv_string (cd_name cd)),
           Inr (WriteBufAdv_i32 (to_i32 (int (length (constraints cd))))),
           Inr (concat (map (WriteBufAdv_enum ConstraintTypes 1) (constraints cd))),
           Inr (WriteBufAdv_string (cd_comment cd)),
           Inr (ConstantExpr_WriteAdv (default_expr cd)),
           Inr (WriteBufAdv_pod 1 (if build_bloom_filter cd then 1 else 0))]"

text \<open>A negative count makes \<^verbatim>\<open>for (int32_t i = 0; i < count; i++)\<close> read nothing.\<close>

definition ColumnDef_ReadAdv :: "int \<Rightarrow> byte list \<Rightarrow> (ColumnDef \<times> byte list) res" where
  "ColumnDef_ReadAdv maxbytes buf =
     rbind (ReadBufAdv_i64 buf) (\<lambda>(id, b1).
     rbind (DataType_ReadAdv maxbytes b1) (\<lambda>(type, b2).
     rbind (ReadBufAdv_string b2) (\<lambda>(name, b3).
     rbind (ReadBufAdv_i32 b3) (\<lambda>(constraint_size, b4).
     rbind (read_n (ReadBufAdv_enum ConstraintTypes 1) (nat constraint_size) b4) (\<lambda>(cs, b5).
     rbind (ReadBufAdv_string b5) (\<lambda>(comment, b6).
     rbind (ConstantExpr_ReadAdv maxbytes b6) (\<lambda>(expr, b7).
     rbind (ReadBufAdv_pod 1 b7) (\<lambda>(bf, b8).
       Inr (\<lparr>cd_id = id, column_type = type, cd_name = name,
             constraints = fold constraint_insert cs [], cd_comment = comment,
             default_expr = expr, build_bloom_filter = (bf = 1)\<rparr>, b8)))))))))"

subsection \<open>Table definitions\<close>

text \<open>\<open>column_name2id\<close> is an association list for the \<^verbatim>\<open>HashMap\<close> that the constructor fills and
  \<^verbatim>\<open>UnionWith\<close> extends; \<open>None\<close> stands for the \<^verbatim>\<open>-1\<close> of \<^verbatim>\<open>GetColIdByName\<close>.\<close>

record TableDef =
  schema_name :: string
  td_table_name :: string
  table_comment :: string
  columns :: "ColumnDef list"
  column_name2id :: "(string \<times> nat) list"

definition name_ids :: "nat \<Rightarrow> ColumnDef list \<Rightarrow> (string \<times> nat) list \<Rightarrow> (string \<times> nat) list" where
  "name_ids start cols ids = fold (\<lambda>(idx, c). AList.update (cd_name c) idx) (enumerate start cols) ids"

definition TableDef_Make :: "string \<Rightarrow> string \<Rightarrow> string \<Rightarrow> ColumnDef list \<Rightarrow> TableDef" where
  "TableDef_Make schema table comment cols =
     \<lparr>schema_name = schema, td_table_name = table, table_comment = comment, columns = cols,
      column_name2id = name_ids 0 cols []\<rparr>"

definition UnionWith :: "TableDef \<Rightarrow> TableDef \<Rightarrow> TableDef" where
  "UnionWith td other =
     td\<lparr>columns := columns td @ columns other,
        column_name2id := name_ids (length (columns td)) (columns other) (column_name2id td)\<rparr>"

definition GetColIdByName :: "TableDef \<Rightarrow> string \<Rightarrow> nat option" where
  "GetColIdByName td name = map_of (column_name2id td) name"

definition ColumnDef_eq :: "ColumnDef \<Rightarrow> ColumnDef \<Rightarrow> bool" where
  "ColumnDef_eq a b \<longleftrightarrow>
     cd_id a = cd_id b \<and> cd_name a = cd_name b \<and> DataType_eq (column_type a) (column_type b) \<and>
     length (constraints a) = length (constraints b) \<and>
     build_bloom_filter a = build_bloom_filter b \<and> cd_comment a = cd_comment b \<and>
     list_all (\<lambda>con. con \<in> set (constraints b)) (constraints a)"

definition TableDef_eq :: "TableDef \<Rightarrow> TableDef \<Rightarrow> bool" where
  "TableDef_eq a b \<longleftrightarrow>
     schema_name a = schema_name b \<and> td_table_name a = td_table_name b \<and>
     length (columns a) = length (columns b) \<and>
     length (column_name2id a) = length (column_name2id b) \<and>
     list_all2 ColumnDef_eq (columns a) (columns b)"

definition TableDef_GetSizeInBytes :: "TableDef \<Rightarrow> int res" where
  "TableDef_GetSizeInBytes td =
     size_sum ([Inr (4 + int (length (schema_name td))), Inr (4 + int (length (td_table_name td))),
                Inr (4 + int (length (table_comment td))), Inr 4] @
               map ColumnDef_GetSizeInBytes (columns td))"

definition TableDef_WriteAdv :: "TableDef \<Rightarrow> byte list res" where
  "TableDef_WriteAdv td =
     wseq ([Inr (WriteBufAdv_string (schema_name td)), Inr (WriteBufAdv_string (td_table_name td)),
            Inr (WriteBufAdv_string (table_comment td)),
            Inr (WriteBufAdv_i32 (to_i32 (int (length (columns td)))))] @
           map ColumnDef_WriteAdv (columns td))"

definition TableDef_ReadAdv :: "int \<Rightarrow> byte list \<Rightarrow> (TableDef \<times> byte list) res" where
  "TableDef_ReadAdv maxbytes buf =
     (if maxbytes \<le> 0 then Inl (UnrecoverableError ''ptr goes out of range when reading TableDef'')
      else
        rbind (ReadBufAdv_string buf) (\<lambda>(schema, b1).
        rbind (ReadBufAdv_string b1) (\<lambda>(table, b2).
        rbind (ReadBufAdv_string b2) (\<lambda>(comment, b3).
        rbind (ReadBufAdv_i32 b3) (\<lambda>(columns_size, b4).
        rbind (read_n (ColumnDef_ReadAdv maxbytes) (nat columns_size) b4) (\<lambda>(cols, b5).
          if bytes_left maxbytes buf b5 < 0
          then Inl (UnrecoverableError ''ptr goes out of range when reading TableDef'')
          else Inr (TableDef_Make schema table comment cols, b5)))))))"

subsection \<open>Declared data types can be stored\<close>

text \<open>The fields of a column declaration are \<^verbatim>\<open>int64_t\<close>.\<close>

fun ColumnType_ok :: "ColumnType \<Rightarrow> bool" where
  "ColumnType_ok (ColumnType t width precision scale et elems) \<longleftrightarrow>
     i64_ok width \<and> i64_ok precision \<and> i64_ok scale \<and> list_all ColumnType_ok elems"

lemma DecimalInfo_Make_ok:
  "DecimalInfo_Make p s = Inr i \<Longrightarrow> i64_ok s \<Longrightarrow> DataType_ok (DataType kDecimal (Some i))"
  by (auto simp: DecimalInfo_Make_def i64_ok_def Let_def split: if_splits)

lemma EmbeddingInfo_Make_ok:
  assumes "EmbeddingInfo_Make et w = Inr i" "t \<in> {kEmbedding, kMultiVector, kTensor, kTensorArray}"
  shows "DataType_ok (DataType t (Some i))"
  using assms by (auto simp: EmbeddingInfo_Make_def EMBEDDING_LIMIT_INTERNAL_def Let_def split: if_splits)

lemma SparseInfo_Make_ok:
  "SparseInfo_Make et d st = Inr (Some i) \<Longrightarrow> DataType_ok (DataType kSparse (Some i))"
  by (auto simp: SparseInfo_Make_def GetIndexType_def res_simps split: if_splits)

lemma GetDataTypeFromColumnType_storable:
  "GetDataTypeFromColumnType ps ct = Inr (Some d) \<Longrightarrow> ColumnType_ok ct \<Longrightarrow> DataType_ok d"
proof (induction ps ct arbitrary: d rule: GetDataTypeFromColumnType.induct)
  case (1 ps t w p s et elems)
  consider "t = kDecimal" | "t \<in> {kEmbedding, kMultiVector, kTensor, kTensorArray}" | "t = kSparse"
    | "t = kArray" | "t \<notin> {kDecimal, kEmbedding, kMultiVector, kTensor, kTensorArray, kSparse, kArray}"
    by blast
  then show ?case
  proof cases
    case 1
    with "1.prems" show ?thesis by (auto simp: res_simps dest: DecimalInfo_Make_ok)
  next
    case 2
    with "1.prems"(1) have "\<exists>i. EmbeddingInfo_Make et w = Inr i \<and> d = DataType t (Some i)"
      by (auto simp: res_simps)
    with 2 show ?thesis using EmbeddingInfo_Make_ok by blast
  next
    case 3
    with "1.prems"(1) show ?thesis
      by (auto simp: res_simps simp del: DataType_ok.simps dest: SparseInfo_Make_ok)
  next
    case 4
    with "1.prems"(1) obtain elem where e: "elems = [elem]" by (auto split: list.splits)
    with 4 "1.prems"(1) obtain d' where
      "GetDataTypeFromColumnType ps elem = Inr (Some d')" "d = DataType t (Some (ArrayInfo d'))"
      by (auto simp: res_simps)
    then show ?thesis using "1.IH" [of elem "[]"] 4 e "1.prems"(2) by simp
  next
    case 5
    with "1.prems" show ?thesis by auto
  qed
qed

subsection \<open>The round trips\<close>

definition ColumnDef_ok :: "ColumnDef \<Rightarrow> bool" where
  "ColumnDef_ok cd \<longleftrightarrow>
     i64_ok (cd_id cd) \<and> DataType_ok (column_type cd) \<and> length (cd_name cd) < 2 ^ 31 \<and>
     length (cd_comment cd) < 2 ^ 31 \<and> ConstantExpr_ok (default_expr cd) \<and>
     sorted_wrt (<) (map constraint_code (constraints cd))"

lemma ColumnDef_eq_refl: "ColumnDef_eq cd cd"
  by (simp add: ColumnDef_eq_def DataType_eq_refl list_all_iff)

lemma TableDef_eq_refl: "TableDef_eq td td"
  by (simp add: TableDef_eq_def list_all2_conv_all_nth ColumnDef_eq_refl)

lemma ConstraintTypes_complete: "c \<in> set ConstraintTypes"
  by (cases c; simp add: ConstraintTypes_def)

lemma constraint_code_inj: "constraint_code c = constraint_code d \<Longrightarrow> c = d"
  using enum_code_nth [OF ConstraintTypes_complete] unfolding constraint_code_def by metis

lemma constraint_code_less: "constraint_code c < 5"
  using enum_code_nth [OF ConstraintTypes_complete, of c] by (simp add: constraint_code_def ConstraintTypes_def)

lemma read_constraint:
  "0 < k \<Longrightarrow> ReadBufAdv_enum ConstraintTypes k (WriteBufAdv_enum ConstraintTypes k c @ r) = Inr (c, r)"
  by (rule ReadBufAdv_enum_write [OF ConstraintTypes_complete])
     (simp add: ConstraintTypes_def [THEN arg_cong [where f = length]] power_256_ge)

text \<open>A set has at most one constraint of each kind, so its size fits every count.\<close>

lemma constraints_few:
  assumes "sorted_wrt (<) (map constraint_code cs)"
  shows "length cs \<le> 5"
proof -
  have "distinct (map constraint_code cs)" using assms by (simp add: strict_sorted_iff)
  moreover have "set (map constraint_code cs) \<subseteq> {0..<5}" using constraint_code_less by auto
  ultimately have "length (map constraint_code cs) \<le> card {0..<5 :: nat}"
    by (metis card_mono distinct_card finite_atLeastLessThan)
  then show ?thesis by simp
qed

text \<open>Inserting the elements of a set in increasing order rebuilds it.\<close>

lemma insort_key_last:
  "\<forall>x \<in> set xs. f x < f a \<Longrightarrow> insort_key f a xs = xs @ [a]" for f :: "_ \<Rightarrow> nat"
  by (induction xs) auto

lemma fold_constraint_insert:
  "sorted_wrt (<) (map constraint_code (acc @ cs)) \<Longrightarrow> fold constraint_insert cs acc = acc @ cs"
proof (induction cs arbitrary: acc)
  case (Cons c cs)
  have less: "\<forall>x \<in> set acc. constraint_code x < constraint_code c"
    using Cons.prems by (simp add: sorted_wrt_append)
  then have "constraint_insert c acc = acc @ [c]"
    by (auto simp: constraint_insert_def insort_key_last)
  then show ?case using Cons.IH [of "acc @ [c]"] Cons.prems by simp
qed simp

lemma ColumnDef_encoded:
  assumes "ColumnDef_ok cd"
  shows "encodes (ColumnDef_WriteAdv cd) (ColumnDef_GetSizeInBytes cd) ColumnDef_ReadAdv cd"
proof -
  let ?cs = "constraints cd" and ?e = "default_expr cd"
  have ok: "i64_ok (cd_id cd)" "DataType_ok (column_type cd)" "length (cd_name cd) < 2 ^ 31"
    "length (cd_comment cd) < 2 ^ 31" "ConstantExpr_ok ?e" "sorted_wrt (<) (map constraint_code ?cs)"
    using assms by (simp_all add: ColumnDef_ok_def)
  obtain b where b: "DataType_WriteAdv (column_type cd) = Inr b"
    "DataType_GetSizeInBytes (column_type cd) = Inr (to_i32 (int (length b)))"
    "\<forall>m r. int (length b) \<le> m \<longrightarrow> DataType_ReadAdv m (b @ r) = Inr (column_type cd, r)"
    by (rule encodesE [OF data_type.encoded [OF ok(2)]])
  have n: "to_i32 (int (length ?cs)) = int (length ?cs)" "int (length ?cs) < 2 ^ 31"
    using constraints_few [OF ok(6)] by (simp_all add: to_i32_id)
  have cs: "0 < k \<Longrightarrow> read_n (ReadBufAdv_enum ConstraintTypes k) (length ?cs)
      (concat (map (WriteBufAdv_enum ConstraintTypes k) ?cs) @ r) = Inr (?cs, r)" for k r
    by (rule read_n_concat) (simp add: read_constraint)
  have len: "length (concat (map (WriteBufAdv_enum ConstraintTypes 1) ?cs)) = length ?cs"
    by (induction "constraints cd") (simp_all add: length_concat o_def sum_list_triv)
  let ?w = "WriteBufAdv_i64 (cd_id cd) @ b @ WriteBufAdv_string (cd_name cd) @ WriteBufAdv_i32 (int (length ?cs)) @
     concat (map (WriteBufAdv_enum ConstraintTypes 1) ?cs) @ WriteBufAdv_string (cd_comment cd) @
     ConstantExpr_WriteAdv ?e @ WriteBufAdv_pod 1 (if build_bloom_filter cd then 1 else 0)"
  show ?thesis
  proof (rule encodesI [of _ ?w])
    show "ColumnDef_WriteAdv cd = Inr ?w" using b n by (simp add: ColumnDef_WriteAdv_def)
    show "ColumnDef_GetSizeInBytes cd = Inr (to_i32 (int (length ?w)))"
      using b ok len by (simp add: ColumnDef_GetSizeInBytes_def codec_sizes ConstantExpr_size algebra_simps)
    show "ColumnDef_ReadAdv m (?w @ r) = Inr (cd, r)" if "int (length ?w) \<le> m" for m r
      using that b(3) n ok fold_constraint_insert [of "[]" ?cs]
      by (simp add: ColumnDef_ReadAdv_def i64_ok_def i64.read_write codec_reads cs ConstantExpr_ReadAdv_write
          ReadBufAdv_pod_write)
  qed
qed

interpretation column_def: bounded_codec ColumnDef_WriteAdv ColumnDef_GetSizeInBytes ColumnDef_ReadAdv ColumnDef_ok
  by unfold_locales (rule ColumnDef_encoded)

definition TableDef_ok :: "TableDef \<Rightarrow> bool" where
  "TableDef_ok td \<longleftrightarrow>
     length (schema_name td) < 2 ^ 31 \<and> length (td_table_name td) < 2 ^ 31 \<and>
     length (table_comment td) < 2 ^ 31 \<and> length (columns td) < 2 ^ 31 \<and>
     list_all ColumnDef_ok (columns td) \<and> column_name2id td = name_ids 0 (columns td) []"

lemma TableDef_encoded:
  assumes "TableDef_ok td"
  shows "encodes (TableDef_WriteAdv td) (TableDef_GetSizeInBytes td) TableDef_ReadAdv td"
proof -
  let ?n = "length (columns td)"
  have ok: "length (schema_name td) < 2 ^ 31" "length (td_table_name td) < 2 ^ 31"
    "length (table_comment td) < 2 ^ 31" "?n < 2 ^ 31" "list_all ColumnDef_ok (columns td)"
    "column_name2id td = name_ids 0 (columns td) []"
    using assms by (simp_all add: TableDef_ok_def)
  obtain b where b: "wseq (map ColumnDef_WriteAdv (columns td)) = Inr b"
    "size_sum (map ColumnDef_GetSizeInBytes (columns td)) = Inr (to_i32 (int (length b)))"
    "\<forall>m r. int (length b) \<le> m \<longrightarrow> read_n (ColumnDef_ReadAdv m) ?n (b @ r) = Inr (columns td, r)"
    by (rule encodesE [OF column_def.encoded_list [OF ok(5)]])
  have td: "TableDef_Make (schema_name td) (td_table_name td) (table_comment td) (columns td) = td"
    using ok(6) by (simp add: TableDef_Make_def)
  have n: "to_i32 (int ?n) = int ?n" using ok(4) by (simp add: to_i32_id)
  let ?w = "WriteBufAdv_string (schema_name td) @ WriteBufAdv_string (td_table_name td) @
     WriteBufAdv_string (table_comment td) @ WriteBufAdv_i32 (int ?n) @ b"
  show ?thesis
  proof (rule encodesI [of _ ?w])
    show "TableDef_WriteAdv td = Inr ?w" using b n by (simp add: TableDef_WriteAdv_def)
    show "TableDef_GetSizeInBytes td = Inr (to_i32 (int (length ?w)))"
      using b ok by (simp add: TableDef_GetSizeInBytes_def codec_sizes algebra_simps)
    show "TableDef_ReadAdv m (?w @ r) = Inr (td, r)" if "int (length ?w) \<le> m" for m r
      using that b(3) ok(1-4) td by (simp add: TableDef_ReadAdv_def codec_reads bytes_left_def)
  qed
qed

interpretation table_def: bounded_codec TableDef_WriteAdv TableDef_GetSizeInBytes TableDef_ReadAdv TableDef_ok
  by unfold_locales (rule TableDef_encoded)

subsection \<open>The name index of a table\<close>

lemma name_ids_append:
  "name_ids start (xs @ ys) ids = name_ids (start + length xs) ys (name_ids start xs ids)"
  by (simp add: name_ids_def enumerate_append_eq)

lemma name_ids_snoc:
  "name_ids start (xs @ [c]) ids = AList.update (cd_name c) (start + length xs) (name_ids start xs ids)"
  by (simp add: name_ids_append) (simp add: name_ids_def)

lemma name_ids_lookup:
  "map_of (name_ids 0 cols []) name = Some i \<longleftrightarrow>
     i < length cols \<and> cd_name (cols ! i) = name \<and> (\<forall>j < length cols. i < j \<longrightarrow> cd_name (cols ! j) \<noteq> name)"
proof (induction cols arbitrary: i rule: rev_induct)
  case Nil
  show ?case by (simp add: name_ids_def)
next
  case (snoc c cols)
  show ?case
    unfolding name_ids_snoc update_Some_unfold
    by (auto simp: snoc.IH nth_append less_Suc_eq)
qed

subsection \<open>Properties\<close>

text \<open>(C31) Table definitions survive serialization: for every table built by the constructor from storable
  columns, \<^verbatim>\<open>WriteAdv\<close> succeeds, \<^verbatim>\<open>GetSizeInBytes\<close> announces the number of bytes written (modulo the
  width of \<^verbatim>\<open>int32_t\<close>), and \<^verbatim>\<open>ReadAdv\<close> gives back the same table, with the column types, constraint
  sets, default expressions, Bloom filter flags and the index from names to column numbers.\<close>

theorem TableDef_roundtrip:
  assumes "TableDef_ok td"
  shows "\<exists>b. TableDef_WriteAdv td = Inr b \<and> TableDef_GetSizeInBytes td = Inr (to_i32 (int (length b))) \<and>
             (\<forall>m r. int (length b) \<le> m \<longrightarrow> TableDef_ReadAdv m (b @ r) = Inr (td, r))"
  by (rule encodesE [OF table_def.encoded [OF assms]]) blast

theorem TableDef_roundtrip_witness:
  "\<exists>b. TableDef_WriteAdv (TableDef_Make ''default_db'' ''t'' ''''
         [\<lparr>cd_id = 0, column_type = DataType kVarchar None, cd_name = ''name'', constraints = [cNotNull, cUnique],
           cd_comment = '''', default_expr = CString ''x'', build_bloom_filter = True\<rparr>]) = Inr b \<and>
       length b = 64"
proof -
  let ?td = "TableDef_Make ''default_db'' ''t'' ''''
     [\<lparr>cd_id = 0, column_type = DataType kVarchar None, cd_name = ''name'', constraints = [cNotNull, cUnique],
       cd_comment = '''', default_expr = CString ''x'', build_bloom_filter = True\<rparr>]"
  have "TableDef_ok ?td"
    by (simp add: TableDef_ok_def TableDef_Make_def ColumnDef_ok_def i64_ok_def c_string_ok_def constraint_code_def
        enum_code_def ConstraintTypes_def)
  from TableDef_roundtrip [OF this] show ?thesis
    by (auto simp: TableDef_WriteAdv_def TableDef_Make_def ColumnDef_WriteAdv_def codec_sizes Let_def)
qed

text \<open>(C33) Every declared column type can be stored: when \<^verbatim>\<open>GetDataTypeFromColumnType\<close> builds a data type,
  for any \<^verbatim>\<open>int64_t\<close> width, precision and scale and any nesting of arrays, that data type is written
  without error, with the announced size, and read back unchanged.\<close>

theorem declared_type_storable:
  assumes "GetDataTypeFromColumnType params ct = Inr (Some d)" and "ColumnType_ok ct"
  shows "\<exists>b. DataType_WriteAdv d = Inr b \<and> DataType_GetSizeInBytes d = Inr (to_i32 (int (length b))) \<and>
             (\<forall>m r. int (length b) \<le> m \<longrightarrow> DataType_ReadAdv m (b @ r) = Inr (d, r))"
  by (rule encodesE [OF data_type.encoded [OF GetDataTypeFromColumnType_storable [OF assms]]]) blast

theorem declared_type_storable_witness:
  "\<exists>b. DataType_WriteAdv (DataType kArray (Some (ArrayInfo (DataType kSparse
         (Some (SparseInfo kElemFloat kElemInt16 30000 kSort)))))) = Inr b \<and> length b = 13"
proof -
  let ?ct = "ColumnType kArray 0 0 0 kElemInvalid [ColumnType kSparse 30000 0 0 kElemFloat []]"
  have "GetDataTypeFromColumnType [] ?ct = Inr (Some (DataType kArray (Some (ArrayInfo (DataType kSparse
         (Some (SparseInfo kElemFloat kElemInt16 30000 kSort)))))))"
    by (simp add: SparseInfo_Make_def GetIndexType_def ParseStoreType_def)
  moreover have "ColumnType_ok ?ct" by (simp add: i64_ok_def)
  ultimately show ?thesis
    using declared_type_storable [of "[]" ?ct] by (auto simp: Let_def)
qed

text \<open>The name index stays right when tables are combined: after \<^verbatim>\<open>UnionWith\<close>, \<^verbatim>\<open>GetColIdByName\<close> gives
  the position, in the concatenated columns, of the last column with that name, and no position
  exactly when no column has it.\<close>

lemma UnionWith_name_index:
  "GetColIdByName (UnionWith (TableDef_Make schema table comment cols) other) name = Some i \<longleftrightarrow>
     i < length (cols @ columns other) \<and> cd_name ((cols @ columns other) ! i) = name \<and>
     (\<forall>j < length (cols @ columns other). i < j \<longrightarrow> cd_name ((cols @ columns other) ! j) \<noteq> name)"
  using name_ids_append [of 0 cols "columns other" "[]"] name_ids_lookup [of "cols @ columns other" name i]
  by (simp add: GetColIdByName_def UnionWith_def TableDef_Make_def)

lemma UnionWith_name_index_example:
  "let c = \<lambda>n. \<lparr>cd_id = 0, column_type = DataType kInteger None, cd_name = n, constraints = [],
                cd_comment = '''', default_expr = CNull, build_bloom_filter = False\<rparr>
   in GetColIdByName (UnionWith (TableDef_Make ''d'' ''t'' '''' [c ''a'', c ''b'']) (TableDef_Make ''d'' ''u'' '''' [c ''a''])) ''a'' = Some 2"
  unfolding Let_def UnionWith_name_index by (simp add: TableDef_Make_def)

end
