(* ===== verification/Index_Base.thy ===== *)
theory Index_Base
  imports Column_Def
begin

text \<open>
  \<^verbatim>\<open>src/src/storage/definition/index_base.cpp\<close> and its subclasses \<^verbatim>\<open>index_ivf\<close>, \<^verbatim>\<open>index_hnsw\<close>,
  \<^verbatim>\<open>index_diskann\<close>, \<^verbatim>\<open>index_full_text\<close>, \<^verbatim>\<open>index_secondary\<close>, \<^verbatim>\<open>index_emvb\<close> and \<^verbatim>\<open>index_bmp\<close>: the data of
  an index definition and its binary form.  The subclass is the constructor of \<open>IndexParams\<close>; a
  \<^verbatim>\<open>float\<close> is its bit pattern.
\<close>

subsection \<open>Data\<close>

datatype IndexType = kIVF | kHnsw | kBMP | kFullText | kSecondary | kEMVB | kIndexInvalid | kDiskAnn

definition IndexTypes :: "IndexType list" where
  "IndexTypes = [kIVF, kHnsw, kBMP, kFullText, kSecondary, kEMVB, kIndexInvalid, kDiskAnn]"

datatype MetricType = kMetricCosine | kMetricInnerProduct | kMetricL2 | kMetricInvalid

definition MetricTypes :: "MetricType list" where
  "MetricTypes = [kMetricCosine, kMetricInnerProduct, kMetricL2, kMetricInvalid]"

datatype HnswEncodeType = kHnswPlain | kHnswLVQ | kHnswEncodeInvalid

definition HnswEncodeTypes :: "HnswEncodeType list" where
  "HnswEncodeTypes = [kHnswPlain, kHnswLVQ, kHnswEncodeInvalid]"

datatype HnswBuildType = kBuildPlain | kBuildLSG | kBuildInvalid

definition HnswBuildTypes :: "HnswBuildType list" where
  "HnswBuildTypes = [kBuildPlain, kBuildLSG, kBuildInvalid]"

datatype DiskAnnEncodeType = kDiskAnnPlain | kDiskAnnEncodeInvalid

definition DiskAnnEncodeTypes :: "DiskAnnEncodeType list" where
  "DiskAnnEncodeTypes = [kDiskAnnPlain, kDiskAnnEncodeInvalid]"

datatype BMPCompressType = kRaw | kCompressed | kCompressInvalid

definition BMPCompressTypes :: "BMPCompressType list" where
  "BMPCompressTypes = [kRaw, kCompressed, kCompressInvalid]"

datatype IVFStorageType = kIVFPlain | kScalarQuantization | kProductQuantization

definition IVFStorageTypes :: "IVFStorageType list" where
  "IVFStorageTypes = [kIVFPlain, kScalarQuantization, kProductQuantization]"

record LSGConfig =
  sample_raito :: "32 word"
  ls_k :: nat
  alpha :: "32 word"

record IndexIVFCentroidOption =
  centroids_num_ratio :: "32 word"
  min_points_per_centroid :: nat
  max_points_per_centroid :: nat

text \<open>\<open>ivf_padding\<close> stands for the three bytes of padding behind the one-byte element type, which are
  copied with the struct.\<close>

record IndexIVFStorageOption =
  ivf_storage_type :: IVFStorageType
  plain_storage_data_type :: EmbeddingDataType
  ivf_padding :: nat
  scalar_quantization_bits :: nat
  product_quantization_subspace_num :: nat
  product_quantization_subspace_bits :: nat

record IndexIVFOption =
  ivf_metric :: MetricType
  centroid_option :: IndexIVFCentroidOption
  storage_option :: IndexIVFStorageOption

datatype IndexParams =
    IVFParams IndexIVFOption
  | HnswParams MetricType HnswEncodeType HnswBuildType nat nat nat "LSGConfig option"
  | DiskAnnParams MetricType DiskAnnEncodeType nat nat nat nat
  | FullTextParams string nat
  | SecondaryParams
  | EMVBParams nat nat
  | BMPParams nat BMPCompressType

record IndexBase =
  index_name :: string
  index_comment :: string
  file_name :: string
  column_names :: "string list"
  index_params :: IndexParams

fun index_type :: "IndexParams \<Rightarrow> IndexType" where
  "index_type (IVFParams _) = kIVF"
| "index_type (HnswParams _ _ _ _ _ _ _) = kHnsw"
| "index_type (DiskAnnParams _ _ _ _ _ _) = kDiskAnn"
| "index_type (FullTextParams _ _) = kFullText"
| "index_type SecondaryParams = kSecondary"
| "index_type (EMVBParams _ _) = kEMVB"
| "index_type (BMPParams _ _) = kBMP"

subsection \<open>Binary form\<close>

definition WriteBufAdv_float :: "32 word \<Rightarrow> byte list" where
  "WriteBufAdv_float f = WriteBufAdv_pod 4 (unat f)"

definition ReadBufAdv_float :: "byte list \<Rightarrow> (32 word \<times> byte list) res" where
  "ReadBufAdv_float buf = rbind (ReadBufAdv_pod 4 buf) (\<lambda>(n, r). Inr (of_nat n, r))"

definition LSGConfig_GetSizeInBytes :: "LSGConfig \<Rightarrow> int" where
  "LSGConfig_GetSizeInBytes c = 4 + 8 + 4"

definition LSGConfig_WriteAdv :: "LSGConfig \<Rightarrow> byte list" where
  "LSGConfig_WriteAdv c =
     WriteBufAdv_float (sample_raito c) @ WriteBufAdv_pod 8 (ls_k c) @ WriteBufAdv_float (alpha c)"

definition LSGConfig_ReadAdv :: "byte list \<Rightarrow> (LSGConfig \<times> byte list) res" where
  "LSGConfig_ReadAdv buf =
     rbind (ReadBufAdv_float buf) (\<lambda>(s, b1).
     rbind (ReadBufAdv_pod 8 b1) (\<lambda>(k, b2).
     rbind (ReadBufAdv_float b2) (\<lambda>(a, b3).
       Inr (\<lparr>sample_raito = s, ls_k = k, alpha = a\<rparr>, b3))))"

text \<open>The object representation of \<^verbatim>\<open>IndexIVFOption\<close>, 36 bytes.\<close>

definition IVFOption_write :: "IndexIVFOption \<Rightarrow> byte list" where
  "IVFOption_write opt =
     WriteBufAdv_enum MetricTypes 4 (ivf_metric opt) @
     WriteBufAdv_float (centroids_num_ratio (centroid_option opt)) @
     WriteBufAdv_pod 4 (min_points_per_centroid (centroid_option opt)) @
     WriteBufAdv_pod 4 (max_points_per_centroid (centroid_option opt)) @
     WriteBufAdv_enum IVFStorageTypes 4 (ivf_storage_type (storage_option opt)) @
     WriteBufAdv_enum EmbeddingDataTypes 1 (plain_storage_data_type (storage_option opt)) @
     WriteBufAdv_pod 3 (ivf_padding (storage_option opt)) @
     WriteBufAdv_pod 4 (scalar_quantization_bits (storage_option opt)) @
     WriteBufAdv_pod 4 (product_quantization_subspace_num (storage_option opt)) @
     WriteBufAdv_pod 4 (product_quantization_subspace_bits (storage_option opt))"

definition IVFOption_read :: "byte list \<Rightarrow> (IndexIVFOption \<times> byte list) res" where
  "IVFOption_read buf =
     rbind (ReadBufAdv_enum MetricTypes 4 buf) (\<lambda>(metric, b1).
     rbind (ReadBufAdv_float b1) (\<lambda>(ratio, b2).
     rbind (ReadBufAdv_pod 4 b2) (\<lambda>(mn, b3).
     rbind (ReadBufAdv_pod 4 b3) (\<lambda>(mx, b4).
     rbind (ReadBufAdv_enum IVFStorageTypes 4 b4) (\<lambda>(st, b5).
     rbind (ReadBufAdv_enum EmbeddingDataTypes 1 b5) (\<lambda>(et, b6).
     rbind (ReadBufAdv_pod 3 b6) (\<lambda>(pad, b7).
     rbind (ReadBufAdv_pod 4 b7) (\<lambda>(sq, b8).
     rbind (ReadBufAdv_pod 4 b8) (\<lambda>(pn, b9).
     rbind (ReadBufAdv_pod 4 b9) (\<lambda>(pb, b10).
       Inr (\<lparr>ivf_metric = metric,
             centroid_option = \<lparr>centroids_num_ratio = ratio, min_points_per_centroid = mn, max_points_per_centroid = mx\<rparr>,
             storage_option = \<lparr>ivf_storage_type = st, plain_storage_data_type = et, ivf_padding = pad,
               scalar_quantization_bits = sq, product_quantization_subspace_num = pn,
               product_quantization_subspace_bits = pb\<rparr>\<rparr>, b10)))))))))))"

definition IndexBase_size :: "IndexBase \<Rightarrow> int" where
  "IndexBase_size ib =
     to_i32 (4 + (4 + int (length (index_name ib))) + (4 + int (length (index_comment ib))) +
             (4 + int (length (file_name ib))) + 4 +
             sum_list (map (\<lambda>c. 4 + int (length c)) (column_names ib)))"

text \<open>What each subclass adds to the size of the base class.\<close>

definition IVF_size :: "IndexIVFOption \<Rightarrow> int" where
  "IVF_size opt = 36"

definition Hnsw_size :: "LSGConfig option \<Rightarrow> int" where
  "Hnsw_size lsg = 4 + 4 + 4 + 8 + 8 + 8 + 1 + (case lsg of None \<Rightarrow> 0 | Some c \<Rightarrow> LSGConfig_GetSizeInBytes c)"

definition DiskAnn_size :: int where
  "DiskAnn_size = 4 + 4 + 8 + 8 + 8 + 8"

definition FullText_size :: "string \<Rightarrow> int" where
  "FullText_size analyzer = 4 + int (length analyzer) + 1"

definition EMVB_size :: int where
  "EMVB_size = 4 + 4"

definition BMP_size :: int where
  "BMP_size = 8 + 1"

fun IndexParams_size :: "IndexParams \<Rightarrow> int" where
  "IndexParams_size (IVFParams opt) = IVF_size opt"
| "IndexParams_size (HnswParams metric encode build M ef bs lsg) = Hnsw_size lsg"
| "IndexParams_size (DiskAnnParams metric encode R L chunks parts) = DiskAnn_size"
| "IndexParams_size (FullTextParams analyzer flag) = FullText_size analyzer"
| "IndexParams_size SecondaryParams = 0"
| "IndexParams_size (EMVBParams num bits) = EMVB_size"
| "IndexParams_size (BMPParams bs compress) = BMP_size"

definition IndexBase_GetSizeInBytes :: "IndexBase \<Rightarrow> int" where
  "IndexBase_GetSizeInBytes ib = to_i32 (IndexBase_size ib + IndexParams_size (index_params ib))"

definition IndexBase_write :: "IndexBase \<Rightarrow> byte list" where
  "IndexBase_write ib =
     WriteBufAdv_enum IndexTypes 4 (index_type (index_params ib)) @
     WriteBufAdv_string (index_name ib) @ WriteBufAdv_string (index_comment ib) @
     WriteBufAdv_string (file_name ib) @
     WriteBufAdv_i32 (to_i32 (int (length (column_names ib)))) @
     concat (map WriteBufAdv_string (column_names ib))"

text \<open>What each subclass writes behind the data of the base class.\<close>

definition Hnsw_write ::
    "MetricType \<Rightarrow> HnswEncodeType \<Rightarrow> HnswBuildType \<Rightarrow> nat \<Rightarrow> nat \<Rightarrow> nat \<Rightarrow> LSGConfig option \<Rightarrow> byte list" where
  "Hnsw_write metric encode build M ef bs lsg =
     WriteBufAdv_enum MetricTypes 4 metric @ WriteBufAdv_enum HnswEncodeTypes 4 encode @
     WriteBufAdv_enum HnswBuildTypes 4 build @ WriteBufAdv_pod 8 M @ WriteBufAdv_pod 8 ef @
     WriteBufAdv_pod 8 bs @ WriteBufAdv_bool (lsg \<noteq> None) @
     (case lsg of None \<Rightarrow> [] | Some c \<Rightarrow> LSGConfig_WriteAdv c)"

definition DiskAnn_write ::
    "MetricType \<Rightarrow> DiskAnnEncodeType \<Rightarrow> nat \<Rightarrow> nat \<Rightarrow> nat \<Rightarrow> nat \<Rightarrow> byte list" where
  "DiskAnn_write metric encode R L chunks parts =
     WriteBufAdv_enum MetricTypes 4 metric @ WriteBufAdv_enum DiskAnnEncodeTypes 4 encode @
     WriteBufAdv_pod 8 R @ WriteBufAdv_pod 8 L @ WriteBufAdv_pod 8 chunks @ WriteBufAdv_pod 8 parts"

definition FullText_write :: "string \<Rightarrow> nat \<Rightarrow> byte list" where
  "FullText_write analyzer flag = WriteBufAdv_string analyzer @ WriteBufAdv_pod 1 flag"

definition EMVB_write :: "nat \<Rightarrow> nat \<Rightarrow> byte list" where
  "EMVB_write num bits = WriteBufAdv_pod 4 num @ WriteBufAdv_pod 4 bits"

definition BMP_write :: "nat \<Rightarrow> BMPCompressType \<Rightarrow> byte list" where
  "BMP_write bs compress = WriteBufAdv_pod 8 bs @ WriteBufAdv_enum BMPCompressTypes 1 compress"

fun IndexParams_write :: "IndexParams \<Rightarrow> byte list" where
  "IndexParams_write (IVFParams opt) = IVFOption_write opt"
| "IndexParams_write (HnswParams metric encode build M ef bs lsg) = Hnsw_write metric encode build M ef bs lsg"
| "IndexParams_write (DiskAnnParams metric encode R L chunks parts) = DiskAnn_write metric encode R L chunks parts"
| "IndexParams_write (FullTextParams analyzer flag) = FullText_write analyzer flag"
| "IndexParams_write SecondaryParams = []"
| "IndexParams_write (EMVBParams num bits) = EMVB_write num bits"
| "IndexParams_write (BMPParams bs compress) = BMP_write bs compress"

definition IndexBase_WriteAdv :: "IndexBase \<Rightarrow> byte list" where
  "IndexBase_WriteAdv ib = IndexBase_write ib @ IndexParams_write (index_params ib)"

text \<open>The \<^verbatim>\<open>switch\<close> of \<^verbatim>\<open>IndexBase::ReadAdv\<close>; a number that is no enumerator takes its default branch.\<close>

definition IndexParams_read :: "nat \<Rightarrow> byte list \<Rightarrow> (IndexParams \<times> byte list) res" where
  "IndexParams_read t buf =
     (if length IndexTypes \<le> t then Inl (RecoverableError ''Not implemented'')
      else case IndexTypes ! t of
        kIVF \<Rightarrow> rbind (IVFOption_read buf) (\<lambda>(opt, r). Inr (IVFParams opt, r))
      | kHnsw \<Rightarrow>
          rbind (ReadBufAdv_enum MetricTypes 4 buf) (\<lambda>(metric, b1).
          rbind (ReadBufAdv_enum HnswEncodeTypes 4 b1) (\<lambda>(encode, b2).
          rbind (ReadBufAdv_enum HnswBuildTypes 4 b2) (\<lambda>(build, b3).
          rbind (ReadBufAdv_pod 8 b3) (\<lambda>(M, b4).
          rbind (ReadBufAdv_pod 8 b4) (\<lambda>(ef, b5).
          rbind (ReadBufAdv_pod 8 b5) (\<lambda>(bs, b6).
          rbind (ReadBufAdv_bool b6) (\<lambda>(has_lsg, b7).
            if has_lsg then
              rbind (LSGConfig_ReadAdv b7) (\<lambda>(c, b8). Inr (HnswParams metric encode build M ef bs (Some c), b8))
            else Inr (HnswParams metric encode build M ef bs None, b7))))))))
      | kDiskAnn \<Rightarrow>
          rbind (ReadBufAdv_enum MetricTypes 4 buf) (\<lambda>(metric, b1).
          rbind (ReadBufAdv_enum DiskAnnEncodeTypes 4 b1) (\<lambda>(encode, b2).
          rbind (ReadBufAdv_pod 8 b2) (\<lambda>(R, b3).
          rbind (ReadBufAdv_pod 8 b3) (\<lambda>(L, b4).
          rbind (ReadBufAdv_pod 8 b4) (\<lambda>(chunks, b5).
          rbind (ReadBufAdv_pod 8 b5) (\<lambda>(parts, b6).
            Inr (DiskAnnParams metric encode R L chunks parts, b6)))))))
      | kFullText \<Rightarrow>
          rbind (ReadBufAdv_string buf) (\<lambda>(analyzer, b1).
          rbind (ReadBufAdv_pod 1 b1) (\<lambda>(flag, b2). Inr (FullTextParams analyzer flag, b2)))
      | kSecondary \<Rightarrow> Inr (SecondaryParams, buf)
      | kEMVB \<Rightarrow>
          rbind (ReadBufAdv_pod 4 buf) (\<lambda>(num, b1).
          rbind (ReadBufAdv_pod 4 b1) (\<lambda>(bits, b2). Inr (EMVBParams num bits, b2)))
      | kBMP \<Rightarrow>
          rbind (ReadBufAdv_pod 8 buf) (\<lambda>(bs, b1).
          rbind (ReadBufAdv_enum BMPCompressTypes 1 b1) (\<lambda>(compress, b2). Inr (BMPParams bs compress, b2)))
      | kIndexInvalid \<Rightarrow> Inl (UnrecoverableError ''Error index method while reading''))"

definition IndexBase_ReadAdv :: "int \<Rightarrow> byte list \<Rightarrow> (IndexBase \<times> byte list) res" where
  "IndexBase_ReadAdv maxbytes buf =
     (if maxbytes \<le> 0 then Inl (UnrecoverableError ''ptr goes out of range when reading IndexBase'')
      else
        rbind (ReadBufAdv_pod 4 buf) (\<lambda>(t, b1).
        rbind (ReadBufAdv_string b1) (\<lambda>(name, b2).
        rbind (ReadBufAdv_string b2) (\<lambda>(comment, b3).
        rbind (ReadBufAdv_string b3) (\<lambda>(file, b4).
        rbind (ReadBufAdv_i32 b4) (\<lambda>(n, b5).
        rbind (read_n ReadBufAdv_string (nat n) b5) (\<lambda>(cols, b6).
        rbind (IndexParams_read t b6) (\<lambda>(params, b7).
          if bytes_left maxbytes buf b7 < 0
          then Inl (UnrecoverableError ''ptr goes out of range when reading IndexBase'')
          else Inr (\<lparr>index_name = name, index_comment = comment, file_name = file,
                     column_names = cols, index_params = params\<rparr>, b7)))))))))"

subsection \<open>The round trip\<close>

lemma index_enums_complete:
  "it \<in> set IndexTypes" "mt \<in> set MetricTypes" "he \<in> set HnswEncodeTypes" "hb \<in> set HnswBuildTypes"
  "de \<in> set DiskAnnEncodeTypes" "bc \<in> set BMPCompressTypes" "vs \<in> set IVFStorageTypes"
  by ((cases it; simp add: IndexTypes_def), (cases mt; simp add: MetricTypes_def),
      (cases he; simp add: HnswEncodeTypes_def), (cases hb; simp add: HnswBuildTypes_def),
      (cases de; simp add: DiskAnnEncodeTypes_def), (cases bc; simp add: BMPCompressTypes_def),
      (cases vs; simp add: IVFStorageTypes_def))

lemma read_index_enums:
  "0 < k \<Longrightarrow> ReadBufAdv_enum MetricTypes k (WriteBufAdv_enum MetricTypes k mt @ r) = Inr (mt, r)"
  "0 < k \<Longrightarrow> ReadBufAdv_enum HnswEncodeTypes k (WriteBufAdv_enum HnswEncodeTypes k he @ r) = Inr (he, r)"
  "0 < k \<Longrightarrow> ReadBufAdv_enum HnswBuildTypes k (WriteBufAdv_enum HnswBuildTypes k hb @ r) = Inr (hb, r)"
  "0 < k \<Longrightarrow> ReadBufAdv_enum DiskAnnEncodeTypes k (WriteBufAdv_enum DiskAnnEncodeTypes k de @ r) = Inr (de, r)"
  "0 < k \<Longrightarrow> ReadBufAdv_enum BMPCompressTypes k (WriteBufAdv_enum BMPCompressTypes k bc @ r) = Inr (bc, r)"
  "0 < k \<Longrightarrow> ReadBufAdv_enum IVFStorageTypes k (WriteBufAdv_enum IVFStorageTypes k vs @ r) = Inr (vs, r)"
  by (rule ReadBufAdv_enum_write [OF index_enums_complete(2)] ReadBufAdv_enum_write [OF index_enums_complete(3)]
      ReadBufAdv_enum_write [OF index_enums_complete(4)] ReadBufAdv_enum_write [OF index_enums_complete(5)]
      ReadBufAdv_enum_write [OF index_enums_complete(6)] ReadBufAdv_enum_write [OF index_enums_complete(7)];
      simp add: power_256_ge MetricTypes_def [THEN arg_cong [where f = length]] HnswEncodeTypes_def [THEN arg_cong [where f = length]]
        HnswBuildTypes_def [THEN arg_cong [where f = length]] DiskAnnEncodeTypes_def [THEN arg_cong [where f = length]]
        BMPCompressTypes_def [THEN arg_cong [where f = length]] IVFStorageTypes_def [THEN arg_cong [where f = length]])+

lemma read_float: "ReadBufAdv_float (WriteBufAdv_float f @ r) = Inr (f, r)"
proof -
  have "unat f < 256 ^ 4" using unsigned_less [of f] by simp
  then show ?thesis by (simp add: ReadBufAdv_float_def WriteBufAdv_float_def ReadBufAdv_pod_write)
qed

lemma length_WriteBufAdv_float [simp]: "length (WriteBufAdv_float f) = 4"
  by (simp add: WriteBufAdv_float_def)

interpretation float: codec WriteBufAdv_float ReadBufAdv_float "\<lambda>_. 4" "\<lambda>_. True"
  by unfold_locales (simp_all add: read_float)

interpretation lsg: codec LSGConfig_WriteAdv LSGConfig_ReadAdv "\<lambda>_. 16" "\<lambda>c. ls_k c < 2 ^ 64"
  by unfold_locales
     (simp_all add: LSGConfig_WriteAdv_def LSGConfig_ReadAdv_def read_float codec_reads)

definition u32_ok :: "nat \<Rightarrow> bool" where
  "u32_ok n \<longleftrightarrow> n < 2 ^ 32"

definition u64_ok :: "nat \<Rightarrow> bool" where
  "u64_ok n \<longleftrightarrow> n < 2 ^ 64"

definition IVFOption_ok :: "IndexIVFOption \<Rightarrow> bool" where
  "IVFOption_ok opt \<longleftrightarrow>
     u32_ok (min_points_per_centroid (centroid_option opt)) \<and> u32_ok (max_points_per_centroid (centroid_option opt)) \<and>
     ivf_padding (storage_option opt) < 2 ^ 24 \<and> u32_ok (scalar_quantization_bits (storage_option opt)) \<and>
     u32_ok (product_quantization_subspace_num (storage_option opt)) \<and>
     u32_ok (product_quantization_subspace_bits (storage_option opt))"

interpretation ivf_option: codec IVFOption_write IVFOption_read "\<lambda>_. 36" IVFOption_ok
  by unfold_locales
     (simp_all add: IVFOption_write_def IVFOption_read_def IVFOption_ok_def u32_ok_def read_float codec_reads
        read_index_enums read_enums ReadBufAdv_pod_write)

fun IndexParams_ok :: "IndexParams \<Rightarrow> bool" where
  "IndexParams_ok (IVFParams opt) = IVFOption_ok opt"
| "IndexParams_ok (HnswParams metric encode build M ef bs lsg) =
     (u64_ok M \<and> u64_ok ef \<and> u64_ok bs \<and> (case lsg of None \<Rightarrow> True | Some c \<Rightarrow> ls_k c < 2 ^ 64))"
| "IndexParams_ok (DiskAnnParams metric encode R L chunks parts) = (u64_ok R \<and> u64_ok L \<and> u64_ok chunks \<and> u64_ok parts)"
| "IndexParams_ok (FullTextParams analyzer flag) = (length analyzer < 2 ^ 31 \<and> flag < 2 ^ 8)"
| "IndexParams_ok SecondaryParams = True"
| "IndexParams_ok (EMVBParams num bits) = (u32_ok num \<and> u32_ok bits)"
| "IndexParams_ok (BMPParams bs compress) = u64_ok bs"

lemmas subclass_writes = Hnsw_write_def DiskAnn_write_def FullText_write_def EMVB_write_def BMP_write_def
lemmas subclass_sizes = IVF_size_def Hnsw_size_def DiskAnn_size_def FullText_size_def EMVB_size_def BMP_size_def

lemma IndexParams_read_write:
  "IndexParams_ok p \<Longrightarrow> IndexParams_read (enum_code IndexTypes (index_type p)) (IndexParams_write p @ r) = Inr (p, r)"
  using enum_code_nth [OF index_enums_complete(1), of "index_type p"]
  by (cases p)
     (auto simp: IndexParams_read_def subclass_writes codec_reads read_index_enums ivf_option.read_write lsg.read_write u32_ok_def u64_ok_def
        ReadBufAdv_bool_write ReadBufAdv_pod_write split: option.splits)

lemma length_IndexParams_write:
  "IndexParams_ok p \<Longrightarrow> int (length (IndexParams_write p)) = IndexParams_size p"
  by (cases p) (auto simp: subclass_writes subclass_sizes ivf_option.size_write lsg.size_write codec_sizes LSGConfig_GetSizeInBytes_def split: option.splits)


definition IndexBase_ok :: "IndexBase \<Rightarrow> bool" where
  "IndexBase_ok ib \<longleftrightarrow>
     length (index_name ib) < 2 ^ 31 \<and> length (index_comment ib) < 2 ^ 31 \<and> length (file_name ib) < 2 ^ 31 \<and>
     length (column_names ib) < 2 ^ 31 \<and> list_all (\<lambda>c. length c < 2 ^ 31) (column_names ib) \<and>
     IndexParams_ok (index_params ib)"

lemma length_strings:
  "list_all (\<lambda>c. length c < 2 ^ 31) cs \<Longrightarrow>
     int (length (concat (map WriteBufAdv_string cs))) = sum_list (map (\<lambda>c. 4 + int (length c)) cs)"
  by (induction cs) (simp_all add: codec_sizes)

lemma IndexBase_encoded:
  assumes "IndexBase_ok ib"
  shows "encodes (Inr (IndexBase_WriteAdv ib)) (Inr (IndexBase_GetSizeInBytes ib)) IndexBase_ReadAdv ib"
proof (rule encodesI [OF refl])
  let ?cs = "column_names ib" and ?p = "index_params ib"
  have ok: "length (index_name ib) < 2 ^ 31" "length (index_comment ib) < 2 ^ 31" "length (file_name ib) < 2 ^ 31"
    "length ?cs < 2 ^ 31" "list_all (\<lambda>c. length c < 2 ^ 31) ?cs" "IndexParams_ok ?p"
    using assms by (simp_all add: IndexBase_ok_def)
  have t: "enum_code IndexTypes (index_type ?p) < 256 ^ 4"
    using enum_code_nth [OF index_enums_complete(1), of "index_type ?p"]
    by (simp add: IndexTypes_def [THEN arg_cong [where f = length]])
  have n: "to_i32 (int (length ?cs)) = int (length ?cs)" using ok(4) by (simp add: to_i32_id)
  have cs: "read_n ReadBufAdv_string (length ?cs) (concat (map WriteBufAdv_string ?cs) @ r) = Inr (?cs, r)" for r
    by (rule read_n_concat) (use ok(5) in \<open>simp add: codec_reads list_all_iff\<close>)
  show "Inr (IndexBase_GetSizeInBytes ib) = Inr (to_i32 (int (length (IndexBase_WriteAdv ib))))"
    using length_strings [OF ok(5)] length_IndexParams_write [OF ok(6)] ok
    by (simp add: IndexBase_GetSizeInBytes_def IndexBase_size_def IndexBase_WriteAdv_def IndexBase_write_def codec_sizes
        algebra_simps)
  show "IndexBase_ReadAdv m (IndexBase_WriteAdv ib @ r) = Inr (ib, r)"
    if "int (length (IndexBase_WriteAdv ib)) \<le> m" for m r
    using that ok(1-4) t
    by (simp add: IndexBase_ReadAdv_def IndexBase_WriteAdv_def IndexBase_write_def WriteBufAdv_enum_def ReadBufAdv_pod_write
        codec_reads n cs IndexParams_read_write [OF ok(6)] bytes_left_def)
qed

interpretation index_base: bounded_codec "\<lambda>ib. Inr (IndexBase_WriteAdv ib)" "\<lambda>ib. Inr (IndexBase_GetSizeInBytes ib)"
    IndexBase_ReadAdv IndexBase_ok
  by unfold_locales (rule IndexBase_encoded)

subsection \<open>Property\<close>

text \<open>(C35) Index definitions survive serialization: for each of the seven kinds of index, with any parameters
  in the range of their types, the announced size is the number of bytes written (modulo the width
  of \<^verbatim>\<open>int32_t\<close>) and \<^verbatim>\<open>IndexBase::ReadAdv\<close> gives back the same definition, subclass data included.\<close>

theorem IndexBase_roundtrip:
  assumes "IndexBase_ok ib" and "int (length (IndexBase_WriteAdv ib)) \<le> m"
  shows "IndexBase_ReadAdv m (IndexBase_WriteAdv ib @ r) = Inr (ib, r) \<and>
         IndexBase_GetSizeInBytes ib = to_i32 (int (length (IndexBase_WriteAdv ib)))"
  by (rule encodesE [OF index_base.encoded [OF assms(1)]]) (use assms(2) in simp)

theorem IndexBase_roundtrip_witness:
  "let ib = \<lparr>index_name = ''idx'', index_comment = '''', file_name = ''f'', column_names = [''vec''],
             index_params = HnswParams kMetricL2 kHnswLVQ kBuildLSG 16 200 8192
               (Some \<lparr>sample_raito = 0x3C23D70A, ls_k = 10, alpha = 0x3F800000\<rparr>)\<rparr>
   in IndexBase_ReadAdv 1000 (IndexBase_WriteAdv ib @ [1, 2]) = Inr (ib, [1, 2])"
proof -
  let ?ib = "\<lparr>index_name = ''idx'', index_comment = '''', file_name = ''f'', column_names = [''vec''],
             index_params = HnswParams kMetricL2 kHnswLVQ kBuildLSG 16 200 8192
               (Some \<lparr>sample_raito = 0x3C23D70A, ls_k = 10, alpha = 0x3F800000\<rparr>)\<rparr>"
  have "IndexBase_ok ?ib" by (simp add: IndexBase_ok_def u64_ok_def)
  moreover have "int (length (IndexBase_WriteAdv ?ib)) \<le> 1000"
    by (simp add: IndexBase_WriteAdv_def IndexBase_write_def codec_sizes LSGConfig_WriteAdv_def subclass_writes)
  ultimately show ?thesis using IndexBase_roundtrip by (simp add: Let_def)
qed

end
