(* ===== verification/Index_Make.thy ===== *)
theory Index_Make
  imports Index_Base Number_Text
begin

text \<open>
  The factory functions \<^verbatim>\<open>Make\<close> and the checks \<^verbatim>\<open>ValidateColumnDataType\<close> of the index definitions
  (\<^verbatim>\<open>src/src/storage/definition/index_*.cpp\<close>), and the switch of \<^verbatim>\<open>LogicalPlanner::BuildCreateIndex\<close>
  that calls them; then the choice of the algorithm's instance for the memory index of an HNSW definition
  (\<^verbatim>\<open>abstract_hnsw.cpp\<close>) and of a BMP definition (\<^verbatim>\<open>abstract_bmp.cppm\<close>).  The conversion of a text to a \<^verbatim>\<open>float\<close>, its printing, and the lookup in the
  analyzer pool are arguments of the definitions that use them.
\<close>

subsection \<open>Numbers in texts\<close>

text \<open>Assignment of an \<^verbatim>\<open>int\<close> to a \<^verbatim>\<open>SizeT\<close>.\<close>

definition size_t :: "int \<Rightarrow> nat" where
  "size_t v = nat (v mod 2 ^ 64)"

text \<open>\<^verbatim>\<open>DataType::StringToValue<BigIntT>\<close>: \<^verbatim>\<open>std::from_chars\<close> takes a minus sign and digits only, and
  leaves the value, which is zero, unchanged when the number is out of range.  Only the end of the
  parsed text is checked.\<close>

definition StringToBigInt :: "string \<Rightarrow> int res" where
  "StringToBigInt str =
     (if str = [] then Inr 0
      else let neg = (hd str = CHR ''-'');
               ds = (if neg then tl str else str);
               v = signed neg (digits_value ds)
           in if ds = [] \<or> \<not> list_all is_digit ds then Inl (ParserError ''parse big integer'')
              else if - (2 ^ 63) \<le> v \<and> v < 2 ^ 63 then Inr v else Inr 0)"


subsection \<open>Names of enumerators\<close>

definition MetricTypeToString :: "MetricType \<Rightarrow> string" where
  "MetricTypeToString t =
     (case t of kMetricCosine \<Rightarrow> ''cosine'' | kMetricInnerProduct \<Rightarrow> ''ip'' | kMetricL2 \<Rightarrow> ''l2''
      | kMetricInvalid \<Rightarrow> ''Invalid'')"

definition StringToMetricType :: "string \<Rightarrow> MetricType" where
  "StringToMetricType str =
     (if str = ''cos'' \<or> str = ''cosine'' then kMetricCosine
      else if str = ''ip'' then kMetricInnerProduct
      else if str = ''l2'' then kMetricL2
      else kMetricInvalid)"

definition StringToHnswEncodeType :: "string \<Rightarrow> HnswEncodeType" where
  "StringToHnswEncodeType str =
     (if str = ''plain'' then kHnswPlain else if str = ''lvq'' then kHnswLVQ else kHnswEncodeInvalid)"

definition HnswEncodeTypeToString :: "HnswEncodeType \<Rightarrow> string" where
  "HnswEncodeTypeToString t =
     (case t of kHnswPlain \<Rightarrow> ''plain'' | kHnswLVQ \<Rightarrow> ''lvq'' | kHnswEncodeInvalid \<Rightarrow> ''invalid'')"

definition HnswBuildTypeToString :: "HnswBuildType \<Rightarrow> string" where
  "HnswBuildTypeToString t =
     (case t of kBuildPlain \<Rightarrow> ''plain'' | kBuildLSG \<Rightarrow> ''lsg'' | kBuildInvalid \<Rightarrow> ''invalid'')"

definition StringToHnswBuildType :: "string \<Rightarrow> HnswBuildType" where
  "StringToHnswBuildType str =
     (if str = ''plain'' then kBuildPlain else if str = ''lsg'' then kBuildLSG else kBuildInvalid)"

definition DiskAnnEncodeTypeToString :: "DiskAnnEncodeType \<Rightarrow> string" where
  "DiskAnnEncodeTypeToString t = (case t of kDiskAnnPlain \<Rightarrow> ''plain'' | kDiskAnnEncodeInvalid \<Rightarrow> ''invalid'')"

definition StringToDiskAnnEncodeType :: "string \<Rightarrow> DiskAnnEncodeType" where
  "StringToDiskAnnEncodeType str = (if str = ''plain'' then kDiskAnnPlain else kDiskAnnEncodeInvalid)"

definition BMPCompressTypeFromString :: "string \<Rightarrow> BMPCompressType" where
  "BMPCompressTypeFromString str =
     (if str = ''raww'' then kRaw else if str = ''compress'' then kCompressed else kCompressInvalid)"

definition BMPCompressTypeToString :: "BMPCompressType \<Rightarrow> string" where
  "BMPCompressTypeToString t =
     (case t of kRaw \<Rightarrow> ''raw'' | kCompressed \<Rightarrow> ''compress'' | kCompressInvalid \<Rightarrow> ''Invalid'')"

definition IndexTypeToString :: "IndexType \<Rightarrow> string res" where
  "IndexTypeToString t =
     (case t of
        kIVF \<Rightarrow> Inr ''IVF'' | kHnsw \<Rightarrow> Inr ''HNSW'' | kFullText \<Rightarrow> Inr ''FULLTEXT''
      | kSecondary \<Rightarrow> Inr ''SECONDARY'' | kEMVB \<Rightarrow> Inr ''EMVB'' | kBMP \<Rightarrow> Inr ''BMP''
      | kDiskAnn \<Rightarrow> Inr ''DISKANN'' | kIndexInvalid \<Rightarrow> Inl (ParserError ''Invalid conflict type.''))"

definition StringToIndexType :: "string \<Rightarrow> IndexType" where
  "StringToIndexType str =
     (if str = ''IVF'' then kIVF else if str = ''HNSW'' then kHnsw
      else if str = ''FULLTEXT'' then kFullText else if str = ''SECONDARY'' then kSecondary
      else if str = ''EMVB'' then kEMVB else if str = ''BMP'' then kBMP
      else if str = ''DISKANN'' then kDiskAnn else kIndexInvalid)"


subsection \<open>HNSW\<close>

definition LSGConfig_default :: LSGConfig where
  "LSGConfig_default = \<lparr>sample_raito = 0x3C23D70A, ls_k = 10, alpha = 0x3F800000\<rparr>"

definition LSG_set :: "(string \<Rightarrow> 32 word res) \<Rightarrow> string \<Rightarrow> LSGConfig \<Rightarrow> LSGConfig res" where
  "LSG_set stof kv c =
     (if CHR ''='' \<notin> set kv then Inl (RecoverableError kv)
      else let key = takeWhile (\<lambda>x. x \<noteq> CHR ''='') kv; val = tl (dropWhile (\<lambda>x. x \<noteq> CHR ''='') kv)
           in if key = ''sample_raito'' then rbind (stof val) (\<lambda>f. Inr (c\<lparr>sample_raito := f\<rparr>))
              else if key = ''ls_k'' then rbind (stoi val) (\<lambda>k. Inr (c\<lparr>ls_k := size_t k\<rparr>))
              else if key = ''alpha'' then rbind (stof val) (\<lambda>f. Inr (c\<lparr>alpha := f\<rparr>))
              else Inl (RecoverableError key))"

function LSG_loop :: "(string \<Rightarrow> 32 word res) \<Rightarrow> string \<Rightarrow> LSGConfig \<Rightarrow> LSGConfig res" where
  "LSG_loop stof sv c =
     rbind (LSG_set stof (takeWhile (\<lambda>x. x \<noteq> CHR '','') sv) c) (\<lambda>c'.
       case dropWhile (\<lambda>x. x \<noteq> CHR '','') sv of [] \<Rightarrow> Inr c' | _ # sv' \<Rightarrow> LSG_loop stof sv' c')"
  by auto
termination
proof (relation "measure (\<lambda>(stof, sv, c). length sv)")
  fix sv :: string and x and sv' :: string
  assume "dropWhile (\<lambda>x. x \<noteq> CHR '','') sv = x # sv'"
  then have "length (x # sv') \<le> length sv" by (metis length_dropWhile_le)
  then show "((stof :: string \<Rightarrow> 32 word res, sv', c' :: LSGConfig), stof, sv, c :: LSGConfig)
      \<in> measure (\<lambda>(stof, sv, c). length sv)" for stof c' c by simp
qed simp

definition LSGConfig_FromString :: "(string \<Rightarrow> 32 word res) \<Rightarrow> string \<Rightarrow> LSGConfig res" where
  "LSGConfig_FromString stof str = LSG_loop stof str LSGConfig_default"

definition LSGConfig_ToString :: "(32 word \<Rightarrow> string) \<Rightarrow> LSGConfig \<Rightarrow> string" where
  "LSGConfig_ToString show_float c =
     ''sample_raito = '' @ show_float (sample_raito c) @ '', ls_k = '' @ show_nat (ls_k c) @
     '', alpha = '' @ show_float (alpha c)"

record HnswArgs =
  arg_M :: nat
  arg_ef_construction :: nat
  arg_block_size :: nat
  arg_metric_type :: MetricType
  arg_encode_type :: HnswEncodeType
  arg_build_type :: HnswBuildType
  arg_lsg_config :: "LSGConfig option"

definition Hnsw_defaults :: HnswArgs where
  "Hnsw_defaults =
     \<lparr>arg_M = 16, arg_ef_construction = 200, arg_block_size = 8192, arg_metric_type = kMetricInvalid,
      arg_encode_type = kHnswPlain, arg_build_type = kBuildPlain, arg_lsg_config = None\<rparr>"

definition Hnsw_arg :: "(string \<Rightarrow> 32 word res) \<Rightarrow> InitParameter \<Rightarrow> HnswArgs \<Rightarrow> HnswArgs res" where
  "Hnsw_arg stof param a =
     (let name = param_name param; val = param_value param
      in if name = ''m'' then rbind (stoi val) (\<lambda>v. Inr (a\<lparr>arg_M := size_t v\<rparr>))
         else if name = ''ef_construction'' then rbind (stoi val) (\<lambda>v. Inr (a\<lparr>arg_ef_construction := size_t v\<rparr>))
         else if name = ''metric'' then Inr (a\<lparr>arg_metric_type := StringToMetricType val\<rparr>)
         else if name = ''encode'' then Inr (a\<lparr>arg_encode_type := StringToHnswEncodeType val\<rparr>)
         else if name = ''build_type'' then Inr (a\<lparr>arg_build_type := StringToHnswBuildType val\<rparr>)
         else if name = ''block_size'' then rbind (stoi val) (\<lambda>v. Inr (a\<lparr>arg_block_size := size_t v\<rparr>))
         else if name = ''lsg_config'' then
           rbind (LSGConfig_FromString stof val) (\<lambda>c. Inr (a\<lparr>arg_lsg_config := Some c\<rparr>))
         else Inl (RecoverableError name))"

definition Hnsw_Make :: "(string \<Rightarrow> 32 word res) \<Rightarrow> InitParameter list \<Rightarrow> IndexParams res" where
  "Hnsw_Make stof params =
     rbind (rfold (Hnsw_arg stof) params Hnsw_defaults) (\<lambda>a.
       let lsg1 = (if arg_build_type a \<noteq> kBuildLSG \<and> arg_lsg_config a \<noteq> None then None else arg_lsg_config a);
           lsg2 = (if arg_build_type a = kBuildLSG \<and> lsg1 = None then Some LSGConfig_default else lsg1)
       in if arg_metric_type a = kMetricInvalid then Inl (RecoverableError ''Metric type'')
          else if arg_encode_type a = kHnswEncodeInvalid then Inl (RecoverableError ''Encode type'')
          else Inr (HnswParams (arg_metric_type a) (arg_encode_type a) (arg_build_type a) (arg_M a)
                      (arg_ef_construction a) (arg_block_size a) lsg2))"

subsection \<open>DiskANN, EMVB, BMP and full text\<close>










subsection \<open>IVF\<close>












subsection \<open>Checks against the column type\<close>

definition column_lookup :: "string list \<Rightarrow> DataType list \<Rightarrow> string \<Rightarrow> DataType res" where
  "column_lookup names types name =
     (let id = length (takeWhile (\<lambda>n. n \<noteq> name) names)
      in if id = length names then Inl (RecoverableError ''ColumnNotExist'')
         else if id < length types then Inr (types ! id)
         else Inl (UndefinedBehaviour ''column_types_vector''))"

definition embedding_info :: "DataType \<Rightarrow> (EmbeddingDataType \<times> nat) res" where
  "embedding_info d = (case dt_info d of Some (EmbeddingInfo et n) \<Rightarrow> Inr (et, n) | _ \<Rightarrow> Inl null_deref)"

definition invalid_index :: error where
  "invalid_index = RecoverableError ''InvalidIndexDefinition''"

definition floating :: "EmbeddingDataType \<Rightarrow> bool" where
  "floating et \<longleftrightarrow> et \<in> {kElemFloat, kElemDouble, kElemFloat16, kElemBFloat16}"

definition check_plain_storage :: "EmbeddingDataType \<Rightarrow> IndexIVFStorageOption \<Rightarrow> IndexIVFStorageOption res" where
  "check_plain_storage et so =
     (let p = plain_storage_data_type so
      in if p = kElemInt8 \<or> p = kElemUInt8 then (if p \<noteq> et then Inl invalid_index else Inr so)
         else if p = kElemFloat \<or> p = kElemFloat16 \<or> p = kElemBFloat16
         then (if floating et then Inr so else Inl invalid_index)
         else if p = kElemInvalid then
           (if et = kElemUInt8 \<or> et = kElemInt8 then Inr (so\<lparr>plain_storage_data_type := et\<rparr>)
            else if floating et then Inr (so\<lparr>plain_storage_data_type := kElemFloat\<rparr>)
            else Inl invalid_index)
         else Inl invalid_index)"

definition check_quantization ::
    "EmbeddingDataType \<Rightarrow> nat \<Rightarrow> IndexIVFStorageOption \<Rightarrow> IndexIVFStorageOption res" where
  "check_quantization et dim so =
     (if \<not> floating et then Inl invalid_index
      else if ivf_storage_type so = kScalarQuantization then
        (if scalar_quantization_bits so \<noteq> 4 \<and> scalar_quantization_bits so \<noteq> 8 then Inl invalid_index
         else Inr so)
      else if product_quantization_subspace_num so \<ge> dim \<or> product_quantization_subspace_num so \<le> 0 \<or>
              dim mod product_quantization_subspace_num so \<noteq> 0 then Inl invalid_index
      else if product_quantization_subspace_bits so < 4 \<or> product_quantization_subspace_bits so > 16
      then Inl invalid_index
      else Inr so)"

definition CheckIndexIVFStorageOption :: "DataType \<Rightarrow> IndexIVFStorageOption \<Rightarrow> IndexIVFStorageOption res" where
  "CheckIndexIVFStorageOption d so =
     rbind (embedding_info d) (\<lambda>(et, dim).
       if ivf_storage_type so = kIVFPlain then check_plain_storage et so else check_quantization et dim so)"

text \<open>\<open>f < 0.0f\<close> on the bit pattern: the sign is set, and the value is neither zero nor a NaN.\<close>

definition float_negative :: "32 word \<Rightarrow> bool" where
  "float_negative f \<longleftrightarrow> 0x80000000 < f \<and> f \<le> 0xFF800000"

definition CheckIndexIVFCentroidOption :: "IndexIVFCentroidOption \<Rightarrow> unit res" where
  "CheckIndexIVFCentroidOption co =
     (if float_negative (centroids_num_ratio co) then Inl invalid_index
      else if min_points_per_centroid co > max_points_per_centroid co then Inl invalid_index
      else Inr ())"

definition IVF_Validate :: "string list \<Rightarrow> DataType list \<Rightarrow> string \<Rightarrow> IndexIVFOption \<Rightarrow> IndexIVFOption res" where
  "IVF_Validate names types name opt =
     rbind (column_lookup names types name) (\<lambda>d.
       if dt_type d \<noteq> kEmbedding \<and> dt_type d \<noteq> kMultiVector then Inl invalid_index
       else if ivf_metric opt = kMetricInvalid then Inl invalid_index
       else rbind (CheckIndexIVFCentroidOption (centroid_option opt)) (\<lambda>_.
            rbind (CheckIndexIVFStorageOption d (storage_option opt)) (\<lambda>so.
              Inr (opt\<lparr>storage_option := so\<rparr>))))"








subsection \<open>Creating an index\<close>


subsection \<open>Memory indexes for an HNSW or BMP definition\<close>








subsection \<open>What an accepted index satisfies\<close>































text \<open>A checked storage option passes the check again, unchanged.\<close>

lemma CheckIndexIVFStorageOption_again:
  assumes "CheckIndexIVFStorageOption d so = Inr so'"
  shows "CheckIndexIVFStorageOption d so' = Inr so'"
proof -
  obtain et dim where e: "embedding_info d = Inr (et, dim)"
    "(if ivf_storage_type so = kIVFPlain then check_plain_storage et so else check_quantization et dim so) = Inr so'"
    using assms by (auto simp: CheckIndexIVFStorageOption_def res_simps)
  show ?thesis
  proof (cases "ivf_storage_type so = kIVFPlain")
    case True
    with e show ?thesis
      by (auto simp: CheckIndexIVFStorageOption_def check_plain_storage_def Let_def split: if_splits)
  next
    case False
    then have "so' = so" using e(2) by (auto simp: check_quantization_def split: if_splits)
    with assms show ?thesis by simp
  qed
qed


subsection \<open>Properties\<close>



text \<open>Validating an IVF index a second time, as happens when a stored definition is created again,
  succeeds and changes nothing.\<close>

lemma IVF_Validate_again:
  assumes "IVF_Validate names types name opt = Inr opt'"
  shows "IVF_Validate names types name opt' = Inr opt'"
  using assms CheckIndexIVFStorageOption_again by (auto simp: IVF_Validate_def res_simps split: if_splits)

lemma IVF_Validate_again_example:
  "\<exists>opt opt'. IVF_Validate [''v''] [DataType kEmbedding (Some (EmbeddingInfo kElemDouble 8))] ''v'' opt = Inr opt' \<and>
     opt' \<noteq> opt \<and>
     IVF_Validate [''v''] [DataType kEmbedding (Some (EmbeddingInfo kElemDouble 8))] ''v'' opt' = Inr opt'"
proof -
  let ?so = "\<lparr>ivf_storage_type = kIVFPlain, plain_storage_data_type = kElemInvalid, ivf_padding = 0,
    scalar_quantization_bits = 0, product_quantization_subspace_num = 0, product_quantization_subspace_bits = 0\<rparr>"
  let ?opt = "\<lparr>ivf_metric = kMetricL2, centroid_option = \<lparr>centroids_num_ratio = 0x3F800000,
    min_points_per_centroid = 32, max_points_per_centroid = 256\<rparr>, storage_option = ?so\<rparr>"
  have "IVF_Validate [''v''] [DataType kEmbedding (Some (EmbeddingInfo kElemDouble 8))] ''v'' ?opt =
      Inr (?opt\<lparr>storage_option := ?so\<lparr>plain_storage_data_type := kElemFloat\<rparr>\<rparr>)"
    by (simp add: IVF_Validate_def column_lookup_def CheckIndexIVFCentroidOption_def float_negative_def
        CheckIndexIVFStorageOption_def embedding_info_def check_plain_storage_def floating_def)
  from this IVF_Validate_again [OF this] show ?thesis
    by (intro exI [of _ ?opt] exI [of _ "?opt\<lparr>storage_option := ?so\<lparr>plain_storage_data_type := kElemFloat\<rparr>\<rparr>"]) simp
qed

text \<open>The text form of an LSG configuration is not understood by its own parser: \<^verbatim>\<open>ToString\<close> puts
  blanks around the equals sign, \<^verbatim>\<open>FromString\<close> takes the key with its blank and rejects it, whatever
  the configuration and however floats are printed and read.\<close>

lemma LSGConfig_text_rejected:
  "LSGConfig_FromString stof (LSGConfig_ToString show_float c) = Inl (RecoverableError ''sample_raito '')"
  by (simp add: LSGConfig_FromString_def LSGConfig_ToString_def LSG_set_def Let_def)

text \<open>The names of metrics, encodings, build types and index kinds are read back as what they were
  printed for; of the compression types of BMP, the raw one is not.\<close>

lemma index_names_roundtrip:
  "StringToMetricType (MetricTypeToString m) = m \<and>
   StringToHnswEncodeType (HnswEncodeTypeToString e) = e \<and>
   StringToHnswBuildType (HnswBuildTypeToString b) = b \<and>
   StringToDiskAnnEncodeType (DiskAnnEncodeTypeToString de) = de \<and>
   (case IndexTypeToString t of Inl _ \<Rightarrow> t = kIndexInvalid | Inr s \<Rightarrow> StringToIndexType s = t) \<and>
   (BMPCompressTypeFromString (BMPCompressTypeToString c) = c) = (c \<noteq> kRaw)"
proof (intro conjI)
  show "StringToMetricType (MetricTypeToString m) = m"
    by (cases m) (simp_all add: StringToMetricType_def MetricTypeToString_def)
  show "StringToHnswEncodeType (HnswEncodeTypeToString e) = e"
    by (cases e) (simp_all add: StringToHnswEncodeType_def HnswEncodeTypeToString_def)
  show "StringToHnswBuildType (HnswBuildTypeToString b) = b"
    by (cases b) (simp_all add: StringToHnswBuildType_def HnswBuildTypeToString_def)
  show "StringToDiskAnnEncodeType (DiskAnnEncodeTypeToString de) = de"
    by (cases de) (simp_all add: StringToDiskAnnEncodeType_def DiskAnnEncodeTypeToString_def)
  show "case IndexTypeToString t of Inl _ \<Rightarrow> t = kIndexInvalid | Inr s \<Rightarrow> StringToIndexType s = t"
    by (cases t) (simp_all add: StringToIndexType_def IndexTypeToString_def)
  show "(BMPCompressTypeFromString (BMPCompressTypeToString c) = c) = (c \<noteq> kRaw)"
    by (cases c) (simp_all add: BMPCompressTypeFromString_def BMPCompressTypeToString_def)
qed

text \<open>A build type that does not exist is accepted: unlike the metric and the encoding, \<^verbatim>\<open>IndexHnsw::Make\<close>
  does not refuse the invalid value, and the memory index of such a definition is a null pointer.\<close>

lemma Hnsw_Make_accepts_unknown_build_type:
  "Hnsw_Make stof [\<lparr>param_name = ''metric'', param_value = ''l2''\<rparr>,
                   \<lparr>param_name = ''build_type'', param_value = ''fast''\<rparr>] =
     Inr (HnswParams kMetricL2 kHnswPlain kBuildInvalid 16 200 8192 None)"
  by (simp add: Hnsw_Make_def Hnsw_arg_def Hnsw_defaults_def StringToMetricType_def StringToHnswBuildType_def)

text \<open>An integer parameter that does not fit 64 bits is silently read as zero, while one that is not
  a number is refused.\<close>

lemma StringToBigInt_overflow_is_zero:
  "StringToBigInt ''99999999999999999999'' = Inr 0 \<and>
   StringToBigInt ''12'' = Inr 12 \<and> (\<exists>e. StringToBigInt ''12x'' = Inl e)"
  by (simp add: StringToBigInt_def digits_value_def signed_def is_digit_def)

end
