(* ===== verification/Virtual_Store.thy ===== *)
theory Virtual_Store
  imports Persistence_Manager
begin

text \<open>
  The operations of the local file system that the log uses
  (\<^verbatim>\<open>src/src/storage/io/virtual_store.cpp\<close>), on a disk that maps paths to the bytes of files.  Every
  operation but \<^verbatim>\<open>Exists\<close> refuses a relative path.  Failures of the operating system other than a missing file are
  not modelled.
\<close>

definition is_absolute :: "string \<Rightarrow> bool" where
  "is_absolute path \<longleftrightarrow> starts_with path ''/''"

definition need_absolute :: "string \<Rightarrow> 'a res \<Rightarrow> 'a res" where
  "need_absolute path k = (if \<not> is_absolute path then Inl (UnrecoverableError ''path is not absolute'') else k)"

definition vs_Exists :: "string \<Rightarrow> disk \<Rightarrow> bool" where
  "vs_Exists path d \<longleftrightarrow> d path \<noteq> None"

text \<open>Deleting a missing file is reported in the returned status, which the callers ignore.\<close>

definition vs_DeleteFile :: "string \<Rightarrow> disk \<Rightarrow> disk res" where
  "vs_DeleteFile path d = need_absolute path (Inr (d(path := None)))"

definition vs_Rename :: "string \<Rightarrow> string \<Rightarrow> disk \<Rightarrow> disk res" where
  "vs_Rename old_path new_path d =
     need_absolute old_path (need_absolute new_path
       (case d old_path of
          None \<Rightarrow> Inl (UnrecoverableError ''cannot rename file'')
        | Some b \<Rightarrow> Inr ((d(old_path := None))(new_path := Some b))))"

definition vs_Truncate :: "string \<Rightarrow> nat \<Rightarrow> disk \<Rightarrow> disk res" where
  "vs_Truncate path new_length d =
     need_absolute path
       (let b = (case d path of None \<Rightarrow> [] | Some b \<Rightarrow> b)
        in Inr (d(path := Some (take new_length b @ replicate (new_length - length b) 0))))"

definition vs_Merge :: "string \<Rightarrow> string \<Rightarrow> disk \<Rightarrow> disk res" where
  "vs_Merge dst_path src_path d =
     need_absolute dst_path (need_absolute src_path
       (case d src_path of
          None \<Rightarrow> Inl (UnrecoverableError ''Failed to open source file'')
        | Some b \<Rightarrow> Inr (d(dst_path := Some ((case d dst_path of None \<Rightarrow> [] | Some a \<Rightarrow> a) @ b)))))"

definition vs_GetFileSize :: "string \<Rightarrow> disk \<Rightarrow> nat res" where
  "vs_GetFileSize path d =
     need_absolute path
       (case d path of None \<Rightarrow> Inl (StdException ''filesystem_error'') | Some b \<Rightarrow> Inr (length b))"

lemmas vs_defs = need_absolute_def vs_Exists_def vs_DeleteFile_def vs_Rename_def vs_Truncate_def vs_Merge_def vs_GetFileSize_def

lemma vs_Rename_keeps:
  "vs_Rename old_path new_path d = Inr d' \<Longrightarrow> p \<noteq> old_path \<Longrightarrow> p \<noteq> new_path \<Longrightarrow> d' p = d p"
  by (auto simp: vs_defs split: if_splits option.splits)

lemma vs_Truncate_shorter:
  "is_absolute path \<Longrightarrow> d path = Some b \<Longrightarrow> n \<le> length b \<Longrightarrow> vs_Truncate path n d = Inr (d(path := Some (take n b)))"
  by (simp add: vs_defs)

end
