(* ===== verification/Addr_Serializer.thy ===== *)
theory Addr_Serializer
  imports Virtual_Store
begin

text \<open>
  \<^verbatim>\<open>AddrSerializer\<close> of \<^verbatim>\<open>src/src/storage/persistence/persistence_manager.cpp\<close>: the addresses and object
  statistics of the files a log record refers to.  It is filled from the manager before the record
  is written, and the manager of a recovering node gets it back.  The three vectors always have the
  same length, so the loops over an index are loops over the zipped lists.
\<close>

subsection \<open>Binary form of addresses\<close>

definition ObjAddr_GetSizeInBytes :: "ObjAddr \<Rightarrow> nat" where
  "ObjAddr_GetSizeInBytes a = 4 + length (obj_key a) + 8 + 8"

definition ObjAddr_WriteBufAdv :: "ObjAddr \<Rightarrow> byte list" where
  "ObjAddr_WriteBufAdv a =
     WriteBufAdv_string (obj_key a) @ WriteBufAdv_pod 8 (part_offset a) @ WriteBufAdv_pod 8 (part_size a)"

definition ObjAddr_ReadBufAdv :: "byte list \<Rightarrow> (ObjAddr \<times> byte list) res" where
  "ObjAddr_ReadBufAdv buf =
     rbind (ReadBufAdv_string buf) (\<lambda>(key, b1).
     rbind (ReadBufAdv_pod 8 b1) (\<lambda>(off, b2).
     rbind (ReadBufAdv_pod 8 b2) (\<lambda>(size, b3).
       Inr (\<lparr>obj_key = key, part_offset = off, part_size = size\<rparr>, b3))))"

subsection \<open>The serializer\<close>

record AddrSerializer =
  as_paths :: "string list"
  as_obj_addrs :: "ObjAddr list"
  as_obj_stats :: "ObjStat list"

definition AddrSerializer_empty :: AddrSerializer where
  "AddrSerializer_empty = \<lparr>as_paths = [], as_obj_addrs = [], as_obj_stats = []\<rparr>"

definition as_entries :: "AddrSerializer \<Rightarrow> (string \<times> ObjAddr \<times> ObjStat) list" where
  "as_entries s = zip (as_paths s) (zip (as_obj_addrs s) (as_obj_stats s))"

definition as_push :: "AddrSerializer \<Rightarrow> string \<Rightarrow> ObjAddr \<Rightarrow> ObjStat \<Rightarrow> AddrSerializer" where
  "as_push s path a st =
     \<lparr>as_paths = as_paths s @ [path], as_obj_addrs = as_obj_addrs s @ [a], as_obj_stats = as_obj_stats s @ [st]\<rparr>"

text \<open>No manager is \<open>None\<close>.\<close>

definition Initialize :: "PersistenceManager option \<Rightarrow> string list \<Rightarrow> AddrSerializer \<Rightarrow> AddrSerializer res" where
  "Initialize pm paths s =
     (case pm of
        None \<Rightarrow> Inr s
      | Some pm \<Rightarrow>
          if as_paths s \<noteq> [] then Inl (UnrecoverableError ''AddrSerializer has been initialized'')
          else rfold (\<lambda>path s.
                 rbind (GetObjCacheWithoutCnt path pm) (\<lambda>a.
                   Inr (as_push s path a
                     (if \<not> ObjAddr_Valid a then ObjStat_default else GetObjStatByObjAddr a pm)))) paths s)"

definition InitializeValid :: "PersistenceManager option \<Rightarrow> AddrSerializer \<Rightarrow> AddrSerializer res" where
  "InitializeValid pm s =
     (case pm of
        None \<Rightarrow> Inr s
      | Some pm \<Rightarrow>
          rfold (\<lambda>(path, a, st) s.
            if ObjAddr_Valid a then Inr (as_push s path a st)
            else rbind (GetObjCacheWithoutCnt path pm) (\<lambda>a'.
              if \<not> ObjAddr_Valid a' then Inl (UnrecoverableError ''Invalid object address for path'')
              else Inr (as_push s path a' (GetObjStatByObjAddr a' pm)))) (as_entries s) AddrSerializer_empty)"

definition AddrSerializer_GetSizeInBytes :: "AddrSerializer \<Rightarrow> nat" where
  "AddrSerializer_GetSizeInBytes s =
     8 + sum_list (map (\<lambda>(path, a, st).
           4 + length path + ObjAddr_GetSizeInBytes a + ObjStat_GetSizeInBytes st) (as_entries s))"

definition AddrSerializer_write_entry :: "string \<times> ObjAddr \<times> ObjStat \<Rightarrow> byte list res" where
  "AddrSerializer_write_entry = (\<lambda>(path, a, st).
     if \<not> ObjAddr_Valid a then Inl (UnrecoverableError ''Invalid object address for path'')
     else Inr (WriteBufAdv_string path @ ObjAddr_WriteBufAdv a @ ObjStat_WriteBufAdv st))"

definition AddrSerializer_WriteBufAdv :: "AddrSerializer \<Rightarrow> byte list res" where
  "AddrSerializer_WriteBufAdv s =
     wseq (Inr (WriteBufAdv_pod 8 (length (as_paths s))) # map AddrSerializer_write_entry (as_entries s))"

definition AddrSerializer_read_entry :: "byte list \<Rightarrow> ((string \<times> ObjAddr \<times> ObjStat) \<times> byte list) res" where
  "AddrSerializer_read_entry buf =
     rbind (ReadBufAdv_string buf) (\<lambda>(path, b1).
     rbind (ObjAddr_ReadBufAdv b1) (\<lambda>(a, b2).
     rbind (ObjStat_ReadBufAdv b2) (\<lambda>(st, b3). Inr ((path, a, st), b3))))"

definition AddrSerializer_ReadBufAdv :: "byte list \<Rightarrow> (AddrSerializer \<times> byte list) res" where
  "AddrSerializer_ReadBufAdv buf =
     rbind (ReadBufAdv_pod 8 buf) (\<lambda>(n, b1).
     rbind (read_n AddrSerializer_read_entry n b1) (\<lambda>(es, b2).
       Inr (\<lparr>as_paths = map fst es, as_obj_addrs = map (fst \<circ> snd) es, as_obj_stats = map (snd \<circ> snd) es\<rparr>, b2)))"

definition AddTo_entry :: "string \<times> ObjAddr \<times> ObjStat \<Rightarrow> PersistenceManager \<Rightarrow> PersistenceManager res" where
  "AddTo_entry = (\<lambda>(path, a, st) pm.
     if \<not> ObjAddr_Valid a then Inl (UnrecoverableError ''Invalid object address for path'')
     else rbind (SaveLocalPath path a pm) (\<lambda>pm'. Inr (SaveObjStat a st pm')))"

definition AddToPersistenceManager :: "AddrSerializer \<Rightarrow> PersistenceManager option \<Rightarrow> PersistenceManager option res" where
  "AddToPersistenceManager s pm =
     (case pm of
        None \<Rightarrow> Inr None
      | Some pm \<Rightarrow>
          rbind (rfold AddTo_entry (as_entries s) pm) (\<lambda>pm'. Inr (Some pm')))"

subsection \<open>What is read back\<close>

text \<open>Reference counts and the cache state are not stored.\<close>

definition entry_stored :: "string \<times> ObjAddr \<times> ObjStat \<Rightarrow> string \<times> ObjAddr \<times> ObjStat" where
  "entry_stored = (\<lambda>(path, a, st). (path, a, st\<lparr>ref_count := 0, cached := kCached\<rparr>))"

definition AddrSerializer_stored :: "AddrSerializer \<Rightarrow> AddrSerializer" where
  "AddrSerializer_stored s = s\<lparr>as_obj_stats := map (\<lambda>st. st\<lparr>ref_count := 0, cached := kCached\<rparr>) (as_obj_stats s)\<rparr>"

definition as_wf :: "AddrSerializer \<Rightarrow> bool" where
  "as_wf s \<longleftrightarrow> length (as_obj_addrs s) = length (as_paths s) \<and> length (as_obj_stats s) = length (as_paths s)"

definition addr_fits :: "ObjAddr \<Rightarrow> bool" where
  "addr_fits a \<longleftrightarrow> length (obj_key a) < 2 ^ 31 \<and> part_offset a < 2 ^ 64 \<and> part_size a < 2 ^ 64"

definition entry_ok :: "string \<times> ObjAddr \<times> ObjStat \<Rightarrow> bool" where
  "entry_ok = (\<lambda>(path, a, st). length path < 2 ^ 31 \<and> ObjAddr_Valid a \<and> addr_fits a \<and> ObjStat_fits st)"

definition AddrSerializer_ok :: "AddrSerializer \<Rightarrow> bool" where
  "AddrSerializer_ok s \<longleftrightarrow> as_wf s \<and> length (as_paths s) < 2 ^ 64 \<and> list_all entry_ok (as_entries s)"

interpretation obj_addr: codec ObjAddr_WriteBufAdv ObjAddr_ReadBufAdv ObjAddr_GetSizeInBytes addr_fits
  by unfold_locales
     (simp_all add: ObjAddr_WriteBufAdv_def ObjAddr_ReadBufAdv_def ObjAddr_GetSizeInBytes_def addr_fits_def codec_reads codec_sizes)

lemma entry_written:
  assumes "entry_ok e"
  obtains b where "AddrSerializer_write_entry e = Inr b" "\<forall>r. AddrSerializer_read_entry (b @ r) = Inr (entry_stored e, r)"
    "length b = (case e of (path, a, st) \<Rightarrow> 4 + length path + ObjAddr_GetSizeInBytes a + ObjStat_GetSizeInBytes st)"
proof -
  obtain path a st where e: "e = (path, a, st)" by (cases e)
  show thesis
    by (rule that [of "WriteBufAdv_string path @ ObjAddr_WriteBufAdv a @ ObjStat_WriteBufAdv st"])
       (use assms in \<open>simp_all add: e entry_ok_def AddrSerializer_write_entry_def AddrSerializer_read_entry_def entry_stored_def
          codec_reads codec_sizes obj_addr.read_write obj_addr.size_write ObjStat_read_write length_ObjStat_WriteBufAdv\<close>)
qed

lemma entries_written:
  "list_all entry_ok es \<Longrightarrow>
     \<exists>b. wseq (map AddrSerializer_write_entry es) = Inr b \<and>
         length b = sum_list (map (\<lambda>(path, a, st). 4 + length path + ObjAddr_GetSizeInBytes a + ObjStat_GetSizeInBytes st) es) \<and>
         (\<forall>r. read_n AddrSerializer_read_entry (length es) (b @ r) = Inr (map entry_stored es, r))"
proof (induction es)
  case (Cons e es)
  then have e: "entry_ok e" by simp
  obtain bs where bs: "wseq (map AddrSerializer_write_entry es) = Inr bs"
    "length bs = sum_list (map (\<lambda>(path, a, st). 4 + length path + ObjAddr_GetSizeInBytes a + ObjStat_GetSizeInBytes st) es)"
    "\<forall>r. read_n AddrSerializer_read_entry (length es) (bs @ r) = Inr (map entry_stored es, r)"
    using Cons by auto
  obtain b where b: "AddrSerializer_write_entry e = Inr b" "\<forall>r. AddrSerializer_read_entry (b @ r) = Inr (entry_stored e, r)"
    "length b = (case e of (path, a, st) \<Rightarrow> 4 + length path + ObjAddr_GetSizeInBytes a + ObjStat_GetSizeInBytes st)"
    by (rule entry_written [OF e])
  show ?case by (rule exI [of _ "b @ bs"]) (use b bs in simp)
qed simp

lemma as_entries_parts:
  "as_wf s \<Longrightarrow> map fst (as_entries s) = as_paths s \<and> map (fst \<circ> snd) (as_entries s) = as_obj_addrs s \<and>
     map (snd \<circ> snd) (as_entries s) = as_obj_stats s \<and> length (as_entries s) = length (as_paths s)"
  by (auto simp: as_wf_def as_entries_def simp flip: map_map)

lemma AddrSerializer_written:
  assumes "AddrSerializer_ok s"
  obtains b where "AddrSerializer_WriteBufAdv s = Inr b" "length b = AddrSerializer_GetSizeInBytes s"
    "\<forall>r. AddrSerializer_ReadBufAdv (b @ r) = Inr (AddrSerializer_stored s, r)"
proof -
  have ok: "as_wf s" "length (as_paths s) < 2 ^ 64" "list_all entry_ok (as_entries s)"
    using assms by (simp_all add: AddrSerializer_ok_def)
  note parts = as_entries_parts [OF ok(1)]
  obtain b where b: "wseq (map AddrSerializer_write_entry (as_entries s)) = Inr b"
    "length b = sum_list (map (\<lambda>(path, a, st). 4 + length path + ObjAddr_GetSizeInBytes a + ObjStat_GetSizeInBytes st) (as_entries s))"
    "\<forall>r. read_n AddrSerializer_read_entry (length (as_entries s)) (b @ r) = Inr (map entry_stored (as_entries s), r)"
    using entries_written [OF ok(3)] by blast
  have "map fst (map entry_stored (as_entries s)) = as_paths s" "map (fst \<circ> snd) (map entry_stored (as_entries s)) = as_obj_addrs s"
    using parts by (auto simp: entry_stored_def o_def case_prod_beta)
  moreover have "map (snd \<circ> snd) (map entry_stored (as_entries s)) =
      map (\<lambda>st. st\<lparr>ref_count := 0, cached := kCached\<rparr>) (map (snd \<circ> snd) (as_entries s))"
    by (simp add: entry_stored_def o_def case_prod_beta)
  moreover have "map (snd \<circ> snd) (as_entries s) = as_obj_stats s" using parts by simp
  ultimately have st: "map fst (map entry_stored (as_entries s)) = as_paths s"
    "map (fst \<circ> snd) (map entry_stored (as_entries s)) = as_obj_addrs s"
    "map (snd \<circ> snd) (map entry_stored (as_entries s)) = map (\<lambda>st. st\<lparr>ref_count := 0, cached := kCached\<rparr>) (as_obj_stats s)"
    by simp_all
  show thesis
    by (rule that [of "WriteBufAdv_pod 8 (length (as_paths s)) @ b"])
       (use ok(2) b parts st in \<open>simp_all add: AddrSerializer_WriteBufAdv_def AddrSerializer_GetSizeInBytes_def
          AddrSerializer_ReadBufAdv_def AddrSerializer_stored_def codec_reads\<close>)
qed

interpretation addr_serializer: normal_codec AddrSerializer_WriteBufAdv
    "\<lambda>s. Inr (to_i32 (int (AddrSerializer_GetSizeInBytes s)))" "\<lambda>_. AddrSerializer_ReadBufAdv" AddrSerializer_ok AddrSerializer_stored
  by unfold_locales (auto elim!: AddrSerializer_written intro: encodesI)

subsection \<open>Transfer of addresses between managers\<close>

text \<open>The addresses in a serializer are those of a manager, and every path has one.\<close>

definition as_from :: "PersistenceManager \<Rightarrow> AddrSerializer \<Rightarrow> bool" where
  "as_from pm s \<longleftrightarrow> as_wf s \<and> (\<forall>(path, a, st) \<in> set (as_entries s). GetObjCacheWithoutCnt path pm = Inr a)"

lemma as_entries_push:
  "as_wf s \<Longrightarrow> as_wf (as_push s path a st) \<and> as_entries (as_push s path a st) = as_entries s @ [(path, a, st)]"
  by (simp add: as_wf_def as_push_def as_entries_def)

lemma as_from_push:
  "as_from pm s \<Longrightarrow> GetObjCacheWithoutCnt path pm = Inr a \<Longrightarrow> as_from pm (as_push s path a st)"
  using as_entries_push [of s path a st] by (simp add: as_from_def)

lemma Initialize_from:
  assumes "Initialize (Some pm) paths AddrSerializer_empty = Inr s"
  shows "as_from pm s \<and> as_paths s = paths"
proof -
  let ?f = "\<lambda>path s. rbind (GetObjCacheWithoutCnt path pm) (\<lambda>a.
     Inr (as_push s path a (if \<not> ObjAddr_Valid a then ObjStat_default else GetObjStatByObjAddr a pm)))"
  have "rfold ?f ps t = Inr s \<Longrightarrow> as_from pm t \<Longrightarrow> as_from pm s \<and> as_paths s = as_paths t @ ps" for ps t
  proof (induction ps arbitrary: t)
    case (Cons p ps)
    then obtain a st where a: "GetObjCacheWithoutCnt p pm = Inr a" "rfold ?f ps (as_push t p a st) = Inr s"
      by (auto simp: res_simps)
    then show ?case using Cons.IH as_from_push [OF Cons.prems(2) a(1)] by (fastforce simp: as_push_def)
  qed simp
  moreover have "as_from pm AddrSerializer_empty"
    by (simp add: as_from_def as_wf_def as_entries_def AddrSerializer_empty_def)
  ultimately show ?thesis using assms by (simp add: Initialize_def AddrSerializer_empty_def)
qed

lemma stored_from:
  assumes "as_from pm s"
  shows "as_from pm (AddrSerializer_stored s)"
proof -
  have "as_entries (AddrSerializer_stored s) = map entry_stored (as_entries s)"
    by (auto simp: as_entries_def AddrSerializer_stored_def entry_stored_def zip_map2)
  then show ?thesis using assms by (auto simp: as_from_def as_wf_def AddrSerializer_stored_def entry_stored_def)
qed

text \<open>Adding entries that agree with a table \<open>g\<close> of addresses succeeds and installs that table on their
  paths; all other paths keep their address.\<close>

lemma AddTo_entries:
  assumes "\<forall>(path, a, st) \<in> set es. ObjAddr_Valid a \<and> RemovePrefix pm path \<noteq> [] \<and> g (RemovePrefix pm path) = Some a"
  obtains pm' where "rfold AddTo_entry es pm = Inr pm'" "local_data_dir pm' = local_data_dir pm"
    "map_of (local_path_obj pm') = override_on (map_of (local_path_obj pm)) g (RemovePrefix pm ` fst ` set es)"
  using assms
proof (induction es arbitrary: pm thesis)
  case (Cons e es)
  obtain path a st where e: "e = (path, a, st)" by (cases e)
  let ?pm = "SaveObjStat a st (pm\<lparr>local_path_obj := AList.update (RemovePrefix pm path) a (local_path_obj pm)\<rparr>)"
  have r: "RemovePrefix ?pm = RemovePrefix pm" by (simp add: RemovePrefix_def SaveObjStat_def fun_eq_iff)
  have a: "ObjAddr_Valid a" "RemovePrefix pm path \<noteq> []" "g (RemovePrefix pm path) = Some a"
    using Cons.prems(2) e by auto
  obtain pm' where pm': "rfold AddTo_entry es ?pm = Inr pm'" "local_data_dir pm' = local_data_dir ?pm"
    "map_of (local_path_obj pm') = override_on (map_of (local_path_obj ?pm)) g (RemovePrefix pm ` fst ` set es)"
    using Cons.IH [of ?pm] Cons.prems(2) unfolding r by auto
  show ?case
  proof (rule Cons.prems(1))
    show "rfold AddTo_entry (e # es) pm = Inr pm'"
      using pm'(1) a e by (simp add: AddTo_entry_def SaveLocalPath_def res_simps)
    show "map_of (local_path_obj pm') =
        override_on (map_of (local_path_obj pm)) g (RemovePrefix pm ` fst ` set (e # es))"
      unfolding pm'(3) using a(3) e by (auto simp: override_on_def SaveObjStat_def update_conv fun_eq_iff)
  qed (use pm'(2) in \<open>simp add: SaveObjStat_def\<close>)
qed simp

lemma AddToPersistenceManager_from:
  assumes s: "as_from pm s" and valid: "list_all entry_ok (as_entries s)"
    and dir: "local_data_dir pm2 = local_data_dir pm"
  obtains pm3 where "AddToPersistenceManager s (Some pm2) = Inr (Some pm3)"
    "\<forall>path \<in> set (as_paths s). GetObjCacheWithoutCnt path pm3 = GetObjCacheWithoutCnt path pm"
proof -
  have r: "RemovePrefix pm2 = RemovePrefix pm" using dir by (simp add: RemovePrefix_def fun_eq_iff)
  have known: "RemovePrefix pm path \<noteq> [] \<and> map_of (local_path_obj pm) (RemovePrefix pm path) = Some a \<and> ObjAddr_Valid a"
    if "(path, a, st) \<in> set (as_entries s)" for path a st
  proof -
    have "GetObjCacheWithoutCnt path pm = Inr a" "ObjAddr_Valid a"
      using that s valid by (auto simp: as_from_def list_all_iff entry_ok_def)
    then show ?thesis
      by (auto simp: GetObjCacheWithoutCnt_def Let_def ObjAddr_Valid_def ObjAddr_default_def split: if_splits option.splits)
  qed
  obtain pm3 where pm3: "rfold AddTo_entry (as_entries s) pm2 = Inr pm3" "local_data_dir pm3 = local_data_dir pm2"
    "map_of (local_path_obj pm3) =
       override_on (map_of (local_path_obj pm2)) (map_of (local_path_obj pm)) (RemovePrefix pm2 ` fst ` set (as_entries s))"
    using AddTo_entries [of "as_entries s" pm2 "map_of (local_path_obj pm)"] known unfolding r by blast
  have paths: "set (as_paths s) = fst ` set (as_entries s)"
    using s as_entries_parts [of s] by (metis as_from_def list.set_map)
  have r3: "RemovePrefix pm3 = RemovePrefix pm" using dir pm3(2) by (simp add: RemovePrefix_def fun_eq_iff)
  show thesis
  proof (rule that)
    show "AddToPersistenceManager s (Some pm2) = Inr (Some pm3)"
      using pm3(1) by (simp add: AddToPersistenceManager_def res_simps)
    show "\<forall>path \<in> set (as_paths s). GetObjCacheWithoutCnt path pm3 = GetObjCacheWithoutCnt path pm"
      unfolding paths GetObjCacheWithoutCnt_def r3 pm3(3) r by (simp add: Let_def)
  qed
qed

subsection \<open>Properties\<close>

text \<open>(C28) Addresses travel through the log: a serializer filled from one manager, written, read back and
  added to another manager with the same data directory makes the other manager answer for each of
  the paths exactly what the first one answers.  In between, the announced size is the number of
  bytes written and the reader stops right behind them.\<close>

theorem AddrSerializer_transfers_addresses:
  assumes "Initialize (Some pm) paths AddrSerializer_empty = Inr s" and "AddrSerializer_ok s"
    and "local_data_dir pm2 = local_data_dir pm"
  shows "\<exists>b s' pm3. AddrSerializer_WriteBufAdv s = Inr b \<and> length b = AddrSerializer_GetSizeInBytes s \<and>
     (\<forall>r. AddrSerializer_ReadBufAdv (b @ r) = Inr (s', r)) \<and>
     AddToPersistenceManager s' (Some pm2) = Inr (Some pm3) \<and>
     (\<forall>path \<in> set paths. GetObjCacheWithoutCnt path pm3 = GetObjCacheWithoutCnt path pm)"
proof -
  have s: "as_from pm (AddrSerializer_stored s)" "as_paths (AddrSerializer_stored s) = paths"
    using Initialize_from [OF assms(1)] stored_from by (auto simp: AddrSerializer_stored_def)
  have "list_all entry_ok (as_entries (AddrSerializer_stored s))"
    using assms(2) by (auto simp: AddrSerializer_ok_def as_entries_def AddrSerializer_stored_def zip_map2
        list_all_iff entry_ok_def ObjStat_fits_def)
  then obtain pm3 where "AddToPersistenceManager (AddrSerializer_stored s) (Some pm2) = Inr (Some pm3)"
    "\<forall>path \<in> set paths. GetObjCacheWithoutCnt path pm3 = GetObjCacheWithoutCnt path pm"
    using AddToPersistenceManager_from [OF s(1) _ assms(3)] s(2) by auto
  then show ?thesis using AddrSerializer_written [OF assms(2)] by metis
qed

definition demo_stat :: ObjStat where
  "demo_stat = \<lparr>obj_size = 12, parts = 2, ref_count = 1, deleted_ranges = [\<lparr>r_start = 4, r_end = 8\<rparr>], cached = kCached\<rparr>"

definition demo_source :: PersistenceManager where
  "demo_source = \<lparr>workspace = ''ws'', local_data_dir = ''d/'', object_size_limit = 100, objects = [(''k'', demo_stat)],
     local_path_obj = [(''a'', \<lparr>obj_key = ''k'', part_offset = 0, part_size = 4\<rparr>)], current_object_key = ''c'',
     current_object_size = 0, current_object_parts = 0, current_object_ref_count = 0, fs = Map.empty,
     uuids = (\<lambda>i. replicate i CHR ''u''), uuid_count = 3\<rparr>"

definition demo_serializer :: AddrSerializer where
  "demo_serializer = \<lparr>as_paths = [''d/a''], as_obj_addrs = [\<lparr>obj_key = ''k'', part_offset = 0, part_size = 4\<rparr>],
     as_obj_stats = [demo_stat]\<rparr>"

theorem AddrSerializer_transfers_addresses_witness:
  "\<exists>b s' pm3. AddrSerializer_WriteBufAdv demo_serializer = Inr b \<and> AddrSerializer_ReadBufAdv b = Inr (s', []) \<and>
     AddToPersistenceManager s' (Some (demo_source\<lparr>local_path_obj := [], objects := []\<rparr>)) = Inr (Some pm3) \<and>
     GetObjCacheWithoutCnt ''d/a'' pm3 = Inr \<lparr>obj_key = ''k'', part_offset = 0, part_size = 4\<rparr>"
proof -
  have get: "GetObjCacheWithoutCnt ''d/a'' demo_source = Inr \<lparr>obj_key = ''k'', part_offset = 0, part_size = 4\<rparr>"
    by (simp add: GetObjCacheWithoutCnt_def RemovePrefix_def starts_with_def demo_source_def)
  have ini: "Initialize (Some demo_source) [''d/a''] AddrSerializer_empty = Inr demo_serializer"
    using get by (simp add: Initialize_def AddrSerializer_empty_def as_push_def ObjAddr_Valid_def
        GetObjStatByObjAddr_def LocalStorage_GetNoCount_def demo_serializer_def demo_source_def res_simps)
  have ok: "AddrSerializer_ok demo_serializer"
    by (simp add: AddrSerializer_ok_def as_wf_def as_entries_def entry_ok_def addr_fits_def ObjAddr_Valid_def
        ObjStat_fits_def range_fits_def demo_serializer_def demo_stat_def)
  from AddrSerializer_transfers_addresses [OF ini ok, of "demo_source\<lparr>local_path_obj := [], objects := []\<rparr>"]
  obtain b s' pm3 where "AddrSerializer_WriteBufAdv demo_serializer = Inr b"
    "\<forall>r. AddrSerializer_ReadBufAdv (b @ r) = Inr (s', r)"
    "AddToPersistenceManager s' (Some (demo_source\<lparr>local_path_obj := [], objects := []\<rparr>)) = Inr (Some pm3)"
    "GetObjCacheWithoutCnt ''d/a'' pm3 = GetObjCacheWithoutCnt ''d/a'' demo_source" by auto
  then show ?thesis using get by (metis append_Nil2)
qed

end
