(* ===== verification/Wal_Info.thy ===== *)
theory Wal_Info
  imports Addr_Serializer Column_Def
begin

text \<open>
  The descriptions of blocks, segments and index chunks that log commands carry
  (\<^verbatim>\<open>WalBlockInfo\<close>, \<^verbatim>\<open>WalSegmentInfo\<close> and \<^verbatim>\<open>WalChunkIndexInfo\<close> of
  \<^verbatim>\<open>src/src/storage/wal/wal_entry.cpp\<close>): their equality, size, writer and reader.

  \<^item> The environment \<open>wal_env\<close> holds what these functions take from outside: whether the process has
    a persistence manager (\<^verbatim>\<open>InfinityContext::instance().persistence_manager() != nullptr\<close>), the value
    an uninitialised \<^verbatim>\<open>pm_size_\<close> happens to have, \<^verbatim>\<open>sizeof(std::string)\<close>, which depends on the standard
    library, and the codec of \<^verbatim>\<open>DataBlock\<close>, whose columns are not modelled.
  \<^item> \<open>blocks_stored\<close> is what is used of \<^verbatim>\<open>DataBlock\<close>: the blocks of a class are written without an error, have a
    size estimate, and are read back.  The estimate may be larger than what is written
    (\<^verbatim>\<open>src/src/storage/data_block.cppm\<close>, line 125).
  \<^item> \<^verbatim>\<open>pm_size_\<close> is \<^verbatim>\<open>mutable\<close>: \<^verbatim>\<open>GetSizeInBytes\<close> stores the size of the addresses there and
    \<^verbatim>\<open>WriteBufferAdv\<close> compares with it.  \<open>_sized\<close> is that effect of \<^verbatim>\<open>GetSizeInBytes\<close>.
  \<^item> The assertions that paths are relative are those of the debug build.
  \<^item> Not everything is stored: \<open>_stored\<close> is what the reader gives back.
\<close>

record 'b wal_env =
  use_pm :: bool
  indeterminate :: nat
  sizeof_string :: nat
  blk_WriteAdv :: "'b \<Rightarrow> byte list res"
  blk_GetSizeInBytes :: "'b \<Rightarrow> int res"
  blk_ReadAdv :: "int \<Rightarrow> byte list \<Rightarrow> ('b \<times> byte list) res"

definition blocks_stored :: "'b wal_env \<Rightarrow> ('b \<Rightarrow> bool) \<Rightarrow> bool" where
  "blocks_stored env blk_ok \<longleftrightarrow> (\<forall>x. blk_ok x \<longrightarrow>
     (\<exists>b n. blk_WriteAdv env x = Inr b \<and> blk_GetSizeInBytes env x = Inr n \<and>
       (\<forall>m r. int (length b) \<le> m \<longrightarrow> blk_ReadAdv env m (b @ r) = Inr (x, r))))"

subsection \<open>Writing addresses behind a size check\<close>

text \<open>The part that \<^verbatim>\<open>WalBlockInfo\<close> and \<^verbatim>\<open>WalChunkIndexInfo\<close> share.\<close>

definition pm_GetSizeInBytes :: "'b wal_env \<Rightarrow> AddrSerializer \<Rightarrow> nat" where
  "pm_GetSizeInBytes env addr = (if use_pm env then AddrSerializer_GetSizeInBytes addr else 0)"

definition pm_WriteBufAdv :: "'b wal_env \<Rightarrow> nat \<Rightarrow> AddrSerializer \<Rightarrow> byte list res" where
  "pm_WriteBufAdv env pm_size addr =
     (if use_pm env
      then rbind (AddrSerializer_WriteBufAdv addr) (\<lambda>b.
        if length b \<noteq> pm_size then Inl (UnrecoverableError ''WriteBufferAdv size mismatch'') else Inr b)
      else Inr [])"

definition pm_ReadBufAdv :: "'b wal_env \<Rightarrow> byte list \<Rightarrow> ((string list \<times> AddrSerializer) \<times> byte list) res" where
  "pm_ReadBufAdv env buf =
     (if use_pm env
      then rbind (AddrSerializer_ReadBufAdv buf) (\<lambda>(addr, r). Inr ((as_paths addr, addr), r))
      else Inr (([], AddrSerializer_empty), buf))"

subsection \<open>Blocks\<close>

record WalBlockInfo =
  wb_block_id :: nat
  wb_row_count :: nat
  wb_row_capacity :: nat
  wb_outline_infos :: "(nat \<times> nat) list"
  wb_paths :: "string list"
  wb_addr_serializer :: AddrSerializer
  wb_pm_size :: nat

definition WalBlockInfo_eq :: "WalBlockInfo \<Rightarrow> WalBlockInfo \<Rightarrow> bool" where
  "WalBlockInfo_eq a b \<longleftrightarrow>
     wb_block_id a = wb_block_id b \<and> wb_row_count a = wb_row_count b \<and>
     wb_row_capacity a = wb_row_capacity b \<and> wb_outline_infos a = wb_outline_infos b"

definition WalBlockInfo_GetSizeInBytes :: "'b wal_env \<Rightarrow> WalBlockInfo \<Rightarrow> int res" where
  "WalBlockInfo_GetSizeInBytes env bi =
     size_sum [Inr (2 + 2 + 2), Inr (4 + int (length (wb_outline_infos bi)) * (4 + 8)),
               Inr (int (pm_GetSizeInBytes env (wb_addr_serializer bi)))]"

definition WalBlockInfo_sized :: "'b wal_env \<Rightarrow> WalBlockInfo \<Rightarrow> WalBlockInfo" where
  "WalBlockInfo_sized env bi =
     (if use_pm env then bi\<lparr>wb_pm_size := AddrSerializer_GetSizeInBytes (wb_addr_serializer bi)\<rparr> else bi)"

definition outline_write :: "nat \<times> nat \<Rightarrow> byte list" where
  "outline_write = (\<lambda>(idx, off). WriteBufAdv_pod 4 idx @ WriteBufAdv_pod 8 off)"

definition outline_read :: "byte list \<Rightarrow> ((nat \<times> nat) \<times> byte list) res" where
  "outline_read buf =
     rbind (ReadBufAdv_pod 4 buf) (\<lambda>(buffer_cnt, b1).
     rbind (ReadBufAdv_pod 8 b1) (\<lambda>(last_chunk_offset, b2). Inr ((buffer_cnt, last_chunk_offset), b2)))"

definition WalBlockInfo_WriteBufferAdv :: "'b wal_env \<Rightarrow> WalBlockInfo \<Rightarrow> byte list res" where
  "WalBlockInfo_WriteBufferAdv env bi =
     (if list_ex is_absolute (wb_paths bi) then Inl (AssertionFailure ''!path.is_absolute()'')
      else wseq [Inr (WriteBufAdv_pod 2 (wb_block_id bi)),
                 Inr (WriteBufAdv_pod 2 (wb_row_count bi)),
                 Inr (WriteBufAdv_pod 2 (wb_row_capacity bi)),
                 write_counted (\<lambda>x. Inr (outline_write x)) (wb_outline_infos bi),
                 pm_WriteBufAdv env (wb_pm_size bi) (wb_addr_serializer bi)])"

definition WalBlockInfo_ReadBufferAdv :: "'b wal_env \<Rightarrow> byte list \<Rightarrow> (WalBlockInfo \<times> byte list) res" where
  "WalBlockInfo_ReadBufferAdv env buf =
     rbind (ReadBufAdv_pod 2 buf) (\<lambda>(block_id, b1).
     rbind (ReadBufAdv_pod 2 b1) (\<lambda>(row_count, b2).
     rbind (ReadBufAdv_pod 2 b2) (\<lambda>(row_capacity, b3).
     rbind (read_counted_vec outline_read b3) (\<lambda>(outline_infos, b4).
     rbind (pm_ReadBufAdv env b4) (\<lambda>((paths, addr), b5).
       Inr (\<lparr>wb_block_id = block_id, wb_row_count = row_count, wb_row_capacity = row_capacity,
             wb_outline_infos = outline_infos, wb_paths = paths, wb_addr_serializer = addr, wb_pm_size = 0\<rparr>, b5))))))"

subsection \<open>Segments\<close>

record WalSegmentInfo =
  ws_segment_id :: nat
  ws_column_count :: nat
  ws_row_count :: nat
  ws_actual_row_count :: nat
  ws_row_capacity :: nat
  ws_block_infos :: "WalBlockInfo list"

definition WalSegmentInfo_eq :: "WalSegmentInfo \<Rightarrow> WalSegmentInfo \<Rightarrow> bool" where
  "WalSegmentInfo_eq a b \<longleftrightarrow>
     ws_segment_id a = ws_segment_id b \<and> ws_column_count a = ws_column_count b \<and>
     ws_row_count a = ws_row_count b \<and> ws_actual_row_count a = ws_actual_row_count b \<and>
     ws_row_capacity a = ws_row_capacity b \<and> list_all2 WalBlockInfo_eq (ws_block_infos a) (ws_block_infos b)"

definition WalSegmentInfo_GetSizeInBytes :: "'b wal_env \<Rightarrow> WalSegmentInfo \<Rightarrow> int res" where
  "WalSegmentInfo_GetSizeInBytes env si =
     size_sum [Inr (4 + 8 + 8 + 8 + 8), size_counted (WalBlockInfo_GetSizeInBytes env) (ws_block_infos si)]"

definition WalSegmentInfo_sized :: "'b wal_env \<Rightarrow> WalSegmentInfo \<Rightarrow> WalSegmentInfo" where
  "WalSegmentInfo_sized env si = si\<lparr>ws_block_infos := map (WalBlockInfo_sized env) (ws_block_infos si)\<rparr>"

definition WalSegmentInfo_WriteBufferAdv :: "'b wal_env \<Rightarrow> WalSegmentInfo \<Rightarrow> byte list res" where
  "WalSegmentInfo_WriteBufferAdv env si =
     wseq [Inr (WriteBufAdv_pod 4 (ws_segment_id si)),
           Inr (WriteBufAdv_pod 8 (ws_column_count si)),
           Inr (WriteBufAdv_pod 8 (ws_row_count si)),
           Inr (WriteBufAdv_pod 8 (ws_actual_row_count si)),
           Inr (WriteBufAdv_pod 8 (ws_row_capacity si)),
           write_counted (WalBlockInfo_WriteBufferAdv env) (ws_block_infos si)]"

definition WalSegmentInfo_ReadBufferAdv :: "'b wal_env \<Rightarrow> byte list \<Rightarrow> (WalSegmentInfo \<times> byte list) res" where
  "WalSegmentInfo_ReadBufferAdv env buf =
     rbind (ReadBufAdv_pod 4 buf) (\<lambda>(segment_id, b1).
     rbind (ReadBufAdv_pod 8 b1) (\<lambda>(column_count, b2).
     rbind (ReadBufAdv_pod 8 b2) (\<lambda>(row_count, b3).
     rbind (ReadBufAdv_pod 8 b3) (\<lambda>(actual_row_count, b4).
     rbind (ReadBufAdv_pod 8 b4) (\<lambda>(row_capacity, b5).
     rbind (read_counted_i32 (WalBlockInfo_ReadBufferAdv env) b5) (\<lambda>(block_infos, b6).
       Inr (\<lparr>ws_segment_id = segment_id, ws_column_count = column_count, ws_row_count = row_count,
             ws_actual_row_count = actual_row_count, ws_row_capacity = row_capacity, ws_block_infos = block_infos\<rparr>, b6)))))))"

subsection \<open>Index chunks\<close>

record WalChunkIndexInfo =
  wc_chunk_id :: nat
  wc_base_name :: string
  wc_paths :: "string list"
  wc_addr_serializer :: AddrSerializer
  wc_pm_size :: nat
  wc_base_rowid :: nat
  wc_row_count :: nat
  wc_deprecate_ts :: nat

definition WalChunkIndexInfo_eq :: "WalChunkIndexInfo \<Rightarrow> WalChunkIndexInfo \<Rightarrow> bool" where
  "WalChunkIndexInfo_eq a b \<longleftrightarrow>
     wc_chunk_id a = wc_chunk_id b \<and> wc_base_name a = wc_base_name b \<and> wc_base_rowid a = wc_base_rowid b \<and>
     wc_row_count a = wc_row_count b \<and> wc_deprecate_ts a = wc_deprecate_ts b"

definition WalChunkIndexInfo_GetSizeInBytes :: "'b wal_env \<Rightarrow> WalChunkIndexInfo \<Rightarrow> int res" where
  "WalChunkIndexInfo_GetSizeInBytes env ci =
     Inr (to_i32 (int (pm_GetSizeInBytes env (wc_addr_serializer ci) + 4 + 4 + length (wc_base_name ci) + 8 + 4 + 8)))"

definition WalChunkIndexInfo_sized :: "'b wal_env \<Rightarrow> WalChunkIndexInfo \<Rightarrow> WalChunkIndexInfo" where
  "WalChunkIndexInfo_sized env ci =
     (if use_pm env then ci\<lparr>wc_pm_size := AddrSerializer_GetSizeInBytes (wc_addr_serializer ci)\<rparr> else ci)"

definition WalChunkIndexInfo_WriteBufferAdv :: "'b wal_env \<Rightarrow> WalChunkIndexInfo \<Rightarrow> byte list res" where
  "WalChunkIndexInfo_WriteBufferAdv env ci =
     (if list_ex is_absolute (wc_paths ci) then Inl (AssertionFailure ''!path.is_absolute()'')
      else wseq [Inr (WriteBufAdv_pod 4 (wc_chunk_id ci)),
                 Inr (WriteBufAdv_string (wc_base_name ci)),
                 Inr (WriteBufAdv_pod 8 (wc_base_rowid ci)),
                 Inr (WriteBufAdv_pod 4 (wc_row_count ci)),
                 Inr (WriteBufAdv_pod 8 (wc_deprecate_ts ci)),
                 pm_WriteBufAdv env (wc_pm_size ci) (wc_addr_serializer ci)])"

definition WalChunkIndexInfo_ReadBufferAdv :: "'b wal_env \<Rightarrow> byte list \<Rightarrow> (WalChunkIndexInfo \<times> byte list) res" where
  "WalChunkIndexInfo_ReadBufferAdv env buf =
     rbind (ReadBufAdv_pod 4 buf) (\<lambda>(chunk_id, b1).
     rbind (ReadBufAdv_string b1) (\<lambda>(base_name, b2).
     rbind (ReadBufAdv_pod 8 b2) (\<lambda>(base_rowid, b3).
     rbind (ReadBufAdv_pod 4 b3) (\<lambda>(row_count, b4).
     rbind (ReadBufAdv_pod 8 b4) (\<lambda>(deprecate_ts, b5).
     rbind (pm_ReadBufAdv env b5) (\<lambda>((paths, addr), b6).
       Inr (\<lparr>wc_chunk_id = chunk_id, wc_base_name = base_name, wc_paths = paths, wc_addr_serializer = addr,
             wc_pm_size = indeterminate env, wc_base_rowid = base_rowid, wc_row_count = row_count,
             wc_deprecate_ts = deprecate_ts\<rparr>, b6)))))))"

subsection \<open>What is read back\<close>

definition pm_ok :: "'b wal_env \<Rightarrow> string list \<Rightarrow> AddrSerializer \<Rightarrow> bool" where
  "pm_ok env paths addr \<longleftrightarrow> \<not> list_ex is_absolute paths \<and> (use_pm env \<longrightarrow> AddrSerializer_ok addr)"

definition pm_stored :: "'b wal_env \<Rightarrow> AddrSerializer \<Rightarrow> AddrSerializer" where
  "pm_stored env addr = (if use_pm env then AddrSerializer_stored addr else AddrSerializer_empty)"

definition WalBlockInfo_ok :: "'b wal_env \<Rightarrow> WalBlockInfo \<Rightarrow> bool" where
  "WalBlockInfo_ok env bi \<longleftrightarrow>
     wb_block_id bi < 2 ^ 16 \<and> wb_row_count bi < 2 ^ 16 \<and> wb_row_capacity bi < 2 ^ 16 \<and>
     length (wb_outline_infos bi) < 2 ^ 31 \<and> list_all (\<lambda>(i, n). i < 2 ^ 32 \<and> n < 2 ^ 64) (wb_outline_infos bi) \<and>
     pm_ok env (wb_paths bi) (wb_addr_serializer bi)"

definition WalBlockInfo_stored :: "'b wal_env \<Rightarrow> WalBlockInfo \<Rightarrow> WalBlockInfo" where
  "WalBlockInfo_stored env bi =
     bi\<lparr>wb_paths := as_paths (pm_stored env (wb_addr_serializer bi)),
        wb_addr_serializer := pm_stored env (wb_addr_serializer bi), wb_pm_size := 0\<rparr>"

definition WalSegmentInfo_ok :: "'b wal_env \<Rightarrow> WalSegmentInfo \<Rightarrow> bool" where
  "WalSegmentInfo_ok env si \<longleftrightarrow>
     ws_segment_id si < 2 ^ 32 \<and> ws_column_count si < 2 ^ 64 \<and> ws_row_count si < 2 ^ 64 \<and>
     ws_actual_row_count si < 2 ^ 64 \<and> ws_row_capacity si < 2 ^ 64 \<and>
     length (ws_block_infos si) < 2 ^ 31 \<and> list_all (WalBlockInfo_ok env) (ws_block_infos si)"

definition WalSegmentInfo_stored :: "'b wal_env \<Rightarrow> WalSegmentInfo \<Rightarrow> WalSegmentInfo" where
  "WalSegmentInfo_stored env si = si\<lparr>ws_block_infos := map (WalBlockInfo_stored env) (ws_block_infos si)\<rparr>"

definition WalChunkIndexInfo_ok :: "'b wal_env \<Rightarrow> WalChunkIndexInfo \<Rightarrow> bool" where
  "WalChunkIndexInfo_ok env ci \<longleftrightarrow>
     wc_chunk_id ci < 2 ^ 32 \<and> length (wc_base_name ci) < 2 ^ 31 \<and> wc_base_rowid ci < 2 ^ 64 \<and>
     wc_row_count ci < 2 ^ 32 \<and> wc_deprecate_ts ci < 2 ^ 64 \<and> pm_ok env (wc_paths ci) (wc_addr_serializer ci)"

definition WalChunkIndexInfo_stored :: "'b wal_env \<Rightarrow> WalChunkIndexInfo \<Rightarrow> WalChunkIndexInfo" where
  "WalChunkIndexInfo_stored env ci =
     ci\<lparr>wc_paths := as_paths (pm_stored env (wc_addr_serializer ci)),
        wc_addr_serializer := pm_stored env (wc_addr_serializer ci), wc_pm_size := indeterminate env\<rparr>"

text \<open>The operators of equality do not look at what is not stored.\<close>

lemma WalBlockInfo_eq_stored: "WalBlockInfo_eq bi (WalBlockInfo_stored env bi)"
  by (simp add: WalBlockInfo_eq_def WalBlockInfo_stored_def)

lemma WalSegmentInfo_eq_stored: "WalSegmentInfo_eq si (WalSegmentInfo_stored env si)"
  by (simp add: WalSegmentInfo_eq_def WalSegmentInfo_stored_def list_all2_conv_all_nth WalBlockInfo_eq_stored)

lemma WalChunkIndexInfo_eq_stored: "WalChunkIndexInfo_eq ci (WalChunkIndexInfo_stored env ci)"
  by (simp add: WalChunkIndexInfo_eq_def WalChunkIndexInfo_stored_def)

subsection \<open>The codecs\<close>

lemma pm_written:
  assumes "pm_ok env paths addr"
  obtains b where "pm_WriteBufAdv env (AddrSerializer_GetSizeInBytes addr) addr = Inr b"
    "length b = pm_GetSizeInBytes env addr"
    "\<forall>r. pm_ReadBufAdv env (b @ r) = Inr ((as_paths (pm_stored env addr), pm_stored env addr), r)"
proof (cases "use_pm env")
  case True
  then have "AddrSerializer_ok addr" using assms by (simp add: pm_ok_def)
  from AddrSerializer_written [OF this] obtain b where
    "AddrSerializer_WriteBufAdv addr = Inr b" "length b = AddrSerializer_GetSizeInBytes addr"
    "\<forall>r. AddrSerializer_ReadBufAdv (b @ r) = Inr (AddrSerializer_stored addr, r)" by blast
  then show thesis
    using True by (intro that [of b]) (simp_all add: pm_WriteBufAdv_def pm_GetSizeInBytes_def pm_ReadBufAdv_def pm_stored_def)
next
  case False
  then show thesis
    by (intro that [of "[]"])
       (simp_all add: pm_WriteBufAdv_def pm_GetSizeInBytes_def pm_ReadBufAdv_def pm_stored_def AddrSerializer_empty_def)
qed

lemma pm_written_any:
  "\<not> use_pm env \<Longrightarrow> pm_WriteBufAdv env n addr = pm_WriteBufAdv env m addr"
  by (simp add: pm_WriteBufAdv_def)

lemma pm_sized:
  "pm_WriteBufAdv env (wb_pm_size (WalBlockInfo_sized env bi)) (wb_addr_serializer bi) =
     pm_WriteBufAdv env (AddrSerializer_GetSizeInBytes (wb_addr_serializer bi)) (wb_addr_serializer bi)"
  "pm_WriteBufAdv env (wc_pm_size (WalChunkIndexInfo_sized env ci)) (wc_addr_serializer ci) =
     pm_WriteBufAdv env (AddrSerializer_GetSizeInBytes (wc_addr_serializer ci)) (wc_addr_serializer ci)"
  by (auto simp: WalBlockInfo_sized_def WalChunkIndexInfo_sized_def intro: pm_written_any)

interpretation outline: codec outline_write outline_read "\<lambda>_. 12" "\<lambda>(i, n). i < 2 ^ 32 \<and> n < 2 ^ 64"
  by unfold_locales (auto simp: outline_write_def outline_read_def codec_reads)

lemma sized_fields [simp]:
  "wb_block_id (WalBlockInfo_sized env bi) = wb_block_id bi"
  "wb_row_count (WalBlockInfo_sized env bi) = wb_row_count bi"
  "wb_row_capacity (WalBlockInfo_sized env bi) = wb_row_capacity bi"
  "wb_outline_infos (WalBlockInfo_sized env bi) = wb_outline_infos bi"
  "wb_paths (WalBlockInfo_sized env bi) = wb_paths bi"
  "wb_addr_serializer (WalBlockInfo_sized env bi) = wb_addr_serializer bi"
  "wc_chunk_id (WalChunkIndexInfo_sized env ci) = wc_chunk_id ci"
  "wc_base_name (WalChunkIndexInfo_sized env ci) = wc_base_name ci"
  "wc_paths (WalChunkIndexInfo_sized env ci) = wc_paths ci"
  "wc_addr_serializer (WalChunkIndexInfo_sized env ci) = wc_addr_serializer ci"
  "wc_base_rowid (WalChunkIndexInfo_sized env ci) = wc_base_rowid ci"
  "wc_row_count (WalChunkIndexInfo_sized env ci) = wc_row_count ci"
  "wc_deprecate_ts (WalChunkIndexInfo_sized env ci) = wc_deprecate_ts ci"
  by (simp_all add: WalBlockInfo_sized_def WalChunkIndexInfo_sized_def)

lemma sum_const_sizes: "size_sum (map (\<lambda>_. Inr (to_i32 c)) xs) = Inr (to_i32 (int (length xs) * c))"
proof (induction xs)
  case Nil
  show ?case by (simp add: to_i32_def)
qed (simp add: distrib_right)

lemma WalBlockInfo_encoded:
  assumes "WalBlockInfo_ok env bi"
  shows "encodes (WalBlockInfo_WriteBufferAdv env (WalBlockInfo_sized env bi)) (WalBlockInfo_GetSizeInBytes env bi)
    (\<lambda>_. WalBlockInfo_ReadBufferAdv env) (WalBlockInfo_stored env bi)"
proof -
  have ok: "wb_block_id bi < 2 ^ 16" "wb_row_count bi < 2 ^ 16" "wb_row_capacity bi < 2 ^ 16"
    "length (wb_outline_infos bi) < 2 ^ 31" "list_all (\<lambda>(i, n). i < 2 ^ 32 \<and> n < 2 ^ 64) (wb_outline_infos bi)"
    "pm_ok env (wb_paths bi) (wb_addr_serializer bi)"
    using assms by (simp_all add: WalBlockInfo_ok_def)
  obtain a where a: "pm_WriteBufAdv env (AddrSerializer_GetSizeInBytes (wb_addr_serializer bi)) (wb_addr_serializer bi) = Inr a"
    "length a = pm_GetSizeInBytes env (wb_addr_serializer bi)"
    "\<forall>r. pm_ReadBufAdv env (a @ r) =
       Inr ((as_paths (pm_stored env (wb_addr_serializer bi)), pm_stored env (wb_addr_serializer bi)), r)"
    by (rule pm_written [OF ok(6)])
  obtain b where b: "write_counted (\<lambda>x. Inr (outline_write x)) (wb_outline_infos bi) = Inr b"
    "size_counted (\<lambda>_. Inr (to_i32 (int 12))) (wb_outline_infos bi) = Inr (to_i32 (int (length b)))"
    "\<forall>m r. int (length b) \<le> m \<longrightarrow> read_counted_vec outline_read (b @ r) = Inr (wb_outline_infos bi, r)"
    by (rule outline.total.stored_counted [OF ok(5,4)]) simp
  have n: "to_i32 (int (length b)) = to_i32 (4 + int (length (wb_outline_infos bi)) * 12)"
    using b(2) by (simp add: size_counted_def sum_const_sizes)
  have rb: "read_counted_vec outline_read (b @ r) = Inr (wb_outline_infos bi, r)" for r using b(3) by blast
  let ?w = "WriteBufAdv_pod 2 (wb_block_id bi) @ WriteBufAdv_pod 2 (wb_row_count bi) @
     WriteBufAdv_pod 2 (wb_row_capacity bi) @ b @ a"
  show ?thesis
  proof (rule encodesI [of _ ?w])
    show "WalBlockInfo_WriteBufferAdv env (WalBlockInfo_sized env bi) = Inr ?w"
      using a b ok(6) by (simp add: WalBlockInfo_WriteBufferAdv_def pm_sized pm_ok_def)
    have "to_i32 (int (length ?w)) = to_i32 (to_i32 (int (length b)) + (6 + int (length a)))"
      by (simp only: to_i32_add_left) (simp add: algebra_simps)
    also have "\<dots> = to_i32 ((4 + int (length (wb_outline_infos bi)) * 12) + (6 + int (length a)))"
      by (simp only: n to_i32_add_left)
    finally show "WalBlockInfo_GetSizeInBytes env bi = Inr (to_i32 (int (length ?w)))"
      using a(2) by (simp add: WalBlockInfo_GetSizeInBytes_def algebra_simps)
    show "WalBlockInfo_ReadBufferAdv env (?w @ r) = Inr (WalBlockInfo_stored env bi, r)" for r
      using ok(1-3) by (simp add: WalBlockInfo_ReadBufferAdv_def codec_reads rb a(3) WalBlockInfo_stored_def)
  qed
qed

interpretation wal_block: normal_codec "\<lambda>bi. WalBlockInfo_WriteBufferAdv env (WalBlockInfo_sized env bi)"
    "WalBlockInfo_GetSizeInBytes env" "\<lambda>_. WalBlockInfo_ReadBufferAdv env" "WalBlockInfo_ok env" "WalBlockInfo_stored env"
    for env
  by unfold_locales (rule WalBlockInfo_encoded)


lemma WalSegmentInfo_encoded:
  assumes "WalSegmentInfo_ok env si"
  shows "encodes (WalSegmentInfo_WriteBufferAdv env (WalSegmentInfo_sized env si)) (WalSegmentInfo_GetSizeInBytes env si)
    (\<lambda>_. WalSegmentInfo_ReadBufferAdv env) (WalSegmentInfo_stored env si)"
proof -
  have ok: "ws_segment_id si < 2 ^ 32" "ws_column_count si < 2 ^ 64" "ws_row_count si < 2 ^ 64"
     "ws_actual_row_count si < 2 ^ 64" "ws_row_capacity si < 2 ^ 64"
     "length (ws_block_infos si) < 2 ^ 31" "list_all (WalBlockInfo_ok env) (ws_block_infos si)"
    using assms by (simp_all add: WalSegmentInfo_ok_def)
  obtain b where b: "write_counted (\<lambda>bi. WalBlockInfo_WriteBufferAdv env (WalBlockInfo_sized env bi)) (ws_block_infos si) = Inr b"
    "size_counted (WalBlockInfo_GetSizeInBytes env) (ws_block_infos si) = Inr (to_i32 (int (length b)))"
    "\<forall>m r. int (length b) \<le> m \<longrightarrow> read_counted_i32 (WalBlockInfo_ReadBufferAdv env) (b @ r) =
       Inr (map (WalBlockInfo_stored env) (ws_block_infos si), r)"
    by (rule wal_block.stored_counted [OF ok(7,6)])
  have w: "write_counted (WalBlockInfo_WriteBufferAdv env) (map (WalBlockInfo_sized env) (ws_block_infos si)) = Inr b"
    using b(1) by (simp add: write_counted_def o_def)
  have rb: "read_counted_i32 (WalBlockInfo_ReadBufferAdv env) (b @ r) =
       Inr (map (WalBlockInfo_stored env) (ws_block_infos si), r)" for r using b(3) by blast
  let ?w = "WriteBufAdv_pod 4 (ws_segment_id si) @ WriteBufAdv_pod 8 (ws_column_count si) @
     WriteBufAdv_pod 8 (ws_row_count si) @ WriteBufAdv_pod 8 (ws_actual_row_count si) @
     WriteBufAdv_pod 8 (ws_row_capacity si) @ b"
  show ?thesis
    by (rule encodesI [of _ ?w])
       (use ok(1-5) w b(2) in \<open>simp_all add: WalSegmentInfo_WriteBufferAdv_def WalSegmentInfo_sized_def
          WalSegmentInfo_GetSizeInBytes_def WalSegmentInfo_ReadBufferAdv_def WalSegmentInfo_stored_def codec_reads rb\<close>)
qed

interpretation wal_segment: normal_codec "\<lambda>si. WalSegmentInfo_WriteBufferAdv env (WalSegmentInfo_sized env si)"
    "WalSegmentInfo_GetSizeInBytes env" "\<lambda>_. WalSegmentInfo_ReadBufferAdv env" "WalSegmentInfo_ok env"
    "WalSegmentInfo_stored env" for env
  by unfold_locales (rule WalSegmentInfo_encoded)

lemma WalChunkIndexInfo_encoded:
  assumes "WalChunkIndexInfo_ok env ci"
  shows "encodes (WalChunkIndexInfo_WriteBufferAdv env (WalChunkIndexInfo_sized env ci))
    (WalChunkIndexInfo_GetSizeInBytes env ci) (\<lambda>_. WalChunkIndexInfo_ReadBufferAdv env) (WalChunkIndexInfo_stored env ci)"
proof -
  have ok: "wc_chunk_id ci < 2 ^ 32" "length (wc_base_name ci) < 2 ^ 31" "wc_base_rowid ci < 2 ^ 64"
     "wc_row_count ci < 2 ^ 32" "wc_deprecate_ts ci < 2 ^ 64" "pm_ok env (wc_paths ci) (wc_addr_serializer ci)"
    using assms by (simp_all add: WalChunkIndexInfo_ok_def)
  obtain a where a: "pm_WriteBufAdv env (AddrSerializer_GetSizeInBytes (wc_addr_serializer ci)) (wc_addr_serializer ci) = Inr a"
    "length a = pm_GetSizeInBytes env (wc_addr_serializer ci)"
    "\<forall>r. pm_ReadBufAdv env (a @ r) =
       Inr ((as_paths (pm_stored env (wc_addr_serializer ci)), pm_stored env (wc_addr_serializer ci)), r)"
    by (rule pm_written [OF ok(6)])
  let ?w = "WriteBufAdv_pod 4 (wc_chunk_id ci) @ WriteBufAdv_string (wc_base_name ci) @
     WriteBufAdv_pod 8 (wc_base_rowid ci) @ WriteBufAdv_pod 4 (wc_row_count ci) @
     WriteBufAdv_pod 8 (wc_deprecate_ts ci) @ a"
  show ?thesis
  proof (rule encodesI [of _ ?w])
    show "WalChunkIndexInfo_WriteBufferAdv env (WalChunkIndexInfo_sized env ci) = Inr ?w"
      using a ok(6) by (simp add: WalChunkIndexInfo_WriteBufferAdv_def pm_sized pm_ok_def)
    show "WalChunkIndexInfo_GetSizeInBytes env ci = Inr (to_i32 (int (length ?w)))"
      using a(2) ok(2) by (simp add: WalChunkIndexInfo_GetSizeInBytes_def codec_sizes algebra_simps)
    show "WalChunkIndexInfo_ReadBufferAdv env (?w @ r) = Inr (WalChunkIndexInfo_stored env ci, r)" for r
      using ok(1-5) by (simp add: WalChunkIndexInfo_ReadBufferAdv_def codec_reads a(3) WalChunkIndexInfo_stored_def)
  qed
qed

interpretation wal_chunk: normal_codec "\<lambda>ci. WalChunkIndexInfo_WriteBufferAdv env (WalChunkIndexInfo_sized env ci)"
    "WalChunkIndexInfo_GetSizeInBytes env" "\<lambda>_. WalChunkIndexInfo_ReadBufferAdv env" "WalChunkIndexInfo_ok env"
    "WalChunkIndexInfo_stored env" for env
  by unfold_locales (rule WalChunkIndexInfo_encoded)


end
