(* ===== verification/Wal_Cmd.thy ===== *)
theory Wal_Cmd
  imports Wal_Info Index_Base
begin

text \<open>
  The commands of the write-ahead log (\<^verbatim>\<open>WalCmd\<close> and its eighteen subclasses in
  \<^verbatim>\<open>src/src/storage/wal/wal_entry.cpp\<close>): type codes, \<^verbatim>\<open>operator==\<close>, \<^verbatim>\<open>GetSizeInBytes\<close>,
  \<^verbatim>\<open>WriteAdv\<close> and \<^verbatim>\<open>WalCmd::ReadAdv\<close>.  Each subclass is a constructor of \<open>WalCmd\<close> with the fields in
  the order of the class, each virtual function is a function by cases.  The rows of an \<^verbatim>\<open>APPEND\<close> are a
  \<^verbatim>\<open>DataBlock\<close>, of type \<open>'b\<close>, with its codec in the environment.
\<close>

subsection \<open>Types of commands\<close>

datatype WalCommandType =
    INVALID | CREATE_DATABASE | DROP_DATABASE | CREATE_TABLE | DROP_TABLE | ALTER_INFO | CREATE_INDEX
  | DROP_INDEX | IMPORT | APPEND | DELETE | SET_SEGMENT_STATUS_SEALED | UPDATE_SEGMENT_BLOOM_FILTER_DATA
  | RENAME_TABLE | ADD_COLUMNS | DROP_COLUMNS | CHECKPOINT | COMPACT | OPTIMIZE | DUMP_INDEX

fun type_value :: "WalCommandType \<Rightarrow> nat" where
  "type_value INVALID = 0"
| "type_value CREATE_DATABASE = 1"
| "type_value DROP_DATABASE = 2"
| "type_value CREATE_TABLE = 3"
| "type_value DROP_TABLE = 4"
| "type_value ALTER_INFO = 5"
| "type_value CREATE_INDEX = 6"
| "type_value DROP_INDEX = 7"
| "type_value IMPORT = 20"
| "type_value APPEND = 21"
| "type_value DELETE = 22"
| "type_value SET_SEGMENT_STATUS_SEALED = 31"
| "type_value UPDATE_SEGMENT_BLOOM_FILTER_DATA = 32"
| "type_value RENAME_TABLE = 40"
| "type_value ADD_COLUMNS = 41"
| "type_value DROP_COLUMNS = 42"
| "type_value CHECKPOINT = 99"
| "type_value COMPACT = 100"
| "type_value OPTIMIZE = 101"
| "type_value DUMP_INDEX = 102"

fun WalCommandTypeToString :: "WalCommandType \<Rightarrow> string" where
  "WalCommandTypeToString INVALID = ''INVALID''"
| "WalCommandTypeToString CREATE_DATABASE = ''CREATE_DATABASE''"
| "WalCommandTypeToString DROP_DATABASE = ''DROP_DATABASE''"
| "WalCommandTypeToString CREATE_TABLE = ''CREATE_TABLE''"
| "WalCommandTypeToString DROP_TABLE = ''DROP_TABLE''"
| "WalCommandTypeToString ALTER_INFO = ''ALTER_INFO''"
| "WalCommandTypeToString IMPORT = ''IMPORT''"
| "WalCommandTypeToString APPEND = ''APPEND''"
| "WalCommandTypeToString DELETE = ''DELETE''"
| "WalCommandTypeToString SET_SEGMENT_STATUS_SEALED = ''SET_SEGMENT_STATUS_SEALED''"
| "WalCommandTypeToString UPDATE_SEGMENT_BLOOM_FILTER_DATA = ''UPDATE_SEGMENT_BLOOM_FILTER_DATA''"
| "WalCommandTypeToString CHECKPOINT = ''CHECKPOINT''"
| "WalCommandTypeToString CREATE_INDEX = ''CREATE_INDEX''"
| "WalCommandTypeToString DROP_INDEX = ''DROP_INDEX''"
| "WalCommandTypeToString COMPACT = ''COMPACT''"
| "WalCommandTypeToString OPTIMIZE = ''OPTIMIZE''"
| "WalCommandTypeToString DUMP_INDEX = ''DUMP_INDEX''"
| "WalCommandTypeToString RENAME_TABLE = ''RENAME_TABLE''"
| "WalCommandTypeToString ADD_COLUMNS = ''ADD_COLUMNS''"
| "WalCommandTypeToString DROP_COLUMNS = ''DROP_COLUMNS''"

datatype 'b WalCmd =
    WalCmdCreateDatabase string string string
  | WalCmdDropDatabase string
  | WalCmdCreateTable string string TableDef
  | WalCmdDropTable string string
  | WalCmdCreateIndex string string string IndexBase
  | WalCmdDropIndex string string string
  | WalCmdImport string string WalSegmentInfo
  | WalCmdAppend string string 'b
  | WalCmdDelete string string "nat list"
  | WalCmdSetSegmentStatusSealed string string nat string "(nat \<times> string) list"
  | WalCmdUpdateSegmentBloomFilterData string string nat string "(nat \<times> string) list"
  | WalCmdCheckpoint int bool string string
  | WalCmdCompact string string "WalSegmentInfo list" "nat list"
  | WalCmdOptimize string string string "InitParameter list"
  | WalCmdDumpIndex string string string nat "WalChunkIndexInfo list" "nat list"
  | WalCmdRenameTable string string string
  | WalCmdAddColumns string string "ColumnDef list"
  | WalCmdDropColumns string string "string list"

fun GetType :: "'b WalCmd \<Rightarrow> WalCommandType" where
  "GetType (WalCmdCreateDatabase _ _ _) = CREATE_DATABASE"
| "GetType (WalCmdDropDatabase _) = DROP_DATABASE"
| "GetType (WalCmdCreateTable _ _ _) = CREATE_TABLE"
| "GetType (WalCmdDropTable _ _) = DROP_TABLE"
| "GetType (WalCmdCreateIndex _ _ _ _) = CREATE_INDEX"
| "GetType (WalCmdDropIndex _ _ _) = DROP_INDEX"
| "GetType (WalCmdImport _ _ _) = IMPORT"
| "GetType (WalCmdAppend _ _ _) = APPEND"
| "GetType (WalCmdDelete _ _ _) = DELETE"
| "GetType (WalCmdSetSegmentStatusSealed _ _ _ _ _) = SET_SEGMENT_STATUS_SEALED"
| "GetType (WalCmdUpdateSegmentBloomFilterData _ _ _ _ _) = UPDATE_SEGMENT_BLOOM_FILTER_DATA"
| "GetType (WalCmdCheckpoint _ _ _ _) = CHECKPOINT"
| "GetType (WalCmdCompact _ _ _ _) = COMPACT"
| "GetType (WalCmdOptimize _ _ _ _) = OPTIMIZE"
| "GetType (WalCmdDumpIndex _ _ _ _ _ _) = DUMP_INDEX"
| "GetType (WalCmdRenameTable _ _ _) = RENAME_TABLE"
| "GetType (WalCmdAddColumns _ _ _) = ADD_COLUMNS"
| "GetType (WalCmdDropColumns _ _ _) = DROP_COLUMNS"

subsection \<open>Equality\<close>

text \<open>\<^verbatim>\<open>IsEqual\<close> on strings is their equality.  The comparison of indexes is the one of the base class.\<close>

definition IndexBase_eq :: "IndexBase \<Rightarrow> IndexBase \<Rightarrow> bool" where
  "IndexBase_eq a b \<longleftrightarrow> index_type (index_params a) = index_type (index_params b) \<and> column_names a = column_names b"

definition WalCmd_eq :: "'b WalCmd \<Rightarrow> 'b WalCmd \<Rightarrow> bool" where
  "WalCmd_eq this other =
     (case this of
        WalCmdCreateDatabase db dir _ \<Rightarrow>
          (case other of WalCmdCreateDatabase db' dir' _ \<Rightarrow>
             db = db' \<and> dir = dir'
           | _ \<Rightarrow> False)
      | WalCmdDropDatabase db \<Rightarrow>
          (case other of WalCmdDropDatabase db' \<Rightarrow>
             db = db'
           | _ \<Rightarrow> False)
      | WalCmdCreateTable db dir td \<Rightarrow>
          (case other of WalCmdCreateTable db' dir' td' \<Rightarrow>
             db = db' \<and> dir = dir' \<and> TableDef_eq td td'
           | _ \<Rightarrow> False)
      | WalCmdDropTable db t \<Rightarrow>
          (case other of WalCmdDropTable db' t' \<Rightarrow>
             db = db' \<and> t = t'
           | _ \<Rightarrow> False)
      | WalCmdCreateIndex db t dir ib \<Rightarrow>
          (case other of WalCmdCreateIndex db' t' dir' ib' \<Rightarrow>
             db = db' \<and> t = t' \<and> dir = dir' \<and> IndexBase_eq ib ib'
           | _ \<Rightarrow> False)
      | WalCmdDropIndex db t i \<Rightarrow>
          (case other of WalCmdDropIndex db' t' i' \<Rightarrow>
             db = db' \<and> t = t' \<and> i = i'
           | _ \<Rightarrow> False)
      | WalCmdImport db t si \<Rightarrow>
          (case other of WalCmdImport db' t' si' \<Rightarrow>
             db = db' \<and> t = t' \<and> WalSegmentInfo_eq si si'
           | _ \<Rightarrow> False)
      | WalCmdAppend db t _ \<Rightarrow>
          (case other of WalCmdAppend db' t' _ \<Rightarrow>
             db = db' \<and> t = t'
           | _ \<Rightarrow> False)
      | WalCmdDelete db t ids \<Rightarrow>
          (case other of WalCmdDelete db' t' ids' \<Rightarrow>
             db = db' \<and> t = t' \<and> length ids = length ids' \<and> (\<forall>i < length ids. ids ! i = ids' ! i)
           | _ \<Rightarrow> False)
      | WalCmdSetSegmentStatusSealed db t s f bf \<Rightarrow>
          (case other of WalCmdSetSegmentStatusSealed db' t' s' f' bf' \<Rightarrow>
             db = db' \<and> t = t' \<and> s = s' \<and> f = f' \<and> bf = bf'
           | _ \<Rightarrow> False)
      | WalCmdUpdateSegmentBloomFilterData db t s f bf \<Rightarrow>
          (case other of WalCmdUpdateSegmentBloomFilterData db' t' s' f' bf' \<Rightarrow>
             db = db' \<and> t = t' \<and> s = s' \<and> f = f' \<and> bf = bf'
           | _ \<Rightarrow> False)
      | WalCmdCheckpoint ts full _ _ \<Rightarrow>
          (case other of WalCmdCheckpoint ts' full' _ _ \<Rightarrow>
             ts = ts' \<and> full = full'
           | _ \<Rightarrow> False)
      | WalCmdCompact db t _ ids \<Rightarrow>
          (case other of WalCmdCompact db' t' _ ids' \<Rightarrow>
             db = db' \<and> t = t' \<and> length ids = length ids' \<and> (\<forall>i < length ids. ids ! i = ids' ! i)
           | _ \<Rightarrow> False)
      | WalCmdOptimize db t i _ \<Rightarrow>
          (case other of WalCmdOptimize db' t' i' _ \<Rightarrow>
             db = db' \<and> t = t' \<and> i = i'
           | _ \<Rightarrow> False)
      | WalCmdDumpIndex db t i s cs ids \<Rightarrow>
          (case other of WalCmdDumpIndex db' t' i' s' cs' ids' \<Rightarrow>
             db = db' \<and> t = t' \<and> i = i' \<and> s = s' \<and> list_all2 WalChunkIndexInfo_eq cs cs' \<and> ids = ids'
           | _ \<Rightarrow> False)
      | WalCmdRenameTable db t n \<Rightarrow>
          (case other of WalCmdRenameTable db' t' n' \<Rightarrow>
             db = db' \<and> t = t' \<and> n = n'
           | _ \<Rightarrow> False)
      | WalCmdAddColumns db t cs \<Rightarrow>
          (case other of WalCmdAddColumns db' t' cs' \<Rightarrow>
             db = db' \<and> t = t' \<and> length cs = length cs' \<and> (\<forall>i < length cs. ColumnDef_eq (cs ! i) (cs' ! i))
           | _ \<Rightarrow> False)
      | WalCmdDropColumns db t cs \<Rightarrow>
          (case other of WalCmdDropColumns db' t' cs' \<Rightarrow>
             db = db' \<and> t = t' \<and> cs = cs'
           | _ \<Rightarrow> False))"

subsection \<open>Sizes and writers\<close>

definition InitParameter_GetSizeInBytes :: "InitParameter \<Rightarrow> nat" where
  "InitParameter_GetSizeInBytes p = 4 + length (param_name p) + 4 + length (param_value p)"

definition InitParameter_WriteAdv :: "InitParameter \<Rightarrow> byte list" where
  "InitParameter_WriteAdv p = WriteBufAdv_string (param_name p) @ WriteBufAdv_string (param_value p)"

definition InitParameter_ReadAdv :: "byte list \<Rightarrow> (InitParameter \<times> byte list) res" where
  "InitParameter_ReadAdv buf =
     rbind (ReadBufAdv_string buf) (\<lambda>(name, b1).
     rbind (ReadBufAdv_string b1) (\<lambda>(val, b2). Inr (\<lparr>param_name = name, param_value = val\<rparr>, b2)))"

definition string_size :: "string \<Rightarrow> int res" where
  "string_size s = Inr (4 + int (length s))"

text \<open>\<^verbatim>\<open>::infinity::GetSizeInBytes\<close> has no overload for strings: applied to a \<^verbatim>\<open>std::string\<close> it is the generic template and
  gives the size of the string object, whatever the text.\<close>

definition GetSizeInBytes_string :: "'b wal_env \<Rightarrow> string \<Rightarrow> int res" where
  "GetSizeInBytes_string env s = Inr (int (sizeof_string env))"

definition filter_size :: "'b wal_env \<Rightarrow> nat \<times> string \<Rightarrow> int res" where
  "filter_size env = (\<lambda>(block_id, data). rbind (GetSizeInBytes_string env data) (\<lambda>n. Inr (2 + n)))"

definition filter_write :: "nat \<times> string \<Rightarrow> byte list" where
  "filter_write = (\<lambda>(block_id, data). WriteBufAdv_pod 2 block_id @ WriteBufAdv_string data)"

definition filter_read :: "byte list \<Rightarrow> ((nat \<times> string) \<times> byte list) res" where
  "filter_read buf =
     rbind (ReadBufAdv_pod 2 buf) (\<lambda>(block_id, b1).
     rbind (ReadBufAdv_string b1) (\<lambda>(data, b2). Inr ((block_id, data), b2)))"

fun WalCmd_GetSizeInBytes :: "'b wal_env \<Rightarrow> 'b WalCmd \<Rightarrow> int res" where
  "WalCmd_GetSizeInBytes env (WalCmdCreateDatabase db dir comment) =
     size_sum [Inr 1, string_size db, string_size dir, string_size comment]"
| "WalCmd_GetSizeInBytes env (WalCmdDropDatabase db) = size_sum [Inr 1, string_size db]"
| "WalCmd_GetSizeInBytes env (WalCmdCreateTable db dir td) =
     size_sum [Inr 1, string_size db, string_size dir, TableDef_GetSizeInBytes td]"
| "WalCmd_GetSizeInBytes env (WalCmdCreateIndex db t dir ib) =
     size_sum [Inr 1, string_size db, string_size t, string_size dir, Inr (IndexBase_GetSizeInBytes ib)]"
| "WalCmd_GetSizeInBytes env (WalCmdDropTable db t) = size_sum [Inr 1, string_size db, string_size t]"
| "WalCmd_GetSizeInBytes env (WalCmdDropIndex db t i) = size_sum [Inr 1, string_size db, string_size t, string_size i]"
| "WalCmd_GetSizeInBytes env (WalCmdImport db t si) =
     size_sum [Inr 1, string_size db, string_size t, WalSegmentInfo_GetSizeInBytes env si]"
| "WalCmd_GetSizeInBytes env (WalCmdAppend db t blk) =
     size_sum [Inr 1, string_size db, string_size t, blk_GetSizeInBytes env blk]"
| "WalCmd_GetSizeInBytes env (WalCmdDelete db t ids) =
     size_sum [Inr 1, string_size db, string_size t, Inr 4, Inr (int (length ids) * 8)]"
| "WalCmd_GetSizeInBytes env (WalCmdSetSegmentStatusSealed db t s f bf) =
     size_sum [Inr 1, GetSizeInBytes_string env db, GetSizeInBytes_string env t, Inr 4, GetSizeInBytes_string env f,
               size_counted (filter_size env) bf]"
| "WalCmd_GetSizeInBytes env (WalCmdUpdateSegmentBloomFilterData db t s f bf) =
     size_sum [Inr 1, GetSizeInBytes_string env db, GetSizeInBytes_string env t, Inr 4, GetSizeInBytes_string env f,
               size_counted (filter_size env) bf]"
| "WalCmd_GetSizeInBytes env (WalCmdCheckpoint ts full path name) =
     size_sum [Inr 1, Inr 8, Inr 1, string_size path, string_size name]"
| "WalCmd_GetSizeInBytes env (WalCmdCompact db t sis ids) =
     size_sum [Inr 1, string_size db, string_size t, size_counted (WalSegmentInfo_GetSizeInBytes env) sis,
               Inr 4, Inr (int (length ids) * 4)]"
| "WalCmd_GetSizeInBytes env (WalCmdOptimize db t i ps) =
     size_sum [Inr 1, string_size db, string_size t, string_size i,
               size_counted (\<lambda>p. Inr (int (InitParameter_GetSizeInBytes p))) ps]"
| "WalCmd_GetSizeInBytes env (WalCmdDumpIndex db t i s cs ids) =
     size_sum [Inr 1, string_size db, string_size t, string_size i, Inr 4,
               size_counted (WalChunkIndexInfo_GetSizeInBytes env) cs, Inr 4, Inr (4 * int (length ids))]"
| "WalCmd_GetSizeInBytes env (WalCmdRenameTable db t n) = size_sum [Inr 1, string_size db, string_size t, string_size n]"
| "WalCmd_GetSizeInBytes env (WalCmdAddColumns db t cs) =
     size_sum [Inr 1, string_size db, string_size t, size_counted ColumnDef_GetSizeInBytes cs]"
| "WalCmd_GetSizeInBytes env (WalCmdDropColumns db t cs) =
     size_sum [Inr 1, string_size db, string_size t, size_counted string_size cs]"

text \<open>The effect of \<^verbatim>\<open>GetSizeInBytes\<close> on the mutable fields of the parts of a command.\<close>

fun WalCmd_sized :: "'b wal_env \<Rightarrow> 'b WalCmd \<Rightarrow> 'b WalCmd" where
  "WalCmd_sized env (WalCmdImport db t si) = WalCmdImport db t (WalSegmentInfo_sized env si)"
| "WalCmd_sized env (WalCmdCompact db t sis ids) = WalCmdCompact db t (map (WalSegmentInfo_sized env) sis) ids"
| "WalCmd_sized env (WalCmdDumpIndex db t i s cs ids) =
     WalCmdDumpIndex db t i s (map (WalChunkIndexInfo_sized env) cs) ids"
| "WalCmd_sized env c = c"

text \<open>In \<^verbatim>\<open>WalCmdCompact::WriteAdv\<close> the loops run up to the \<^verbatim>\<open>i32\<close> counts.\<close>

definition write_counted_upto :: "('a \<Rightarrow> byte list res) \<Rightarrow> 'a list \<Rightarrow> byte list res" where
  "write_counted_upto wr xs =
     (let n = to_i32 (int (length xs))
      in rbind (wseq (map wr (take (nat n) xs))) (\<lambda>b. Inr (WriteBufAdv_i32 n @ b)))"

abbreviation "wtype t \<equiv> Inr (WriteBufAdv_pod 1 (type_value t))"
abbreviation "wstring s \<equiv> Inr (WriteBufAdv_string s)"
abbreviation "wpod k n \<equiv> Inr (WriteBufAdv_pod k n)"

fun WalCmd_WriteAdv :: "'b wal_env \<Rightarrow> 'b WalCmd \<Rightarrow> byte list res" where
  "WalCmd_WriteAdv env (WalCmdCreateDatabase db dir comment) =
     (if is_absolute dir then Inl (AssertionFailure ''!path(db_dir_tail_).is_absolute()'')
      else wseq [wtype CREATE_DATABASE, wstring db, wstring dir, wstring comment])"
| "WalCmd_WriteAdv env (WalCmdDropDatabase db) = wseq [wtype DROP_DATABASE, wstring db]"
| "WalCmd_WriteAdv env (WalCmdCreateTable db dir td) =
     wseq [wtype CREATE_TABLE, wstring db, wstring dir, TableDef_WriteAdv td]"
| "WalCmd_WriteAdv env (WalCmdCreateIndex db t dir ib) =
     wseq [wtype CREATE_INDEX, wstring db, wstring t, wstring dir, Inr (IndexBase_WriteAdv ib)]"
| "WalCmd_WriteAdv env (WalCmdDropTable db t) = wseq [wtype DROP_TABLE, wstring db, wstring t]"
| "WalCmd_WriteAdv env (WalCmdDropIndex db t i) = wseq [wtype DROP_INDEX, wstring db, wstring t, wstring i]"
| "WalCmd_WriteAdv env (WalCmdImport db t si) =
     wseq [wtype IMPORT, wstring db, wstring t, WalSegmentInfo_WriteBufferAdv env si]"
| "WalCmd_WriteAdv env (WalCmdAppend db t blk) = wseq [wtype APPEND, wstring db, wstring t, blk_WriteAdv env blk]"
| "WalCmd_WriteAdv env (WalCmdDelete db t ids) =
     wseq [wtype DELETE, wstring db, wstring t, write_counted (wpod 8) ids]"
| "WalCmd_WriteAdv env (WalCmdSetSegmentStatusSealed db t s f bf) =
     wseq [wtype SET_SEGMENT_STATUS_SEALED, wstring db, wstring t, wpod 4 s, wstring f,
           write_counted (\<lambda>x. Inr (filter_write x)) bf]"
| "WalCmd_WriteAdv env (WalCmdUpdateSegmentBloomFilterData db t s f bf) =
     wseq [wtype UPDATE_SEGMENT_BLOOM_FILTER_DATA, wstring db, wstring t, wpod 4 s, wstring f,
           write_counted (\<lambda>x. Inr (filter_write x)) bf]"
| "WalCmd_WriteAdv env (WalCmdCheckpoint ts full path name) =
     (if is_absolute path then Inl (AssertionFailure ''!path(catalog_path_).is_absolute()'')
      else wseq [wtype CHECKPOINT, Inr (WriteBufAdv_i64 ts), Inr (WriteBufAdv_bool full), wstring path, wstring name])"
| "WalCmd_WriteAdv env (WalCmdCompact db t sis ids) =
     wseq [wtype COMPACT, wstring db, wstring t, write_counted_upto (WalSegmentInfo_WriteBufferAdv env) sis,
           write_counted_upto (wpod 4) ids]"
| "WalCmd_WriteAdv env (WalCmdOptimize db t i ps) =
     wseq [wtype OPTIMIZE, wstring db, wstring t, wstring i, write_counted (\<lambda>p. Inr (InitParameter_WriteAdv p)) ps]"
| "WalCmd_WriteAdv env (WalCmdDumpIndex db t i s cs ids) =
     wseq [wtype DUMP_INDEX, wstring db, wstring t, wstring i, wpod 4 s,
           write_counted (WalChunkIndexInfo_WriteBufferAdv env) cs, write_counted (wpod 4) ids]"
| "WalCmd_WriteAdv env (WalCmdRenameTable db t n) = wseq [wtype RENAME_TABLE, wstring db, wstring t, wstring n]"
| "WalCmd_WriteAdv env (WalCmdAddColumns db t cs) =
     wseq [wtype ADD_COLUMNS, wstring db, wstring t, write_counted ColumnDef_WriteAdv cs]"
| "WalCmd_WriteAdv env (WalCmdDropColumns db t cs) =
     wseq [wtype DROP_COLUMNS, wstring db, wstring t, write_counted (\<lambda>c. wstring c) cs]"


subsection \<open>The reader\<close>

text \<open>One definition for each branch of the \<^verbatim>\<open>switch\<close>.  Where the branch passes on \<^verbatim>\<open>ptr_end - ptr\<close>,
  \<open>left\<close> gives it for the current position.  Constructors with an assertion raise it.\<close>

definition read_two_strings :: "byte list \<Rightarrow> ((string \<times> string) \<times> byte list) res" where
  "read_two_strings buf =
     rbind (ReadBufAdv_string buf) (\<lambda>(x, b1). rbind (ReadBufAdv_string b1) (\<lambda>(y, b2). Inr ((x, y), b2)))"

definition read_CREATE_DATABASE :: "byte list \<Rightarrow> ('b WalCmd \<times> byte list) res" where
  "read_CREATE_DATABASE buf =
     rbind (read_two_strings buf) (\<lambda>((db_name, db_dir_tail), b2).
     rbind (ReadBufAdv_string b2) (\<lambda>(db_comment, b3).
       if is_absolute db_dir_tail then Inl (AssertionFailure ''!path(db_dir_tail_).is_absolute()'')
       else Inr (WalCmdCreateDatabase db_name db_dir_tail db_comment, b3)))"

definition read_DROP_DATABASE :: "byte list \<Rightarrow> ('b WalCmd \<times> byte list) res" where
  "read_DROP_DATABASE buf = rbind (ReadBufAdv_string buf) (\<lambda>(db_name, b1). Inr (WalCmdDropDatabase db_name, b1))"

definition read_CREATE_TABLE :: "(byte list \<Rightarrow> int) \<Rightarrow> byte list \<Rightarrow> ('b WalCmd \<times> byte list) res" where
  "read_CREATE_TABLE left buf =
     rbind (read_two_strings buf) (\<lambda>((db_name, table_dir_tail), b2).
     rbind (TableDef_ReadAdv (left b2) b2) (\<lambda>(table_def, b3).
       Inr (WalCmdCreateTable db_name table_dir_tail table_def, b3)))"

definition read_DROP_TABLE :: "byte list \<Rightarrow> ('b WalCmd \<times> byte list) res" where
  "read_DROP_TABLE buf =
     rbind (read_two_strings buf) (\<lambda>((db_name, table_name), b2). Inr (WalCmdDropTable db_name table_name, b2))"

definition read_IMPORT :: "'b wal_env \<Rightarrow> byte list \<Rightarrow> ('b WalCmd \<times> byte list) res" where
  "read_IMPORT env buf =
     rbind (read_two_strings buf) (\<lambda>((db_name, table_name), b2).
     rbind (WalSegmentInfo_ReadBufferAdv env b2) (\<lambda>(segment_info, b3).
       Inr (WalCmdImport db_name table_name segment_info, b3)))"

definition read_APPEND :: "'b wal_env \<Rightarrow> (byte list \<Rightarrow> int) \<Rightarrow> byte list \<Rightarrow> ('b WalCmd \<times> byte list) res" where
  "read_APPEND env left buf =
     rbind (read_two_strings buf) (\<lambda>((db_name, table_name), b2).
     rbind (blk_ReadAdv env (left b2) b2) (\<lambda>(block, b3).
       Inr (WalCmdAppend db_name table_name block, b3)))"

definition read_DELETE :: "byte list \<Rightarrow> ('b WalCmd \<times> byte list) res" where
  "read_DELETE buf =
     rbind (read_two_strings buf) (\<lambda>((db_name, table_name), b2).
     rbind (read_counted_i32 (ReadBufAdv_pod 8) b2) (\<lambda>(row_ids, b3).
       Inr (WalCmdDelete db_name table_name row_ids, b3)))"

definition read_segment_filter ::
    "(string \<Rightarrow> string \<Rightarrow> nat \<Rightarrow> string \<Rightarrow> (nat \<times> string) list \<Rightarrow> 'b WalCmd) \<Rightarrow> byte list \<Rightarrow> ('b WalCmd \<times> byte list) res" where
  "read_segment_filter mk buf =
     rbind (read_two_strings buf) (\<lambda>((db_name, table_name), b2).
     rbind (ReadBufAdv_pod 4 b2) (\<lambda>(segment_id, b3).
     rbind (ReadBufAdv_string b3) (\<lambda>(segment_filter_binary_data, b4).
     rbind (read_counted_vec filter_read b4) (\<lambda>(block_filter_binary_data, b5).
       Inr (mk db_name table_name segment_id segment_filter_binary_data block_filter_binary_data, b5)))))"

definition read_SET_SEGMENT_STATUS_SEALED :: "byte list \<Rightarrow> ('b WalCmd \<times> byte list) res" where
  "read_SET_SEGMENT_STATUS_SEALED = read_segment_filter WalCmdSetSegmentStatusSealed"

definition read_UPDATE_SEGMENT_BLOOM_FILTER_DATA :: "byte list \<Rightarrow> ('b WalCmd \<times> byte list) res" where
  "read_UPDATE_SEGMENT_BLOOM_FILTER_DATA = read_segment_filter WalCmdUpdateSegmentBloomFilterData"

definition read_CHECKPOINT :: "byte list \<Rightarrow> ('b WalCmd \<times> byte list) res" where
  "read_CHECKPOINT buf =
     rbind (ReadBufAdv_i64 buf) (\<lambda>(max_commit_ts, b1).
     rbind (ReadBufAdv_bool b1) (\<lambda>(is_full_checkpoint, b2).
     rbind (read_two_strings b2) (\<lambda>((catalog_path, catalog_name), b3).
       if is_absolute catalog_path then Inl (AssertionFailure ''!path(catalog_path_).is_absolute()'')
       else Inr (WalCmdCheckpoint max_commit_ts is_full_checkpoint catalog_path catalog_name, b3))))"

definition read_CREATE_INDEX :: "(byte list \<Rightarrow> int) \<Rightarrow> byte list \<Rightarrow> ('b WalCmd \<times> byte list) res" where
  "read_CREATE_INDEX left buf =
     rbind (read_two_strings buf) (\<lambda>((db_name, table_name), b2).
     rbind (ReadBufAdv_string b2) (\<lambda>(index_dir_tail, b3).
     rbind (IndexBase_ReadAdv (left b3) b3) (\<lambda>(index_base, b4).
       Inr (WalCmdCreateIndex db_name table_name index_dir_tail index_base, b4))))"

definition read_DROP_INDEX :: "byte list \<Rightarrow> ('b WalCmd \<times> byte list) res" where
  "read_DROP_INDEX buf =
     rbind (read_two_strings buf) (\<lambda>((db_name, table_name), b2).
     rbind (ReadBufAdv_string b2) (\<lambda>(index_name, b3). Inr (WalCmdDropIndex db_name table_name index_name, b3)))"

definition read_COMPACT :: "'b wal_env \<Rightarrow> byte list \<Rightarrow> ('b WalCmd \<times> byte list) res" where
  "read_COMPACT env buf =
     rbind (read_two_strings buf) (\<lambda>((db_name, table_name), b2).
     rbind (read_counted_i32 (WalSegmentInfo_ReadBufferAdv env) b2) (\<lambda>(new_segment_infos, b3).
     rbind (read_counted_i32 (ReadBufAdv_pod 4) b3) (\<lambda>(deprecated_segment_ids, b4).
       Inr (WalCmdCompact db_name table_name new_segment_infos deprecated_segment_ids, b4))))"

definition read_OPTIMIZE :: "byte list \<Rightarrow> ('b WalCmd \<times> byte list) res" where
  "read_OPTIMIZE buf =
     rbind (read_two_strings buf) (\<lambda>((db_name, table_name), b2).
     rbind (ReadBufAdv_string b2) (\<lambda>(index_name, b3).
     rbind (read_counted_i32 InitParameter_ReadAdv b3) (\<lambda>(params, b4).
       Inr (WalCmdOptimize db_name table_name index_name params, b4))))"

definition read_DUMP_INDEX :: "'b wal_env \<Rightarrow> byte list \<Rightarrow> ('b WalCmd \<times> byte list) res" where
  "read_DUMP_INDEX env buf =
     rbind (read_two_strings buf) (\<lambda>((db_name, table_name), b2).
     rbind (ReadBufAdv_string b2) (\<lambda>(index_name, b3).
     rbind (ReadBufAdv_pod 4 b3) (\<lambda>(segment_id, b4).
     rbind (read_counted_i32 (WalChunkIndexInfo_ReadBufferAdv env) b4) (\<lambda>(chunk_infos, b5).
     rbind (read_counted_i32 (ReadBufAdv_pod 4) b5) (\<lambda>(old_chunk_ids, b6).
       Inr (WalCmdDumpIndex db_name table_name index_name segment_id chunk_infos old_chunk_ids, b6))))))"

definition read_RENAME_TABLE :: "byte list \<Rightarrow> ('b WalCmd \<times> byte list) res" where
  "read_RENAME_TABLE buf =
     rbind (read_two_strings buf) (\<lambda>((db_name, table_name), b2).
     rbind (ReadBufAdv_string b2) (\<lambda>(new_table_name, b3). Inr (WalCmdRenameTable db_name table_name new_table_name, b3)))"

text \<open>Every column gets the bound of the whole command, \<^verbatim>\<open>max_bytes\<close>.\<close>

definition read_ADD_COLUMNS :: "int \<Rightarrow> byte list \<Rightarrow> ('b WalCmd \<times> byte list) res" where
  "read_ADD_COLUMNS max_bytes buf =
     rbind (read_two_strings buf) (\<lambda>((db_name, table_name), b2).
     rbind (read_counted_i32 (ColumnDef_ReadAdv max_bytes) b2) (\<lambda>(columns, b3).
       Inr (WalCmdAddColumns db_name table_name columns, b3)))"

definition read_DROP_COLUMNS :: "byte list \<Rightarrow> ('b WalCmd \<times> byte list) res" where
  "read_DROP_COLUMNS buf =
     rbind (read_two_strings buf) (\<lambda>((db_name, table_name), b2).
     rbind (read_counted_i32 ReadBufAdv_string b2) (\<lambda>(column_names, b3).
       Inr (WalCmdDropColumns db_name table_name column_names, b3)))"

definition read_switch :: "'b wal_env \<Rightarrow> int \<Rightarrow> (byte list \<Rightarrow> int) \<Rightarrow> nat \<Rightarrow> byte list \<Rightarrow> ('b WalCmd \<times> byte list) res" where
  "read_switch env max_bytes left t =
     (if t = type_value CREATE_DATABASE then read_CREATE_DATABASE
      else if t = type_value DROP_DATABASE then read_DROP_DATABASE
      else if t = type_value CREATE_TABLE then read_CREATE_TABLE left
      else if t = type_value DROP_TABLE then read_DROP_TABLE
      else if t = type_value IMPORT then read_IMPORT env
      else if t = type_value APPEND then read_APPEND env left
      else if t = type_value DELETE then read_DELETE
      else if t = type_value SET_SEGMENT_STATUS_SEALED then read_SET_SEGMENT_STATUS_SEALED
      else if t = type_value UPDATE_SEGMENT_BLOOM_FILTER_DATA then read_UPDATE_SEGMENT_BLOOM_FILTER_DATA
      else if t = type_value CHECKPOINT then read_CHECKPOINT
      else if t = type_value CREATE_INDEX then read_CREATE_INDEX left
      else if t = type_value DROP_INDEX then read_DROP_INDEX
      else if t = type_value COMPACT then read_COMPACT env
      else if t = type_value OPTIMIZE then read_OPTIMIZE
      else if t = type_value DUMP_INDEX then read_DUMP_INDEX env
      else if t = type_value RENAME_TABLE then read_RENAME_TABLE
      else if t = type_value ADD_COLUMNS then read_ADD_COLUMNS max_bytes
      else if t = type_value DROP_COLUMNS then read_DROP_COLUMNS
      else (\<lambda>_. Inl (UnrecoverableError ''UNIMPLEMENTED ReadAdv for WAL command'')))"

definition WalCmd_ReadAdv :: "'b wal_env \<Rightarrow> int \<Rightarrow> byte list \<Rightarrow> ('b WalCmd \<times> byte list) res" where
  "WalCmd_ReadAdv env max_bytes buf =
     rbind (ReadBufAdv_pod 1 buf) (\<lambda>(t, b1).
     rbind (read_switch env max_bytes (bytes_left max_bytes buf) t b1) (\<lambda>(cmd, b2).
       if bytes_left max_bytes buf b2 < 0
       then Inl (UnrecoverableError ''ptr goes out of range when reading WalCmd'')
       else Inr (cmd, b2)))"


subsection \<open>What is read back\<close>

abbreviation "string_ok s \<equiv> length s < 2 ^ 31"

fun WalCmd_ok :: "'b wal_env \<Rightarrow> ('b \<Rightarrow> bool) \<Rightarrow> 'b WalCmd \<Rightarrow> bool" where
  "WalCmd_ok env blk_ok (WalCmdCreateDatabase db dir comment) \<longleftrightarrow>
     string_ok db \<and> string_ok dir \<and> string_ok comment \<and> \<not> is_absolute dir"
| "WalCmd_ok env blk_ok (WalCmdDropDatabase db) \<longleftrightarrow> string_ok db"
| "WalCmd_ok env blk_ok (WalCmdCreateTable db dir td) \<longleftrightarrow> string_ok db \<and> string_ok dir \<and> TableDef_ok td"
| "WalCmd_ok env blk_ok (WalCmdDropTable db t) \<longleftrightarrow> string_ok db \<and> string_ok t"
| "WalCmd_ok env blk_ok (WalCmdCreateIndex db t dir ib) \<longleftrightarrow>
     string_ok db \<and> string_ok t \<and> string_ok dir \<and> IndexBase_ok ib"
| "WalCmd_ok env blk_ok (WalCmdDropIndex db t i) \<longleftrightarrow> string_ok db \<and> string_ok t \<and> string_ok i"
| "WalCmd_ok env blk_ok (WalCmdImport db t si) \<longleftrightarrow> string_ok db \<and> string_ok t \<and> WalSegmentInfo_ok env si"
| "WalCmd_ok env blk_ok (WalCmdAppend db t blk) \<longleftrightarrow> string_ok db \<and> string_ok t \<and> blk_ok blk"
| "WalCmd_ok env blk_ok (WalCmdDelete db t ids) \<longleftrightarrow>
     string_ok db \<and> string_ok t \<and> length ids < 2 ^ 31 \<and> list_all (\<lambda>i. i < 2 ^ 64) ids"
| "WalCmd_ok env blk_ok (WalCmdSetSegmentStatusSealed db t s f bf) \<longleftrightarrow>
     string_ok db \<and> string_ok t \<and> s < 2 ^ 32 \<and> string_ok f \<and> length bf < 2 ^ 31 \<and>
     list_all (\<lambda>(i, d). i < 2 ^ 16 \<and> string_ok d) bf"
| "WalCmd_ok env blk_ok (WalCmdUpdateSegmentBloomFilterData db t s f bf) \<longleftrightarrow>
     string_ok db \<and> string_ok t \<and> s < 2 ^ 32 \<and> string_ok f \<and> length bf < 2 ^ 31 \<and>
     list_all (\<lambda>(i, d). i < 2 ^ 16 \<and> string_ok d) bf"
| "WalCmd_ok env blk_ok (WalCmdCheckpoint ts full path name) \<longleftrightarrow>
     - (2 ^ 63) \<le> ts \<and> ts < 2 ^ 63 \<and> string_ok path \<and> string_ok name \<and> \<not> is_absolute path"
| "WalCmd_ok env blk_ok (WalCmdCompact db t sis ids) \<longleftrightarrow>
     string_ok db \<and> string_ok t \<and> length sis < 2 ^ 31 \<and> list_all (WalSegmentInfo_ok env) sis \<and>
     length ids < 2 ^ 31 \<and> list_all (\<lambda>i. i < 2 ^ 32) ids"
| "WalCmd_ok env blk_ok (WalCmdOptimize db t i ps) \<longleftrightarrow>
     string_ok db \<and> string_ok t \<and> string_ok i \<and> length ps < 2 ^ 31 \<and>
     list_all (\<lambda>p. string_ok (param_name p) \<and> string_ok (param_value p)) ps"
| "WalCmd_ok env blk_ok (WalCmdDumpIndex db t i s cs ids) \<longleftrightarrow>
     string_ok db \<and> string_ok t \<and> string_ok i \<and> s < 2 ^ 32 \<and> length cs < 2 ^ 31 \<and>
     list_all (WalChunkIndexInfo_ok env) cs \<and> length ids < 2 ^ 31 \<and> list_all (\<lambda>i. i < 2 ^ 32) ids"
| "WalCmd_ok env blk_ok (WalCmdRenameTable db t n) \<longleftrightarrow> string_ok db \<and> string_ok t \<and> string_ok n"
| "WalCmd_ok env blk_ok (WalCmdAddColumns db t cs) \<longleftrightarrow>
     string_ok db \<and> string_ok t \<and> length cs < 2 ^ 31 \<and> list_all ColumnDef_ok cs"
| "WalCmd_ok env blk_ok (WalCmdDropColumns db t cs) \<longleftrightarrow>
     string_ok db \<and> string_ok t \<and> length cs < 2 ^ 31 \<and> list_all (\<lambda>c. length c < 2 ^ 31) cs"

fun WalCmd_stored :: "'b wal_env \<Rightarrow> 'b WalCmd \<Rightarrow> 'b WalCmd" where
  "WalCmd_stored env (WalCmdImport db t si) = WalCmdImport db t (WalSegmentInfo_stored env si)"
| "WalCmd_stored env (WalCmdCompact db t sis ids) = WalCmdCompact db t (map (WalSegmentInfo_stored env) sis) ids"
| "WalCmd_stored env (WalCmdDumpIndex db t i s cs ids) =
     WalCmdDumpIndex db t i s (map (WalChunkIndexInfo_stored env) cs) ids"
| "WalCmd_stored env c = c"

text \<open>By how much the announced size of a command exceeds the bytes written: by what the estimate of a block does, and for the
  commands with Bloom filters by the difference between the string objects and the texts.\<close>

fun size_misfit :: "'b wal_env \<Rightarrow> 'b WalCmd \<Rightarrow> int" where
  "size_misfit env (WalCmdAppend db t blk) =
     (case (blk_WriteAdv env blk, blk_GetSizeInBytes env blk) of (Inr b, Inr n) \<Rightarrow> n - int (length b) | _ \<Rightarrow> 0)"
| "size_misfit env (WalCmdSetSegmentStatusSealed db t s f bf) =
     int ((3 + length bf) * sizeof_string env) - int (sum_list (map (\<lambda>x. 4 + length x) ([db, t, f] @ map snd bf)))"
| "size_misfit env (WalCmdUpdateSegmentBloomFilterData db t s f bf) =
     int ((3 + length bf) * sizeof_string env) - int (sum_list (map (\<lambda>x. 4 + length x) ([db, t, f] @ map snd bf)))"
| "size_misfit env c = 0"

definition cmd_encodes :: "'b wal_env \<Rightarrow> 'b WalCmd \<Rightarrow> 'b WalCmd \<Rightarrow> 'b WalCmd \<Rightarrow> bool" where
  "cmd_encodes env c' c d \<longleftrightarrow>
     (\<exists>b. WalCmd_WriteAdv env c' = Inr b \<and> WalCmd_GetSizeInBytes env c = Inr (to_i32 (int (length b) + size_misfit env c)) \<and>
       (\<forall>m r. int (length b) \<le> m \<longrightarrow> WalCmd_ReadAdv env m (b @ r) = Inr (d, r)))"

interpretation init_parameter: codec InitParameter_WriteAdv InitParameter_ReadAdv InitParameter_GetSizeInBytes
    "\<lambda>p. string_ok (param_name p) \<and> string_ok (param_value p)"
  by unfold_locales
     (simp_all add: InitParameter_WriteAdv_def InitParameter_ReadAdv_def InitParameter_GetSizeInBytes_def codec_reads codec_sizes)

interpretation block_filter: codec filter_write filter_read "\<lambda>(i, d). 2 + (4 + length d)" "\<lambda>(i, d). i < 2 ^ 16 \<and> string_ok d"
  by unfold_locales (auto simp: filter_write_def filter_read_def codec_reads codec_sizes)

lemma type_value_less: "type_value t < 256 ^ 1"
  by (cases t) simp_all

lemma read_switch_types:
  "read_switch env m left (type_value CREATE_DATABASE) = read_CREATE_DATABASE"
  "read_switch env m left (type_value DROP_DATABASE) = read_DROP_DATABASE"
  "read_switch env m left (type_value CREATE_TABLE) = read_CREATE_TABLE left"
  "read_switch env m left (type_value DROP_TABLE) = read_DROP_TABLE"
  "read_switch env m left (type_value IMPORT) = read_IMPORT env"
  "read_switch env m left (type_value APPEND) = read_APPEND env left"
  "read_switch env m left (type_value DELETE) = read_DELETE"
  "read_switch env m left (type_value SET_SEGMENT_STATUS_SEALED) = read_SET_SEGMENT_STATUS_SEALED"
  "read_switch env m left (type_value UPDATE_SEGMENT_BLOOM_FILTER_DATA) = read_UPDATE_SEGMENT_BLOOM_FILTER_DATA"
  "read_switch env m left (type_value CHECKPOINT) = read_CHECKPOINT"
  "read_switch env m left (type_value CREATE_INDEX) = read_CREATE_INDEX left"
  "read_switch env m left (type_value DROP_INDEX) = read_DROP_INDEX"
  "read_switch env m left (type_value COMPACT) = read_COMPACT env"
  "read_switch env m left (type_value OPTIMIZE) = read_OPTIMIZE"
  "read_switch env m left (type_value DUMP_INDEX) = read_DUMP_INDEX env"
  "read_switch env m left (type_value RENAME_TABLE) = read_RENAME_TABLE"
  "read_switch env m left (type_value ADD_COLUMNS) = read_ADD_COLUMNS m"
  "read_switch env m left (type_value DROP_COLUMNS) = read_DROP_COLUMNS"
  by (simp_all add: read_switch_def)

lemma read_two_strings_write:
  "string_ok s \<Longrightarrow> string_ok t \<Longrightarrow> read_two_strings (WriteBufAdv_string s @ WriteBufAdv_string t @ r) = Inr ((s, t), r)"
  by (simp add: read_two_strings_def codec_reads)

text \<open>A command is its type byte and its fields.\<close>

lemma WalCmd_encodesI:
  assumes w: "WalCmd_WriteAdv env c' = Inr (WriteBufAdv_pod 1 (type_value t) @ b)"
    and s: "WalCmd_GetSizeInBytes env c = Inr (to_i32 (1 + int (length b) + size_misfit env c))"
    and r: "\<And>m r. int (length b) < m \<Longrightarrow>
       read_switch env m (\<lambda>x. m - 1 - (int (length b + length r) - int (length x))) (type_value t) (b @ r) = Inr (d, r)"
  shows "cmd_encodes env c' c d"
  unfolding cmd_encodes_def
proof (intro exI conjI allI impI)
  let ?b = "WriteBufAdv_pod 1 (type_value t) @ b"
  show "WalCmd_WriteAdv env c' = Inr ?b" by (rule w)
  show "WalCmd_GetSizeInBytes env c = Inr (to_i32 (int (length ?b) + size_misfit env c))" using s by simp
  fix m r
  assume "int (length ?b) \<le> m"
  then have m: "int (length b) < m" by simp
  have left: "bytes_left m (WriteBufAdv_pod 1 (type_value t) @ b @ r) = (\<lambda>x. m - 1 - (int (length b + length r) - int (length x)))"
    by (rule ext) (simp add: bytes_left_def)
  show "WalCmd_ReadAdv env m (?b @ r) = Inr (d, r)"
    unfolding WalCmd_ReadAdv_def append_assoc ReadBufAdv_pod_write [OF type_value_less]
    by (simp only: rbind_Inr prod.case left r [OF m]) (use m in simp)
qed

lemmas wal_cmd_read = read_switch_types read_two_strings_write codec_reads i64.read_write ReadBufAdv_bool_write
  read_CREATE_DATABASE_def read_DROP_DATABASE_def read_CREATE_TABLE_def read_DROP_TABLE_def read_IMPORT_def
  read_APPEND_def read_DELETE_def read_segment_filter_def read_SET_SEGMENT_STATUS_SEALED_def
  read_UPDATE_SEGMENT_BLOOM_FILTER_DATA_def read_CHECKPOINT_def read_CREATE_INDEX_def read_DROP_INDEX_def
  read_COMPACT_def read_OPTIMIZE_def read_DUMP_INDEX_def read_RENAME_TABLE_def read_ADD_COLUMNS_def
  read_DROP_COLUMNS_def

lemmas wal_cmd_size = string_size_def codec_sizes algebra_simps

declare type_value.simps [simp del]

text \<open>Commands made of strings and numbers.\<close>

lemma string_commands_encoded:
  "WalCmd_ok env blk_ok c \<Longrightarrow> c = WalCmdCreateDatabase db dir comment \<or> c = WalCmdDropDatabase db \<or> c = WalCmdDropTable db t \<or>
     c = WalCmdDropIndex db t i \<or> c = WalCmdRenameTable db t n \<or> c = WalCmdCheckpoint ts full path name \<Longrightarrow>
     cmd_encodes env (WalCmd_sized env c) c (WalCmd_stored env c)"
proof (elim disjE)
  assume ok: "WalCmd_ok env blk_ok c"
  show ?thesis if c: "c = WalCmdCreateDatabase db dir comment"
    by (rule WalCmd_encodesI [where t = CREATE_DATABASE and
          b = "WriteBufAdv_string db @ WriteBufAdv_string dir @ WriteBufAdv_string comment"])
       (use ok in \<open>simp_all add: c wal_cmd_read wal_cmd_size\<close>)
  show ?thesis if c: "c = WalCmdDropDatabase db"
    by (rule WalCmd_encodesI [where t = DROP_DATABASE and b = "WriteBufAdv_string db"])
       (use ok in \<open>simp_all add: c wal_cmd_read wal_cmd_size\<close>)
  show ?thesis if c: "c = WalCmdDropTable db t"
    by (rule WalCmd_encodesI [where t = DROP_TABLE and b = "WriteBufAdv_string db @ WriteBufAdv_string t"])
       (use ok in \<open>simp_all add: c wal_cmd_read wal_cmd_size\<close>)
  show ?thesis if c: "c = WalCmdDropIndex db t i"
    by (rule WalCmd_encodesI [where t = DROP_INDEX and
          b = "WriteBufAdv_string db @ WriteBufAdv_string t @ WriteBufAdv_string i"])
       (use ok in \<open>simp_all add: c wal_cmd_read wal_cmd_size\<close>)
  show ?thesis if c: "c = WalCmdRenameTable db t n"
    by (rule WalCmd_encodesI [where t = RENAME_TABLE and
          b = "WriteBufAdv_string db @ WriteBufAdv_string t @ WriteBufAdv_string n"])
       (use ok in \<open>simp_all add: c wal_cmd_read wal_cmd_size\<close>)
  show ?thesis if c: "c = WalCmdCheckpoint ts full path name"
    by (rule WalCmd_encodesI [where t = CHECKPOINT and
          b = "WriteBufAdv_i64 ts @ WriteBufAdv_bool full @ WriteBufAdv_string path @ WriteBufAdv_string name"])
       (use ok in \<open>simp_all add: c wal_cmd_read wal_cmd_size\<close>)
qed


text \<open>Commands with one structured field.\<close>

lemma structured_commands_encoded:
  assumes ok: "WalCmd_ok env blk_ok c" and blk: "blocks_stored env blk_ok"
    and "c = WalCmdCreateTable db dir td \<or> c = WalCmdCreateIndex db t dir ib \<or> c = WalCmdImport db t si \<or> c = WalCmdAppend db t bl"
  shows "cmd_encodes env (WalCmd_sized env c) c (WalCmd_stored env c)"
  using assms(3)
proof (elim disjE)
  assume c: "c = WalCmdCreateTable db dir td"
  then have "TableDef_ok td" using ok by simp
  then obtain b where b: "TableDef_WriteAdv td = Inr b" "TableDef_GetSizeInBytes td = Inr (to_i32 (int (length b)))"
    "\<forall>m r. int (length b) \<le> m \<longrightarrow> TableDef_ReadAdv m (b @ r) = Inr (td, r)"
    by (rule encodesE [OF table_def.encoded])
  show ?thesis
    by (rule WalCmd_encodesI [where t = CREATE_TABLE and b = "WriteBufAdv_string db @ WriteBufAdv_string dir @ b"])
       (use ok b in \<open>simp_all add: c wal_cmd_read wal_cmd_size\<close>)
next
  assume c: "c = WalCmdCreateIndex db t dir ib"
  then have "IndexBase_ok ib" using ok by simp
  then obtain b where b: "Inr (IndexBase_WriteAdv ib) = (Inr b :: byte list res)"
    "Inr (IndexBase_GetSizeInBytes ib) = (Inr (to_i32 (int (length b))) :: int res)"
    "\<forall>m r. int (length b) \<le> m \<longrightarrow> IndexBase_ReadAdv m (b @ r) = Inr (ib, r)"
    by (rule encodesE [OF index_base.encoded])
  show ?thesis
    by (rule WalCmd_encodesI [where t = CREATE_INDEX and
          b = "WriteBufAdv_string db @ WriteBufAdv_string t @ WriteBufAdv_string dir @ b"])
       (use ok b in \<open>simp_all add: c wal_cmd_read wal_cmd_size\<close>)
next
  assume c: "c = WalCmdImport db t si"
  then have "WalSegmentInfo_ok env si" using ok by simp
  then obtain b where b: "WalSegmentInfo_WriteBufferAdv env (WalSegmentInfo_sized env si) = Inr b"
    "WalSegmentInfo_GetSizeInBytes env si = Inr (to_i32 (int (length b)))"
    "\<forall>(m :: int) r. int (length b) \<le> m \<longrightarrow> WalSegmentInfo_ReadBufferAdv env (b @ r) = Inr (WalSegmentInfo_stored env si, r)"
    by (rule encodesE [OF wal_segment.stored])
  then have rb: "WalSegmentInfo_ReadBufferAdv env (b @ r) = Inr (WalSegmentInfo_stored env si, r)" for r by blast
  show ?thesis
    by (rule WalCmd_encodesI [where t = IMPORT and b = "WriteBufAdv_string db @ WriteBufAdv_string t @ b"])
       (use ok b(1,2) in \<open>simp_all add: c wal_cmd_read rb wal_cmd_size\<close>)
next
  assume c: "c = WalCmdAppend db t bl"
  then have "blk_ok bl" using ok by simp
  then obtain b n where b: "blk_WriteAdv env bl = Inr b" "blk_GetSizeInBytes env bl = Inr n"
    "\<forall>m r. int (length b) \<le> m \<longrightarrow> blk_ReadAdv env m (b @ r) = Inr (bl, r)"
    using blk unfolding blocks_stored_def by blast
  show ?thesis
    by (rule WalCmd_encodesI [where t = APPEND and b = "WriteBufAdv_string db @ WriteBufAdv_string t @ b"])
       (use ok b in \<open>simp_all add: c wal_cmd_read wal_cmd_size\<close>)
qed


text \<open>Commands with vectors.\<close>

lemma write_counted_upto_eq: "length xs < 2 ^ 31 \<Longrightarrow> write_counted_upto wr xs = write_counted wr xs"
  by (simp add: write_counted_upto_def write_counted_def to_i32_of_nat)

lemma write_counted_map: "write_counted wr (map f xs) = write_counted (\<lambda>x. wr (f x)) xs"
  by (simp add: write_counted_def o_def)

lemma filter_sizes: "size_counted (filter_size env) bf = Inr (to_i32 (4 + int (length bf * (2 + sizeof_string env))))"
proof -
  have "size_counted (filter_size env) bf = Inr (to_i32 (4 + int (sum_list (map (\<lambda>_. 2 + sizeof_string env) bf))))"
    by (rule size_counted_total) (auto simp: filter_size_def GetSizeInBytes_string_def)
  then show ?thesis by (simp add: sum_list_triv)
qed

lemma filter_bytes: "sum_list (map (\<lambda>(i, d). 2 + (4 + length d)) bf) = 2 * length bf + sum_list (map (\<lambda>x. 4 + length x) (map snd bf))"
  by (induction bf) auto

lemma string_sizes: "size_counted string_size ss = Inr (to_i32 (4 + int (sum_list (map (\<lambda>s. 4 + length s) ss))))"
  by (rule size_counted_total) (simp add: string_size_def)

lemma vector_commands_encoded:
  assumes ok: "WalCmd_ok env blk_ok c"
    and "c = WalCmdDelete db t ids \<or> c = WalCmdSetSegmentStatusSealed db t s f bf \<or>
      c = WalCmdUpdateSegmentBloomFilterData db t s f bf \<or> c = WalCmdOptimize db t i ps \<or> c = WalCmdDropColumns db t cns"
  shows "cmd_encodes env (WalCmd_sized env c) c (WalCmd_stored env c)"
  using assms(2)
proof (elim disjE)
  assume c: "c = WalCmdDelete db t ids"
  then have "list_all (\<lambda>i. i < 2 ^ 64) ids" "length ids < 2 ^ 31" using ok by simp_all
  then obtain b where b: "write_counted (wpod 8) ids = Inr b" "length b = 4 + sum_list (map (\<lambda>_. 8) ids)"
    "\<forall>r. read_counted_i32 (ReadBufAdv_pod 8) (b @ r) = Inr (ids, r)" by (rule u64.counted)
  show ?thesis
    by (rule WalCmd_encodesI [where t = DELETE and b = "WriteBufAdv_string db @ WriteBufAdv_string t @ b"])
       (use ok b in \<open>simp_all add: c wal_cmd_read wal_cmd_size sum_list_triv\<close>)
next
  assume c: "c = WalCmdSetSegmentStatusSealed db t s f bf"
  then have "list_all (\<lambda>(i, d). i < 2 ^ 16 \<and> string_ok d) bf" "length bf < 2 ^ 31" using ok by simp_all
  then obtain b where b: "write_counted (\<lambda>x. Inr (filter_write x)) bf = Inr b"
    "length b = 4 + sum_list (map (\<lambda>(i, d). 2 + (4 + length d)) bf)"
    "\<forall>r. read_counted_vec filter_read (b @ r) = Inr (bf, r)" by (rule block_filter.counted)
  have "length b = 4 + (2 * length bf + sum_list (map (\<lambda>x. 4 + length x) (map snd bf)))" using b(2) by (simp only: filter_bytes)
  note b = b(1,3) this
  show ?thesis
    by (rule WalCmd_encodesI [where t = SET_SEGMENT_STATUS_SEALED and
          b = "WriteBufAdv_string db @ WriteBufAdv_string t @ WriteBufAdv_pod 4 s @ WriteBufAdv_string f @ b"])
       (use ok b in \<open>simp_all add: c wal_cmd_read wal_cmd_size GetSizeInBytes_string_def filter_sizes\<close>)
next
  assume c: "c = WalCmdUpdateSegmentBloomFilterData db t s f bf"
  then have "list_all (\<lambda>(i, d). i < 2 ^ 16 \<and> string_ok d) bf" "length bf < 2 ^ 31" using ok by simp_all
  then obtain b where b: "write_counted (\<lambda>x. Inr (filter_write x)) bf = Inr b"
    "length b = 4 + sum_list (map (\<lambda>(i, d). 2 + (4 + length d)) bf)"
    "\<forall>r. read_counted_vec filter_read (b @ r) = Inr (bf, r)" by (rule block_filter.counted)
  have "length b = 4 + (2 * length bf + sum_list (map (\<lambda>x. 4 + length x) (map snd bf)))" using b(2) by (simp only: filter_bytes)
  note b = b(1,3) this
  show ?thesis
    by (rule WalCmd_encodesI [where t = UPDATE_SEGMENT_BLOOM_FILTER_DATA and
          b = "WriteBufAdv_string db @ WriteBufAdv_string t @ WriteBufAdv_pod 4 s @ WriteBufAdv_string f @ b"])
       (use ok b in \<open>simp_all add: c wal_cmd_read wal_cmd_size GetSizeInBytes_string_def filter_sizes\<close>)
next
  assume c: "c = WalCmdOptimize db t i ps"
  then have "list_all (\<lambda>p. string_ok (param_name p) \<and> string_ok (param_value p)) ps" "length ps < 2 ^ 31" using ok by simp_all
  then obtain b where b: "write_counted (\<lambda>p. Inr (InitParameter_WriteAdv p)) ps = Inr b"
    "length b = 4 + sum_list (map InitParameter_GetSizeInBytes ps)"
    "\<forall>r. read_counted_i32 InitParameter_ReadAdv (b @ r) = Inr (ps, r)" by (rule init_parameter.counted)
  show ?thesis
    by (rule WalCmd_encodesI [where t = OPTIMIZE and
          b = "WriteBufAdv_string db @ WriteBufAdv_string t @ WriteBufAdv_string i @ b"])
       (use ok b in \<open>simp_all add: c wal_cmd_read wal_cmd_size size_counted_total\<close>)
next
  assume c: "c = WalCmdDropColumns db t cns"
  then have "list_all (\<lambda>c. length c < 2 ^ 31) cns" "length cns < 2 ^ 31" using ok by simp_all
  then obtain b where b: "write_counted (\<lambda>x. wstring x) cns = Inr b" "length b = 4 + sum_list (map (\<lambda>s. 4 + length s) cns)"
    "\<forall>r. read_counted_i32 ReadBufAdv_string (b @ r) = Inr (cns, r)" by (rule str.counted)
  show ?thesis
    by (rule WalCmd_encodesI [where t = DROP_COLUMNS and b = "WriteBufAdv_string db @ WriteBufAdv_string t @ b"])
       (use ok b in \<open>simp_all add: c wal_cmd_read wal_cmd_size string_sizes\<close>)
qed


lemma AddColumns_encoded:
  assumes "WalCmd_ok env blk_ok (WalCmdAddColumns db t cs)"
  shows "cmd_encodes env (WalCmdAddColumns db t cs) (WalCmdAddColumns db t cs) (WalCmdAddColumns db t cs)"
proof -
  have "list_all ColumnDef_ok cs" "length cs < 2 ^ 31" using assms by simp_all
  then obtain b where b: "write_counted ColumnDef_WriteAdv cs = Inr b"
    "size_counted ColumnDef_GetSizeInBytes cs = Inr (to_i32 (int (length b)))"
    "\<forall>m r. int (length b) \<le> m \<longrightarrow> read_counted_i32 (ColumnDef_ReadAdv m) (b @ r) = Inr (cs, r)"
    by (rule column_def.stored_counted) simp
  show ?thesis
    by (rule WalCmd_encodesI [where t = ADD_COLUMNS and b = "WriteBufAdv_string db @ WriteBufAdv_string t @ b"])
       (use assms b in \<open>simp_all add: wal_cmd_read wal_cmd_size\<close>)
qed

lemma Compact_encoded:
  assumes "WalCmd_ok env blk_ok c" and c: "c = WalCmdCompact db t sis ids"
  shows "cmd_encodes env (WalCmd_sized env c) c (WalCmd_stored env c)"
proof -
  have ok: "list_all (WalSegmentInfo_ok env) sis" "length sis < 2 ^ 31" "list_all (\<lambda>i. i < 2 ^ 32) ids" "length ids < 2 ^ 31"
    using assms by simp_all
  obtain a where a: "write_counted (\<lambda>si. WalSegmentInfo_WriteBufferAdv env (WalSegmentInfo_sized env si)) sis = Inr a"
    "size_counted (WalSegmentInfo_GetSizeInBytes env) sis = Inr (to_i32 (int (length a)))"
    "\<forall>m r. int (length a) \<le> m \<longrightarrow> read_counted_i32 (WalSegmentInfo_ReadBufferAdv env) (a @ r) =
       Inr (map (WalSegmentInfo_stored env) sis, r)"
    by (rule wal_segment.stored_counted [OF ok(1,2)])
  then have ra: "read_counted_i32 (WalSegmentInfo_ReadBufferAdv env) (a @ r) = Inr (map (WalSegmentInfo_stored env) sis, r)" for r
    by blast
  obtain b where b: "write_counted (wpod 4) ids = Inr b" "length b = 4 + sum_list (map (\<lambda>_. 4) ids)"
    "\<forall>r. read_counted_i32 (ReadBufAdv_pod 4) (b @ r) = Inr (ids, r)" by (rule u32.counted [OF ok(3,4)])
  show ?thesis
    by (rule WalCmd_encodesI [where t = COMPACT and b = "WriteBufAdv_string db @ WriteBufAdv_string t @ a @ b"])
       (use assms a(1,2) b in \<open>simp_all add: wal_cmd_read ra write_counted_upto_eq write_counted_map wal_cmd_size sum_list_triv\<close>)
qed

lemma DumpIndex_encoded:
  assumes "WalCmd_ok env blk_ok c" and c: "c = WalCmdDumpIndex db t i s cs ids"
  shows "cmd_encodes env (WalCmd_sized env c) c (WalCmd_stored env c)"
proof -
  have ok: "list_all (WalChunkIndexInfo_ok env) cs" "length cs < 2 ^ 31" "list_all (\<lambda>i. i < 2 ^ 32) ids" "length ids < 2 ^ 31"
    using assms by simp_all
  obtain a where a: "write_counted (\<lambda>ci. WalChunkIndexInfo_WriteBufferAdv env (WalChunkIndexInfo_sized env ci)) cs = Inr a"
    "size_counted (WalChunkIndexInfo_GetSizeInBytes env) cs = Inr (to_i32 (int (length a)))"
    "\<forall>m r. int (length a) \<le> m \<longrightarrow> read_counted_i32 (WalChunkIndexInfo_ReadBufferAdv env) (a @ r) =
       Inr (map (WalChunkIndexInfo_stored env) cs, r)"
    by (rule wal_chunk.stored_counted [OF ok(1,2)])
  then have ra: "read_counted_i32 (WalChunkIndexInfo_ReadBufferAdv env) (a @ r) = Inr (map (WalChunkIndexInfo_stored env) cs, r)" for r
    by blast
  obtain b where b: "write_counted (wpod 4) ids = Inr b" "length b = 4 + sum_list (map (\<lambda>_. 4) ids)"
    "\<forall>r. read_counted_i32 (ReadBufAdv_pod 4) (b @ r) = Inr (ids, r)" by (rule u32.counted [OF ok(3,4)])
  show ?thesis
    by (rule WalCmd_encodesI [where t = DUMP_INDEX and
          b = "WriteBufAdv_string db @ WriteBufAdv_string t @ WriteBufAdv_string i @ WriteBufAdv_pod 4 s @ a @ b"])
       (use assms a(1,2) b in \<open>simp_all add: wal_cmd_read ra write_counted_map wal_cmd_size sum_list_triv\<close>)
qed

lemma WalCmd_encoded:
  assumes "WalCmd_ok env blk_ok c" and "blocks_stored env blk_ok"
  shows "cmd_encodes env (WalCmd_sized env c) c (WalCmd_stored env c)"
proof (cases c)
  case (WalCmdAddColumns db t cs)
  then show ?thesis using assms(1) AddColumns_encoded by simp
qed (use assms in \<open>simp_all only:\<close>, (rule string_commands_encoded structured_commands_encoded vector_commands_encoded
      Compact_encoded DumpIndex_encoded; (assumption | blast))+)

lemma WalCmd_eq_stored: "WalCmd_eq c (WalCmd_stored env c)"
  by (cases c) (simp_all add: WalCmd_eq_def IndexBase_eq_def WalSegmentInfo_eq_stored WalChunkIndexInfo_eq_stored list_all2_conv_all_nth
      TableDef_eq_refl ColumnDef_eq_refl)


text \<open>The type byte decides: a byte that no command writes is refused.\<close>

lemma unknown_command_refused:
  assumes "n < 256" and "\<forall>c :: 'b WalCmd. n \<noteq> type_value (GetType c)"
  shows "WalCmd_ReadAdv (env :: 'b wal_env) m (WriteBufAdv_pod 1 n @ r) =
    Inl (UnrecoverableError ''UNIMPLEMENTED ReadAdv for WAL command'')"
proof -
  have "n \<noteq> type_value t" if "t \<noteq> INVALID" "t \<noteq> ALTER_INFO" for t
    using assms(2) that by (cases t) (metis GetType.simps)+
  then have "read_switch env m l n = (\<lambda>_. Inl (UnrecoverableError ''UNIMPLEMENTED ReadAdv for WAL command''))" for l
    by (simp add: read_switch_def)
  then show ?thesis
    using assms(1) ReadBufAdv_pod_write [of n 1 r] by (simp only: WalCmd_ReadAdv_def) simp
qed

subsection \<open>Property\<close>

text \<open>(C27) Log commands survive serialization: provided the rows of an \<^verbatim>\<open>APPEND\<close> do, each of the eighteen
  kinds of command with fields in the range of their types is written without an error after
  \<^verbatim>\<open>GetSizeInBytes\<close> was called, and \<^verbatim>\<open>WalCmd::ReadAdv\<close> with at least as many bytes as were written reads exactly them and gives a
  command that \<^verbatim>\<open>operator==\<close> takes for equal.  The announced size is the number of bytes written plus \<open>size_misfit\<close> (modulo the width
  of \<^verbatim>\<open>int32_t\<close>): it is exact for fifteen kinds, for an \<^verbatim>\<open>APPEND\<close> it is as exact as the estimate of its block, and for the two
  commands with Bloom filters it is wrong, because it counts \<^verbatim>\<open>sizeof(std::string)\<close> for every text instead of its length and four bytes.\<close>

theorem WalCmd_roundtrip:
  assumes "blocks_stored env blk_ok" and "WalCmd_ok env blk_ok c"
  shows "\<exists>b d. WalCmd_WriteAdv env (WalCmd_sized env c) = Inr b \<and>
     WalCmd_GetSizeInBytes env c = Inr (to_i32 (int (length b) + size_misfit env c)) \<and>
     (\<forall>m r. int (length b) \<le> m \<longrightarrow> WalCmd_ReadAdv env m (b @ r) = Inr (d, r)) \<and>
     WalCmd_eq c d \<and> GetType d = GetType c"
proof -
  have "GetType (WalCmd_stored env c) = GetType c" by (cases c) simp_all
  then show ?thesis
    using WalCmd_encoded [OF assms(2,1)] WalCmd_eq_stored [of c env] unfolding cmd_encodes_def by metis
qed

definition demo_env :: "nat wal_env" where
  "demo_env = \<lparr>use_pm = True, indeterminate = 7, sizeof_string = 32, blk_WriteAdv = (\<lambda>n. Inr (WriteBufAdv_pod 4 n)),
     blk_GetSizeInBytes = (\<lambda>_. Inr (to_i32 (int 4))), blk_ReadAdv = (\<lambda>_. ReadBufAdv_pod 4)\<rparr>"

lemma demo_env_blocks: "blocks_stored demo_env (\<lambda>n. n < 2 ^ 32)"
  by (simp add: blocks_stored_def demo_env_def u32.read_write)

definition demo_dump :: "nat WalCmd" where
  "demo_dump = WalCmdDumpIndex ''db'' ''t'' ''i'' 3
     [\<lparr>wc_chunk_id = 1, wc_base_name = ''ft'', wc_paths = [''d/a''], wc_addr_serializer = demo_serializer, wc_pm_size = 0,
       wc_base_rowid = 5, wc_row_count = 6, wc_deprecate_ts = 2 ^ 64 - 1\<rparr>] [0]"

lemma demo_dump_ok: "WalCmd_ok demo_env (\<lambda>n. n < 2 ^ 32) demo_dump"
  by (simp add: demo_dump_def WalChunkIndexInfo_ok_def pm_ok_def is_absolute_def starts_with_def AddrSerializer_ok_def as_wf_def
      as_entries_def entry_ok_def addr_fits_def ObjAddr_Valid_def ObjStat_fits_def range_fits_def demo_serializer_def demo_stat_def)

definition demo_sealed :: "nat WalCmd" where
  "demo_sealed = WalCmdSetSegmentStatusSealed ''db'' ''t'' 3 ''filter'' [(0, ''block'')]"

theorem WalCmd_roundtrip_witness:
  "(\<exists>b d. WalCmd_WriteAdv demo_env (WalCmd_sized demo_env demo_dump) = Inr b \<and>
     WalCmd_ReadAdv demo_env (int (length b)) b = Inr (d, []) \<and> WalCmd_eq demo_dump d) \<and>
   (\<exists>b. WalCmd_WriteAdv demo_env (WalCmd_sized demo_env demo_sealed) = Inr b \<and>
     WalCmd_GetSizeInBytes demo_env demo_sealed = Inr (to_i32 (int (length b) + 98)))"
proof
  show "\<exists>b d. WalCmd_WriteAdv demo_env (WalCmd_sized demo_env demo_dump) = Inr b \<and>
     WalCmd_ReadAdv demo_env (int (length b)) b = Inr (d, []) \<and> WalCmd_eq demo_dump d"
    using WalCmd_roundtrip [OF demo_env_blocks demo_dump_ok] by (metis append_Nil2 order_refl)
  have "WalCmd_ok demo_env (\<lambda>n. n < 2 ^ 32) demo_sealed" "size_misfit demo_env demo_sealed = 98"
    by (simp_all add: demo_sealed_def demo_env_def)
  then show "\<exists>b. WalCmd_WriteAdv demo_env (WalCmd_sized demo_env demo_sealed) = Inr b \<and>
     WalCmd_GetSizeInBytes demo_env demo_sealed = Inr (to_i32 (int (length b) + 98))"
    using WalCmd_roundtrip [OF demo_env_blocks, of demo_sealed] by metis
qed

end
