(* ===== verification/Crc.thy ===== *)
theory Crc
  imports Infinity_Prelude
begin

unbundle bit_operations_syntax

text \<open>
  \<^verbatim>\<open>src/src/common/utility/crc.cppm\<close>: the table-driven CRC that protects the entries of the
  write-ahead log.  The table is computed by the constructor of \<^verbatim>\<open>CRCBase\<close>; \<^verbatim>\<open>makeCRC\<close> folds the bytes
  of the buffer.  The lemmas relate the table to the bit-serial division it abbreviates and show
  which corruptions are always detected.
\<close>

definition CRC32_IEEE :: "32 word" where
  "CRC32_IEEE = 0xEDB88320"

text \<open>One turn of the inner loop of the constructor, and the eight turns that give a table entry.\<close>

definition crc_bit :: "32 word \<Rightarrow> 32 word" where
  "crc_bit c = (if c AND 1 \<noteq> 0 then CRC32_IEEE XOR drop_bit 1 c else drop_bit 1 c)"

definition CRCBase_tab :: "nat \<Rightarrow> 32 word" where
  "CRCBase_tab i = (crc_bit ^^ 8) (of_nat i)"

definition crc_update :: "32 word \<Rightarrow> byte \<Rightarrow> 32 word" where
  "crc_update crc b = CRCBase_tab (unat ((crc XOR ucast b) AND 0xff)) XOR drop_bit 8 crc"

definition makeCRC :: "byte list \<Rightarrow> 32 word" where
  "makeCRC buf = foldl crc_update 0xFFFFFFFF buf XOR 0xFFFFFFFF"

subsection \<open>The table is eight steps of the bit-serial division\<close>

lemma crc_bit_xor: "crc_bit (x XOR y) = crc_bit x XOR crc_bit y"
proof -
  have a: "(z AND 1 \<noteq> 0) = bit z 0" for z :: "32 word"
    by (metis and_one_eq bit_0 mod2_eq_if odd_one zero_neq_one)
  show ?thesis
    by (auto simp: crc_bit_def a bit_xor_iff intro!: bit_word_eqI simp: bit_drop_bit_eq)
qed

lemma crc_bits_xor: "(crc_bit ^^ n) (x XOR y) = (crc_bit ^^ n) x XOR (crc_bit ^^ n) y"
  by (induction n) (simp_all add: crc_bit_xor)

lemma crc_bit_even: "\<not> bit x 0 \<Longrightarrow> crc_bit x = drop_bit 1 x"
  by (simp add: crc_bit_def) (metis and_one_eq bit_0 even_iff_mod_2_eq_zero)

lemma crc_bits_push:
  "(\<forall>i < n. \<not> bit x i) \<Longrightarrow> (crc_bit ^^ n) x = drop_bit n x"
proof (induction n)
  case (Suc n)
  then have "(crc_bit ^^ n) x = drop_bit n x" by simp
  moreover have "\<not> bit (drop_bit n x) 0" using Suc.prems by (simp add: bit_drop_bit_eq)
  ultimately show ?case by (simp add: crc_bit_even drop_bit_drop_bit add.commute)
qed simp

lemma xor_split: "x = (x AND m) XOR (x AND NOT m)" for x m :: "32 word"
  by (auto intro!: bit_word_eqI simp: bit_xor_iff bit_and_iff bit_not_iff)

lemma crc_bits_split: "(crc_bit ^^ 8) x = (crc_bit ^^ 8) (x AND mask 8) XOR drop_bit 8 x"
proof -
  let ?h = "x AND NOT (mask 8)"
  have "(crc_bit ^^ 8) x = (crc_bit ^^ 8) (x AND mask 8) XOR (crc_bit ^^ 8) ?h"
    using crc_bits_xor xor_split by metis
  moreover have "(crc_bit ^^ 8) ?h = drop_bit 8 ?h"
    by (rule crc_bits_push) (simp add: bit_and_iff bit_not_iff bit_mask_iff)
  moreover have "drop_bit 8 ?h = drop_bit 8 x"
    by (intro bit_word_eqI) (auto simp: bit_drop_bit_eq bit_and_iff bit_not_iff bit_mask_iff dest: bit_imp_le_length)
  ultimately show ?thesis by simp
qed

lemma crc_update_serial: "crc_update crc b = (crc_bit ^^ 8) (crc XOR ucast b)"
proof -
  have "drop_bit 8 (crc XOR ucast b) = drop_bit 8 crc"
    by (intro bit_word_eqI) (auto simp: bit_drop_bit_eq bit_xor_iff bit_unsigned_iff dest: bit_imp_le_length)
  moreover have "(0xff :: 32 word) = mask 8" by (simp add: mask_eq_exp_minus_1)
  ultimately show ?thesis using crc_bits_split [of "crc XOR ucast b"] by (simp add: crc_update_def CRCBase_tab_def)
qed

subsection \<open>Detected corruptions\<close>

lemma xor_cancel_left: "a XOR x = a XOR y \<Longrightarrow> x = y" for a x y :: "32 word"
  by (drule arg_cong [where f = "\<lambda>z. a XOR z"]) (simp flip: xor.assoc)

lemma xor_cancel_right: "x XOR a = y XOR a \<Longrightarrow> x = y" for a x y :: "32 word"
  by (drule arg_cong [where f = "\<lambda>z. z XOR a"]) (simp add: xor.assoc)

lemma crc_bit_kernel: "crc_bit x = 0 \<Longrightarrow> x = 0"
proof (rule ccontr)
  assume a: "crc_bit x = 0" "x \<noteq> 0"
  show False
  proof (cases "bit x 0")
    case True
    then have "crc_bit x = CRC32_IEEE XOR drop_bit 1 x"
      using crc_bit_def and_one_eq bit_0 odd_iff_mod_2_eq_one by (metis zero_neq_one)
    moreover have "\<not> bit x 32" using bit_imp_le_length [of x 32] by auto
    ultimately have "bit (crc_bit x) 31" by (simp add: bit_xor_iff bit_drop_bit_eq CRC32_IEEE_def)
    then show False using a by simp
  next
    case False
    then have d: "drop_bit 1 x = 0" using a crc_bit_even by simp
    have "bit (drop_bit 1 x) n = bit x (Suc n)" for n by (simp add: bit_drop_bit_eq)
    then have "\<not> bit x (Suc n)" for n unfolding d by simp
    then have "\<not> bit x n" for n using False by (cases n) simp_all
    then have "x = 0" by (intro bit_word_eqI) simp
    then show False using a(2) by contradiction
  qed
qed

lemma crc_bits_inj: "(crc_bit ^^ n) x = (crc_bit ^^ n) y \<Longrightarrow> x = y"
proof (induction n arbitrary: x y)
  case (Suc n)
  have "crc_bit ((crc_bit ^^ n) x XOR (crc_bit ^^ n) y) = 0" using Suc.prems by (simp add: crc_bit_xor)
  then have "(crc_bit ^^ n) x XOR (crc_bit ^^ n) y = 0" by (rule crc_bit_kernel)
  then have "(crc_bit ^^ n) x XOR (crc_bit ^^ n) y = (crc_bit ^^ n) y XOR (crc_bit ^^ n) y" by simp
  then have "(crc_bit ^^ n) x = (crc_bit ^^ n) y" by (rule xor_cancel_right)
  then show ?case by (rule Suc.IH)
qed simp

lemma foldl_crc_inj: "foldl crc_update x bs = foldl crc_update y bs \<Longrightarrow> x = y"
proof (induction bs arbitrary: x y)
  case (Cons b bs)
  then have "crc_update x b = crc_update y b" by simp
  then have "x XOR ucast b = y XOR ucast b" unfolding crc_update_serial by (rule crc_bits_inj)
  then show ?case by (rule xor_cancel_right)
qed simp

text \<open>The bytes of a window as one word, the first byte lowest.\<close>

fun window_word :: "byte list \<Rightarrow> 32 word" where
  "window_word [] = 0"
| "window_word (b # bs) = ucast b XOR push_bit 8 (window_word bs)"

lemma window_word_bits: "bit (window_word bs) i \<Longrightarrow> i < 8 * length bs"
proof (induction bs arbitrary: i)
  case (Cons b bs)
  from Cons.prems consider "bit b i" | "8 \<le> i" "bit (window_word bs) (i - 8)"
    by (auto simp: bit_xor_iff bit_push_bit_iff bit_unsigned_iff)
  then show ?case
  proof cases
    case 1
    then have "i < 8" using bit_imp_le_length [of b i] by simp
    then show ?thesis by simp
  next
    case 2
    then show ?thesis using Cons.IH [OF 2(2)] by simp
  qed
qed simp

lemma drop_push_window: "length bs \<le> 3 \<Longrightarrow> drop_bit 8 (push_bit 8 (window_word bs)) = window_word bs"
proof (intro bit_word_eqI)
  fix i assume "length bs \<le> 3" "i < LENGTH(32)"
  then show "bit (drop_bit 8 (push_bit 8 (window_word bs))) i = bit (window_word bs) i"
    using window_word_bits [of bs i] by (auto simp: bit_drop_bit_eq bit_push_bit_iff)
qed

lemma crc_window:
  "length bs \<le> 4 \<Longrightarrow> foldl crc_update s bs = (crc_bit ^^ (8 * length bs)) (s XOR window_word bs)"
proof (induction bs arbitrary: s)
  case (Cons b bs)
  have "(crc_bit ^^ 8) (push_bit 8 (window_word bs)) = window_word bs"
    using crc_bits_push [of 8 "push_bit 8 (window_word bs)"] drop_push_window [of bs] Cons.prems
    by (simp add: bit_push_bit_iff)
  then have "crc_update s b XOR window_word bs = (crc_bit ^^ 8) (s XOR window_word (b # bs))"
    unfolding crc_update_serial by (simp add: crc_bits_xor xor.assoc)
  moreover have "(crc_bit ^^ (8 * length (b # bs))) x = (crc_bit ^^ (8 * length bs)) ((crc_bit ^^ 8) x)" for x
  proof -
    have "8 * length (b # bs) = 8 * length bs + 8" by simp
    then show ?thesis by (simp only: funpow_add comp_apply)
  qed
  ultimately show ?case using Cons by simp
qed simp

lemma window_word_inj:
  "length bs = length cs \<Longrightarrow> length bs \<le> 4 \<Longrightarrow> window_word bs = window_word cs \<Longrightarrow> bs = cs"
proof (induction bs cs rule: list_induct2)
  case (Cons b bs c cs)
  have eq: "bit (window_word (b # bs)) i = bit (window_word (c # cs)) i" for i by (simp only: Cons.prems(2))
  have "b = c"
  proof (rule bit_word_eqI)
    fix i assume "i < LENGTH(8)"
    then show "bit b i = bit c i" using eq [of i] by (simp add: bit_xor_iff bit_push_bit_iff bit_unsigned_iff)
  qed
  moreover have "push_bit 8 (window_word bs) = push_bit 8 (window_word cs)"
    by (rule xor_cancel_left [of "ucast b"]) (use Cons.prems(2) \<open>b = c\<close> in \<open>simp only: window_word.simps\<close>)
  then have d: "drop_bit 8 (push_bit 8 (window_word bs)) = drop_bit 8 (push_bit 8 (window_word cs))" by (rule arg_cong)
  have len: "length bs \<le> 3" "length cs \<le> 3" using Cons.hyps Cons.prems(1) by auto
  have "window_word bs = window_word cs" by (rule d [unfolded drop_push_window [OF len(1)] drop_push_window [OF len(2)]])
  with Cons.IH len have "bs = cs" by (auto simp only: le_SucI)
  with \<open>b = c\<close> show ?case by (simp only:)
qed simp

lemma makeCRC_burst:
  assumes "length e = length e'" "length e \<le> 4" "e \<noteq> e'"
  shows "makeCRC (p @ e @ q) \<noteq> makeCRC (p @ e' @ q)"
proof
  have len': "length e' \<le> 4" using assms(1,2) by simp
  assume "makeCRC (p @ e @ q) = makeCRC (p @ e' @ q)"
  then have "foldl crc_update 0xFFFFFFFF (p @ e @ q) = foldl crc_update 0xFFFFFFFF (p @ e' @ q)"
    unfolding makeCRC_def by (rule xor_cancel_right)
  then have "foldl crc_update (foldl crc_update 0xFFFFFFFF p) e = foldl crc_update (foldl crc_update 0xFFFFFFFF p) e'"
    unfolding foldl_append by (rule foldl_crc_inj)
  then have "(crc_bit ^^ (8 * length e)) (foldl crc_update 0xFFFFFFFF p XOR window_word e) =
      (crc_bit ^^ (8 * length e)) (foldl crc_update 0xFFFFFFFF p XOR window_word e')"
    by (simp only: crc_window [OF assms(2)] crc_window [OF len'] assms(1))
  then have "foldl crc_update 0xFFFFFFFF p XOR window_word e = foldl crc_update 0xFFFFFFFF p XOR window_word e'"
    by (rule crc_bits_inj)
  then have "window_word e = window_word e'" by (rule xor_cancel_left)
  then show False using window_word_inj assms by blast
qed

subsection \<open>Properties\<close>

text \<open>The standard check value of CRC-32, of the digits one to nine.\<close>

lemma makeCRC_check_value: "makeCRC [0x31, 0x32, 0x33, 0x34, 0x35, 0x36, 0x37, 0x38, 0x39] = 0xCBF43926"
  by code_simp

text \<open>(C30) The table-driven checksum is the bit-serial one: folding a byte with the precomputed table is
  the same as xoring it into the register and dividing by the polynomial one bit at a time.\<close>

theorem makeCRC_is_bit_serial:
  "makeCRC buf = foldl (\<lambda>crc b. (crc_bit ^^ 8) (crc XOR ucast b)) 0xFFFFFFFF buf XOR 0xFFFFFFFF"
  by (simp only: makeCRC_def crc_update_serial [abs_def])

text \<open>Every corruption confined to four consecutive bytes is detected: replacing them by different
  bytes, anywhere in a buffer of any length, changes the checksum.\<close>

lemma makeCRC_detects_burst:
  assumes "length e = length e'" and "length e \<le> 4" and "e \<noteq> e'"
  shows "makeCRC (p @ e @ q) \<noteq> makeCRC (p @ e' @ q)"
  by (rule makeCRC_burst [OF assms])

lemma makeCRC_detects_burst_example:
  "makeCRC ([1, 2] @ [3, 4, 5] @ [6]) \<noteq> makeCRC ([1, 2] @ [0, 4, 9] @ [6])"
  by (rule makeCRC_detects_burst) simp_all

end
