(* ===== verification/Wal_Entry.thy ===== *)
theory Wal_Entry
  imports Wal_Cmd Crc
begin

text \<open>
  Log entries and their place in a log file (\<^verbatim>\<open>WalEntry\<close> and \<^verbatim>\<open>WalEntryIterator\<close> of
  \<^verbatim>\<open>src/src/storage/wal/wal_entry.cpp\<close>).  An entry is a header of 24 bytes (size, checksum,
  transaction, commit timestamp), the commands, and the size again, from which a reader that comes
  from the end finds the start of the entry.

  \<^item> A reader gets the whole buffer and a position in it, since it follows stored sizes; an access
    outside the buffer is undefined behaviour.  A null entry is \<open>None\<close>.
  \<^item> \<^verbatim>\<open>Next\<close> gives the new iterator with the entry.  The loops of \<^verbatim>\<open>GetAllEntries\<close> and
    \<^verbatim>\<open>GetEntryByIndex\<close> may run forever and are partial functions: not returning is \<open>None\<close>.
\<close>

record 'b WalEntry =
  we_size :: int
  we_checksum :: nat
  we_txn_id :: int
  we_commit_ts :: nat
  we_cmds :: "'b WalCmd list"

definition WalEntry_eq :: "'b WalEntry \<Rightarrow> 'b WalEntry \<Rightarrow> bool" where
  "WalEntry_eq a b \<longleftrightarrow>
     we_txn_id a = we_txn_id b \<and> we_commit_ts a = we_commit_ts b \<and> length (we_cmds a) = length (we_cmds b) \<and>
     (\<forall>i < length (we_cmds a). WalCmd_eq (we_cmds a ! i) (we_cmds b ! i))"

definition WalEntry_GetSizeInBytes :: "'b wal_env \<Rightarrow> 'b WalEntry \<Rightarrow> int res" where
  "WalEntry_GetSizeInBytes env e = size_sum ([Inr (24 + 4)] @ map (WalCmd_GetSizeInBytes env) (we_cmds e) @ [Inr 4])"

definition WalEntry_sized :: "'b wal_env \<Rightarrow> 'b WalEntry \<Rightarrow> 'b WalEntry" where
  "WalEntry_sized env e = e\<lparr>we_cmds := map (WalCmd_sized env) (we_cmds e)\<rparr>"

subsection \<open>Writing\<close>

text \<open>The header is written twice: first as it stands in memory, then, when the size is known, with
  that size and the checksum of the entry whose checksum field is zero.\<close>

definition entry_bytes :: "int \<Rightarrow> nat \<Rightarrow> byte list \<Rightarrow> byte list" where
  "entry_bytes sz checksum body =
     WriteBufAdv_i32 sz @ WriteBufAdv_pod 4 checksum @ body @ WriteBufAdv_i32 sz"

definition WalEntry_WriteAdv :: "'b wal_env \<Rightarrow> 'b WalEntry \<Rightarrow> byte list res" where
  "WalEntry_WriteAdv env e =
     rbind (wseq (map (WalCmd_WriteAdv env) (we_cmds e))) (\<lambda>cmds.
       let body = WriteBufAdv_i64 (we_txn_id e) @ WriteBufAdv_pod 8 (we_commit_ts e) @
                  WriteBufAdv_i32 (to_i32 (int (length (we_cmds e)))) @ cmds;
           size = to_i32 (int (4 + 4 + length body) + 4)
       in if size < 0 then Inl (UndefinedBehaviour ''checksum over a negative size'')
          else Inr (entry_bytes size (unat (makeCRC (take (nat size) (entry_bytes size 0 body)))) body))"

subsection \<open>Reading\<close>

definition ReadBuf_i32 :: "byte list \<Rightarrow> int \<Rightarrow> int res" where
  "ReadBuf_i32 buf pos =
     (if pos < 0 \<or> int (length buf) < pos + 4 then Inl (UndefinedBehaviour ''read outside the buffer'')
      else rbind (ReadBufAdv_i32 (drop (nat pos) buf)) (\<lambda>(v, r). Inr v))"

definition zero_checksum :: "byte list \<Rightarrow> byte list" where
  "zero_checksum p = take 4 p @ WriteBufAdv_pod 4 0 @ drop 8 p"

fun read_cmds :: "'b wal_env \<Rightarrow> nat \<Rightarrow> int \<Rightarrow> byte list \<Rightarrow> ('b WalCmd list \<times> int \<times> byte list) option res" where
  "read_cmds env 0 left p = Inr (Some ([], left, p))"
| "read_cmds env (Suc n) left p =
     (if left \<le> 0 then Inr None
      else rbind (WalCmd_ReadAdv env left p) (\<lambda>(cmd, p').
           rbind (read_cmds env n (bytes_left left p p') p') (\<lambda>r. case r of
               None \<Rightarrow> Inr None
             | Some (cmds, left', p'') \<Rightarrow> Inr (Some (cmd # cmds, left', p'')))))"

definition WalEntry_ReadAdv :: "'b wal_env \<Rightarrow> int \<Rightarrow> byte list \<Rightarrow> nat \<Rightarrow> 'b WalEntry option res" where
  "WalEntry_ReadAdv env max_bytes buf off =
     (if max_bytes \<le> 0 then Inr None
      else let p = drop off buf in
        rbind (ReadBufAdv_i32 p) (\<lambda>(size, p1).
        rbind (ReadBufAdv_pod 4 p1) (\<lambda>(checksum, p2).
        rbind (ReadBufAdv_i64 p2) (\<lambda>(txn_id, p3).
        rbind (ReadBufAdv_pod 8 p3) (\<lambda>(commit_ts, p4).
        rbind (ReadBuf_i32 buf (int off + size - 4)) (\<lambda>size2.
          if size \<noteq> size2 then Inr None
          else if size < 0 \<or> int (length p) < size then Inl (UndefinedBehaviour ''checksum outside the buffer'')
          else if checksum \<noteq> unat (makeCRC (take (nat size) (zero_checksum p))) then Inr None
          else rbind (ReadBufAdv_i32 p4) (\<lambda>(cnt, p5).
               rbind (read_cmds env (nat cnt) (max_bytes - 28) p5) (\<lambda>r. case r of
                   None \<Rightarrow> Inr None
                 | Some (cmds, left, p6) \<Rightarrow>
                     if left - 4 < 0 then Inr None
                     else Inr (Some \<lparr>we_size = size, we_checksum = checksum, we_txn_id = txn_id,
                                     we_commit_ts = commit_ts, we_cmds = cmds\<rparr>)))))))))"

text \<open>\<^verbatim>\<open>IsCheckPoint\<close> gives the checkpoint command with the largest timestamp; the comparison is on the
  unsigned \<^verbatim>\<open>TxnTimeStamp\<close>.\<close>

definition to_u64 :: "int \<Rightarrow> nat" where
  "to_u64 v = nat (v mod 2 ^ 64)"

fun checkpoint_ts :: "'b WalCmd \<Rightarrow> nat option" where
  "checkpoint_ts (WalCmdCheckpoint ts full path name) = Some (to_u64 ts)"
| "checkpoint_ts _ = None"

definition checkpoint_step :: "'b WalCmd \<Rightarrow> nat \<times> 'b WalCmd option \<Rightarrow> nat \<times> 'b WalCmd option" where
  "checkpoint_step cmd = (\<lambda>(max_commit_ts, last_cmd).
     case checkpoint_ts cmd of
       None \<Rightarrow> (max_commit_ts, last_cmd)
     | Some ts \<Rightarrow> if max_commit_ts < ts then (ts, Some cmd) else (max_commit_ts, last_cmd))"

definition IsCheckPoint :: "'b WalEntry \<Rightarrow> bool \<times> 'b WalCmd option" where
  "IsCheckPoint e = (case fold checkpoint_step (we_cmds e) (0, None) of (max_commit_ts, last_cmd) \<Rightarrow> (max_commit_ts \<noteq> 0, last_cmd))"

subsection \<open>Iterators over a file\<close>

record WalEntryIterator =
  it_is_backward :: bool
  it_off :: nat
  it_buf :: "byte list"

definition WalEntryIterator_Make :: "disk \<Rightarrow> string \<Rightarrow> bool \<Rightarrow> WalEntryIterator res" where
  "WalEntryIterator_Make d wal_path is_backward =
     (case d wal_path of
        None \<Rightarrow> Inl (UnrecoverableError ''WAL open failed'')
      | Some buf \<Rightarrow> Inr \<lparr>it_is_backward = is_backward, it_off = (if is_backward then length buf else 0), it_buf = buf\<rparr>)"

definition it_HasNext :: "WalEntryIterator \<Rightarrow> bool" where
  "it_HasNext it \<longleftrightarrow> (it_is_backward it \<and> 0 < it_off it) \<or> (\<not> it_is_backward it \<and> it_off it < length (it_buf it))"

definition it_Next :: "'b wal_env \<Rightarrow> WalEntryIterator \<Rightarrow> ('b WalEntry option \<times> WalEntryIterator) res" where
  "it_Next env it =
     (if it_is_backward it
      then if \<not> 0 < it_off it then Inl (AssertionFailure ''off_ > 0'')
        else rbind (ReadBuf_i32 (it_buf it) (int (it_off it) - 4)) (\<lambda>entry_size.
          if it_off it < to_u64 entry_size then Inr (None, it)
          else rbind (WalEntry_ReadAdv env entry_size (it_buf it) (it_off it - to_u64 entry_size)) (\<lambda>entry.
            Inr (entry, if entry = None then it else it\<lparr>it_off := u64_sub (it_off it) (to_u64 entry_size)\<rparr>)))
      else if \<not> it_off it < length (it_buf it) then Inl (AssertionFailure ''off_ < buf_.size()'')
        else rbind (ReadBuf_i32 (it_buf it) (int (it_off it))) (\<lambda>entry_size.
          if length (it_buf it) < u64_add (it_off it) (to_u64 entry_size) then Inr (None, it)
          else rbind (WalEntry_ReadAdv env entry_size (it_buf it) (it_off it)) (\<lambda>entry.
            Inr (entry, if entry = None then it else it\<lparr>it_off := u64_add (it_off it) (to_u64 entry_size)\<rparr>))))"

partial_function (option) GetEntryByIndex_loop ::
    "'b wal_env \<Rightarrow> int \<Rightarrow> int \<Rightarrow> WalEntryIterator \<Rightarrow> ('b WalEntry option \<times> WalEntryIterator) res option" where
  "GetEntryByIndex_loop env index cnt it =
     (if \<not> it_HasNext it then Some (Inr (None, it))
      else case it_Next env it of
        Inl e \<Rightarrow> Some (Inl e)
      | Inr (entry, it') \<Rightarrow>
          if cnt = index then Some (Inr (entry, it'))
          else GetEntryByIndex_loop env index (cnt + 1) it')"

definition GetEntryByIndex :: "'b wal_env \<Rightarrow> int \<Rightarrow> WalEntryIterator \<Rightarrow> ('b WalEntry option \<times> WalEntryIterator) res option" where
  "GetEntryByIndex env index it = GetEntryByIndex_loop env index 0 it"

partial_function (option) GetAllEntries_loop ::
    "'b wal_env \<Rightarrow> WalEntryIterator \<Rightarrow> 'b WalEntry option list \<Rightarrow> ('b WalEntry option list \<times> WalEntryIterator) res option" where
  "GetAllEntries_loop env it entries =
     (if \<not> it_HasNext it then Some (Inr (entries, it))
      else case it_Next env it of
        Inl e \<Rightarrow> Some (Inl e)
      | Inr (entry, it') \<Rightarrow> GetAllEntries_loop env it' (entries @ [entry]))"

definition GetAllEntries :: "'b wal_env \<Rightarrow> WalEntryIterator \<Rightarrow> ('b WalEntry option list \<times> WalEntryIterator) res option" where
  "GetAllEntries env it =
     (case GetAllEntries_loop env it [] of
        Some (Inr (entries, it')) \<Rightarrow> Some (Inr (if it_is_backward it' then rev entries else entries, it'))
      | r \<Rightarrow> r)"

definition it_IsGood :: "WalEntryIterator \<Rightarrow> bool" where
  "it_IsGood it \<longleftrightarrow> (it_is_backward it \<and> it_off it = 0) \<or> (\<not> it_is_backward it \<and> it_off it = length (it_buf it))"

subsection \<open>An entry in a buffer\<close>

definition WalEntry_ok :: "'b wal_env \<Rightarrow> ('b \<Rightarrow> bool) \<Rightarrow> 'b WalEntry \<Rightarrow> bool" where
  "WalEntry_ok env blk_ok e \<longleftrightarrow>
     list_all (WalCmd_ok env blk_ok) (we_cmds e) \<and> length (we_cmds e) < 2 ^ 31 \<and>
     - (2 ^ 63) \<le> we_txn_id e \<and> we_txn_id e < 2 ^ 63 \<and> we_commit_ts e < 2 ^ 64 \<and>
     (case wseq (map (\<lambda>c. WalCmd_WriteAdv env (WalCmd_sized env c)) (we_cmds e)) of
        Inl _ \<Rightarrow> False | Inr cmds \<Rightarrow> 32 + length cmds < 2 ^ 31)"

text \<open>By how much the announced size of an entry exceeds the bytes written.\<close>

definition entry_misfit :: "'b wal_env \<Rightarrow> 'b WalEntry \<Rightarrow> int" where
  "entry_misfit env e = sum_list (map (size_misfit env) (we_cmds e))"

text \<open>\<open>entry_image env e w\<close>: the bytes \<open>w\<close>, wherever they stand in a buffer, are read as the entry \<open>e\<close>, and
  both their ends hold their number.\<close>

definition entry_image :: "'b wal_env \<Rightarrow> 'b WalEntry \<Rightarrow> byte list \<Rightarrow> bool" where
  "entry_image env e w \<longleftrightarrow>
     32 \<le> length w \<and> length w < 2 ^ 31 \<and> (\<exists>t. w = WriteBufAdv_i32 (int (length w)) @ t) \<and>
     (\<exists>h. w = h @ WriteBufAdv_i32 (int (length w))) \<and>
     (\<forall>pre post. WalEntry_ReadAdv env (int (length w)) (pre @ w @ post) (length pre) = Inr (Some e))"

lemma read_cmds_written:
  assumes "blocks_stored env blk_ok"
  shows "list_all (WalCmd_ok env blk_ok) cmds \<Longrightarrow>
    \<exists>b. wseq (map (\<lambda>c. WalCmd_WriteAdv env (WalCmd_sized env c)) cmds) = Inr b \<and>
        size_sum (map (WalCmd_GetSizeInBytes env) cmds) = Inr (to_i32 (int (length b) + sum_list (map (size_misfit env) cmds))) \<and>
        (\<forall>left r. int (length b) < left \<longrightarrow>
           read_cmds env (length cmds) left (b @ r) = Inr (Some (map (WalCmd_stored env) cmds, left - int (length b), r)))"
proof (induction cmds)
  case Nil
  show ?case by (simp add: to_i32_def)
next
  case (Cons c cmds)
  then have "WalCmd_ok env blk_ok c" by simp
  from WalCmd_encoded [OF this assms] obtain a where a: "WalCmd_WriteAdv env (WalCmd_sized env c) = Inr a"
    "WalCmd_GetSizeInBytes env c = Inr (to_i32 (int (length a) + size_misfit env c))"
    "\<forall>m r. int (length a) \<le> m \<longrightarrow> WalCmd_ReadAdv env m (a @ r) = Inr (WalCmd_stored env c, r)"
    unfolding cmd_encodes_def by blast
  obtain b where b: "wseq (map (\<lambda>c. WalCmd_WriteAdv env (WalCmd_sized env c)) cmds) = Inr b"
    "size_sum (map (WalCmd_GetSizeInBytes env) cmds) = Inr (to_i32 (int (length b) + sum_list (map (size_misfit env) cmds)))"
    "\<forall>left r. int (length b) < left \<longrightarrow>
       read_cmds env (length cmds) left (b @ r) = Inr (Some (map (WalCmd_stored env) cmds, left - int (length b), r))"
    using Cons.IH Cons.prems unfolding list.pred_inject by blast
  show ?case
    by (rule exI [of _ "a @ b"]) (use a b in \<open>simp add: bytes_left_def\<close>, simp add: add_ac)
qed

lemma ReadBuf_i32_at:
  "- (2 ^ 31) \<le> v \<Longrightarrow> v < 2 ^ 31 \<Longrightarrow> pos = int (length pre) \<Longrightarrow> ReadBuf_i32 (pre @ WriteBufAdv_i32 v @ post) pos = Inr v"
  by (simp add: ReadBuf_i32_def i32.read_write)

lemma zero_checksum_entry:
  "take (8 + length body + 4) (zero_checksum (entry_bytes sz ck body @ post)) = entry_bytes sz 0 body"
proof -
  have "zero_checksum (entry_bytes sz ck body @ post) = entry_bytes sz 0 body @ post"
    by (simp add: zero_checksum_def entry_bytes_def take_append drop_append)
  moreover have "length (entry_bytes sz 0 body) = 8 + length body + 4" by (simp add: entry_bytes_def)
  ultimately show ?thesis by simp
qed

lemma length_entry_bytes: "length (entry_bytes sz ck body) = 12 + length body"
  by (simp add: entry_bytes_def)

lemma entry_frame:
  fixes body :: "byte list"
  assumes n: "n = 12 + length body" "n < 2 ^ 31"
  shows "ReadBuf_i32 (pre @ entry_bytes (int n) ck body @ post) (int (length pre) + int n - 4) = Inr (int n)"
    "take n (zero_checksum (entry_bytes (int n) ck body @ post)) = entry_bytes (int n) 0 body"
    "drop (length pre) (pre @ entry_bytes (int n) ck body @ post) = entry_bytes (int n) ck body @ post"
    "\<not> (int n < 0 \<or> int (length (entry_bytes (int n) ck body @ post)) < int n)" "\<not> int n \<le> 0"
proof -
  have "pre @ entry_bytes (int n) ck body @ post =
      (pre @ WriteBufAdv_i32 (int n) @ WriteBufAdv_pod 4 ck @ body) @ WriteBufAdv_i32 (int n) @ post"
    by (simp add: entry_bytes_def)
  then show "ReadBuf_i32 (pre @ entry_bytes (int n) ck body @ post) (int (length pre) + int n - 4) = Inr (int n)"
    using n by (simp only:) (rule ReadBuf_i32_at; simp)
  show "take n (zero_checksum (entry_bytes (int n) ck body @ post)) = entry_bytes (int n) 0 body"
    using zero_checksum_entry [of body "int n" ck post] n(1) by (simp add: add.commute)
qed (use n in \<open>simp_all add: length_entry_bytes\<close>)

text \<open>The checks of the reader on the bytes of an entry, whatever its checksum field and body hold.\<close>

lemma ReadAdv_frame:
  fixes body :: "byte list"
  assumes body: "body = WriteBufAdv_i64 txn @ WriteBufAdv_pod 8 ts @ rest" "- (2 ^ 63) \<le> txn" "txn < 2 ^ 63" "ts < 2 ^ 64"
    and n: "n = 12 + length body" "n < 2 ^ 31" and ck: "ck < 2 ^ 32"
  shows "WalEntry_ReadAdv env (int n) (pre @ entry_bytes (int n) ck body @ post) (length pre) =
    (if ck \<noteq> unat (makeCRC (entry_bytes (int n) 0 body)) then Inr None
     else rbind (ReadBufAdv_i32 (rest @ WriteBufAdv_i32 (int n) @ post)) (\<lambda>(cnt, p5).
          rbind (read_cmds env (nat cnt) (int n - 28) p5) (\<lambda>r. case r of
              None \<Rightarrow> Inr None
            | Some (cmds, left, p6) \<Rightarrow>
                if left - 4 < 0 then Inr None
                else Inr (Some \<lparr>we_size = int n, we_checksum = ck, we_txn_id = txn, we_commit_ts = ts, we_cmds = cmds\<rparr>))))"
proof -
  let ?w = "entry_bytes (int n) ck body"
  note frame = entry_frame [OF n]
  let ?p4 = "rest @ WriteBufAdv_i32 (int n) @ post"
  have reads: "ReadBufAdv_i32 (?w @ post) =
      Inr (int n, WriteBufAdv_pod 4 ck @ WriteBufAdv_i64 txn @ WriteBufAdv_pod 8 ts @ ?p4)"
    "ReadBufAdv_pod 4 (WriteBufAdv_pod 4 ck @ WriteBufAdv_i64 txn @ WriteBufAdv_pod 8 ts @ ?p4) =
      Inr (ck, WriteBufAdv_i64 txn @ WriteBufAdv_pod 8 ts @ ?p4)"
    "ReadBufAdv_i64 (WriteBufAdv_i64 txn @ WriteBufAdv_pod 8 ts @ ?p4) = Inr (txn, WriteBufAdv_pod 8 ts @ ?p4)"
    "ReadBufAdv_pod 8 (WriteBufAdv_pod 8 ts @ ?p4) = Inr (ts, ?p4)"
    using body n(2) ck by (simp_all add: entry_bytes_def i32.read_write u32.read_write i64.read_write u64.read_write)
  show ?thesis
    unfolding WalEntry_ReadAdv_def Let_def frame(3) reads rbind_Inr prod.case frame(1)
    by (simp only: frame(2,4,5) nat_int if_False simp_thms)
qed


definition WalEntry_stored :: "'b wal_env \<Rightarrow> byte list \<Rightarrow> 'b WalEntry \<Rightarrow> 'b WalEntry" where
  "WalEntry_stored env w e =
     e\<lparr>we_size := int (length w), we_checksum := le_nat (take 4 (drop 4 w)), we_cmds := map (WalCmd_stored env) (we_cmds e)\<rparr>"

lemma size_sum_snoc: "size_sum ss = Inr n \<Longrightarrow> size_sum (ss @ [Inr k]) = Inr (to_i32 (n + k))"
  by (induction ss arbitrary: n) (auto simp: res_simps add.assoc)

lemma WalEntry_written:
  assumes blk: "blocks_stored env blk_ok"
    and e: "WalEntry_ok env blk_ok e"
  obtains body rest where "WalEntry_WriteAdv env (WalEntry_sized env e) =
      Inr (entry_bytes (int (12 + length body)) (unat (makeCRC (entry_bytes (int (12 + length body)) 0 body))) body)"
    "WalEntry_GetSizeInBytes env e = Inr (to_i32 (int (12 + length body) + entry_misfit env e))" "20 \<le> length body" "12 + length body < 2 ^ 31"
    "body = WriteBufAdv_i64 (we_txn_id e) @ WriteBufAdv_pod 8 (we_commit_ts e) @ WriteBufAdv_i32 (int (length (we_cmds e))) @ rest"
    "\<forall>left r. int (length rest) < left \<longrightarrow> read_cmds env (length (we_cmds e)) left (rest @ r) =
       Inr (Some (map (WalCmd_stored env) (we_cmds e), left - int (length rest), r))"
proof -
  have ok: "list_all (WalCmd_ok env blk_ok) (we_cmds e)" "length (we_cmds e) < 2 ^ 31" using e by (simp_all add: WalEntry_ok_def)
  obtain rest where rest: "wseq (map (\<lambda>c. WalCmd_WriteAdv env (WalCmd_sized env c)) (we_cmds e)) = Inr rest"
    "size_sum (map (WalCmd_GetSizeInBytes env) (we_cmds e)) = Inr (to_i32 (int (length rest) + entry_misfit env e))"
    "\<forall>left r. int (length rest) < left \<longrightarrow> read_cmds env (length (we_cmds e)) left (rest @ r) =
       Inr (Some (map (WalCmd_stored env) (we_cmds e), left - int (length rest), r))"
    using read_cmds_written [OF blk ok(1)] unfolding entry_misfit_def by blast
  have small: "32 + length rest < 2 ^ 31" using e rest(1) by (simp add: WalEntry_ok_def)
  let ?body = "WriteBufAdv_i64 (we_txn_id e) @ WriteBufAdv_pod 8 (we_commit_ts e) @ WriteBufAdv_i32 (int (length (we_cmds e))) @ rest"
  have size: "to_i32 (int (4 + 4 + length ?body) + 4) = int (12 + length ?body)"
    using small by (simp add: to_i32_id)
  have cnt: "to_i32 (int (length (we_cmds e))) = int (length (we_cmds e))" using ok(2) by (simp add: to_i32_id)
  have sized: "we_cmds (WalEntry_sized env e) = map (WalCmd_sized env) (we_cmds e)"
    "we_txn_id (WalEntry_sized env e) = we_txn_id e" "we_commit_ts (WalEntry_sized env e) = we_commit_ts e"
    by (simp_all add: WalEntry_sized_def)
  have size_all: "size_sum (map (WalCmd_GetSizeInBytes env) (we_cmds e) @ [Inr 4]) = Inr (to_i32 (int (length rest) + entry_misfit env e + 4))"
    using size_sum_snoc [OF rest(2)] by simp
  show thesis
  proof (rule that [of ?body rest])
    show "WalEntry_WriteAdv env (WalEntry_sized env e) =
      Inr (entry_bytes (int (12 + length ?body)) (unat (makeCRC (entry_bytes (int (12 + length ?body)) 0 ?body))) ?body)"
      unfolding WalEntry_WriteAdv_def Let_def sized map_map o_def rest(1) rbind_Inr length_map cnt size
      by (simp add: length_entry_bytes)
    show "WalEntry_GetSizeInBytes env e = Inr (to_i32 (int (12 + length ?body) + entry_misfit env e))"
      using size_all by (simp add: WalEntry_GetSizeInBytes_def algebra_simps)
  qed (use small rest(3) in simp_all)
qed


lemma entry_bytes_checksum: "ck < 2 ^ 32 \<Longrightarrow> le_nat (take 4 (drop 4 (entry_bytes sz ck body))) = ck"
  by (simp add: entry_bytes_def WriteBufAdv_pod_def le_nat_le_bytes)

lemma entry_bytes_ends:
  "\<exists>t. entry_bytes sz ck body = WriteBufAdv_i32 sz @ t" "\<exists>h. entry_bytes sz ck body = h @ WriteBufAdv_i32 sz"
  unfolding entry_bytes_def by (blast, rule exI [of _ "WriteBufAdv_i32 sz @ WriteBufAdv_pod 4 ck @ body"], simp)

lemma unat_u32: "unat (x :: 32 word) < 2 ^ 32"
  using unsigned_less [of x, where ?'a = nat] by simp

lemma WalEntry_image:
  assumes blk: "blocks_stored env blk_ok"
    and e: "WalEntry_ok env blk_ok e"
  obtains w where "WalEntry_WriteAdv env (WalEntry_sized env e) = Inr w"
    "WalEntry_GetSizeInBytes env e = Inr (to_i32 (int (length w) + entry_misfit env e))" "entry_image env (WalEntry_stored env w e) w"
proof -
  obtain body rest where w: "WalEntry_WriteAdv env (WalEntry_sized env e) =
      Inr (entry_bytes (int (12 + length body)) (unat (makeCRC (entry_bytes (int (12 + length body)) 0 body))) body)"
    "WalEntry_GetSizeInBytes env e = Inr (to_i32 (int (12 + length body) + entry_misfit env e))" "20 \<le> length body" "12 + length body < 2 ^ 31"
    "body = WriteBufAdv_i64 (we_txn_id e) @ WriteBufAdv_pod 8 (we_commit_ts e) @ WriteBufAdv_i32 (int (length (we_cmds e))) @ rest"
    "\<forall>left r. int (length rest) < left \<longrightarrow> read_cmds env (length (we_cmds e)) left (rest @ r) =
       Inr (Some (map (WalCmd_stored env) (we_cmds e), left - int (length rest), r))"
    by (rule WalEntry_written [OF blk e])
  define ck where "ck = unat (makeCRC (entry_bytes (int (12 + length body)) 0 body))"
  have ck: "ck < 2 ^ 32" unfolding ck_def by (rule unat_u32)
  let ?w = "entry_bytes (int (12 + length body)) ck body"
  have len: "length ?w = 12 + length body" by (simp add: length_entry_bytes)
  have ok: "- (2 ^ 63) \<le> we_txn_id e" "we_txn_id e < 2 ^ 63" "we_commit_ts e < 2 ^ 64" "length (we_cmds e) < 2 ^ 31"
    using e by (simp_all add: WalEntry_ok_def)
  have stored: "WalEntry_stored env ?w e = \<lparr>we_size = int (12 + length body), we_checksum = ck, we_txn_id = we_txn_id e,
      we_commit_ts = we_commit_ts e, we_cmds = map (WalCmd_stored env) (we_cmds e)\<rparr>"
    unfolding WalEntry_stored_def entry_bytes_checksum [OF ck] len by simp
  have lb: "length body = 20 + length rest" using w(5) by simp
  have "WalEntry_ReadAdv env (int (length ?w)) (pre @ ?w @ post) (length pre) = Inr (Some (WalEntry_stored env ?w e))" for pre post
    unfolding stored len ReadAdv_frame [OF w(5) ok(1-3) refl w(4) ck] ck_def [symmetric]
    using w(6) lb ok(4) by (simp add: i32.read_write)
  moreover have "\<exists>t. ?w = WriteBufAdv_i32 (int (length ?w)) @ t" "\<exists>h. ?w = h @ WriteBufAdv_i32 (int (length ?w))"
    unfolding len by (rule entry_bytes_ends)+
  ultimately have "entry_image env (WalEntry_stored env ?w e) ?w" using w(3,4) len by (simp add: entry_image_def)
  then show thesis using that [of ?w] w(1,2) len by (simp add: ck_def)
qed

lemma WalEntry_eq_stored: "WalEntry_eq e (WalEntry_stored env w e)"
  by (simp add: WalEntry_eq_def WalEntry_stored_def WalCmd_eq_stored)


subsection \<open>Iteration\<close>

lemma to_u64_small [simp]: "n < 2 ^ 31 \<Longrightarrow> to_u64 (int n) = n"
  by (simp add: to_u64_def nat_mod_as_int)

lemma entry_image_ends:
  assumes "entry_image env e w"
  shows "ReadBuf_i32 (pre @ w @ post) (int (length pre)) = Inr (int (length w))"
    "ReadBuf_i32 (pre @ w @ post) (int (length (pre @ w)) - 4) = Inr (int (length w))"
proof -
  obtain h t where w: "w = WriteBufAdv_i32 (int (length w)) @ t" "w = h @ WriteBufAdv_i32 (int (length w))" "length w < 2 ^ 31"
    using assms unfolding entry_image_def by blast
  have "pre @ w @ post = pre @ WriteBufAdv_i32 (int (length w)) @ t @ post" using w(1) by (metis append_assoc)
  then show "ReadBuf_i32 (pre @ w @ post) (int (length pre)) = Inr (int (length w))"
    using w(3) by (simp only:) (rule ReadBuf_i32_at; simp)
  have "length h + 4 = length w" using arg_cong [OF w(2), of length] by simp
  moreover have "pre @ w @ post = (pre @ h) @ WriteBufAdv_i32 (int (length w)) @ post" using w(2) by (metis append_assoc)
  ultimately show "ReadBuf_i32 (pre @ w @ post) (int (length (pre @ w)) - 4) = Inr (int (length w))"
    using w(3) by (simp only:) (rule ReadBuf_i32_at; simp)
qed

lemma it_Next_forward:
  assumes "entry_image env e w" "length (pre @ w @ post) < 2 ^ 63"
  shows "it_Next env \<lparr>it_is_backward = False, it_off = length pre, it_buf = pre @ w @ post\<rparr> =
    Inr (Some e, \<lparr>it_is_backward = False, it_off = length (pre @ w), it_buf = pre @ w @ post\<rparr>)"
proof -
  have w: "32 \<le> length w" "length w < 2 ^ 31"
    "WalEntry_ReadAdv env (int (length w)) (pre @ w @ post) (length pre) = Inr (Some e)"
    using assms(1) by (simp_all add: entry_image_def)
  have "u64_add (length pre) (length w) = length pre + length w" using assms(2) by (simp add: u64_add_id)
  then show ?thesis using w assms(2) entry_image_ends(1) [OF assms(1), of pre post] by (auto simp: it_Next_def)
qed

lemma it_Next_backward:
  assumes "entry_image env e w" "length (pre @ w @ post) < 2 ^ 63"
  shows "it_Next env \<lparr>it_is_backward = True, it_off = length (pre @ w), it_buf = pre @ w @ post\<rparr> =
    Inr (Some e, \<lparr>it_is_backward = True, it_off = length pre, it_buf = pre @ w @ post\<rparr>)"
proof -
  have w: "32 \<le> length w" "length w < 2 ^ 31"
    "WalEntry_ReadAdv env (int (length w)) (pre @ w @ post) (length pre) = Inr (Some e)"
    using assms(1) by (simp_all add: entry_image_def)
  have "u64_sub (length pre + length w) (length w) = length pre" using assms(2) by (simp add: u64_sub_id)
  then show ?thesis using w entry_image_ends(2) [OF assms(1), of pre post] by (auto simp: it_Next_def)
qed

text \<open>\<open>log_image env es ws\<close>: a log whose entries \<open>es\<close> are stored as the blocks of bytes \<open>ws\<close>.\<close>

definition log_image :: "'b wal_env \<Rightarrow> 'b WalEntry list \<Rightarrow> byte list list \<Rightarrow> bool" where
  "log_image env = list_all2 (entry_image env)"

lemma entry_image_nonempty: "entry_image env e w \<Longrightarrow> w \<noteq> []"
  by (auto simp: entry_image_def)

lemma GetAllEntries_forward:
  "log_image env es ws \<Longrightarrow> length (pre @ concat ws) < 2 ^ 63 \<Longrightarrow>
     GetAllEntries_loop env \<lparr>it_is_backward = False, it_off = length pre, it_buf = pre @ concat ws\<rparr> acc =
       Some (Inr (acc @ map Some es, \<lparr>it_is_backward = False, it_off = length (pre @ concat ws), it_buf = pre @ concat ws\<rparr>))"
  unfolding log_image_def
proof (induction arbitrary: pre acc rule: list_all2_induct)
  case Nil
  show ?case by (subst GetAllEntries_loop.simps) (simp add: it_HasNext_def)
next
  case (Cons e es w ws)
  note n = it_Next_forward [OF Cons.hyps(1), of pre "concat ws"] entry_image_nonempty [OF Cons.hyps(1)]
  show ?case
    using Cons.IH [of "pre @ w" "acc @ [Some e]"] Cons.prems n
    by (subst GetAllEntries_loop.simps) (simp add: it_HasNext_def)
qed

lemma GetAllEntries_backward:
  assumes "log_image env es ws" "length (concat ws @ post) < 2 ^ 63"
  shows "GetAllEntries_loop env \<lparr>it_is_backward = True, it_off = length (concat ws), it_buf = concat ws @ post\<rparr> acc =
       Some (Inr (acc @ map Some (rev es), \<lparr>it_is_backward = True, it_off = 0, it_buf = concat ws @ post\<rparr>))"
  using assms unfolding log_image_def
proof (induction ws arbitrary: es post acc rule: rev_induct)
  case Nil
  then show ?case by (subst GetAllEntries_loop.simps) (simp add: it_HasNext_def)
next
  case (snoc w ws)
  then obtain e es' where e: "es = es' @ [e]" "entry_image env e w" "list_all2 (entry_image env) es' ws"
    by (auto simp: list_all2_append2 list_all2_Cons2)
  note n = it_Next_backward [OF e(2), of "concat ws" post] entry_image_nonempty [OF e(2)]
  show ?case
    using snoc.IH [OF e(3), of "w @ post" "acc @ [Some e]"] snoc.prems n e(1)
    by (subst GetAllEntries_loop.simps) (simp add: it_HasNext_def)
qed


subsection \<open>Torn and corrupted logs\<close>

text \<open>A torn write leaves a proper prefix of the bytes of an entry at the end of the file.  With at least
  the four bytes of the size, the iterator sees that the entry does not fit and stays where it is.\<close>

definition torn_entry :: "byte list \<Rightarrow> bool" where
  "torn_entry t \<longleftrightarrow> (\<exists>n u. 4 \<le> length t \<and> length t < n \<and> n < 2 ^ 31 \<and> t = WriteBufAdv_i32 (int n) @ u)"

lemma torn_prefix:
  assumes "entry_image env e w" "4 \<le> k" "k < length w"
  shows "torn_entry (take k w)"
proof -
  obtain t where t: "w = WriteBufAdv_i32 (int (length w)) @ t" "length w < 2 ^ 31"
    using assms(1) unfolding entry_image_def by blast
  have "take k w = WriteBufAdv_i32 (int (length w)) @ take (k - 4) t"
    using assms(2) by (subst t(1)) (simp add: take_append)
  then show ?thesis using assms(2,3) t(2) unfolding torn_entry_def by (intro exI [of _ "length w"]) auto
qed

lemma it_Next_torn:
  assumes "torn_entry t" "length (pre @ t) < 2 ^ 63"
  shows "it_Next env \<lparr>it_is_backward = False, it_off = length pre, it_buf = pre @ t\<rparr> =
    Inr (None, \<lparr>it_is_backward = False, it_off = length pre, it_buf = pre @ t\<rparr>)"
proof -
  obtain n u where t: "4 \<le> length t" "length t < n" "n < 2 ^ 31" "t = WriteBufAdv_i32 (int n) @ u"
    using assms(1) by (auto simp: torn_entry_def)
  have "ReadBuf_i32 (pre @ t) (int (length pre)) = Inr (int n)"
    unfolding t(4) using t(3) by (intro ReadBuf_i32_at) simp_all
  moreover have "u64_add (length pre) n = length pre + n" using assms(2) t(3) by (simp add: u64_add_id)
  ultimately show ?thesis using t(1-3) by (auto simp: it_Next_def)
qed

lemma it_Next_short_tail:
  assumes "0 < length t" "length t < 4"
  shows "it_Next env \<lparr>it_is_backward = False, it_off = length pre, it_buf = pre @ t\<rparr> =
    Inl (UndefinedBehaviour ''read outside the buffer'')"
  using assms by (auto simp: it_Next_def ReadBuf_i32_def)

lemma GetAllEntries_loop_stuck:
  assumes "it_HasNext it" "it_Next env it = Inr (entry, it)"
  shows "GetAllEntries_loop env it acc = None"
proof -
  have "\<not> (it_HasNext it \<and> it_Next env it = Inr (entry, it))" if "GetAllEntries_loop env it acc = Some r" for r
    using that
  proof (rule GetAllEntries_loop.raw_induct [where P = "\<lambda>env it acc r. \<not> (it_HasNext it \<and> it_Next env it = Inr (entry, it))", rotated])
    fix loop env it acc r
    assume "\<And>env it acc r. loop env it acc = Some r \<Longrightarrow> \<not> (it_HasNext it \<and> it_Next env it = Inr (entry, it))"
      "(if \<not> it_HasNext it then Some (Inr (acc, it))
        else case it_Next env it of
          Inl e \<Rightarrow> Some (Inl e)
        | Inr (entry, it') \<Rightarrow> loop env it' (acc @ [entry])) = Some r"
    then show "\<not> (it_HasNext it \<and> it_Next env it = Inr (entry, it))" by auto
  qed
  then show ?thesis using assms by (cases "GetAllEntries_loop env it acc") auto
qed

lemma GetAllEntries_prefix:
  "log_image env es ws \<Longrightarrow> length (pre @ concat ws @ t) < 2 ^ 63 \<Longrightarrow>
     GetAllEntries_loop env \<lparr>it_is_backward = False, it_off = length pre, it_buf = pre @ concat ws @ t\<rparr> acc =
     GetAllEntries_loop env \<lparr>it_is_backward = False, it_off = length (pre @ concat ws), it_buf = pre @ concat ws @ t\<rparr>
       (acc @ map Some es)"
  unfolding log_image_def
proof (induction arbitrary: pre acc rule: list_all2_induct)
  case Nil
  show ?case by simp
next
  case (Cons e es w ws)
  note n = it_Next_forward [OF Cons.hyps(1), of pre "concat ws @ t"] entry_image_nonempty [OF Cons.hyps(1)]
  show ?case
    using Cons.IH [of "pre @ w" "acc @ [Some e]"] Cons.prems n
    by (subst GetAllEntries_loop.simps) (simp add: it_HasNext_def)
qed

text \<open>A wrong checksum alone makes the reader give up.\<close>

lemma ReadBufAdv_pod_long: "k \<le> length p \<Longrightarrow> ReadBufAdv_pod k p = Inr (le_nat (take k p), drop k p)"
  by (simp add: ReadBufAdv_pod_def)

lemma ReadAdv_bad_checksum:
  fixes body :: "byte list"
  assumes "16 \<le> length body" and n: "n = 12 + length body" "n < 2 ^ 31" and ck: "ck < 2 ^ 32"
    and bad: "ck \<noteq> unat (makeCRC (entry_bytes (int n) 0 body))"
  shows "WalEntry_ReadAdv env (int n) (pre @ entry_bytes (int n) ck body @ post) (length pre) = Inr None"
proof -
  let ?w = "entry_bytes (int n) ck body"
  note frame = entry_frame [OF n]
  let ?p2 = "body @ WriteBufAdv_i32 (int n) @ post"
  have reads: "ReadBufAdv_i32 (?w @ post) = Inr (int n, WriteBufAdv_pod 4 ck @ ?p2)"
    "ReadBufAdv_pod 4 (WriteBufAdv_pod 4 ck @ ?p2) = Inr (ck, ?p2)"
    using n(2) ck by (simp_all add: entry_bytes_def i32.read_write u32.read_write)
  have reads': "ReadBufAdv_i64 ?p2 = Inr (to_i64 (int (le_nat (take 8 ?p2))), drop 8 ?p2)"
    "ReadBufAdv_pod 8 (drop 8 ?p2) = Inr (le_nat (take 8 (drop 8 ?p2)), drop 8 (drop 8 ?p2))"
    using assms(1) by (simp_all only: ReadBufAdv_i64_def) (simp_all add: ReadBufAdv_pod_long)
  show ?thesis
    unfolding WalEntry_ReadAdv_def Let_def frame(3) reads reads' rbind_Inr prod.case frame(1)
    using bad by (simp only: frame(2,4,5) nat_int if_False if_True simp_thms)
qed


lemma entry_bytes_split:
  assumes "entry_bytes sz ck body = a @ x @ c" "8 \<le> length a" "4 \<le> length c"
  obtains a' c' where "a = WriteBufAdv_i32 sz @ WriteBufAdv_pod 4 ck @ a'" "c = c' @ WriteBufAdv_i32 sz" "body = a' @ x @ c'"
proof -
  let ?h = "WriteBufAdv_i32 sz @ WriteBufAdv_pod 4 ck"
  have 1: "?h @ body @ WriteBufAdv_i32 sz = a @ x @ c" using assms(1) by (simp add: entry_bytes_def)
  define a' where "a' = drop 8 a"
  have "?h = take 8 a" using arg_cong [OF 1, of "take 8"] assms(2) by simp
  then have a': "a = ?h @ a'" "body @ WriteBufAdv_i32 sz = a' @ x @ c"
    using arg_cong [OF 1, of "drop 8"] assms(2) by (simp_all only: a'_def append_take_drop_id) simp
  have "length body + 4 = length (a' @ x) + length c" using arg_cong [OF a'(2), of length] by simp
  then have le: "length a' + length x \<le> length body" using assms(3) by simp
  let ?k = "length body - (length a' + length x)"
  have "body = a' @ x @ take ?k c" using arg_cong [OF a'(2), of "take (length body)"] le by simp
  moreover have "WriteBufAdv_i32 sz = drop ?k c" using arg_cong [OF a'(2), of "drop (length body)"] le by simp
  ultimately show thesis using that [of a' "take ?k c"] a'(1) by simp
qed

subsection \<open>Properties\<close>

definition demo_entry :: "nat WalEntry" where
  "demo_entry = \<lparr>we_size = 0, we_checksum = 0, we_txn_id = 5, we_commit_ts = 9,
     we_cmds = [WalCmdAppend ''db'' ''t'' 7, WalCmdCheckpoint 8 True ''catalog'' ''f'']\<rparr>"

lemma demo_entry_ok: "WalEntry_ok demo_env (\<lambda>n. n < 2 ^ 32) demo_entry"
  by (simp add: WalEntry_ok_def demo_entry_def is_absolute_def starts_with_def demo_env_def codec_sizes)

text \<open>(C25) Corruption of a log entry is noticed: if up to four consecutive bytes between the header's
  checksum and the trailing size of a written entry are replaced by other bytes, wherever the entry
  stands, the reader gives no entry.\<close>

theorem WalEntry_corruption_detected:
  assumes "blocks_stored env blk_ok"
    and "WalEntry_ok env blk_ok e" and "WalEntry_WriteAdv env (WalEntry_sized env e) = Inr (a @ x @ c)"
    and "8 \<le> length a" and "4 \<le> length c" and "length y = length x" and "length x \<le> 4" and "y \<noteq> x"
  shows "WalEntry_ReadAdv env (int (length (a @ x @ c))) (pre @ (a @ y @ c) @ post) (length pre) = Inr None"
proof -
  obtain body rest where w: "WalEntry_WriteAdv env (WalEntry_sized env e) =
      Inr (entry_bytes (int (12 + length body)) (unat (makeCRC (entry_bytes (int (12 + length body)) 0 body))) body)"
    "20 \<le> length body" "12 + length body < 2 ^ 31" using WalEntry_written [OF assms(1,2)] by metis
  define n where "n = 12 + length body"
  define ck where "ck = unat (makeCRC (entry_bytes (int n) 0 body))"
  have eq: "entry_bytes (int n) ck body = a @ x @ c" using w(1) assms(3) by (simp add: n_def ck_def)
  obtain a' c' where s: "a = WriteBufAdv_i32 (int n) @ WriteBufAdv_pod 4 ck @ a'" "c = c' @ WriteBufAdv_i32 (int n)" "body = a' @ x @ c'"
    by (rule entry_bytes_split [OF eq assms(4,5)])
  let ?body = "a' @ y @ c'"
  have len: "length ?body = length body" using s(3) assms(6) by simp
  have "makeCRC (entry_bytes (int n) 0 ?body) \<noteq> makeCRC (entry_bytes (int n) 0 body)"
    using makeCRC_burst [of y x "WriteBufAdv_i32 (int n) @ WriteBufAdv_pod 4 0 @ a'" "c' @ WriteBufAdv_i32 (int n)"] assms(6-8)
    by (simp add: entry_bytes_def s(3))
  then have bad: "ck \<noteq> unat (makeCRC (entry_bytes (int n) 0 ?body))" by (simp add: ck_def word_unat_eq_iff)
  have "ck < 2 ^ 32" unfolding ck_def by (rule unat_u32)
  then have "WalEntry_ReadAdv env (int n) (pre @ entry_bytes (int n) ck ?body @ post) (length pre) = Inr None"
    by (intro ReadAdv_bad_checksum [OF _ _ _ _ bad]) (use w len in \<open>simp_all add: n_def\<close>)
  moreover have "int (length (a @ x @ c)) = int n" using eq [symmetric] by (simp only: length_entry_bytes n_def)
  moreover have "entry_bytes (int n) ck ?body = a @ y @ c" by (simp add: entry_bytes_def s)
  ultimately show ?thesis by (simp only:)
qed


theorem WalEntry_corruption_detected_witness:
  "\<exists>a x c y. WalEntry_WriteAdv demo_env (WalEntry_sized demo_env demo_entry) = Inr (a @ [x] @ c) \<and> y \<noteq> x \<and>
     WalEntry_ReadAdv demo_env (int (length (a @ [x] @ c))) ([] @ (a @ [y] @ c) @ []) 0 = Inr None"
proof -
  obtain w where w: "WalEntry_WriteAdv demo_env (WalEntry_sized demo_env demo_entry) = Inr w"
    "entry_image demo_env (WalEntry_stored demo_env w demo_entry) w"
    using WalEntry_image [OF demo_env_blocks demo_entry_ok] by metis
  have long: "32 \<le> length w" using w(2) by (simp add: entry_image_def)
  let ?a = "take 8 w" and ?x = "w ! 8" and ?c = "drop 9 w"
  have split: "w = ?a @ [?x] @ ?c" using long id_take_nth_drop [of 8 w] by simp
  have ws: "WalEntry_WriteAdv demo_env (WalEntry_sized demo_env demo_entry) = Inr (?a @ [?x] @ ?c)"
    unfolding split [symmetric] by (rule w(1))
  have "?x + 1 \<noteq> ?x" by simp
  moreover have "WalEntry_ReadAdv demo_env (int (length (?a @ [?x] @ ?c))) ([] @ (?a @ [?x + 1] @ ?c) @ []) (length ([] :: byte list)) = Inr None"
    by (rule WalEntry_corruption_detected [OF demo_env_blocks demo_entry_ok ws]) (use long in simp_all)
  ultimately show ?thesis using ws unfolding list.size(3) by blast
qed

text \<open>The entries of a log that was written entry by entry.\<close>

lemma log_image_written:
  assumes blk: "blocks_stored env blk_ok"
  shows "list_all2 (\<lambda>e w. WalEntry_ok env blk_ok e \<and> WalEntry_WriteAdv env (WalEntry_sized env e) = Inr w) es ws \<Longrightarrow>
    \<exists>ds. log_image env ds ws \<and> list_all2 WalEntry_eq es ds"
proof (induction rule: list_all2_induct)
  case Nil
  show ?case by (simp add: log_image_def)
next
  case (Cons e es w ws)
  obtain ds where ds: "log_image env ds ws" "list_all2 WalEntry_eq es ds" using Cons.IH by blast
  have "entry_image env (WalEntry_stored env w e) w"
    using WalEntry_image [OF blk] Cons.hyps(1) by (metis sum.inject(2))
  then show ?case
    using ds WalEntry_eq_stored [of e env w] by (intro exI [of _ "WalEntry_stored env w e # ds"]) (simp add: log_image_def)
qed

text \<open>(C26) Reading a log gives back what was written, in both directions: for a file that holds the
  bytes of any number of entries, one after the other, \<^verbatim>\<open>GetAllEntries\<close> returns, forward and
  backward, the same list of entries, equal to those written and in the order of writing, and the
  iterator has consumed the whole file (\<^verbatim>\<open>IsGood\<close>).\<close>

theorem GetAllEntries_both_directions:
  assumes "blocks_stored env blk_ok"
    and "list_all2 (\<lambda>e w. WalEntry_ok env blk_ok e \<and> WalEntry_WriteAdv env (WalEntry_sized env e) = Inr w) es ws"
    and "length (concat ws) < 2 ^ 63" and "d path = Some (concat ws)"
    and "WalEntryIterator_Make d path False = Inr fwd" and "WalEntryIterator_Make d path True = Inr bwd"
  shows "\<exists>ds fwd' bwd'. list_all2 WalEntry_eq es ds \<and>
     GetAllEntries env fwd = Some (Inr (map Some ds, fwd')) \<and> it_IsGood fwd' \<and>
     GetAllEntries env bwd = Some (Inr (map Some ds, bwd')) \<and> it_IsGood bwd'"
proof -
  obtain ds where ds: "log_image env ds ws" "list_all2 WalEntry_eq es ds" using log_image_written [OF assms(1,2)] by blast
  have it: "fwd = \<lparr>it_is_backward = False, it_off = 0, it_buf = concat ws\<rparr>"
    "bwd = \<lparr>it_is_backward = True, it_off = length (concat ws), it_buf = concat ws\<rparr>"
    using assms(4-6) by (simp_all add: WalEntryIterator_Make_def)
  show ?thesis
    using GetAllEntries_forward [OF ds(1), of "[]" "[]"] GetAllEntries_backward [OF ds(1), of "[]" "[]"] ds(2) assms(3)
    by (intro exI [of _ ds]) (simp add: it GetAllEntries_def it_IsGood_def rev_map)
qed

theorem GetAllEntries_both_directions_witness:
  "\<exists>ds it' path d it. d path \<noteq> None \<and> WalEntryIterator_Make d path True = Inr it \<and>
     GetAllEntries demo_env it = Some (Inr (map Some ds, it')) \<and> list_all2 WalEntry_eq [demo_entry, demo_entry] ds"
proof -
  obtain w where w: "WalEntry_WriteAdv demo_env (WalEntry_sized demo_env demo_entry) = Inr w"
    "entry_image demo_env (WalEntry_stored demo_env w demo_entry) w"
    using WalEntry_image [OF demo_env_blocks demo_entry_ok] by metis
  let ?d = "[''wal.log'' \<mapsto> concat [w, w]]"
  obtain f b where it: "WalEntryIterator_Make ?d ''wal.log'' False = Inr f" "WalEntryIterator_Make ?d ''wal.log'' True = Inr b"
    by (simp add: WalEntryIterator_Make_def)
  have "length (concat [w, w]) < 2 ^ 63" using w(2) by (simp add: entry_image_def)
  then obtain ds f' b' where "list_all2 WalEntry_eq [demo_entry, demo_entry] ds" "GetAllEntries demo_env b = Some (Inr (map Some ds, b'))"
    using GetAllEntries_both_directions [OF demo_env_blocks _ _ _ it, of "[demo_entry, demo_entry]" "[w, w]"] w(1) demo_entry_ok
    by auto
  moreover have "?d ''wal.log'' \<noteq> None" by simp
  ultimately show ?thesis using it(2) by blast
qed


text \<open>(C29) Reading a log forwards when its last entry was not written to its end: once the four bytes of the size of that
  entry are in the file, \<^verbatim>\<open>GetAllEntries\<close> does not return.  After the complete entries the iterator stays at the torn one, \<^verbatim>\<open>HasNext\<close> stays true,
  and the loop appends null entries forever.  With fewer bytes of it, one to three, \<^verbatim>\<open>Next\<close> reads the size behind the end of the buffer,
  which is undefined behaviour.\<close>

theorem GetAllEntries_torn_never_returns:
  assumes "blocks_stored env blk_ok"
    and "list_all2 (\<lambda>e w. WalEntry_ok env blk_ok e \<and> WalEntry_WriteAdv env (WalEntry_sized env e) = Inr w) (es @ [e]) (ws @ [w])"
    and "0 < k" and "k < length w" and "length (concat ws @ w) < 2 ^ 63" and "d path = Some (concat ws @ take k w)"
    and "WalEntryIterator_Make d path False = Inr fwd"
  shows "GetAllEntries env fwd = (if 4 \<le> k then None else Some (Inl (UndefinedBehaviour ''read outside the buffer'')))"
proof -
  obtain ds where ds: "log_image env ds (ws @ [w])" using log_image_written [OF assms(1,2)] by blast
  then obtain ds' e' where ds': "log_image env ds' ws" "entry_image env e' w"
    by (auto simp: log_image_def list_all2_append2 list_all2_Cons2)
  let ?it = "\<lambda>off. \<lparr>it_is_backward = False, it_off = off, it_buf = concat ws @ take k w\<rparr>"
  have len: "length (concat ws @ take k w) < 2 ^ 63" using assms(4,5) by simp
  have more: "it_HasNext (?it (length (concat ws)))" using assms(3,4) by (simp add: it_HasNext_def)
  have tail: "GetAllEntries_loop env (?it (length (concat ws))) acc =
      (if 4 \<le> k then None else Some (Inl (UndefinedBehaviour ''read outside the buffer'')))" for acc
  proof (cases "4 \<le> k")
    case True
    have "it_Next env (?it (length (concat ws))) = Inr (None, ?it (length (concat ws)))"
      by (rule it_Next_torn [OF torn_prefix [OF ds'(2) True assms(4)] len])
    then show ?thesis using GetAllEntries_loop_stuck [OF more] True by simp
  next
    case False
    have "it_Next env (?it (length (concat ws))) = Inl (UndefinedBehaviour ''read outside the buffer'')"
      by (rule it_Next_short_tail) (use False assms(3,4) in simp_all)
    then show ?thesis using more False by (subst GetAllEntries_loop.simps) simp
  qed
  have "GetAllEntries_loop env (?it 0) [] = (if 4 \<le> k then None else Some (Inl (UndefinedBehaviour ''read outside the buffer'')))"
    using GetAllEntries_prefix [OF ds'(1), of "[]" "take k w" "[]"] len tail by simp
  moreover have "fwd = ?it 0" using assms(6,7) by (simp add: WalEntryIterator_Make_def)
  ultimately show ?thesis by (simp add: GetAllEntries_def)
qed

theorem GetAllEntries_torn_never_returns_witness:
  "\<exists>d it. WalEntryIterator_Make d ''wal.log'' False = Inr it \<and> GetAllEntries demo_env it = None"
proof -
  obtain w where w: "WalEntry_WriteAdv demo_env (WalEntry_sized demo_env demo_entry) = Inr w"
    "entry_image demo_env (WalEntry_stored demo_env w demo_entry) w"
    using WalEntry_image [OF demo_env_blocks demo_entry_ok] by metis
  let ?d = "[''wal.log'' \<mapsto> concat [w] @ take 9 w]"
  obtain f where it: "WalEntryIterator_Make ?d ''wal.log'' False = Inr f" by (simp add: WalEntryIterator_Make_def)
  have "32 \<le> length w" "length (concat [w] @ w) < 2 ^ 63" using w(2) by (simp_all add: entry_image_def)
  then have "GetAllEntries demo_env f = None"
    using GetAllEntries_torn_never_returns [OF demo_env_blocks _ _ _ _ _ it, of "[demo_entry]" demo_entry "[w]" w 9] w(1) demo_entry_ok
    by simp
  then show ?thesis using it by blast
qed

end
