(* ===== verification/Wal_List.thy ===== *)
theory Wal_List
  imports Wal_Entry
begin

text \<open>
  Reading a list of log files from the newest entry to the oldest (\<^verbatim>\<open>WalListIterator\<close> of
  \<^verbatim>\<open>src/src/storage/wal/wal_entry.cpp\<close>).  The constructor first repairs the files after a crash:
  \<^verbatim>\<open>PurgeBadEntriesAfterLatestCheckpoint\<close> goes through the files from the newest to the first one with
  a checkpoint, cuts each file at its first bad entry and forgets all files newer than it.

  \<^item> The disk is a map from paths to bytes; \<^verbatim>\<open>VirtualStore::DeleteFile\<close> and \<^verbatim>\<open>Truncate\<close> change it.
  \<^item> \<open>purge_files\<close> has the files before \<^verbatim>\<open>it\<close> (there are \<^verbatim>\<open>file_num\<close> of them) and those from \<^verbatim>\<open>it\<close> on as
    two lists; together they are \<^verbatim>\<open>wal_list_\<close>.
  \<^item> The scan of one file is a loop over an iterator and a partial function; \<open>None\<close> is not returning.
\<close>

subsection \<open>Repair\<close>

partial_function (option) purge_scan ::
    "'b wal_env \<Rightarrow> WalEntryIterator \<Rightarrow> bool \<Rightarrow> (bool \<times> nat option) res option" where
  "purge_scan env it found_checkpoint =
     (if \<not> it_HasNext it then Some (Inr (found_checkpoint, None))
      else case it_Next env it of
        Inl e \<Rightarrow> Some (Inl e)
      | Inr (entry, it') \<Rightarrow>
          (case entry of
             Some e \<Rightarrow> purge_scan env it' (if fst (IsCheckPoint e) then True else found_checkpoint)
           | None \<Rightarrow> Some (Inr (found_checkpoint, Some (it_off it')))))"

definition purge_bad :: "nat option \<Rightarrow> string \<Rightarrow> disk \<Rightarrow> string list \<Rightarrow> (disk \<times> string list) res" where
  "purge_bad bad_offset f d before =
     (case bad_offset of
        Some off \<Rightarrow>
          if off = 0 then rbind (vs_DeleteFile f d) (\<lambda>d'. Inr (d', []))
          else rbind (vs_Truncate f off d) (\<lambda>d'. Inr (d', [f]))
      | None \<Rightarrow> Inr (d, before @ [f]))"

fun purge_files :: "'b wal_env \<Rightarrow> string list \<Rightarrow> disk \<Rightarrow> string list \<Rightarrow> (disk \<times> string list) res option" where
  "purge_files env [] d before = Some (Inr (d, before))"
| "purge_files env (f # gs) d before =
     (case WalEntryIterator_Make d f False of
        Inl e \<Rightarrow> Some (Inl e)
      | Inr it \<Rightarrow>
          (case purge_scan env it False of
             None \<Rightarrow> None
           | Some (Inl e) \<Rightarrow> Some (Inl e)
           | Some (Inr (found_checkpoint, bad_offset)) \<Rightarrow>
               (case purge_bad bad_offset f d before of
                  Inl e \<Rightarrow> Some (Inl e)
                | Inr (d', before') \<Rightarrow>
                    if found_checkpoint then Some (Inr (d', before' @ gs))
                    else purge_files env gs d' before')))"

definition PurgeBadEntriesAfterLatestCheckpoint ::
    "'b wal_env \<Rightarrow> disk \<Rightarrow> string list \<Rightarrow> (disk \<times> string list) res option" where
  "PurgeBadEntriesAfterLatestCheckpoint env d wal_list = purge_files env wal_list d []"

subsection \<open>The iterator\<close>

record WalListIterator =
  wl_list :: "string list"
  wl_iter :: "WalEntryIterator option"

definition WalListIterator_new :: "'b wal_env \<Rightarrow> disk \<Rightarrow> string list \<Rightarrow> (disk \<times> WalListIterator) res option" where
  "WalListIterator_new env d wal_list =
     (if wal_list = [] then Some (Inl (AssertionFailure ''!wal_list.empty()''))
      else case PurgeBadEntriesAfterLatestCheckpoint env d wal_list of
          None \<Rightarrow> None
        | Some (Inl e) \<Rightarrow> Some (Inl e)
        | Some (Inr (d', gs)) \<Rightarrow>
            (case gs of
               [] \<Rightarrow> Some (Inr (d', \<lparr>wl_list = [], wl_iter = None\<rparr>))
             | f # _ \<Rightarrow>
                 (case WalEntryIterator_Make d' f True of
                    Inl e \<Rightarrow> Some (Inl e)
                  | Inr it \<Rightarrow> Some (Inr (d', \<lparr>wl_list = gs, wl_iter = Some it\<rparr>)))))"

fun wl_advance :: "disk \<Rightarrow> string list \<Rightarrow> WalEntryIterator \<Rightarrow> (bool \<times> WalListIterator) res" where
  "wl_advance d (f # g # gs) it =
     (case WalEntryIterator_Make d g True of
        Inl e \<Rightarrow> Inl e
      | Inr it' \<Rightarrow>
          if it_HasNext it' then Inr (True, \<lparr>wl_list = g # gs, wl_iter = Some it'\<rparr>)
          else wl_advance d (g # gs) it')"
| "wl_advance d gs it = Inr (False, \<lparr>wl_list = gs, wl_iter = Some it\<rparr>)"

definition wl_HasNext :: "disk \<Rightarrow> WalListIterator \<Rightarrow> (bool \<times> WalListIterator) res" where
  "wl_HasNext d li =
     (case wl_iter li of
        None \<Rightarrow> Inr (False, li)
      | Some it \<Rightarrow> if it_HasNext it then Inr (True, li) else wl_advance d (wl_list li) it)"

definition wl_Next :: "'b wal_env \<Rightarrow> WalListIterator \<Rightarrow> ('b WalEntry option \<times> WalListIterator) res" where
  "wl_Next env li =
     (case wl_iter li of
        None \<Rightarrow> Inl (UndefinedBehaviour ''null iterator'')
      | Some it \<Rightarrow> rbind (it_Next env it) (\<lambda>(entry, it'). Inr (entry, li\<lparr>wl_iter := Some it'\<rparr>)))"

subsection \<open>Scanning one file\<close>

definition has_checkpoint :: "'b WalEntry list \<Rightarrow> bool" where
  "has_checkpoint es \<longleftrightarrow> list_ex (\<lambda>e. fst (IsCheckPoint e)) es"

lemma purge_scan_prefix:
  "log_image env es ws \<Longrightarrow> length (pre @ concat ws @ t) < 2 ^ 63 \<Longrightarrow>
     purge_scan env \<lparr>it_is_backward = False, it_off = length pre, it_buf = pre @ concat ws @ t\<rparr> found =
     purge_scan env \<lparr>it_is_backward = False, it_off = length (pre @ concat ws), it_buf = pre @ concat ws @ t\<rparr>
       (found \<or> has_checkpoint es)"
  unfolding log_image_def
proof (induction arbitrary: pre found rule: list_all2_induct)
  case Nil
  show ?case by (simp add: has_checkpoint_def)
next
  case (Cons e es w ws)
  note n = it_Next_forward [OF Cons.hyps(1), of pre "concat ws @ t"] entry_image_nonempty [OF Cons.hyps(1)]
  show ?case
    using Cons.IH [of "pre @ w" "if fst (IsCheckPoint e) then True else found"] Cons.prems n
    by (subst purge_scan.simps) (simp add: it_HasNext_def has_checkpoint_def)
qed

text \<open>A complete file, and a file with a torn last entry.\<close>

lemma purge_scan_complete:
  assumes "log_image env es ws" "length (concat ws) < 2 ^ 63"
  shows "purge_scan env \<lparr>it_is_backward = False, it_off = 0, it_buf = concat ws\<rparr> found = Some (Inr (found \<or> has_checkpoint es, None))"
proof -
  have "purge_scan env \<lparr>it_is_backward = False, it_off = length (concat ws), it_buf = concat ws\<rparr> f = Some (Inr (f, None))" for f
    by (subst purge_scan.simps) (simp add: it_HasNext_def)
  then show ?thesis using purge_scan_prefix [OF assms(1), of "[]" "[]" found] assms(2) by simp
qed

lemma purge_scan_torn:
  assumes "log_image env es ws" "torn_entry t" "length (concat ws @ t) < 2 ^ 63"
  shows "purge_scan env \<lparr>it_is_backward = False, it_off = 0, it_buf = concat ws @ t\<rparr> found =
    Some (Inr (found \<or> has_checkpoint es, Some (length (concat ws))))"
proof -
  have "t \<noteq> []" using assms(2) by (auto simp: torn_entry_def)
  then have "purge_scan env \<lparr>it_is_backward = False, it_off = length (concat ws), it_buf = concat ws @ t\<rparr> f =
      Some (Inr (f, Some (length (concat ws))))" for f
    by (subst purge_scan.simps) (simp add: it_HasNext_def it_Next_torn [OF assms(2,3)])
  then show ?thesis using purge_scan_prefix [OF assms(1), of "[]" t found] assms(3) by simp
qed

subsection \<open>What repair means\<close>

text \<open>A log file as it may stand after a crash: its path, its complete entries with their bytes, and the
  rest of an entry that was not written to its end.\<close>

type_synonym 'b log_file = "string \<times> 'b WalEntry list \<times> byte list list \<times> byte list"

abbreviation lf_path :: "'b log_file \<Rightarrow> string" where "lf_path \<equiv> fst"
abbreviation lf_entries :: "'b log_file \<Rightarrow> 'b WalEntry list" where "lf_entries f \<equiv> fst (snd f)"
abbreviation lf_bytes :: "'b log_file \<Rightarrow> byte list" where "lf_bytes f \<equiv> concat (fst (snd (snd f)))"
abbreviation lf_torn :: "'b log_file \<Rightarrow> byte list" where "lf_torn f \<equiv> snd (snd (snd f))"

definition on_disk :: "'b wal_env \<Rightarrow> disk \<Rightarrow> 'b log_file \<Rightarrow> bool" where
  "on_disk env d = (\<lambda>(p, es, ws, t). log_image env es ws \<and> (t = [] \<or> torn_entry t) \<and>
     length (concat ws @ t) < 2 ^ 63 \<and> d p = Some (concat ws @ t) \<and> is_absolute p)"

definition cut :: "'b log_file \<Rightarrow> 'b log_file" where
  "cut = (\<lambda>(p, es, ws, t). (p, es, ws, []))"

text \<open>The files that remain: newer files than a torn one are dropped, the torn one is cut, or dropped
  when no entry of it is left.\<close>

fun recover :: "'b log_file list \<Rightarrow> 'b log_file list \<Rightarrow> 'b log_file list" where
  "recover [] before = before"
| "recover (f # gs) before =
     (let before' = (if lf_torn f = [] then before @ [f] else if lf_entries f = [] then [] else [cut f])
      in if has_checkpoint (lf_entries f) then before' @ gs else recover gs before')"

text \<open>The disk after the repair: a torn file up to the first one with a checkpoint loses its torn entry, or is deleted when nothing
  else is in it; all other files are as they were, those that leave the list included.\<close>

definition repair_file :: "'b log_file \<Rightarrow> disk \<Rightarrow> disk" where
  "repair_file f d =
     (if lf_torn f = [] then d else d(lf_path f := if lf_entries f = [] then None else Some (lf_bytes f)))"

fun repair_disk :: "'b log_file list \<Rightarrow> disk \<Rightarrow> disk" where
  "repair_disk [] d = d"
| "repair_disk (f # gs) d = (if has_checkpoint (lf_entries f) then repair_file f d else repair_disk gs (repair_file f d))"

lemma on_disk_cong: "d (lf_path f) = d' (lf_path f) \<Longrightarrow> on_disk env d f = on_disk env d' f"
  by (simp add: on_disk_def case_prod_beta)

lemma log_image_Nil: "log_image env es ws \<Longrightarrow> es = [] \<longleftrightarrow> concat ws = []"
  unfolding log_image_def using entry_image_nonempty [of env] by (cases es) (auto simp: list_all2_Cons1)

lemma purge_file:
  assumes "on_disk env d f"
  obtains it where "WalEntryIterator_Make d (lf_path f) False = Inr it"
    "purge_scan env it False =
       Some (Inr (has_checkpoint (lf_entries f),
         if lf_torn f = [] then None else Some (length (lf_bytes f))))"
proof -
  obtain p es ws t where f: "f = (p, es, ws, t)" by (cases f)
  have d: "log_image env es ws" "t = [] \<or> torn_entry t" "length (concat ws @ t) < 2 ^ 63" "d p = Some (concat ws @ t)" "is_absolute p"
    using assms by (simp_all add: on_disk_def f)
  have mk: "WalEntryIterator_Make d p False = Inr \<lparr>it_is_backward = False, it_off = 0, it_buf = concat ws @ t\<rparr>"
    using d(4) by (simp add: WalEntryIterator_Make_def)
  show thesis
  proof (cases "t = []")
    case True
    show thesis
      by (rule that [of "\<lparr>it_is_backward = False, it_off = 0, it_buf = concat ws @ t\<rparr>"])
         (use mk purge_scan_complete [OF d(1), of False] d(3) True in \<open>simp_all add: f\<close>)
  next
    case False
    then have "torn_entry t" using d(2) by simp
    from purge_scan_torn [OF d(1) this d(3), of False] mk False show thesis
      by (intro that [of "\<lparr>it_is_backward = False, it_off = 0, it_buf = concat ws @ t\<rparr>"]) (simp_all add: f)
  qed
qed

text \<open>One step of the repair on the disk and on the list of files.\<close>

lemma purge_bad_file:
  assumes "on_disk env d f" "\<forall>g \<in> set before. on_disk env d g \<and> lf_path g \<noteq> lf_path f"
  defines "bad \<equiv> (if lf_torn f = [] then None else Some (length (lf_bytes f)))"
    and "before' \<equiv> (if lf_torn f = [] then before @ [f] else if lf_entries f = [] then [] else [cut f])"
  shows "purge_bad bad (lf_path f) d (map lf_path before) = Inr (repair_file f d, map lf_path before')"
    "\<forall>g \<in> set before'. on_disk env (repair_file f d) g" "\<forall>p. p \<noteq> lf_path f \<longrightarrow> repair_file f d p = d p"
proof -
  obtain p es ws t where f: "f = (p, es, ws, t)" by (cases f)
  have d: "log_image env es ws" "t = [] \<or> torn_entry t" "length (concat ws @ t) < 2 ^ 63" "d p = Some (concat ws @ t)" "is_absolute p"
    using assms(1) by (simp_all add: on_disk_def f)
  have empty: "es = [] \<longleftrightarrow> concat ws = []" by (rule log_image_Nil [OF d(1)])
  consider "t = []" | "t \<noteq> []" "es = []" | "t \<noteq> []" "es \<noteq> []" by blast
  then have "purge_bad bad (lf_path f) d (map lf_path before) = Inr (repair_file f d, map lf_path before') \<and>
    (\<forall>g \<in> set before'. on_disk env (repair_file f d) g)"
  proof cases
    case 1
    then show ?thesis using assms(1,2) by (auto simp: f bad_def before'_def purge_bad_def repair_file_def)
  next
    case 2
    then show ?thesis using empty d(5) by (simp add: f bad_def before'_def purge_bad_def repair_file_def vs_defs)
  next
    case 3
    then have "length (concat ws) \<noteq> 0" using empty by simp
    then show ?thesis using 3 d by (auto simp: f bad_def before'_def purge_bad_def repair_file_def cut_def on_disk_def vs_Truncate_shorter)
  qed
  then show "purge_bad bad (lf_path f) d (map lf_path before) = Inr (repair_file f d, map lf_path before')"
    "\<forall>g \<in> set before'. on_disk env (repair_file f d) g" by simp_all
  show "\<forall>p. p \<noteq> lf_path f \<longrightarrow> repair_file f d p = d p" by (simp add: repair_file_def)
qed

lemma purge_files_recover:
  assumes "\<forall>f \<in> set (before @ gs). on_disk env d f" "distinct (map lf_path (before @ gs))"
  shows "purge_files env (map lf_path gs) d (map lf_path before) = Some (Inr (repair_disk gs d, map lf_path (recover gs before))) \<and>
    (\<forall>f \<in> set (recover gs before). on_disk env (repair_disk gs d) f)"
  using assms
proof (induction gs arbitrary: d before)
  case Nil
  then show ?case by simp
next
  case (Cons f gs)
  let ?before' = "if lf_torn f = [] then before @ [f] else if lf_entries f = [] then [] else [cut f]"
  let ?d1 = "repair_file f d"
  have f: "on_disk env d f" using Cons.prems(1) by simp
  obtain it where it: "WalEntryIterator_Make d (lf_path f) False = Inr it" "purge_scan env it False =
      Some (Inr (has_checkpoint (lf_entries f), if lf_torn f = [] then None else Some (length (lf_bytes f))))"
    by (rule purge_file [OF f])
  have "lf_path f \<notin> lf_path ` set before" "lf_path f \<notin> lf_path ` set gs" using Cons.prems(2) by simp_all
  then have apart: "g \<in> set before \<union> set gs \<Longrightarrow> lf_path g \<noteq> lf_path f" for g by (metis UnE image_eqI)
  then have other: "\<forall>g \<in> set before. on_disk env d g \<and> lf_path g \<noteq> lf_path f" using Cons.prems(1) by simp
  note d1 = purge_bad_file [OF f other]
  have "on_disk env ?d1 g" if "g \<in> set gs" for g
    using that Cons.prems(1) d1(3) apart [of g] on_disk_cong [of ?d1 g d env] by simp
  then have all: "\<forall>g \<in> set (?before' @ gs). on_disk env ?d1 g" using d1(2) by auto
  have "lf_path (cut f) = lf_path f" by (simp add: cut_def case_prod_beta)
  then have dist: "distinct (map lf_path (?before' @ gs))" using Cons.prems(2) by auto
  show ?case
  proof (cases "has_checkpoint (lf_entries f)")
    case True
    then show ?thesis using it d1(1) all by (simp add: Let_def)
  next
    case False
    then show ?thesis using it d1(1) Cons.IH [OF all dist] by (simp add: Let_def)
  qed
qed

text \<open>A tail too short for a size ends the repair of the newest file.\<close>

lemma purge_short_tail:
  assumes "log_image env es ws" "0 < length t" "length t < 4" "length (concat ws @ t) < 2 ^ 63" "d p = Some (concat ws @ t)"
  shows "WalListIterator_new env d (p # ps) = Some (Inl (UndefinedBehaviour ''read outside the buffer''))"
proof -
  have "purge_scan env \<lparr>it_is_backward = False, it_off = length (concat ws), it_buf = concat ws @ t\<rparr> found =
      Some (Inl (UndefinedBehaviour ''read outside the buffer''))" for found
    using assms(2) it_Next_short_tail [OF assms(2,3), of env "concat ws"] by (subst purge_scan.simps) (simp add: it_HasNext_def)
  then show ?thesis
    using purge_scan_prefix [OF assms(1), of "[]" t False] assms(4,5)
    by (simp add: WalListIterator_new_def PurgeBadEntriesAfterLatestCheckpoint_def WalEntryIterator_Make_def)
qed

subsection \<open>Iterating over complete files\<close>

text \<open>\<open>wl_rep env d li R\<close>: the entries that the iterator has still to give are \<open>R\<close>, newest first.\<close>

definition wl_rep :: "'b wal_env \<Rightarrow> disk \<Rightarrow> WalListIterator \<Rightarrow> 'b WalEntry list \<Rightarrow> bool" where
  "wl_rep env d li R \<longleftrightarrow>
     (wl_iter li = None \<and> R = []) \<or>
     (\<exists>f gs es ws post. wl_list li = f # map lf_path gs \<and>
        wl_iter li = Some \<lparr>it_is_backward = True, it_off = length (concat ws), it_buf = concat ws @ post\<rparr> \<and>
        length (concat ws @ post) < 2 ^ 63 \<and> log_image env es ws \<and> (\<forall>g \<in> set gs. on_disk env d g \<and> lf_torn g = []) \<and>
        R = rev es @ concat (map (\<lambda>g. rev (lf_entries g)) gs))"

definition wl_ready :: "WalListIterator \<Rightarrow> bool" where
  "wl_ready li \<longleftrightarrow> (case wl_iter li of None \<Rightarrow> False | Some it \<Rightarrow> it_HasNext it)"

lemma Make_backward:
  assumes "on_disk env d g" "lf_torn g = []"
  obtains ws where "WalEntryIterator_Make d (lf_path g) True =
      Inr \<lparr>it_is_backward = True, it_off = length (concat ws), it_buf = concat ws @ []\<rparr>"
    "log_image env (lf_entries g) ws" "length (concat ws @ []) < 2 ^ 63"
proof -
  obtain p es ws t where g: "g = (p, es, ws, t)" by (cases g)
  show thesis
    by (rule that [of ws]) (use assms in \<open>simp_all add: g on_disk_def WalEntryIterator_Make_def\<close>)
qed

lemma wl_advance_rep:
  assumes "\<forall>g \<in> set gs. on_disk env d g \<and> lf_torn g = []" "R = concat (map (\<lambda>g. rev (lf_entries g)) gs)"
    and "\<not> it_HasNext it" "it_is_backward it" "length (it_buf it) < 2 ^ 63"
  shows "\<exists>li. wl_advance d (f # map lf_path gs) it = Inr (R \<noteq> [], li) \<and> wl_rep env d li R \<and> (R \<noteq> [] \<longrightarrow> wl_ready li)"
  using assms
proof (induction gs arbitrary: f it R)
  case Nil
  then have "it = \<lparr>it_is_backward = True, it_off = length (concat []), it_buf = concat [] @ it_buf it\<rparr>"
    by (cases it) (simp add: it_HasNext_def)
  then have "wl_rep env d \<lparr>wl_list = [f], wl_iter = Some it\<rparr> []"
    unfolding wl_rep_def using Nil(5)
    by (intro disjI2 exI [of _ f] exI [of _ "[]"] exI [of _ "it_buf it"]) (simp add: log_image_def)
  then show ?case using Nil by simp
next
  case (Cons g gs)
  have g: "on_disk env d g" "lf_torn g = []" using Cons.prems(1) by simp_all
  obtain ws where ws: "WalEntryIterator_Make d (lf_path g) True =
      Inr \<lparr>it_is_backward = True, it_off = length (concat ws), it_buf = concat ws @ []\<rparr>"
    "log_image env (lf_entries g) ws" "length (concat ws @ []) < 2 ^ 63" by (rule Make_backward [OF g])
  let ?it = "\<lparr>it_is_backward = True, it_off = length (concat ws), it_buf = concat ws @ []\<rparr>"
  let ?R = "concat (map (\<lambda>g. rev (lf_entries g)) gs)"
  have empty: "it_HasNext ?it \<longleftrightarrow> lf_entries g \<noteq> []" using log_image_Nil [OF ws(2)] by (simp add: it_HasNext_def)
  show ?case
  proof (cases "it_HasNext ?it")
    case True
    have "wl_rep env d \<lparr>wl_list = lf_path g # map lf_path gs, wl_iter = Some ?it\<rparr> R"
      unfolding wl_rep_def using ws Cons.prems(1,2)
      by (intro disjI2 exI [of _ "lf_path g"] exI [of _ gs] exI [of _ "lf_entries g"] exI [of _ ws] exI [of _ "[]"]) simp
    moreover have "R \<noteq> []" using True empty Cons.prems(2) by simp
    ultimately show ?thesis using ws(1) True by (simp add: wl_ready_def)
  next
    case False
    have "\<exists>li. wl_advance d (lf_path g # map lf_path gs) ?it = Inr (?R \<noteq> [], li) \<and> wl_rep env d li ?R \<and> (?R \<noteq> [] \<longrightarrow> wl_ready li)"
      by (rule Cons.IH) (use Cons.prems(1) False ws(3) in simp_all)
    moreover have "R = ?R" using False empty Cons.prems(2) by simp
    ultimately show ?thesis using ws(1) False by simp
  qed
qed

lemma wl_HasNext_rep:
  assumes "wl_rep env d li R"
  obtains li' where "wl_HasNext d li = Inr (R \<noteq> [], li')" "wl_rep env d li' R" "R \<noteq> [] \<Longrightarrow> wl_ready li'"
proof (cases "wl_iter li")
  case None
  then have "R = []" using assms by (auto simp: wl_rep_def)
  then show thesis using that [of li] None assms by (simp add: wl_HasNext_def)
next
  case (Some it)
  then obtain f gs es ws post where r: "wl_list li = f # map lf_path gs"
    "it = \<lparr>it_is_backward = True, it_off = length (concat ws), it_buf = concat ws @ post\<rparr>"
    "length (concat ws @ post) < 2 ^ 63" "log_image env es ws" "\<forall>g \<in> set gs. on_disk env d g \<and> lf_torn g = []"
    "R = rev es @ concat (map (\<lambda>g. rev (lf_entries g)) gs)"
    using assms by (auto simp: wl_rep_def)
  have more: "it_HasNext it \<longleftrightarrow> es \<noteq> []" using log_image_Nil [OF r(4)] by (simp add: r(2) it_HasNext_def)
  show thesis
  proof (cases "it_HasNext it")
    case True
    then show thesis using that [of li] Some assms more r(6) by (simp add: wl_HasNext_def wl_ready_def)
  next
    case False
    have "\<exists>li'. wl_advance d (f # map lf_path gs) it = Inr (R \<noteq> [], li') \<and> wl_rep env d li' R \<and> (R \<noteq> [] \<longrightarrow> wl_ready li')"
      by (rule wl_advance_rep [OF r(5)]) (use False more r(2,3,6) in simp_all)
    then obtain li' where "wl_advance d (f # map lf_path gs) it = Inr (R \<noteq> [], li')" "wl_rep env d li' R" "R \<noteq> [] \<longrightarrow> wl_ready li'"
      by blast
    then show thesis using that [of li'] Some False r(1) by (simp add: wl_HasNext_def)
  qed
qed

lemma wl_Next_rep:
  assumes "wl_rep env d li R" "wl_ready li"
  obtains e R' li' where "R = e # R'" "wl_Next env li = Inr (Some e, li')" "wl_rep env d li' R'"
proof -
  obtain it where it: "wl_iter li = Some it" "it_HasNext it" using assms(2) by (auto simp: wl_ready_def split: option.splits)
  then obtain f gs es ws post where r: "wl_list li = f # map lf_path gs"
    "it = \<lparr>it_is_backward = True, it_off = length (concat ws), it_buf = concat ws @ post\<rparr>"
    "length (concat ws @ post) < 2 ^ 63" "log_image env es ws" "\<forall>g \<in> set gs. on_disk env d g \<and> lf_torn g = []"
    "R = rev es @ concat (map (\<lambda>g. rev (lf_entries g)) gs)"
    using assms(1) by (auto simp: wl_rep_def)
  have "es \<noteq> []" using it(2) log_image_Nil [OF r(4)] by (auto simp: r(2) it_HasNext_def)
  then obtain es' e where es: "es = es' @ [e]" by (metis rev_exhaust)
  then obtain ws' w where w: "ws = ws' @ [w]" "log_image env es' ws'" "entry_image env e w"
    using r(4) by (auto simp: log_image_def list_all2_append1 list_all2_Cons1)
  let ?it = "\<lparr>it_is_backward = True, it_off = length (concat ws'), it_buf = concat ws' @ w @ post\<rparr>"
  have step: "it_Next env it = Inr (Some e, ?it)"
    using it_Next_backward [OF w(3), of "concat ws'" post] r(3) by (simp add: r(2) w(1))
  have rep: "wl_rep env d (li\<lparr>wl_iter := Some ?it\<rparr>) (rev es' @ concat (map (\<lambda>g. rev (lf_entries g)) gs))"
    unfolding wl_rep_def using r(1,3,5) w(1,2)
    by (intro disjI2 exI [of _ f] exI [of _ gs] exI [of _ es'] exI [of _ ws'] exI [of _ "w @ post"]) simp
  show thesis
    by (rule that [OF _ _ rep]) (use step it(1) es r(6) in \<open>simp_all add: wl_Next_def\<close>)
qed


lemma WalListIterator_new_rep:
  assumes "gs \<noteq> []" "\<forall>f \<in> set gs. on_disk env d f" "distinct (map lf_path gs)" "\<forall>f \<in> set (recover gs []). lf_torn f = []"
  obtains d' li where "WalListIterator_new env d (map lf_path gs) = Some (Inr (d', li))"
    "wl_rep env d' li (concat (map (\<lambda>g. rev (lf_entries g)) (recover gs [])))"
    "\<forall>f \<in> set (recover gs []). on_disk env d' f"
proof -
  obtain d' where p: "purge_files env (map lf_path gs) d (map lf_path []) = Some (Inr (d', map lf_path (recover gs [])))"
    "\<forall>f \<in> set (recover gs []). on_disk env d' f"
    using purge_files_recover [of "[]" gs env d] assms(2,3) by auto
  show thesis
  proof (cases "recover gs []")
    case Nil
    then show thesis
      using that [of d' "\<lparr>wl_list = [], wl_iter = None\<rparr>"] p assms(1)
      by (simp add: WalListIterator_new_def PurgeBadEntriesAfterLatestCheckpoint_def wl_rep_def)
  next
    case (Cons f hs)
    have f: "on_disk env d' f" "lf_torn f = []" "\<forall>g \<in> set hs. on_disk env d' g \<and> lf_torn g = []" using p(2) assms(4) Cons by simp_all
    obtain ws where ws: "WalEntryIterator_Make d' (lf_path f) True =
        Inr \<lparr>it_is_backward = True, it_off = length (concat ws), it_buf = concat ws @ []\<rparr>"
      "log_image env (lf_entries f) ws" "length (concat ws @ []) < 2 ^ 63" by (rule Make_backward [OF f(1,2)])
    let ?li = "\<lparr>wl_list = lf_path f # map lf_path hs, wl_iter =
      Some \<lparr>it_is_backward = True, it_off = length (concat ws), it_buf = concat ws @ []\<rparr>\<rparr>"
    have "wl_rep env d' ?li (concat (map (\<lambda>g. rev (lf_entries g)) (recover gs [])))"
      unfolding wl_rep_def Cons using ws f(3)
      by (intro disjI2 exI [of _ "lf_path f"] exI [of _ hs] exI [of _ "lf_entries f"] exI [of _ ws] exI [of _ "[]"]) simp
    then show thesis
      using that [of d' ?li] p assms(1) ws(1) Cons
      by (simp add: WalListIterator_new_def PurgeBadEntriesAfterLatestCheckpoint_def)
  qed
qed

text \<open>When only the newest file can be torn, no complete entry is lost.\<close>

lemma recover_newest_torn:
  assumes "\<forall>g \<in> set gs. lf_torn g = []"
  shows "concat (map (\<lambda>g. rev (lf_entries g)) (recover (f # gs) [])) = concat (map (\<lambda>g. rev (lf_entries g)) (f # gs)) \<and>
    (\<forall>g \<in> set (recover (f # gs) []). lf_torn g = [])"
proof -
  have "recover gs before = before @ gs" for before
    using assms by (induction gs arbitrary: before) (simp_all add: Let_def)
  then show ?thesis using assms by (auto simp: Let_def cut_def split: prod.splits)
qed

subsection \<open>Property\<close>

text \<open>(C23) Repair after a crash keeps what is complete and nothing else: for any list of log files, newest first, each
  holding complete entries and possibly the beginning of one more (at least its size field), the
  repair returns.  Going through the files up to the first one with a checkpoint, it cuts each torn one exactly behind its last
  complete entry, or deletes it when there is none, and files newer than a torn one leave the list.  The disk afterwards is exactly the
  old one with these cuts and deletions: the files behind the first checkpoint and those that only leave the list are as they were, and the
  files that stay on the list have the contents that their entries say.\<close>

theorem Purge_recovers:
  assumes "\<forall>f \<in> set gs. on_disk env d f" and "distinct (map lf_path gs)"
  shows "PurgeBadEntriesAfterLatestCheckpoint env d (map lf_path gs) = Some (Inr (repair_disk gs d, map lf_path (recover gs []))) \<and>
     (\<forall>f \<in> set (recover gs []). on_disk env (repair_disk gs d) f)"
  using purge_files_recover [of "[]" gs env d] assms by (simp add: PurgeBadEntriesAfterLatestCheckpoint_def)

theorem Purge_recovers_witness:
  "\<exists>w d'. WalEntry_WriteAdv demo_env (WalEntry_sized demo_env demo_entry) = Inr w \<and>
     PurgeBadEntriesAfterLatestCheckpoint demo_env [''/new'' \<mapsto> take 9 w, ''/old'' \<mapsto> w @ take 9 w] [''/new'', ''/old''] =
       Some (Inr (d', [''/old''])) \<and> d' ''/new'' = None \<and> d' ''/old'' = Some w"
proof -
  obtain w where w: "WalEntry_WriteAdv demo_env (WalEntry_sized demo_env demo_entry) = Inr w"
    "entry_image demo_env (WalEntry_stored demo_env w demo_entry) w"
    using WalEntry_image [OF demo_env_blocks demo_entry_ok] by metis
  let ?d = "[''/new'' \<mapsto> take 9 w, ''/old'' \<mapsto> w @ take 9 w]"
  let ?f = "(''/old'', [WalEntry_stored demo_env w demo_entry], [w], take 9 w)"
  let ?g = "(''/new'', [], [], take 9 w) :: nat log_file"
  have len: "32 \<le> length w" "length w < 2 ^ 31" using w(2) by (simp_all add: entry_image_def)
  have "torn_entry (take 9 w)" by (rule torn_prefix [OF w(2)]) (use len in simp_all)
  then have on: "\<forall>f \<in> set [?g, ?f]. on_disk demo_env ?d f"
    using w(2) len by (simp add: on_disk_def log_image_def is_absolute_def starts_with_def)
  have ne: "take 9 w \<noteq> []" using len by auto
  then have "recover [?g, ?f] [] = [cut ?f]" "repair_disk [?g, ?f] ?d ''/new'' = None" "repair_disk [?g, ?f] ?d ''/old'' = Some w"
    by (auto simp: Let_def has_checkpoint_def repair_file_def)
  then show ?thesis
    using Purge_recovers [OF on] w(1) by (auto simp: cut_def)
qed

end
