(* ===== verification/Log_File.thy ===== *)
theory Log_File
  imports Number_Text
begin

text \<open>
  Names of log and catalog files (\<^verbatim>\<open>src/src/storage/wal/log_file.cpp\<close>): printing and parsing of the
  timestamps in them, the choice of the catalog files of a checkpoint, and the removal of files that
  a checkpoint makes superfluous.

  A directory is the list of its entries as \<^verbatim>\<open>VirtualStore::ListDirectory\<close> gives them.  Where the code
  sorts files by timestamp with \<^verbatim>\<open>std::sort\<close>, files with the same timestamp may come in any order;
  here they keep the order of the directory.
\<close>

record dir_entry =
  de_path :: string
  de_regular :: bool
  de_filename :: string

record file_info =
  fi_path :: string
  fi_max_commit_ts :: nat

record CatalogFilesInfo =
  full_infos :: "file_info list"
  delta_infos :: "file_info list"
  temp_full_infos :: "file_info list"
  temp_delta_infos :: "file_info list"

subsection \<open>Names\<close>

definition FullCheckpointFilename :: "nat \<Rightarrow> string" where
  "FullCheckpointFilename ts = ''FULL.'' @ show_nat ts @ ''.json''"

definition TempFullCheckpointFilename :: "nat \<Rightarrow> string" where
  "TempFullCheckpointFilename ts = ''_FULL.'' @ show_nat ts @ ''.json''"

definition DeltaCheckpointFilename :: "nat \<Rightarrow> string" where
  "DeltaCheckpointFilename ts = ''DELTA.'' @ show_nat ts"

definition TempDeltaCheckpointFilename :: "nat \<Rightarrow> string" where
  "TempDeltaCheckpointFilename ts = ''_DELTA.'' @ show_nat ts"

definition WAL_FILE_PREFIX :: string where "WAL_FILE_PREFIX = ''wal.log''"
definition WAL_FILE_TEMP_FILE :: string where "WAL_FILE_TEMP_FILE = ''wal.log''"

definition WalFilename :: "nat \<Rightarrow> string" where
  "WalFilename ts = WAL_FILE_PREFIX @ ''.'' @ show_nat ts"

definition TempWalFilename :: string where
  "TempWalFilename = WAL_FILE_TEMP_FILE"

subsection \<open>Parsing\<close>

text \<open>\<^verbatim>\<open>std::string::rfind\<close> of a character; \<open>None\<close> is \<^verbatim>\<open>npos\<close>.  A timestamp is read by \<^verbatim>\<open>std::stoll\<close> and
  stored as an unsigned number.\<close>

definition rfind :: "char \<Rightarrow> string \<Rightarrow> nat option" where
  "rfind c s = (case dropWhile (\<lambda>x. x \<noteq> c) (rev s) of [] \<Rightarrow> None | _ # r \<Rightarrow> Some (length r))"

definition parse_ts :: "string \<Rightarrow> nat option" where
  "parse_ts s = (case stoll s of Inl _ \<Rightarrow> None | Inr v \<Rightarrow> Some (nat (v mod 2 ^ 64)))"

definition catalog_json :: "dir_entry \<Rightarrow> nat \<Rightarrow> CatalogFilesInfo \<Rightarrow> CatalogFilesInfo" where
  "catalog_json entry dot_pos info =
     (let filename = de_filename entry in
      if dot_pos = 0 then info
      else let dot2_pos = rfind CHR ''.'' (take dot_pos filename);
               number = (case dot2_pos of None \<Rightarrow> take dot_pos filename
                         | Some p \<Rightarrow> take (dot_pos - p - 1) (drop (p + 1) filename));
               file_prefix = (case dot2_pos of None \<Rightarrow> filename | Some p \<Rightarrow> take p filename)
           in case parse_ts number of
                None \<Rightarrow> info
              | Some ts \<Rightarrow>
                  if file_prefix = ''_FULL''
                  then info\<lparr>temp_full_infos := temp_full_infos info @ [\<lparr>fi_path = de_path entry, fi_max_commit_ts = ts\<rparr>]\<rparr>
                  else if file_prefix \<noteq> ''FULL'' then info
                  else info\<lparr>full_infos := full_infos info @ [\<lparr>fi_path = de_path entry, fi_max_commit_ts = ts\<rparr>]\<rparr>)"

definition catalog_delta :: "dir_entry \<Rightarrow> nat \<Rightarrow> CatalogFilesInfo \<Rightarrow> CatalogFilesInfo" where
  "catalog_delta entry dot_pos info =
     (let filename = de_filename entry in
      case parse_ts (drop (dot_pos + 1) filename) of
        None \<Rightarrow> info
      | Some ts \<Rightarrow>
          let file_prefix = take dot_pos filename in
          if file_prefix = ''_DELTA''
          then info\<lparr>temp_delta_infos := temp_delta_infos info @ [\<lparr>fi_path = de_path entry, fi_max_commit_ts = ts\<rparr>]\<rparr>
          else if file_prefix \<noteq> ''DELTA'' then info
          else info\<lparr>delta_infos := delta_infos info @ [\<lparr>fi_path = de_path entry, fi_max_commit_ts = ts\<rparr>]\<rparr>)"

definition catalog_entry :: "dir_entry \<Rightarrow> CatalogFilesInfo \<Rightarrow> CatalogFilesInfo" where
  "catalog_entry entry info =
     (if \<not> de_regular entry then info
      else case rfind CHR ''.'' (de_filename entry) of
          None \<Rightarrow> info
        | Some dot_pos \<Rightarrow>
            if drop (dot_pos + 1) (de_filename entry) = ''json'' then catalog_json entry dot_pos info
            else catalog_delta entry dot_pos info)"

definition ParseCheckpointFilenames :: "dir_entry list \<Rightarrow> CatalogFilesInfo" where
  "ParseCheckpointFilenames entries =
     fold catalog_entry entries \<lparr>full_infos = [], delta_infos = [], temp_full_infos = [], temp_delta_infos = []\<rparr>"

text \<open>The current log file, \<^verbatim>\<open>wal.log\<close>, and the closed ones.\<close>

definition wal_entry_file :: "dir_entry \<Rightarrow> string option \<times> file_info list \<Rightarrow> (string option \<times> file_info list) res" where
  "wal_entry_file entry = (\<lambda>(cur_wal_info, wal_infos).
     if \<not> de_regular entry then Inr (cur_wal_info, wal_infos)
     else let filename = de_filename entry in
       if filename = TempWalFilename
       then (if cur_wal_info \<noteq> None then Inl (UnrecoverableError ''Multiple current wal files found in the wal directory'')
             else Inr (Some (de_path entry), wal_infos))
       else case rfind CHR ''.'' filename of
           None \<Rightarrow> Inr (cur_wal_info, wal_infos)
         | Some dot_pos \<Rightarrow>
             (case parse_ts (drop (dot_pos + 1) filename) of
                None \<Rightarrow> Inr (cur_wal_info, wal_infos)
              | Some ts \<Rightarrow>
                  if take dot_pos filename \<noteq> WAL_FILE_PREFIX then Inr (cur_wal_info, wal_infos)
                  else Inr (cur_wal_info, wal_infos @ [\<lparr>fi_path = de_path entry, fi_max_commit_ts = ts\<rparr>])))"

definition ParseWalFilenames :: "dir_entry list \<Rightarrow> (string option \<times> file_info list) res" where
  "ParseWalFilenames entries = rfold wal_entry_file entries (None, [])"

subsection \<open>The files of a checkpoint\<close>

definition pop_newer :: "nat \<Rightarrow> file_info list \<Rightarrow> file_info list" where
  "pop_newer ts infos = rev (dropWhile (\<lambda>i. ts < fi_max_commit_ts i) (rev infos))"

definition ParseValidCheckpointFilenames :: "dir_entry list \<Rightarrow> nat \<Rightarrow> (file_info \<times> file_info list) option" where
  "ParseValidCheckpointFilenames entries max_checkpoint_ts =
     (let info = ParseCheckpointFilenames entries;
          full = pop_newer max_checkpoint_ts (sort_key fi_max_commit_ts (full_infos info));
          delta = pop_newer max_checkpoint_ts (sort_key fi_max_commit_ts (delta_infos info))
      in if full = [] then None
         else let last_full_info = last full
              in Some (last_full_info,
                       dropWhile (\<lambda>i. fi_max_commit_ts i \<le> fi_max_commit_ts last_full_info) delta))"

subsection \<open>Removal of old files\<close>

text \<open>The paths that are deleted, in order, and the exception that ends the function, if any.  A leader or
  standalone node also removes the files from the object store.\<close>

definition RecycleCatalogFile :: "nat \<Rightarrow> dir_entry list \<Rightarrow> string list \<times> unit res" where
  "RecycleCatalogFile max_commit_ts entries =
     (let info = ParseCheckpointFilenames entries;
          old_full = filter (\<lambda>i. fi_max_commit_ts i < max_commit_ts) (full_infos info);
          found = list_ex (\<lambda>i. fi_max_commit_ts i = max_commit_ts) (full_infos info);
          old_delta = filter (\<lambda>i. fi_max_commit_ts i \<le> max_commit_ts) (delta_infos info)
      in if \<not> found
         then (map fi_path old_full, Inl (UnrecoverableError ''Full catalog file not found in the catalog directory''))
         else (map fi_path old_full @ map fi_path old_delta, Inr ()))"

definition RecycleWalFile :: "nat \<Rightarrow> dir_entry list \<Rightarrow> string list res" where
  "RecycleWalFile max_commit_ts entries =
     rbind (ParseWalFilenames entries) (\<lambda>(cur_wal_info, wal_infos).
       Inr (map fi_path (filter (\<lambda>i. fi_max_commit_ts i \<le> max_commit_ts) wal_infos)))"

subsection \<open>Reading names back\<close>

lemma rfind_last: "c \<notin> set b \<Longrightarrow> rfind c (a @ c # b) = Some (length a)"
  by (simp add: rfind_def) (subst dropWhile_append2; auto)

lemma dot_not_in_number: "CHR ''.'' \<notin> set (show_nat n)"
proof
  assume "CHR ''.'' \<in> set (show_nat n)"
  then have "is_digit CHR ''.''" using show_nat_digits [of n] by (simp add: list_all_iff)
  then show False by (simp add: is_digit_def less_eq_char_def)
qed

lemma parse_ts_number: "ts < 2 ^ 63 \<Longrightarrow> parse_ts (show_nat ts) = Some ts"
  using stoll_show_nat [of ts "[]"] by (simp add: parse_ts_def nat_mod_as_int)

lemma number_not_json: "show_nat ts \<noteq> ''json''"
  using show_nat_digits [of ts] by (auto simp: is_digit_def less_eq_char_def)

text \<open>The name of a delta file, and of a closed log, is a prefix, a dot and a number.\<close>

lemma prefixed_number:
  "rfind CHR ''.'' (prefix @ CHR ''.'' # show_nat ts) = Some (length prefix)"
  "drop (length prefix + 1) (prefix @ CHR ''.'' # show_nat ts) = show_nat ts"
  "take (length prefix) (prefix @ CHR ''.'' # show_nat ts) = prefix"
  by (simp_all add: rfind_last dot_not_in_number)

lemma prefixed_json:
  fixes prefix :: string and ts :: nat
  defines "name \<equiv> prefix @ CHR ''.'' # show_nat ts @ CHR ''.'' # ''json''" and "dot \<equiv> length prefix + 1 + length (show_nat ts)"
  shows "rfind CHR ''.'' name = Some dot" "drop (dot + 1) name = ''json''"
    "rfind CHR ''.'' (take dot name) = Some (length prefix)"
    "take (dot - length prefix - 1) (drop (length prefix + 1) name) = show_nat ts" "take (length prefix) name = prefix"
proof -
  have name: "name = (prefix @ CHR ''.'' # show_nat ts) @ CHR ''.'' # ''json''" by (simp add: name_def)
  have dot: "dot = length (prefix @ CHR ''.'' # show_nat ts)" by (simp add: dot_def)
  show "rfind CHR ''.'' name = Some dot" unfolding name dot by (rule rfind_last) simp
  show "drop (dot + 1) name = ''json''" unfolding name dot by simp
  have "take dot name = prefix @ CHR ''.'' # show_nat ts" unfolding name dot by simp
  then show "rfind CHR ''.'' (take dot name) = Some (length prefix)" by (simp add: rfind_last dot_not_in_number)
  show "take (dot - length prefix - 1) (drop (length prefix + 1) name) = show_nat ts" by (simp add: name_def dot_def)
  show "take (length prefix) name = prefix" by (simp add: name_def)
qed

lemma catalog_entry_json:
  assumes "de_regular entry" "de_filename entry = prefix @ CHR ''.'' # show_nat ts @ CHR ''.'' # ''json''" "ts < 2 ^ 63"
  shows "catalog_entry entry info =
    (if prefix = ''_FULL''
     then info\<lparr>temp_full_infos := temp_full_infos info @ [\<lparr>fi_path = de_path entry, fi_max_commit_ts = ts\<rparr>]\<rparr>
     else if prefix \<noteq> ''FULL'' then info
     else info\<lparr>full_infos := full_infos info @ [\<lparr>fi_path = de_path entry, fi_max_commit_ts = ts\<rparr>]\<rparr>)"
  unfolding catalog_entry_def catalog_json_def Let_def assms(2) prefixed_json option.case parse_ts_number [OF assms(3)]
  using assms(1) by simp

lemma catalog_entry_delta:
  assumes "de_regular entry" "de_filename entry = prefix @ CHR ''.'' # show_nat ts" "ts < 2 ^ 63"
  shows "catalog_entry entry info =
    (if prefix = ''_DELTA''
     then info\<lparr>temp_delta_infos := temp_delta_infos info @ [\<lparr>fi_path = de_path entry, fi_max_commit_ts = ts\<rparr>]\<rparr>
     else if prefix \<noteq> ''DELTA'' then info
     else info\<lparr>delta_infos := delta_infos info @ [\<lparr>fi_path = de_path entry, fi_max_commit_ts = ts\<rparr>]\<rparr>)"
  unfolding catalog_entry_def catalog_delta_def Let_def assms(2) prefixed_number option.case parse_ts_number [OF assms(3)]
  using assms(1) number_not_json [of ts] by simp

subsection \<open>A directory entry contributes on its own\<close>

abbreviation "no_files \<equiv> \<lparr>full_infos = [], delta_infos = [], temp_full_infos = [], temp_delta_infos = []\<rparr>"

lemma catalog_entry_cases:
  fixes e :: dir_entry
  obtains "\<And>info. catalog_entry e info = info"
  | ts where "\<And>info. catalog_entry e info = info\<lparr>full_infos := full_infos info @ [\<lparr>fi_path = de_path e, fi_max_commit_ts = ts\<rparr>]\<rparr>"
  | ts where "\<And>info. catalog_entry e info = info\<lparr>temp_full_infos := temp_full_infos info @ [\<lparr>fi_path = de_path e, fi_max_commit_ts = ts\<rparr>]\<rparr>"
  | ts where "\<And>info. catalog_entry e info = info\<lparr>delta_infos := delta_infos info @ [\<lparr>fi_path = de_path e, fi_max_commit_ts = ts\<rparr>]\<rparr>"
  | ts where "\<And>info. catalog_entry e info = info\<lparr>temp_delta_infos := temp_delta_infos info @ [\<lparr>fi_path = de_path e, fi_max_commit_ts = ts\<rparr>]\<rparr>"
proof (cases "de_regular e")
  case False
  then show thesis using that(1) by (simp add: catalog_entry_def)
next
  case regular: True
  show thesis
  proof (cases "rfind CHR ''.'' (de_filename e)")
    case None
    then show thesis using that(1) by (simp add: catalog_entry_def)
  next
    case (Some dot)
    show thesis
    proof (cases "drop (dot + 1) (de_filename e) = ''json''")
      case True
      then have eq: "catalog_entry e info = catalog_json e dot info" for info using regular Some by (simp add: catalog_entry_def)
      obtain pts prefix where json: "catalog_json e dot info = (if dot = 0 then info else case pts of None \<Rightarrow> info | Some ts \<Rightarrow>
          if prefix = ''_FULL'' then info\<lparr>temp_full_infos := temp_full_infos info @ [\<lparr>fi_path = de_path e, fi_max_commit_ts = ts\<rparr>]\<rparr>
          else if prefix \<noteq> ''FULL'' then info
          else info\<lparr>full_infos := full_infos info @ [\<lparr>fi_path = de_path e, fi_max_commit_ts = ts\<rparr>]\<rparr>)" for info
        unfolding catalog_json_def Let_def by blast
      consider "dot = 0 \<or> pts = None" | ts where "dot \<noteq> 0" "pts = Some ts" by blast
      then show thesis
      proof cases
        case 1
        then show thesis by (intro that(1)) (auto simp: eq json)
      next
        case (2 ts)
        then show thesis
          using that(1) that(2) [of ts] that(3) [of ts]
          by (cases "prefix = ''_FULL''"; cases "prefix = ''FULL''") (simp_all only: eq json if_True if_False option.case simp_thms)
      qed
    next
      case False
      then have eq: "catalog_entry e info = catalog_delta e dot info" for info using regular Some by (simp add: catalog_entry_def)
      obtain pts prefix where delta: "catalog_delta e dot info = (case pts of None \<Rightarrow> info | Some ts \<Rightarrow>
          if prefix = ''_DELTA'' then info\<lparr>temp_delta_infos := temp_delta_infos info @ [\<lparr>fi_path = de_path e, fi_max_commit_ts = ts\<rparr>]\<rparr>
          else if prefix \<noteq> ''DELTA'' then info
          else info\<lparr>delta_infos := delta_infos info @ [\<lparr>fi_path = de_path e, fi_max_commit_ts = ts\<rparr>]\<rparr>)" for info
        unfolding catalog_delta_def Let_def by blast
      show thesis
      proof (cases pts)
        case None
        then show thesis by (intro that(1)) (simp add: eq delta)
      next
        case (Some ts)
        then show thesis
          using that(1) that(4) [of ts] that(5) [of ts]
          by (cases "prefix = ''_DELTA''"; cases "prefix = ''DELTA''") (simp_all only: eq delta if_True if_False option.case simp_thms)
      qed
    qed
  qed
qed

lemma catalog_entry_adds:
  "full_infos (catalog_entry e info) = full_infos info @ full_infos (catalog_entry e no_files)"
  "delta_infos (catalog_entry e info) = delta_infos info @ delta_infos (catalog_entry e no_files)"
  by (cases e rule: catalog_entry_cases; simp)+

lemma catalog_entry_path:
  "i \<in> set (full_infos (catalog_entry e no_files)) \<Longrightarrow> fi_path i = de_path e"
  "i \<in> set (delta_infos (catalog_entry e no_files)) \<Longrightarrow> fi_path i = de_path e"
  by (cases e rule: catalog_entry_cases; simp)+

lemma catalog_entry_one:
  "length (full_infos (catalog_entry e no_files)) \<le> 1" "length (delta_infos (catalog_entry e no_files)) \<le> 1"
  "full_infos (catalog_entry e no_files) = [] \<or> delta_infos (catalog_entry e no_files) = []"
  by (cases e rule: catalog_entry_cases; simp)+

lemma parse_infos:
  "full_infos (ParseCheckpointFilenames es) = concat (map (\<lambda>e. full_infos (catalog_entry e no_files)) es)"
  "delta_infos (ParseCheckpointFilenames es) = concat (map (\<lambda>e. delta_infos (catalog_entry e no_files)) es)"
proof -
  have "full_infos (fold catalog_entry es info) = full_infos info @ concat (map (\<lambda>e. full_infos (catalog_entry e no_files)) es)"
    "delta_infos (fold catalog_entry es info) = delta_infos info @ concat (map (\<lambda>e. delta_infos (catalog_entry e no_files)) es)"
    for info
  proof (induction es arbitrary: info)
    case (Cons e es)
    { case 1 show ?case using Cons(1) [of "catalog_entry e info"] catalog_entry_adds(1) [of e info] by simp }
    { case 2 show ?case using Cons(2) [of "catalog_entry e info"] catalog_entry_adds(2) [of e info] by simp }
  qed simp_all
  then show "full_infos (ParseCheckpointFilenames es) = concat (map (\<lambda>e. full_infos (catalog_entry e no_files)) es)"
    "delta_infos (ParseCheckpointFilenames es) = concat (map (\<lambda>e. delta_infos (catalog_entry e no_files)) es)"
    by (simp_all add: ParseCheckpointFilenames_def)
qed

text \<open>Removing files from the directory removes their infos.\<close>

lemma filter_concat_path:
  "(\<And>e i. i \<in> set (g e) \<Longrightarrow> fi_path i = de_path e) \<Longrightarrow>
     concat (map g (filter (\<lambda>e. de_path e \<notin> D) es)) = filter (\<lambda>i. fi_path i \<notin> D) (concat (map g es))"
proof (induction es)
  case (Cons e es)
  have "filter (\<lambda>i. fi_path i \<notin> D) (g e) = (if de_path e \<notin> D then g e else [])"
    using Cons.prems [of _ e] by (auto simp: filter_id_conv filter_empty_conv)
  then show ?case using Cons by simp
qed simp

lemma parse_remaining:
  "full_infos (ParseCheckpointFilenames (filter (\<lambda>e. de_path e \<notin> D) es)) =
     filter (\<lambda>i. fi_path i \<notin> D) (full_infos (ParseCheckpointFilenames es))"
  "delta_infos (ParseCheckpointFilenames (filter (\<lambda>e. de_path e \<notin> D) es)) =
     filter (\<lambda>i. fi_path i \<notin> D) (delta_infos (ParseCheckpointFilenames es))"
  unfolding parse_infos by (rule filter_concat_path, erule catalog_entry_path)+


subsection \<open>The chosen files\<close>

lemma dropWhile_newer:
  "sorted_wrt (\<lambda>a b. f b \<le> f a) xs \<Longrightarrow> dropWhile (\<lambda>i. ts < f i) xs = filter (\<lambda>i. f i \<le> ts) xs" for f :: "_ \<Rightarrow> nat"
proof (induction xs)
  case (Cons x xs)
  show ?case
  proof (cases "ts < f x")
    case False
    then have "\<forall>y \<in> set xs. f y \<le> ts" using Cons.prems by fastforce
    then show ?thesis using False by (simp add: filter_id_conv)
  qed (use Cons in simp)
qed simp

lemma pop_newer_sorted:
  "pop_newer ts (sort_key fi_max_commit_ts xs) = sort_key fi_max_commit_ts (filter (\<lambda>i. fi_max_commit_ts i \<le> ts) xs)"
proof -
  have "sorted_wrt (\<lambda>a b. fi_max_commit_ts b \<le> fi_max_commit_ts a) (rev (sort_key fi_max_commit_ts xs))"
    using sorted_sort_key [of fi_max_commit_ts xs] by (simp add: sorted_wrt_rev sorted_wrt_map)
  then show ?thesis by (simp add: pop_newer_def dropWhile_newer rev_filter filter_sort)
qed

lemma dropWhile_older:
  "sorted (map f xs) \<Longrightarrow> dropWhile (\<lambda>i. f i \<le> ts) xs = filter (\<lambda>i. ts < f i) xs" for f :: "_ \<Rightarrow> nat"
proof (induction xs)
  case (Cons x xs)
  show ?case
  proof (cases "f x \<le> ts")
    case False
    then have "\<forall>y \<in> set xs. ts < f y" using Cons.prems by fastforce
    then show ?thesis using False by (simp add: filter_id_conv)
  qed (use Cons in simp)
qed simp

text \<open>The choice in terms of the parsed names: the newest full file that is not too new, and the deltas
  between it and the checkpoint in the order of their timestamps.\<close>

lemma ParseValid_alt:
  "ParseValidCheckpointFilenames es m =
     (let full = sort_key fi_max_commit_ts (filter (\<lambda>i. fi_max_commit_ts i \<le> m) (full_infos (ParseCheckpointFilenames es)))
      in if full = [] then None
         else Some (last full, sort_key fi_max_commit_ts
                (filter (\<lambda>i. fi_max_commit_ts i \<le> m \<and> fi_max_commit_ts (last full) < fi_max_commit_ts i)
                  (delta_infos (ParseCheckpointFilenames es)))))"
  by (simp add: ParseValidCheckpointFilenames_def Let_def pop_newer_sorted dropWhile_older filter_sort)

lemma last_sort_key_max:
  "xs \<noteq> [] \<Longrightarrow> last (sort_key f xs) \<in> set xs \<and> (\<forall>x \<in> set xs. f x \<le> f (last (sort_key f xs)))" for f :: "_ \<Rightarrow> nat"
proof -
  assume "xs \<noteq> []"
  then have ne: "sort_key f xs \<noteq> []" by (metis length_sort list.size(3) length_0_conv)
  then have "last (sort_key f xs) \<in> set xs" by (metis last_in_set set_sort)
  moreover have "f x \<le> f (last (sort_key f xs))" if "x \<in> set xs" for x
  proof -
    have "sorted (map f (butlast (sort_key f xs) @ [last (sort_key f xs)]))"
      using sorted_sort_key [of f xs] ne by simp
    moreover have "x \<in> set (butlast (sort_key f xs)) \<or> x = last (sort_key f xs)"
      using that ne by (metis append_butlast_last_id set_sort Un_iff empty_iff insert_iff list.set set_append)
    ultimately show ?thesis by (auto simp: sorted_append)
  qed
  ultimately show ?thesis by blast
qed

lemma last_filter: "xs \<noteq> [] \<Longrightarrow> P (last xs) \<Longrightarrow> last (filter P xs) = last xs"
  by (induction xs rule: rev_induct) simp_all


text \<open>With distinct paths, a path tells which file is meant.\<close>

lemma at_most_one: "length xs \<le> 1 \<Longrightarrow> i \<in> set xs \<Longrightarrow> j \<in> set xs \<Longrightarrow> i = j"
  by (cases xs) auto

lemma same_path:
  assumes "distinct (map de_path es)" "fi_path i = fi_path j"
  shows "i \<in> set (full_infos (ParseCheckpointFilenames es)) \<Longrightarrow> j \<in> set (full_infos (ParseCheckpointFilenames es)) \<Longrightarrow> i = j"
    "i \<in> set (delta_infos (ParseCheckpointFilenames es)) \<Longrightarrow> j \<in> set (delta_infos (ParseCheckpointFilenames es)) \<Longrightarrow> i = j"
    "i \<in> set (full_infos (ParseCheckpointFilenames es)) \<Longrightarrow> j \<notin> set (delta_infos (ParseCheckpointFilenames es))"
proof -
  let ?all = "\<lambda>e. full_infos (catalog_entry e no_files) @ delta_infos (catalog_entry e no_files)"
  have same: "a = b" if "a \<in> set es" "b \<in> set es" "i \<in> set (?all a)" "j \<in> set (?all b)" for a b
  proof -
    have "de_path a = de_path b" using that(3,4) assms(2) catalog_entry_path by (metis Un_iff set_append)
    then show ?thesis using that(1,2) assms(1) by (metis distinct_map inj_on_eq_iff)
  qed
  show "i \<in> set (full_infos (ParseCheckpointFilenames es)) \<Longrightarrow> j \<in> set (full_infos (ParseCheckpointFilenames es)) \<Longrightarrow> i = j"
    using same at_most_one [OF catalog_entry_one(1)] unfolding parse_infos by (simp, blast)
  show "i \<in> set (delta_infos (ParseCheckpointFilenames es)) \<Longrightarrow> j \<in> set (delta_infos (ParseCheckpointFilenames es)) \<Longrightarrow> i = j"
    using same at_most_one [OF catalog_entry_one(2)] unfolding parse_infos by (simp, blast)
  show "i \<in> set (full_infos (ParseCheckpointFilenames es)) \<Longrightarrow> j \<notin> set (delta_infos (ParseCheckpointFilenames es))"
    using same catalog_entry_one(3) unfolding parse_infos by (simp, metis empty_iff list.set(1))
qed


lemma recycled_infos:
  assumes "distinct (map de_path es)" "fst (RecycleCatalogFile ts es) = D" "snd (RecycleCatalogFile ts es) = Inr ()"
  shows "full_infos (ParseCheckpointFilenames (filter (\<lambda>e. de_path e \<notin> set D) es)) =
      filter (\<lambda>i. ts \<le> fi_max_commit_ts i) (full_infos (ParseCheckpointFilenames es))"
    "delta_infos (ParseCheckpointFilenames (filter (\<lambda>e. de_path e \<notin> set D) es)) =
      filter (\<lambda>i. ts < fi_max_commit_ts i) (delta_infos (ParseCheckpointFilenames es))"
    "\<exists>i \<in> set (full_infos (ParseCheckpointFilenames es)). fi_max_commit_ts i = ts"
proof -
  let ?full = "full_infos (ParseCheckpointFilenames es)" and ?delta = "delta_infos (ParseCheckpointFilenames es)"
  have found: "list_ex (\<lambda>i. fi_max_commit_ts i = ts) ?full"
    using assms(3) by (auto simp: RecycleCatalogFile_def Let_def split: if_splits)
  then show "\<exists>i \<in> set ?full. fi_max_commit_ts i = ts" by (simp add: list_ex_iff)
  have D: "D = map fi_path (filter (\<lambda>i. fi_max_commit_ts i < ts) ?full) @ map fi_path (filter (\<lambda>i. fi_max_commit_ts i \<le> ts) ?delta)"
    using assms(2) found by (simp add: RecycleCatalogFile_def Let_def)
  have "fi_path i \<in> set D \<longleftrightarrow> fi_max_commit_ts i < ts" if "i \<in> set ?full" for i
    using that same_path(1,3) [OF assms(1), of i] unfolding D set_append set_map set_filter by fastforce
  then show "full_infos (ParseCheckpointFilenames (filter (\<lambda>e. de_path e \<notin> set D) es)) = filter (\<lambda>i. ts \<le> fi_max_commit_ts i) ?full"
    unfolding parse_remaining by (intro filter_cong) auto
  have "fi_path i \<in> set D \<longleftrightarrow> fi_max_commit_ts i \<le> ts" if "i \<in> set ?delta" for i
    using that same_path(2) [OF assms(1), of i] same_path(3) [OF assms(1), of _ i] unfolding D set_append set_map set_filter by fastforce
  then show "delta_infos (ParseCheckpointFilenames (filter (\<lambda>e. de_path e \<notin> set D) es)) = filter (\<lambda>i. ts < fi_max_commit_ts i) ?delta"
    unfolding parse_remaining by (intro filter_cong) auto
qed

subsection \<open>Properties\<close>

text \<open>(C9) Removing superfluous catalog files never takes away what a restart needs: when
  \<^verbatim>\<open>RecycleCatalogFile\<close> at the timestamp of a full checkpoint returns, then for that checkpoint and every
  later one \<^verbatim>\<open>ParseValidCheckpointFilenames\<close> finds in the remaining files the same full catalog and the
  same delta files as before.\<close>

theorem Recycle_keeps_catalog:
  assumes "distinct (map de_path es)" and "RecycleCatalogFile ts es = (deleted, Inr ())" and "ts \<le> m"
  shows "ParseValidCheckpointFilenames (filter (\<lambda>e. de_path e \<notin> set deleted) es) m = ParseValidCheckpointFilenames es m"
proof -
  let ?full = "full_infos (ParseCheckpointFilenames es)" and ?delta = "delta_infos (ParseCheckpointFilenames es)"
  let ?ts = fi_max_commit_ts
  have D: "fst (RecycleCatalogFile ts es) = deleted" "snd (RecycleCatalogFile ts es) = Inr ()" using assms(2) by simp_all
  note rest = recycled_infos [OF assms(1) D]
  define old where "old = sort_key ?ts (filter (\<lambda>i. ?ts i \<le> m) ?full)"
  have "filter (\<lambda>i. ?ts i \<le> m) ?full \<noteq> []" using rest(3) assms(3) by (auto simp: filter_empty_conv)
  from last_sort_key_max [OF this, of ?ts] have max: "old \<noteq> []" "ts \<le> ?ts (last old)"
    using rest(3) assms(3) \<open>filter (\<lambda>i. ?ts i \<le> m) ?full \<noteq> []\<close> unfolding old_def by (auto, metis length_sort length_0_conv)
  have new: "sort_key ?ts (filter (\<lambda>i. ?ts i \<le> m) (filter (\<lambda>i. ts \<le> ?ts i) ?full)) = filter (\<lambda>i. ts \<le> ?ts i) old"
    unfolding old_def filter_sort by (simp add: conj_commute)
  have "filter (\<lambda>i. ts \<le> ?ts i) old \<noteq> []" using max by (auto simp: filter_empty_conv intro: last_in_set)
  moreover have "last (filter (\<lambda>i. ts \<le> ?ts i) old) = last old" using max by (intro last_filter)
  moreover have "filter (\<lambda>i. ?ts i \<le> m \<and> ?ts (last old) < ?ts i) (filter (\<lambda>i. ts < ?ts i) ?delta) =
      filter (\<lambda>i. ?ts i \<le> m \<and> ?ts (last old) < ?ts i) ?delta"
    unfolding filter_filter using max(2) by (intro filter_cong) auto
  ultimately show ?thesis
    unfolding ParseValid_alt rest(1,2) new Let_def using max(1) by (simp only: old_def [symmetric] if_False)
qed

definition demo_dir :: "dir_entry list" where
  "demo_dir = [\<lparr>de_path = ''c/FULL.3.json'', de_regular = True, de_filename = ''FULL.3.json''\<rparr>,
     \<lparr>de_path = ''c/DELTA.5'', de_regular = True, de_filename = ''DELTA.5''\<rparr>,
     \<lparr>de_path = ''c/FULL.7.json'', de_regular = True, de_filename = ''FULL.7.json''\<rparr>,
     \<lparr>de_path = ''c/DELTA.9'', de_regular = True, de_filename = ''DELTA.9''\<rparr>]"

lemma demo_dir_recycled: "RecycleCatalogFile 7 demo_dir = ([''c/FULL.3.json'', ''c/DELTA.5''], Inr ())"
  by code_simp

theorem Recycle_keeps_catalog_witness:
  "ParseValidCheckpointFilenames (filter (\<lambda>e. de_path e \<notin> set [''c/FULL.3.json'', ''c/DELTA.5'']) demo_dir) 9 =
     ParseValidCheckpointFilenames demo_dir 9"
  by (rule Recycle_keeps_catalog [OF _ demo_dir_recycled]) (simp_all add: demo_dir_def)

text \<open>File names carry their timestamps: for every timestamp below \<open>2 ^ 63\<close> the names of full, delta
  and temporary catalog files and of closed logs are parsed back as files of that kind with that
  timestamp, and the name of the current log as the current log.\<close>

lemma file_names_roundtrip:
  assumes "ts < 2 ^ 63"
  shows "ParseCheckpointFilenames [\<lparr>de_path = p, de_regular = True, de_filename = FullCheckpointFilename ts\<rparr>] =
      no_files\<lparr>full_infos := [\<lparr>fi_path = p, fi_max_commit_ts = ts\<rparr>]\<rparr> \<and>
    ParseCheckpointFilenames [\<lparr>de_path = p, de_regular = True, de_filename = TempFullCheckpointFilename ts\<rparr>] =
      no_files\<lparr>temp_full_infos := [\<lparr>fi_path = p, fi_max_commit_ts = ts\<rparr>]\<rparr> \<and>
    ParseCheckpointFilenames [\<lparr>de_path = p, de_regular = True, de_filename = DeltaCheckpointFilename ts\<rparr>] =
      no_files\<lparr>delta_infos := [\<lparr>fi_path = p, fi_max_commit_ts = ts\<rparr>]\<rparr> \<and>
    ParseCheckpointFilenames [\<lparr>de_path = p, de_regular = True, de_filename = TempDeltaCheckpointFilename ts\<rparr>] =
      no_files\<lparr>temp_delta_infos := [\<lparr>fi_path = p, fi_max_commit_ts = ts\<rparr>]\<rparr> \<and>
    ParseWalFilenames [\<lparr>de_path = p, de_regular = True, de_filename = WalFilename ts\<rparr>] =
      Inr (None, [\<lparr>fi_path = p, fi_max_commit_ts = ts\<rparr>]) \<and>
    ParseWalFilenames [\<lparr>de_path = p, de_regular = True, de_filename = TempWalFilename\<rparr>] = Inr (Some p, [])"
proof -
  have "wal_entry_file \<lparr>de_path = p, de_regular = True, de_filename = ''wal.log'' @ CHR ''.'' # show_nat ts\<rparr> (c, infos) =
      Inr (c, infos @ [\<lparr>fi_path = p, fi_max_commit_ts = ts\<rparr>])" for c infos
    unfolding wal_entry_file_def prod.case Let_def dir_entry.simps prefixed_number option.case parse_ts_number [OF assms]
    by (simp add: TempWalFilename_def WAL_FILE_TEMP_FILE_def WAL_FILE_PREFIX_def)
  then show ?thesis
    using catalog_entry_json [OF _ _ assms, of _ "''FULL''"] catalog_entry_json [OF _ _ assms, of _ "''_FULL''"]
      catalog_entry_delta [OF _ _ assms, of _ "''DELTA''"] catalog_entry_delta [OF _ _ assms, of _ "''_DELTA''"]
    by (simp add: ParseCheckpointFilenames_def ParseWalFilenames_def FullCheckpointFilename_def TempFullCheckpointFilename_def
        DeltaCheckpointFilename_def TempDeltaCheckpointFilename_def WalFilename_def WAL_FILE_PREFIX_def)
       (simp add: wal_entry_file_def)
qed

lemma file_names_roundtrip_example:
  "ParseWalFilenames [\<lparr>de_path = ''w'', de_regular = True, de_filename = WalFilename 42\<rparr>] =
     Inr (None, [\<lparr>fi_path = ''w'', fi_max_commit_ts = 42\<rparr>])"
  using file_names_roundtrip [of 42 "''w''"] by simp


end
