(* ===== verification/Wal_Manager.thy ===== *)
theory Wal_Manager
  imports Wal_List Log_File "HOL-Library.Multiset"
begin

text \<open>
  The log manager (\<^verbatim>\<open>src/src/storage/wal/wal_manager.cpp\<close>): writing entries and closing log files in
  \<^verbatim>\<open>Flush\<close>, and the choice of the entries to replay after a restart in \<^verbatim>\<open>ReplayWalFile\<close>,
  \<^verbatim>\<open>CollectWalEntries\<close> and \<^verbatim>\<open>GetCatalogFiles\<close>.

  \<^item> A transaction in a batch is its log entry and whether it is a checkpoint transaction.  Sending the
    log to followers, the callbacks of the transactions and the submission of checkpoint tasks are
    not modelled; an exception ends the flush thread.
  \<^item> The list of files in the log directory and in the catalog directory are arguments, as
    \<^verbatim>\<open>VirtualStore::ListDirectory\<close> gives them.
  \<^item> \<^verbatim>\<open>AttachCatalog\<close> and \<^verbatim>\<open>ReplayWalEntry\<close> are not modelled; the result of \<open>ReplayWalFile\<close> holds what they
    are called with, in the order of the calls.
\<close>

definition UNCOMMIT_TS :: nat where "UNCOMMIT_TS = 2 ^ 64 - 1"

record wal_manager =
  wm_wal_dir :: string
  wm_data_path :: string
  wm_wal_path :: string
  cfg_wal_size_threshold :: nat
  cfg_delta_checkpoint_interval_wal_bytes :: nat
  wm_running :: bool
  wm_max_commit_ts :: nat
  wm_last_swap_wal_ts :: nat
  wm_wal_size :: int
  wm_last_ckp_wal_size :: int
  wm_checkpoint_in_progress :: bool
  wm_last_ckp_ts :: nat
  wm_last_full_ckp_ts :: nat
  wm_tasks :: "bool list"
  wm_disk :: disk

text \<open>\<open>wm_tasks\<close> are the checkpoint tasks given to the background processor (\<open>True\<close> for a full one), newest last.\<close>

definition open_append :: "string \<Rightarrow> disk \<Rightarrow> disk" where
  "open_append path d = (case d path of None \<Rightarrow> d(path := Some []) | Some _ \<Rightarrow> d)"

definition append_file :: "string \<Rightarrow> byte list \<Rightarrow> disk \<Rightarrow> disk" where
  "append_file path b d = d(path := Some ((case d path of None \<Rightarrow> [] | Some a \<Rightarrow> a) @ b))"

definition WalManager_new :: "string \<Rightarrow> string \<Rightarrow> nat \<Rightarrow> nat \<Rightarrow> disk \<Rightarrow> wal_manager" where
  "WalManager_new wal_dir data_dir wal_size_threshold delta_checkpoint_interval_wal_bytes d =
     \<lparr>wm_wal_dir = wal_dir, wm_data_path = data_dir, wm_wal_path = wal_dir @ ''/'' @ TempWalFilename,
      cfg_wal_size_threshold = wal_size_threshold,
      cfg_delta_checkpoint_interval_wal_bytes = delta_checkpoint_interval_wal_bytes, wm_running = False,
      wm_max_commit_ts = 0, wm_last_swap_wal_ts = 0, wm_wal_size = 0, wm_last_ckp_wal_size = 0,
      wm_checkpoint_in_progress = False, wm_last_ckp_ts = UNCOMMIT_TS, wm_last_full_ckp_ts = UNCOMMIT_TS,
      wm_tasks = [], wm_disk = d\<rparr>"

definition WalManager_Start :: "wal_manager \<Rightarrow> wal_manager" where
  "WalManager_Start wm =
     (if wm_running wm then wm
      else wm\<lparr>wm_running := True, wm_wal_size := 0, wm_disk := open_append (wm_wal_path wm) (wm_disk wm)\<rparr>)"

definition LastCheckpointTS :: "wal_manager \<Rightarrow> nat" where
  "LastCheckpointTS wm = (if wm_last_ckp_ts wm = UNCOMMIT_TS then 0 else wm_last_ckp_ts wm)"

definition UpdateCommitState :: "nat \<Rightarrow> int \<Rightarrow> wal_manager \<Rightarrow> wal_manager res" where
  "UpdateCommitState commit_ts wal_size wm =
     (if commit_ts \<le> wm_max_commit_ts wm \<or> wal_size < wm_wal_size wm
      then Inl (UnrecoverableError ''WalManager::UpdateCommitState'')
      else Inr (wm\<lparr>wm_max_commit_ts := commit_ts, wm_wal_size := wal_size\<rparr>))"

definition SwapWalFile :: "nat \<Rightarrow> bool \<Rightarrow> wal_manager \<Rightarrow> wal_manager res" where
  "SwapWalFile max_commit_ts error_if_duplicate wm =
     (if max_commit_ts \<le> wm_last_swap_wal_ts wm then Inr wm
      else let new_file_path = wm_wal_dir wm @ ''/'' @ WalFilename max_commit_ts in
        rbind (if vs_Exists new_file_path (wm_disk wm)
               then (if error_if_duplicate then Inl (UnrecoverableError ''File exists!'')
                     else vs_DeleteFile (wm_wal_path wm) (wm_disk wm))
               else if vs_Exists (wm_wal_path wm) (wm_disk wm)
               then vs_Rename (wm_wal_path wm) new_file_path (wm_disk wm)
               else Inr (wm_disk wm)) (\<lambda>d.
          Inr (wm\<lparr>wm_disk := open_append (wm_wal_path wm) d, wm_last_swap_wal_ts := max_commit_ts\<rparr>)))"

subsection \<open>Flushing a batch\<close>

definition serialize_entry :: "'b wal_env \<Rightarrow> 'b WalEntry \<Rightarrow> byte list res" where
  "serialize_entry env entry =
     rbind (WalEntry_GetSizeInBytes env entry) (\<lambda>exp_size.
       if exp_size < 0 then Inl (StdException ''length_error'')
       else rbind (WalEntry_WriteAdv env (WalEntry_sized env entry)) (\<lambda>b.
         if exp_size < int (length b) then Inl (UndefinedBehaviour ''write past the end of the buffer'')
         else if exp_size \<noteq> to_i32 (int (length b))
         then Inl (UnrecoverableError ''WalManager::Flush WalEntry estimated size differ with the actual one'')
         else Inr b))"

definition TrySubmitCheckpointTask :: "bool \<Rightarrow> wal_manager \<Rightarrow> bool \<times> wal_manager" where
  "TrySubmitCheckpointTask is_full wm =
     (if \<not> wm_checkpoint_in_progress wm
      then (True, wm\<lparr>wm_checkpoint_in_progress := True, wm_tasks := wm_tasks wm @ [is_full]\<rparr>)
      else (False, wm))"

definition flush_txn :: "'b wal_env \<Rightarrow> bool \<times> 'b WalEntry \<Rightarrow> wal_manager \<Rightarrow> wal_manager res" where
  "flush_txn env = (\<lambda>(is_checkpoint, entry) wm.
     if we_cmds entry = [] then Inr wm
     else rbind (if is_checkpoint then SwapWalFile (wm_max_commit_ts wm) True wm else Inr wm) (\<lambda>wm1.
          rbind (serialize_entry env entry) (\<lambda>b.
            UpdateCommitState (we_commit_ts entry) (wm_wal_size wm1 + to_i32 (int (length b)))
              (wm1\<lparr>wm_disk := append_file (wm_wal_path wm1) b (wm_disk wm1)\<rparr>))))"

text \<open>A missing transaction in the batch is the null pointer by which \<^verbatim>\<open>Stop\<close> ends the thread.\<close>

fun flush_txns :: "'b wal_env \<Rightarrow> (bool \<times> 'b WalEntry) option list \<Rightarrow> wal_manager \<Rightarrow> wal_manager res" where
  "flush_txns env [] wm = Inr wm"
| "flush_txns env (None # txns) wm = Inr (wm\<lparr>wm_running := False\<rparr>)"
| "flush_txns env (Some txn # txns) wm = rbind (flush_txn env txn wm) (flush_txns env txns)"

definition Flush :: "'b wal_env \<Rightarrow> (bool \<times> 'b WalEntry) option list \<Rightarrow> wal_manager \<Rightarrow> wal_manager res" where
  "Flush env txn_batch wm =
     (if txn_batch = [] then Inr wm
      else rbind (flush_txns env txn_batch wm) (\<lambda>wm1.
       if \<not> wm_running wm1 then Inr wm1
       else rbind (vs_GetFileSize (wm_wal_path wm1) (wm_disk wm1)) (\<lambda>file_size.
            rbind (if cfg_wal_size_threshold wm1 < file_size then SwapWalFile (wm_max_commit_ts wm1) True wm1 else Inr wm1) (\<lambda>wm2.
              Inr (if to_i64 (int (cfg_delta_checkpoint_interval_wal_bytes wm2)) < wm_wal_size wm2 - wm_last_ckp_wal_size wm2
                   then snd (TrySubmitCheckpointTask False wm2) else wm2)))))"

subsection \<open>Checkpoints\<close>

text \<open>\<open>full\<close> and \<open>delta\<close> are \<^verbatim>\<open>Txn::FullCheckpoint\<close> and \<^verbatim>\<open>Txn::DeltaCheckpoint\<close>, which write the catalog: the first
  returns or raises, the second returns the new maximal timestamp unless there is nothing to write.\<close>

definition FullCheckpointInner :: "(nat \<Rightarrow> unit res) \<Rightarrow> nat \<Rightarrow> wal_manager \<Rightarrow> wal_manager res" where
  "FullCheckpointInner full max_committed_ts wm =
     (let done = wm\<lparr>wm_checkpoint_in_progress := False\<rparr>; max_commit_ts = max_committed_ts in
      if max_commit_ts = wm_last_full_ckp_ts wm then Inr done
      else if wm_last_full_ckp_ts wm \<noteq> UNCOMMIT_TS \<and> max_commit_ts \<le> wm_last_full_ckp_ts wm \<or>
              wm_last_ckp_ts wm \<noteq> UNCOMMIT_TS \<and> max_commit_ts < wm_last_ckp_ts wm
      then Inl (UnrecoverableError ''last_full_ckp_ts >= max_commit_ts'')
      else case full max_commit_ts of
          Inr _ \<Rightarrow> Inr (done\<lparr>wm_last_ckp_wal_size := wm_wal_size wm, wm_last_ckp_ts := max_commit_ts, wm_last_full_ckp_ts := max_commit_ts\<rparr>)
        | Inl (RecoverableError _) \<Rightarrow> Inr (done\<lparr>wm_last_ckp_ts := max_commit_ts, wm_last_full_ckp_ts := max_commit_ts\<rparr>)
        | Inl e \<Rightarrow> Inl e)"

definition DeltaCheckpointInner :: "(nat \<Rightarrow> nat option res) \<Rightarrow> nat \<Rightarrow> wal_manager \<Rightarrow> wal_manager res" where
  "DeltaCheckpointInner delta begin_ts wm =
     (let done = wm\<lparr>wm_checkpoint_in_progress := False\<rparr>; max_commit_ts = min (wm_max_commit_ts wm) begin_ts in
      if max_commit_ts = wm_last_ckp_ts wm then Inr done
      else if wm_last_ckp_ts wm \<noteq> UNCOMMIT_TS \<and> max_commit_ts \<le> wm_last_ckp_ts wm
      then Inl (UnrecoverableError ''last_ckp_ts >= max_commit_ts'')
      else case delta (wm_last_ckp_ts wm) of
          Inr None \<Rightarrow> Inr done
        | Inr (Some new_max_commit_ts) \<Rightarrow>
            if new_max_commit_ts = 0 then Inl (UnrecoverableError ''new_max_commit_ts = 0'')
            else Inr (done\<lparr>wm_last_ckp_wal_size := wm_wal_size wm, wm_last_ckp_ts := new_max_commit_ts\<rparr>)
        | Inl (RecoverableError _) \<Rightarrow> Inr (done\<lparr>wm_last_ckp_ts := max_commit_ts\<rparr>)
        | Inl e \<Rightarrow> Inl e)"

definition delete_files :: "string list \<Rightarrow> disk \<Rightarrow> disk res" where
  "delete_files paths d = rfold vs_DeleteFile paths d"

definition CommitDeltaCheckpoint :: "dir_entry list \<Rightarrow> nat \<Rightarrow> wal_manager \<Rightarrow> wal_manager res" where
  "CommitDeltaCheckpoint wal_entries max_commit_ts wm =
     rbind (RecycleWalFile max_commit_ts wal_entries) (\<lambda>paths.
     rbind (delete_files paths (wm_disk wm)) (\<lambda>d. Inr (wm\<lparr>wm_disk := d\<rparr>)))"

definition CommitFullCheckpoint :: "dir_entry list \<Rightarrow> dir_entry list \<Rightarrow> nat \<Rightarrow> wal_manager \<Rightarrow> wal_manager res" where
  "CommitFullCheckpoint wal_entries catalog_entries max_commit_ts wm =
     rbind (CommitDeltaCheckpoint wal_entries max_commit_ts wm) (\<lambda>wm1.
       case RecycleCatalogFile max_commit_ts catalog_entries of (paths, r) \<Rightarrow>
         rbind (delete_files paths (wm_disk wm1)) (\<lambda>d. rbind r (\<lambda>_. Inr (wm1\<lparr>wm_disk := d\<rparr>))))"

subsection \<open>Choosing the entries to replay\<close>

definition wal_file_list :: "dir_entry list \<Rightarrow> string list res" where
  "wal_file_list entries =
     rbind (ParseWalFilenames entries) (\<lambda>(temp_wal_info, wal_infos).
       Inr ((case temp_wal_info of None \<Rightarrow> [] | Some p \<Rightarrow> [p]) @
            map fi_path (sort_key (\<lambda>i. - int (fi_max_commit_ts i)) wal_infos)))"

definition entry_checkpoint_ts :: "'b WalEntry \<Rightarrow> nat" where
  "entry_checkpoint_ts e =
     (case snd (IsCheckPoint e) of None \<Rightarrow> 0
      | Some cmd \<Rightarrow> (case checkpoint_ts cmd of None \<Rightarrow> 0 | Some ts \<Rightarrow> ts))"

partial_function (option) replay_phase1 ::
    "'b wal_env \<Rightarrow> disk \<Rightarrow> WalListIterator \<Rightarrow> 'b WalEntry list \<Rightarrow>
     (('b WalEntry list \<times> 'b WalEntry option) \<times> WalListIterator) res option" where
  "replay_phase1 env d iterator entries =
     (case wl_HasNext d iterator of
        Inl e \<Rightarrow> Some (Inl e)
      | Inr (has_next, it1) \<Rightarrow>
          if \<not> has_next then Some (Inr ((entries, None), it1))
          else case wl_Next env it1 of
              Inl e \<Rightarrow> Some (Inl e)
            | Inr (wal_entry, it2) \<Rightarrow>
                (case wal_entry of
                   None \<Rightarrow> Some (Inl (UnrecoverableError ''Found unexpected bad wal entry''))
                 | Some e \<Rightarrow>
                     if fst (IsCheckPoint e) then Some (Inr ((entries, Some e), it2))
                     else replay_phase1 env d it2 (entries @ [e])))"

partial_function (option) replay_phase2 ::
    "'b wal_env \<Rightarrow> disk \<Rightarrow> nat \<Rightarrow> WalListIterator \<Rightarrow> 'b WalEntry list \<Rightarrow> 'b WalEntry list res option" where
  "replay_phase2 env d max_checkpoint_ts iterator entries =
     (case wl_HasNext d iterator of
        Inl e \<Rightarrow> Some (Inl e)
      | Inr (has_next, it1) \<Rightarrow>
          if \<not> has_next then Some (Inr entries)
          else case wl_Next env it1 of
              Inl e \<Rightarrow> Some (Inl e)
            | Inr (wal_entry, it2) \<Rightarrow>
                (case wal_entry of
                   None \<Rightarrow> Some (Inl (UnrecoverableError ''Found unexpected bad wal entry''))
                 | Some e \<Rightarrow>
                     if max_checkpoint_ts < we_commit_ts e then replay_phase2 env d max_checkpoint_ts it2 (entries @ [e])
                     else Some (Inr entries)))"

text \<open>Sequencing of computations that may raise and may not return.\<close>

definition pbind :: "'a res option \<Rightarrow> ('a \<Rightarrow> 'c res option) \<Rightarrow> 'c res option" where
  "pbind r k = (case r of None \<Rightarrow> None | Some (Inl e) \<Rightarrow> Some (Inl e) | Some (Inr x) \<Rightarrow> k x)"

lemma pbind_simps [simp]:
  "pbind None k = None" "pbind (Some (Inl e)) k = Some (Inl e)" "pbind (Some (Inr x)) k = k x"
  by (simp_all add: pbind_def)

definition CollectWalEntries :: "'b wal_env \<Rightarrow> dir_entry list \<Rightarrow> disk \<Rightarrow> (disk \<times> 'b WalEntry list) res option" where
  "CollectWalEntries env wal_entries d =
     pbind (Some (wal_file_list wal_entries)) (\<lambda>wal_list.
       if wal_list = [] then Some (Inl (UnrecoverableError ''No WAL file found''))
       else pbind (WalListIterator_new env d wal_list) (\<lambda>(d', iterator).
            pbind (replay_phase1 env d' iterator []) (\<lambda>((entries, ckp), it1).
              case ckp of
                None \<Rightarrow> Some (Inl (UnrecoverableError ''No checkpoint found in WAL''))
              | Some c \<Rightarrow>
                  if we_commit_ts c = 0 then Some (Inl (UnrecoverableError ''No checkpoint found in WAL''))
                  else pbind (replay_phase2 env d' (entry_checkpoint_ts c) it1 (entries @ [c])) (\<lambda>es.
                         Some (Inr (d', rev es))))))"

text \<open>\<^verbatim>\<open>Path::parent_path\<close> and \<^verbatim>\<open>Path::filename\<close>.\<close>

definition parent_path :: "string \<Rightarrow> string" where
  "parent_path p =
     (let q = dropWhile (\<lambda>c. c = CHR ''/'') (dropWhile (\<lambda>c. c \<noteq> CHR ''/'') (rev p))
      in if q = [] then (if starts_with p ''/'' then ''/'' else []) else rev q)"

definition path_filename :: "string \<Rightarrow> string" where
  "path_filename p = rev (takeWhile (\<lambda>c. c \<noteq> CHR ''/'') (rev p))"

definition entry_catalog_dir :: "string \<Rightarrow> 'b WalEntry \<Rightarrow> string" where
  "entry_catalog_dir data_path e =
     (case snd (IsCheckPoint e) of
        Some (WalCmdCheckpoint _ _ _ catalog_name) \<Rightarrow> parent_path (data_path @ ''/catalog/'' @ catalog_name)
      | _ \<Rightarrow> [])"

definition GetCatalogFiles ::
    "'b wal_env \<Rightarrow> (string \<Rightarrow> dir_entry list) \<Rightarrow> wal_manager \<Rightarrow> (disk \<times> (file_info \<times> file_info list) option) res option" where
  "GetCatalogFiles env ls wm =
     pbind (Some (wal_file_list (ls (wm_wal_dir wm)))) (\<lambda>wal_list.
       if wal_list = [] then Some (Inl (UnrecoverableError ''No WAL file found''))
       else pbind (WalListIterator_new env (wm_disk wm) wal_list) (\<lambda>(d', iterator).
            pbind (replay_phase1 env d' iterator []) (\<lambda>((entries, ckp), it1).
              case ckp of
                None \<Rightarrow> Some (Inl (UnrecoverableError ''No checkpoint is found WAL''))
              | Some c \<Rightarrow>
                  if we_commit_ts c = 0 then Some (Inl (UnrecoverableError ''No checkpoint is found WAL''))
                  else Some (Inr (d', ParseValidCheckpointFilenames (ls (entry_catalog_dir (wm_data_path wm) c)) (entry_checkpoint_ts c))))))"

text \<open>Phases 1 and 2 of \<^verbatim>\<open>ReplayWalFile\<close> and \<^verbatim>\<open>GetDiffWalEntryString\<close>: the entries newest first, and the checkpoint.\<close>

definition replay_select ::
    "'b wal_env \<Rightarrow> string list \<Rightarrow> disk \<Rightarrow> (disk \<times> 'b WalEntry list \<times> 'b WalEntry option) res option" where
  "replay_select env wal_list d =
     pbind (WalListIterator_new env d wal_list) (\<lambda>(d', iterator).
     pbind (replay_phase1 env d' iterator []) (\<lambda>((entries, ckp), it1).
     pbind (replay_phase2 env d' (case ckp of None \<Rightarrow> 0 | Some c \<Rightarrow> entry_checkpoint_ts c) it1 entries) (\<lambda>es.
       Some (Inr (d', es, ckp)))))"

datatype StorageMode = kUnInitialized | kAdmin | kReadable | kWritable

record 'b replay_result =
  rr_catalog :: "file_info \<times> file_info list"
  rr_entries :: "'b WalEntry list"
  rr_next_txn_id :: nat
  rr_system_start_ts :: nat

definition ReplayWalFile ::
    "'b wal_env \<Rightarrow> (string \<Rightarrow> dir_entry list) \<Rightarrow> StorageMode \<Rightarrow> wal_manager \<Rightarrow> (wal_manager \<times> 'b replay_result option) res option" where
  "ReplayWalFile env ls mode wm =
     pbind (Some (wal_file_list (ls (wm_wal_dir wm)))) (\<lambda>wal_list.
       if wal_list = [] then Some (Inr (wm, None))
       else pbind (replay_select env wal_list (wm_disk wm)) (\<lambda>(d, entries, ckp).
         let last_commit_ts = (case ckp of None \<Rightarrow> 0 | Some c \<Rightarrow> we_commit_ts c);
             max_checkpoint_ts = (case ckp of None \<Rightarrow> 0 | Some c \<Rightarrow> entry_checkpoint_ts c);
             catalog_dir = (case ckp of None \<Rightarrow> [] | Some c \<Rightarrow> entry_catalog_dir (wm_data_path wm) c);
             wm1 = wm\<lparr>wm_disk := d\<rparr>
         in if last_commit_ts = 0 then
              (case mode of
                 kWritable \<Rightarrow> Some (Inl (UnrecoverableError ''WAL replay: No checkpoint found in wal''))
               | kReadable \<Rightarrow> Some (Inr (wm1, None))
               | _ \<Rightarrow> Some (Inl (UnrecoverableError ''Unreachable branch'')))
            else case ParseValidCheckpointFilenames (ls catalog_dir) max_checkpoint_ts of
                None \<Rightarrow> Some (Inl (UnrecoverableError ''Wal Replay: Parse catalog file failed''))
              | Some catalog_fileinfo \<Rightarrow>
                  let replay_entries = rev entries in
                  if list_ex (\<lambda>e. we_commit_ts e < max_checkpoint_ts) replay_entries
                  then Some (Inl (UnrecoverableError ''Wal Replay: Commit ts should be greater than max commit ts''))
                  else let last_commit_ts = (if replay_entries = [] then last_commit_ts else we_commit_ts (last replay_entries));
                           last_txn_id = (if replay_entries = [] then 0 else to_u64 (we_txn_id (last replay_entries)))
                       in pbind (Some (UpdateCommitState last_commit_ts 0 wm1)) (\<lambda>wm2.
                            Some (Inr (wm2, Some \<lparr>rr_catalog = catalog_fileinfo, rr_entries = replay_entries,
                                                  rr_next_txn_id = last_txn_id, rr_system_start_ts = u64_add last_commit_ts 1\<rparr>)))))"

subsection \<open>Replication\<close>

text \<open>The entry that describes the newest catalog to a follower.\<close>

definition checkpoint_entry :: "nat \<Rightarrow> file_info \<Rightarrow> file_info list \<Rightarrow> 'b WalEntry" where
  "checkpoint_entry next_txn_id full deltas =
     \<lparr>we_size = 0, we_checksum = 0, we_txn_id = to_i64 (int next_txn_id),
      we_commit_ts = fold max (map fi_max_commit_ts (full # deltas)) 0,
      we_cmds = WalCmdCheckpoint (to_i64 (int (fi_max_commit_ts full))) True ''catalog'' (path_filename (fi_path full)) #
                map (\<lambda>i. WalCmdCheckpoint (to_i64 (int (fi_max_commit_ts i))) False ''catalog'' (path_filename (fi_path i))) deltas\<rparr>"

fun serialize_entries :: "'b wal_env \<Rightarrow> 'b WalEntry list \<Rightarrow> byte list list res" where
  "serialize_entries env [] = Inr []"
| "serialize_entries env (e # es) = rbind (serialize_entry env e) (\<lambda>b. rbind (serialize_entries env es) (\<lambda>bs. Inr (b # bs)))"

definition GetDiffWalEntryString ::
    "'b wal_env \<Rightarrow> (string \<Rightarrow> dir_entry list) \<Rightarrow> nat \<Rightarrow> nat \<Rightarrow> wal_manager \<Rightarrow> (disk \<times> byte list list) res option" where
  "GetDiffWalEntryString env ls next_txn_id start_timestamp wm =
     pbind (Some (wal_file_list (ls (wm_wal_dir wm)))) (\<lambda>wal_list.
       if wal_list = [] then Some (Inr (wm_disk wm, []))
       else pbind (replay_select env wal_list (wm_disk wm)) (\<lambda>(d, entries, ckp).
         case ParseValidCheckpointFilenames
                (ls (case ckp of None \<Rightarrow> [] | Some c \<Rightarrow> entry_catalog_dir (wm_data_path wm) c))
                (case ckp of None \<Rightarrow> 0 | Some c \<Rightarrow> entry_checkpoint_ts c) of
           None \<Rightarrow> Some (Inl (UnrecoverableError ''Wal Replay: Parse catalog file failed''))
         | Some (full, deltas) \<Rightarrow>
             pbind (Some (serialize_entries env (rev (entries @ [checkpoint_entry next_txn_id full deltas])))) (\<lambda>strings.
               Some (Inr (d, strings)))))"

partial_function (option) max_commit_loop ::
    "'b wal_env \<Rightarrow> disk \<Rightarrow> WalListIterator \<Rightarrow> nat \<Rightarrow> nat res option" where
  "max_commit_loop env d iterator max_commit_ts =
     (case wl_HasNext d iterator of
        Inl e \<Rightarrow> Some (Inl e)
      | Inr (has_next, it1) \<Rightarrow>
          if \<not> has_next then Some (Inr max_commit_ts)
          else case wl_Next env it1 of
              Inl e \<Rightarrow> Some (Inl e)
            | Inr (wal_entry, it2) \<Rightarrow>
                (case wal_entry of
                   None \<Rightarrow> Some (Inr max_commit_ts)
                 | Some e \<Rightarrow> max_commit_loop env d it2 (max max_commit_ts (we_commit_ts e))))"

definition FlushLogByReplication ::
    "'b wal_env \<Rightarrow> dir_entry list \<Rightarrow> byte list list \<Rightarrow> bool \<Rightarrow> wal_manager \<Rightarrow> wal_manager res option" where
  "FlushLogByReplication env wal_entries synced_logs on_startup wm =
     pbind (if on_startup then
              pbind (Some (wal_file_list wal_entries)) (\<lambda>wal_list.
                if wal_list = [] then Some (SwapWalFile 0 False wm)
                else pbind (WalListIterator_new env (wm_disk wm) wal_list) (\<lambda>(d, iterator).
                     pbind (max_commit_loop env d iterator 0) (\<lambda>max_commit_ts.
                       Some (SwapWalFile max_commit_ts False (wm\<lparr>wm_disk := d\<rparr>)))))
            else Some (Inr wm)) (\<lambda>wm1.
       Some (Inr (wm1\<lparr>wm_disk := append_file (wm_wal_path wm1) (concat synced_logs) (wm_disk wm1)\<rparr>)))"

end
