(* ===== verification/Wal_Log.thy ===== *)
theory Wal_Log
  imports Wal_Manager
begin

text \<open>
  The state of the log manager: \<open>wal_inv\<close> relates a manager to the entries of its log, those of the
  current file and those of the closed files, newest file first.  Flushing appends to these entries,
  and closing the current file keeps them.
\<close>

subsection \<open>The files of the log\<close>

type_synonym 'b segment = "nat \<times> 'b WalEntry list \<times> byte list list"

definition seg_file :: "string \<Rightarrow> 'b segment \<Rightarrow> 'b log_file" where
  "seg_file dir = (\<lambda>(ts, es, ws). (dir @ ''/'' @ WalFilename ts, es, ws, []))"

definition cur_file :: "string \<Rightarrow> 'b WalEntry list \<Rightarrow> byte list list \<Rightarrow> byte list \<Rightarrow> 'b log_file" where
  "cur_file dir es ws torn = (dir @ ''/'' @ TempWalFilename, es, ws, torn)"

definition log_entries :: "'b WalEntry list \<Rightarrow> 'b segment list \<Rightarrow> 'b WalEntry list" where
  "log_entries es segs = concat (map (\<lambda>s. fst (snd s)) (rev segs)) @ es"

text \<open>What \<^verbatim>\<open>ListDirectory\<close> gives for a directory of regular files, in any order.\<close>

definition dir_file :: "string \<Rightarrow> string \<Rightarrow> dir_entry" where
  "dir_file dir f = \<lparr>de_path = dir @ ''/'' @ f, de_regular = True, de_filename = f\<rparr>"

definition is_listing :: "string \<Rightarrow> disk \<Rightarrow> dir_entry list \<Rightarrow> bool" where
  "is_listing dir d entries \<longleftrightarrow> distinct entries \<and>
     set entries = {dir_file dir f | f. CHR ''/'' \<notin> set f \<and> d (dir @ ''/'' @ f) \<noteq> None}"

lemma show_nat_inject [simp]: "show_nat m = show_nat n \<longleftrightarrow> m = n"
  by (metis digits_value_show_nat)

lemma WalFilename_inject [simp]: "WalFilename m = WalFilename n \<longleftrightarrow> m = n"
  by (simp add: WalFilename_def)

lemma WalFilename_not_temp [simp]: "WalFilename m \<noteq> TempWalFilename" "TempWalFilename \<noteq> WalFilename m"
  by (simp_all add: WalFilename_def TempWalFilename_def WAL_FILE_PREFIX_def WAL_FILE_TEMP_FILE_def)

lemma slash_not_in_names: "CHR ''/'' \<notin> set (WalFilename m)" "CHR ''/'' \<notin> set TempWalFilename"
proof -
  have "CHR ''/'' \<notin> set (show_nat m)"
    using show_nat_digits [of m] by (auto simp: list_all_iff is_digit_def less_eq_char_def)
  then show "CHR ''/'' \<notin> set (WalFilename m)" by (simp add: WalFilename_def WAL_FILE_PREFIX_def)
qed (simp add: TempWalFilename_def WAL_FILE_TEMP_FILE_def)

lemma wal_entry_file_temp:
  "wal_entry_file (dir_file dir TempWalFilename) (None, infos) = Inr (Some (dir @ ''/'' @ TempWalFilename), infos)"
  by (simp add: wal_entry_file_def dir_file_def)

lemma wal_entry_file_closed:
  assumes "ts < 2 ^ 63"
  shows "wal_entry_file (dir_file dir (WalFilename ts)) (cur, infos) =
    Inr (cur, infos @ [\<lparr>fi_path = dir @ ''/'' @ WalFilename ts, fi_max_commit_ts = ts\<rparr>])"
proof -
  have n: "WalFilename ts = WAL_FILE_PREFIX @ CHR ''.'' # show_nat ts" by (simp add: WalFilename_def)
  have "wal_entry_file (dir_file dir (WalFilename ts)) (cur, infos) =
      (case rfind CHR ''.'' (WalFilename ts) of None \<Rightarrow> Inr (cur, infos)
       | Some p \<Rightarrow> (case parse_ts (drop (p + 1) (WalFilename ts)) of None \<Rightarrow> Inr (cur, infos)
            | Some t \<Rightarrow> if take p (WalFilename ts) \<noteq> WAL_FILE_PREFIX then Inr (cur, infos)
                else Inr (cur, infos @ [\<lparr>fi_path = dir @ ''/'' @ WalFilename ts, fi_max_commit_ts = t\<rparr>])))"
    by (simp add: wal_entry_file_def dir_file_def Let_def cong: option.case_cong if_cong)
  then show ?thesis unfolding n prefixed_number option.case parse_ts_number [OF assms] by simp
qed

definition closed_info :: "string \<Rightarrow> nat \<Rightarrow> file_info" where
  "closed_info dir ts = \<lparr>fi_path = dir @ ''/'' @ WalFilename ts, fi_max_commit_ts = ts\<rparr>"

lemma ParseWalFilenames_closed:
  "list_all (\<lambda>n. n < 2 ^ 63) tss \<Longrightarrow>
     rfold wal_entry_file (map (\<lambda>ts. dir_file dir (WalFilename ts)) tss) (cur, infos) = Inr (cur, infos @ map (closed_info dir) tss)"
  by (induction tss arbitrary: infos) (simp_all add: wal_entry_file_closed closed_info_def)

lemma mset_map_inj:
  assumes "inj g" "mset xs = mset (map g ys)"
  obtains zs where "xs = map g zs" "mset zs = mset ys"
proof
  have "set xs \<subseteq> range g" using assms(2) by (metis image_mono set_map set_mset_mset subset_UNIV)
  then show "xs = map g (map (inv g) xs)" by (simp add: map_idI f_inv_into_f subset_iff)
  show "mset (map (inv g) xs) = mset ys" using assms by (simp add: multiset.map_comp o_def)
qed

lemma ParseWalFilenames_dir:
  assumes "list_all (\<lambda>n. n < 2 ^ 63) tss" "mset entries = mset (map (dir_file dir) (TempWalFilename # map WalFilename tss))"
  obtains tss' where "ParseWalFilenames entries = Inr (Some (dir @ ''/'' @ TempWalFilename), map (closed_info dir) tss')"
    "mset tss' = mset tss"
proof -
  let ?T = "dir_file dir TempWalFilename" and ?g = "\<lambda>ts. dir_file dir (WalFilename ts)"
  have "?T \<in> set entries" using mset_eq_setD [OF assms(2)] by simp
  then obtain a b where ab: "entries = a @ ?T # b" by (meson split_list)
  have "inj ?g" by (rule injI) (simp add: dir_file_def)
  moreover have "mset (a @ b) = mset (map ?g tss)" using assms(2) ab by (simp add: o_def)
  ultimately obtain zs where zs: "a @ b = map ?g zs" "mset zs = mset tss" by (rule mset_map_inj)
  then obtain as bs where s: "zs = as @ bs" "a = map ?g as" "b = map ?g bs" by (auto simp: append_eq_map_conv)
  have "list_all (\<lambda>n. n < 2 ^ 63) zs" using assms(1) zs(2) by (metis list_all_iff set_mset_mset)
  then have "ParseWalFilenames entries = Inr (Some (dir @ ''/'' @ TempWalFilename), map (closed_info dir) zs)"
    unfolding ab s ParseWalFilenames_def rfold_append
    by (simp add: ParseWalFilenames_closed wal_entry_file_temp)
  then show thesis using zs(2) by (rule that)
qed

lemma wal_file_list_dir:
  assumes "list_all (\<lambda>n. n < 2 ^ 63) tss" "sorted_wrt (>) tss"
    and "mset entries = mset (map (dir_file dir) (TempWalFilename # map WalFilename tss))"
  shows "wal_file_list entries = Inr (map (\<lambda>f. dir @ ''/'' @ f) (TempWalFilename # map WalFilename tss))"
proof -
  obtain tss' where t: "ParseWalFilenames entries = Inr (Some (dir @ ''/'' @ TempWalFilename), map (closed_info dir) tss')"
    "mset tss' = mset tss" by (rule ParseWalFilenames_dir [OF assms(1,3)])
  have "sort_key (\<lambda>i. - int (fi_max_commit_ts i)) (map (closed_info dir) tss') = map (closed_info dir) tss"
  proof (rule sort_key_inj_key_eq)
    show "mset (map (closed_info dir) tss') = mset (map (closed_info dir) tss)" using t(2) by simp
    show "inj_on (\<lambda>i. - int (fi_max_commit_ts i)) (set (map (closed_info dir) tss'))"
      by (auto intro!: inj_onI simp: closed_info_def)
    show "sorted (map (\<lambda>i. - int (fi_max_commit_ts i)) (map (closed_info dir) tss))"
      using assms(2) by (simp add: sorted_wrt_map closed_info_def) (erule sorted_wrt_mono_rel [rotated], simp)
  qed
  then show ?thesis by (simp add: wal_file_list_def t(1) closed_info_def)
qed

subsection \<open>The invariant of the manager\<close>

text \<open>The log directory holds the current file and the closed files and nothing else; the closed files are
  named by timestamps that no entry in them exceeds; timestamps grow along the log; a file for the
  newest timestamp exists only if the log was closed at it.\<close>

definition wal_inv :: "'b wal_env \<Rightarrow> wal_manager \<Rightarrow> 'b WalEntry list \<Rightarrow> byte list list \<Rightarrow> 'b segment list \<Rightarrow> bool" where
  "wal_inv env wm es ws segs \<longleftrightarrow>
     wm_wal_path wm = wm_wal_dir wm @ ''/'' @ TempWalFilename \<and> is_absolute (wm_wal_dir wm) \<and>
     on_disk env (wm_disk wm) (cur_file (wm_wal_dir wm) es ws []) \<and>
     (\<forall>s \<in> set segs. on_disk env (wm_disk wm) (seg_file (wm_wal_dir wm) s)) \<and>
     (\<forall>f. CHR ''/'' \<notin> set f \<longrightarrow> wm_disk wm (wm_wal_dir wm @ ''/'' @ f) \<noteq> None \<longrightarrow>
        f = TempWalFilename \<or> f \<in> WalFilename ` fst ` set segs) \<and>
     sorted_wrt (>) (map fst segs) \<and>
     (\<forall>s \<in> set segs. fst s \<le> wm_last_swap_wal_ts wm \<or> fst s < wm_max_commit_ts wm) \<and>
     (\<forall>s \<in> set segs. fst s < 2 ^ 63) \<and> (\<forall>s \<in> set segs. \<forall>e \<in> set (fst (snd s)). we_commit_ts e \<le> fst s) \<and>
     sorted_wrt (<) (map we_commit_ts (log_entries es segs)) \<and>
     (\<forall>e \<in> set (log_entries es segs). 0 < we_commit_ts e \<and> we_commit_ts e \<le> wm_max_commit_ts wm) \<and> wm_max_commit_ts wm < 2 ^ 63"

definition room :: "nat \<Rightarrow> byte list list \<Rightarrow> bool" where
  "room n ws \<longleftrightarrow> length (concat ws) + n * 2 ^ 31 < 2 ^ 63"

lemma log_entries_snoc [simp]: "log_entries (es @ [e]) segs = log_entries es segs @ [e]"
  by (simp add: log_entries_def)

lemma is_absolute_append [simp]: "is_absolute p \<Longrightarrow> is_absolute (p @ q)"
  by (cases p) (simp_all add: is_absolute_def starts_with_def)

lemma on_disk_other:
  "on_disk env d f \<Longrightarrow> d' (lf_path f) = d (lf_path f) \<Longrightarrow> on_disk env d' f"
  using on_disk_cong [of d f d' env] by simp

text \<open>Closing the current file moves its entries into a new closed file.\<close>

lemma SwapWalFile_closes:
  assumes "wal_inv env wm es ws segs" "wm_last_swap_wal_ts wm < wm_max_commit_ts wm"
  obtains wm' where "SwapWalFile (wm_max_commit_ts wm) True wm = Inr wm'"
    "wal_inv env wm' [] [] ((wm_max_commit_ts wm, es, ws) # segs)" "wm_max_commit_ts wm' = wm_max_commit_ts wm"
    "wm_wal_dir wm' = wm_wal_dir wm" "wm_running wm' = wm_running wm"
proof -
  let ?dir = "wm_wal_dir wm" and ?ts = "wm_max_commit_ts wm" and ?d = "wm_disk wm"
  let ?old = "?dir @ ''/'' @ TempWalFilename" and ?new = "?dir @ ''/'' @ WalFilename ?ts"
  note inv = assms(1) [unfolded wal_inv_def]
  have cur: "?d ?old = Some (concat ws)" using inv by (simp add: on_disk_def cur_file_def)
  have fresh: "?ts \<notin> fst ` set segs" using inv assms(2) by fastforce
  then have none: "?d ?new = None" using inv slash_not_in_names(1) [of ?ts] by (metis (no_types, lifting) WalFilename_inject WalFilename_not_temp(1) imageE)
  let ?d' = "(?d(?old := None, ?new := Some (concat ws)))(?old := Some [])"
  have "vs_Rename ?old ?new ?d = Inr (?d(?old := None, ?new := Some (concat ws)))"
    using inv cur by (simp add: vs_defs)
  then have swap: "SwapWalFile ?ts True wm = Inr (wm\<lparr>wm_disk := ?d', wm_last_swap_wal_ts := ?ts\<rparr>)"
    using assms(2) inv none cur by (simp add: SwapWalFile_def vs_Exists_def open_append_def)
  have "on_disk env ?d' (seg_file ?dir s)" if "s \<in> set segs" for s
  proof (rule on_disk_other)
    show "on_disk env ?d (seg_file ?dir s)" using inv that by blast
    show "?d' (lf_path (seg_file ?dir s)) = ?d (lf_path (seg_file ?dir s))"
      using fresh that by (auto simp: seg_file_def image_iff split: prod.splits)
  qed
  moreover have "on_disk env ?d' (seg_file ?dir (?ts, es, ws))" "on_disk env ?d' (cur_file ?dir [] [] [])"
    using inv by (simp_all add: on_disk_def seg_file_def cur_file_def log_image_def)
  moreover have "f = TempWalFilename \<or> f \<in> WalFilename ` fst ` set ((?ts, es, ws) # segs)"
    if "CHR ''/'' \<notin> set f" "?d' (?dir @ ''/'' @ f) \<noteq> None" for f
    using inv that by (auto split: if_splits)
  moreover have "\<forall>s \<in> set segs. fst s < ?ts" using inv assms(2) by fastforce
  moreover have "log_entries [] ((?ts, es, ws) # segs) = log_entries es segs" by (simp add: log_entries_def)
  ultimately have inv': "wal_inv env (wm\<lparr>wm_disk := ?d', wm_last_swap_wal_ts := ?ts\<rparr>) [] [] ((?ts, es, ws) # segs)"
    using inv unfolding wal_inv_def by (simp add: log_entries_def)
  show thesis by (rule that [OF swap inv']) simp_all
qed

text \<open>What closing the file at the newest timestamp keeps, whether or not it happens.\<close>

lemma SwapWalFile_keeps:
  assumes "wal_inv env wm es ws segs" "room n ws"
  obtains wm' es' ws' segs' where "SwapWalFile (wm_max_commit_ts wm) True wm = Inr wm'"
    "wal_inv env wm' es' ws' segs'" "log_entries es' segs' = log_entries es segs" "room n ws'"
    "wm_max_commit_ts wm' = wm_max_commit_ts wm" "wm_wal_dir wm' = wm_wal_dir wm" "wm_running wm' = wm_running wm"
proof (cases "wm_last_swap_wal_ts wm < wm_max_commit_ts wm")
  case True
  have "room n []" using assms(2) by (simp add: room_def)
  obtain wm' where s: "SwapWalFile (wm_max_commit_ts wm) True wm = Inr wm'"
    "wal_inv env wm' [] [] ((wm_max_commit_ts wm, es, ws) # segs)" "wm_max_commit_ts wm' = wm_max_commit_ts wm"
    "wm_wal_dir wm' = wm_wal_dir wm" "wm_running wm' = wm_running wm"
    by (rule SwapWalFile_closes [OF assms(1) True])
  have "log_entries [] ((wm_max_commit_ts wm, es, ws) # segs) = log_entries es segs" by (simp add: log_entries_def)
  then show thesis by (rule that [OF s(1,2) _ \<open>room n []\<close> s(3-5)])
next
  case False
  then show thesis using that [OF _ assms(1) _ assms(2)] by (simp add: SwapWalFile_def)
qed

lemma serialize_entry_image:
  assumes "blocks_stored env blk_ok" "WalEntry_ok env blk_ok e" "entry_misfit env e = 0"
  obtains w where "serialize_entry env e = Inr w" "WalEntry_WriteAdv env (WalEntry_sized env e) = Inr w"
    "entry_image env (WalEntry_stored env w e) w"
proof -
  obtain w where w: "WalEntry_WriteAdv env (WalEntry_sized env e) = Inr w"
    "WalEntry_GetSizeInBytes env e = Inr (to_i32 (int (length w) + entry_misfit env e))" "entry_image env (WalEntry_stored env w e) w"
    by (rule WalEntry_image [OF assms(1,2)])
  moreover have "serialize_entry env e = Inr w"
    using w assms(3) to_i32_id [of "int (length w)"] by (simp add: serialize_entry_def entry_image_def)
  ultimately show thesis using that by blast
qed

lemma append_entry:
  assumes inv: "wal_inv env wm es ws segs" and e: "entry_image env e w" "wm_max_commit_ts wm < we_commit_ts e" "we_commit_ts e < 2 ^ 63"
    and "room (Suc n) ws"
  obtains wm' where "UpdateCommitState (we_commit_ts e) (wm_wal_size wm + to_i32 (int (length w)))
      (wm\<lparr>wm_disk := append_file (wm_wal_path wm) w (wm_disk wm)\<rparr>) = Inr wm'"
    "wal_inv env wm' (es @ [e]) (ws @ [w]) segs" "room n (ws @ [w])" "wm_max_commit_ts wm' = we_commit_ts e"
    "wm_wal_dir wm' = wm_wal_dir wm" "wm_running wm' = wm_running wm"
proof -
  let ?dir = "wm_wal_dir wm" and ?d = "append_file (wm_wal_path wm) w (wm_disk wm)"
  let ?wm = "wm\<lparr>wm_disk := ?d, wm_max_commit_ts := we_commit_ts e, wm_wal_size := wm_wal_size wm + to_i32 (int (length w))\<rparr>"
  note I = inv [unfolded wal_inv_def]
  have len: "32 \<le> length w" "length w < 2 ^ 31" using e(1) by (simp_all add: entry_image_def)
  have room: "room n (ws @ [w])" using assms(5) len(2) by (simp add: room_def)
  have d: "?d = (wm_disk wm)(?dir @ ''/'' @ TempWalFilename := Some (concat ws @ w))"
    using I by (simp add: append_file_def on_disk_def cur_file_def)
  have "on_disk env ?d (seg_file ?dir s)" if "s \<in> set segs" for s
  proof (rule on_disk_other)
    show "on_disk env (wm_disk wm) (seg_file ?dir s)" using I that by blast
    show "?d (lf_path (seg_file ?dir s)) = wm_disk wm (lf_path (seg_file ?dir s))"
      by (simp add: d seg_file_def split: prod.splits)
  qed
  moreover have "on_disk env ?d (cur_file ?dir (es @ [e]) (ws @ [w]) [])"
    using I e(1) room unfolding d by (simp add: on_disk_def cur_file_def log_image_def list_all2_appendI room_def)
  moreover have "f = TempWalFilename \<or> f \<in> WalFilename ` fst ` set segs"
    if "CHR ''/'' \<notin> set f" "?d (?dir @ ''/'' @ f) \<noteq> None" for f
    using I that unfolding d by (auto split: if_splits)
  ultimately have inv': "wal_inv env ?wm (es @ [e]) (ws @ [w]) segs"
    using I e(2,3) unfolding wal_inv_def by (simp add: sorted_wrt_append) (fastforce intro: le_less_trans)
  show thesis
    by (rule that [OF _ inv' room]) (use e(2) len in \<open>simp_all add: UpdateCommitState_def to_i32_of_nat\<close>)
qed

definition loggable :: "(bool \<times> 'b WalEntry) list \<Rightarrow> 'b WalEntry list" where
  "loggable txns = filter (\<lambda>e. we_cmds e \<noteq> []) (map snd txns)"

lemma flush_txn_logs:
  assumes blk: "blocks_stored env blk_ok"
    and inv: "wal_inv env wm es ws segs" "room (Suc n) ws"
    and e: "WalEntry_ok env blk_ok e \<and> entry_misfit env e = 0" "we_cmds e \<noteq> []" "wm_max_commit_ts wm < we_commit_ts e" "we_commit_ts e < 2 ^ 63"
  obtains wm' es' ws' segs' a where "flush_txn env (ckp, e) wm = Inr wm'" "wal_inv env wm' es' ws' segs'" "room n ws'"
    "log_entries es' segs' = log_entries es segs @ [a]" "WalEntry_eq e a" "wm_max_commit_ts wm' = we_commit_ts e"
    "wm_wal_dir wm' = wm_wal_dir wm" "wm_running wm' = wm_running wm"
proof -
  obtain wm1 es1 ws1 segs1 where 1: "(if ckp then SwapWalFile (wm_max_commit_ts wm) True wm else Inr wm) = Inr wm1"
    "wal_inv env wm1 es1 ws1 segs1" "log_entries es1 segs1 = log_entries es segs" "room (Suc n) ws1"
    "wm_max_commit_ts wm1 = wm_max_commit_ts wm" "wm_wal_dir wm1 = wm_wal_dir wm" "wm_running wm1 = wm_running wm"
  proof (cases ckp)
    case True
    obtain wm1 es1 ws1 segs1 where s: "SwapWalFile (wm_max_commit_ts wm) True wm = Inr wm1"
      "wal_inv env wm1 es1 ws1 segs1" "log_entries es1 segs1 = log_entries es segs" "room (Suc n) ws1"
      "wm_max_commit_ts wm1 = wm_max_commit_ts wm" "wm_wal_dir wm1 = wm_wal_dir wm" "wm_running wm1 = wm_running wm"
      by (rule SwapWalFile_keeps [OF inv])
    show thesis by (rule that [OF _ s(2-7)]) (simp add: True s(1))
  qed (use that inv in simp)
  obtain w where w: "serialize_entry env e = Inr w" "entry_image env (WalEntry_stored env w e) w"
    by (rule serialize_entry_image [OF blk e(1) [THEN conjunct1] e(1) [THEN conjunct2]])
  let ?a = "WalEntry_stored env w e"
  have ts: "we_commit_ts ?a = we_commit_ts e" by (simp add: WalEntry_stored_def)
  obtain wm2 where 2: "UpdateCommitState (we_commit_ts ?a) (wm_wal_size wm1 + to_i32 (int (length w)))
      (wm1\<lparr>wm_disk := append_file (wm_wal_path wm1) w (wm_disk wm1)\<rparr>) = Inr wm2"
    "wal_inv env wm2 (es1 @ [?a]) (ws1 @ [w]) segs1" "room n (ws1 @ [w])" "wm_max_commit_ts wm2 = we_commit_ts ?a"
    "wm_wal_dir wm2 = wm_wal_dir wm1" "wm_running wm2 = wm_running wm1"
    by (rule append_entry [OF 1(2) w(2) _ _ 1(4)]) (use e(3,4) 1(5) ts in simp_all)
  have "flush_txn env (ckp, e) wm = Inr wm2"
    unfolding flush_txn_def prod.case 1(1) using e(2) w(1) 2(1) ts by simp
  then show thesis
    by (rule that [OF _ 2(2,3)]) (use 1 2 ts WalEntry_eq_stored in simp_all)
qed

text \<open>Transactions that can be logged after the timestamp \<open>m\<close>: their entries can be written, the sizes they announce are right,
  and their timestamps grow.  Those without commands are skipped.\<close>

definition txns_ok :: "'b wal_env \<Rightarrow> ('b \<Rightarrow> bool) \<Rightarrow> nat \<Rightarrow> (bool \<times> 'b WalEntry) list \<Rightarrow> bool" where
  "txns_ok env blk_ok m txns \<longleftrightarrow>
     list_all (\<lambda>e. WalEntry_ok env blk_ok e \<and> entry_misfit env e = 0 \<and> we_commit_ts e < 2 ^ 63) (loggable txns) \<and>
     sorted_wrt (<) (m # map we_commit_ts (loggable txns))"

definition last_ts :: "nat \<Rightarrow> (bool \<times> 'b WalEntry) list \<Rightarrow> nat" where
  "last_ts m txns = last (m # map we_commit_ts (loggable txns))"

lemma loggable_simps [simp]:
  "loggable [] = []" "loggable (x # xs) = (if we_cmds (snd x) = [] then loggable xs else snd x # loggable xs)"
  "loggable (xs @ ys) = loggable xs @ loggable ys"
  by (simp_all add: loggable_def)

lemma strictly_sorted_split:
  "sorted_wrt (<) (m # xs @ ys) \<longleftrightarrow> sorted_wrt (<) (m # xs) \<and> sorted_wrt (<) (last (m # xs) # ys)" for m :: nat
  by (induction xs arbitrary: m) (simp_all add: sorted_wrt2 [OF transp_on_less] sorted_wrt1 del: sorted_wrt.simps(2))

lemma txns_ok_append:
  "txns_ok env blk_ok m (xs @ ys) \<longleftrightarrow> txns_ok env blk_ok m xs \<and> txns_ok env blk_ok (last_ts m xs) ys"
  unfolding txns_ok_def last_ts_def loggable_simps map_append strictly_sorted_split list_all_append by blast

lemma last_ts_append: "last_ts m (xs @ ys) = last_ts (last_ts m xs) ys"
  by (simp add: last_ts_def)

lemma flush_txns_logs:
  assumes blk: "blocks_stored env blk_ok"
  shows "wal_inv env wm es ws segs \<Longrightarrow> room (length txns + n) ws \<Longrightarrow> txns_ok env blk_ok (wm_max_commit_ts wm) txns \<Longrightarrow>
    \<exists>wm' es' ws' segs' new. flush_txns env (map Some txns) wm = Inr wm' \<and> wal_inv env wm' es' ws' segs' \<and> room n ws' \<and>
      log_entries es' segs' = log_entries es segs @ new \<and> list_all2 WalEntry_eq (loggable txns) new \<and>
      wm_max_commit_ts wm' = last_ts (wm_max_commit_ts wm) txns \<and>
      wm_wal_dir wm' = wm_wal_dir wm \<and> wm_running wm' = wm_running wm"
proof (induction txns arbitrary: wm es ws segs)
  case Nil
  then show ?case by (intro exI conjI) (auto simp: last_ts_def)
next
  case (Cons x txns)
  obtain ckp e where x: "x = (ckp, e)" by (cases x)
  show ?case
  proof (cases "we_cmds e = []")
    case True
    have "room (length txns + n) ws" using Cons.prems(2) by (simp add: room_def)
    then show ?thesis using Cons.IH [OF Cons.prems(1)] Cons.prems(3) True x
      by (simp add: flush_txn_def txns_ok_def last_ts_def)
  next
    case False
    have e: "WalEntry_ok env blk_ok e \<and> entry_misfit env e = 0" "wm_max_commit_ts wm < we_commit_ts e" "we_commit_ts e < 2 ^ 63"
      and rest: "txns_ok env blk_ok (we_commit_ts e) txns"
      using Cons.prems(3) False x by (simp_all add: txns_ok_def)
    have "room (Suc (length txns + n)) ws" using Cons.prems(2) by simp
    then obtain wm1 es1 ws1 segs1 a where 1: "flush_txn env (ckp, e) wm = Inr wm1" "wal_inv env wm1 es1 ws1 segs1"
      "room (length txns + n) ws1" "log_entries es1 segs1 = log_entries es segs @ [a]" "WalEntry_eq e a"
      "wm_max_commit_ts wm1 = we_commit_ts e" "wm_wal_dir wm1 = wm_wal_dir wm" "wm_running wm1 = wm_running wm"
      by (rule flush_txn_logs [OF blk Cons.prems(1) _ e(1) False e(2,3)])
    from Cons.IH [OF 1(2,3)] rest 1(6) obtain wm' es' ws' segs' new where
      "flush_txns env (map Some txns) wm1 = Inr wm'" "wal_inv env wm' es' ws' segs'" "room n ws'"
      "log_entries es' segs' = log_entries es1 segs1 @ new" "list_all2 WalEntry_eq (loggable txns) new"
      "wm_max_commit_ts wm' = last_ts (we_commit_ts e) txns"
      "wm_wal_dir wm' = wm_wal_dir wm1" "wm_running wm' = wm_running wm1" by auto
    then show ?thesis using 1 False x
      by (intro exI [of _ wm'] exI [of _ es'] exI [of _ ws'] exI [of _ segs'] exI [of _ "a # new"]) (simp add: last_ts_def)
  qed
qed

lemma Flush_logs:
  assumes blk: "blocks_stored env blk_ok"
    and "wal_inv env wm es ws segs" "room (length txns + n) ws" "txns_ok env blk_ok (wm_max_commit_ts wm) txns" "wm_running wm"
  obtains wm' es' ws' segs' new where "Flush env (map Some txns) wm = Inr wm'" "wal_inv env wm' es' ws' segs'" "room n ws'"
      "log_entries es' segs' = log_entries es segs @ new" "list_all2 WalEntry_eq (loggable txns) new"
      "wm_max_commit_ts wm' = last_ts (wm_max_commit_ts wm) txns" "wm_wal_dir wm' = wm_wal_dir wm" "wm_running wm'"
proof (cases "txns = []")
  case True
  then show thesis using that [of wm es ws segs "[]"] assms(2,3,5) by (simp add: Flush_def last_ts_def)
next
  case nonempty: False
  obtain wm1 es1 ws1 segs1 new where 1: "flush_txns env (map Some txns) wm = Inr wm1" "wal_inv env wm1 es1 ws1 segs1" "room n ws1"
      "log_entries es1 segs1 = log_entries es segs @ new" "list_all2 WalEntry_eq (loggable txns) new"
      "wm_max_commit_ts wm1 = last_ts (wm_max_commit_ts wm) txns" "wm_wal_dir wm1 = wm_wal_dir wm" "wm_running wm1"
    using flush_txns_logs [OF assms(1-4)] assms(5) by auto
  have size: "vs_GetFileSize (wm_wal_path wm1) (wm_disk wm1) = Inr (length (concat ws1))"
    using 1(2) unfolding wal_inv_def by (simp add: vs_defs on_disk_def cur_file_def)
  obtain wm2 es2 ws2 segs2 where 2: "SwapWalFile (wm_max_commit_ts wm1) True wm1 = Inr wm2"
    "wal_inv env wm2 es2 ws2 segs2" "log_entries es2 segs2 = log_entries es1 segs1" "room n ws2"
    "wm_max_commit_ts wm2 = wm_max_commit_ts wm1" "wm_wal_dir wm2 = wm_wal_dir wm1" "wm_running wm2 = wm_running wm1"
    by (rule SwapWalFile_keeps [OF 1(2,3)])
  have submit: "wal_inv env (snd (TrySubmitCheckpointTask b wm)) es ws segs \<longleftrightarrow> wal_inv env wm es ws segs"
    "wm_max_commit_ts (snd (TrySubmitCheckpointTask b wm)) = wm_max_commit_ts wm"
    "wm_wal_dir (snd (TrySubmitCheckpointTask b wm)) = wm_wal_dir wm" "wm_running (snd (TrySubmitCheckpointTask b wm)) = wm_running wm"
    for b wm and es :: "'a WalEntry list" and ws segs
    by (simp_all add: TrySubmitCheckpointTask_def wal_inv_def)
  let ?delta = "\<lambda>wm. if to_i64 (int (cfg_delta_checkpoint_interval_wal_bytes wm)) < wm_wal_size wm - wm_last_ckp_wal_size wm
      then snd (TrySubmitCheckpointTask False wm) else wm"
  have F: "Flush env (map Some txns) wm =
      (if cfg_wal_size_threshold wm1 < length (concat ws1) then Inr (?delta wm2) else Inr (?delta wm1))"
    using nonempty 1(1,8) size 2(1) by (simp add: Flush_def)
  show thesis
  proof (cases "cfg_wal_size_threshold wm1 < length (concat ws1)")
    case True
    show thesis by (rule that [of "?delta wm2" es2 ws2 segs2 new]) (use F True 1 2 submit in simp_all)
  next
    case False
    show thesis by (rule that [of "?delta wm1" es1 ws1 segs1 new]) (use F False 1 submit in simp_all)
  qed
qed

subsection \<open>One entry\<close>

text \<open>(C24) A log entry survives: with all fields in range and a total length that fits \<^verbatim>\<open>i32\<close>, writing
  succeeds, and at any position of any buffer \<^verbatim>\<open>WalEntry::ReadAdv\<close> accepts the
  two sizes and the checksum and gives an entry equal to the one written.  \<^verbatim>\<open>GetSizeInBytes\<close> is the number of bytes written plus
  the misfits of the commands.  \<^verbatim>\<open>WalManager::Flush\<close> allocates a buffer of that size: when it is exact the entry is logged; when it is
  too small the entry is written past the end of the buffer, and when it is too large the flush raises an error.  So an entry with a Bloom
  filter command is logged only if the lengths of its texts happen to add up to the size of as many string objects.\<close>

theorem WalEntry_roundtrip:
  assumes "blocks_stored env blk_ok" and "WalEntry_ok env blk_ok e"
  shows "\<exists>w d. WalEntry_WriteAdv env (WalEntry_sized env e) = Inr w \<and>
     (\<forall>pre post. WalEntry_ReadAdv env (int (length w)) (pre @ w @ post) (length pre) = Inr (Some d)) \<and> WalEntry_eq e d \<and>
     WalEntry_GetSizeInBytes env e = Inr (to_i32 (int (length w) + entry_misfit env e)) \<and>
     (0 \<le> int (length w) + entry_misfit env e \<and> int (length w) + entry_misfit env e < 2 ^ 31 \<longrightarrow> serialize_entry env e =
        (if entry_misfit env e = 0 then Inr w
         else if entry_misfit env e < 0 then Inl (UndefinedBehaviour ''write past the end of the buffer'')
         else Inl (UnrecoverableError ''WalManager::Flush WalEntry estimated size differ with the actual one'')))"
proof -
  obtain w where w: "WalEntry_WriteAdv env (WalEntry_sized env e) = Inr w"
    "WalEntry_GetSizeInBytes env e = Inr (to_i32 (int (length w) + entry_misfit env e))" "entry_image env (WalEntry_stored env w e) w"
    by (rule WalEntry_image [OF assms])
  have "to_i32 (int (length w)) = int (length w)" using w(3) by (simp add: entry_image_def to_i32_of_nat)
  then have "serialize_entry env e =
      (if entry_misfit env e = 0 then Inr w
       else if entry_misfit env e < 0 then Inl (UndefinedBehaviour ''write past the end of the buffer'')
       else Inl (UnrecoverableError ''WalManager::Flush WalEntry estimated size differ with the actual one''))"
    if "0 \<le> int (length w) + entry_misfit env e \<and> int (length w) + entry_misfit env e < 2 ^ 31"
    using that w(1,2) by (simp add: serialize_entry_def to_i32_id)
  moreover have "\<forall>pre post. WalEntry_ReadAdv env (int (length w)) (pre @ w @ post) (length pre) = Inr (Some (WalEntry_stored env w e))"
    using w(3) unfolding entry_image_def by blast
  ultimately show ?thesis using w(1,2) WalEntry_eq_stored [of e env w] by blast
qed

definition demo_bloom :: "nat WalEntry" where
  "demo_bloom = demo_entry\<lparr>we_cmds := [demo_sealed]\<rparr>"

lemma demo_bloom_ok: "WalEntry_ok demo_env (\<lambda>n. n < 2 ^ 32) demo_bloom" "entry_misfit demo_env demo_bloom = 98"
  by (simp_all add: WalEntry_ok_def demo_bloom_def demo_entry_def demo_sealed_def entry_misfit_def demo_env_def codec_sizes
      write_counted_def filter_write_def)

theorem WalEntry_roundtrip_witness:
  "(\<exists>w d. WalEntry_WriteAdv demo_env (WalEntry_sized demo_env demo_entry) = Inr w \<and>
     WalEntry_ReadAdv demo_env (int (length w)) ([1, 2] @ w @ [3]) (length [1, 2 :: byte]) = Inr (Some d) \<and> WalEntry_eq demo_entry d) \<and>
   serialize_entry demo_env demo_bloom = Inl (UnrecoverableError ''WalManager::Flush WalEntry estimated size differ with the actual one'')"
proof
  show "\<exists>w d. WalEntry_WriteAdv demo_env (WalEntry_sized demo_env demo_entry) = Inr w \<and>
     WalEntry_ReadAdv demo_env (int (length w)) ([1, 2] @ w @ [3]) (length [1, 2 :: byte]) = Inr (Some d) \<and> WalEntry_eq demo_entry d"
    using WalEntry_roundtrip [OF demo_env_blocks demo_entry_ok] by blast
  obtain w where w: "WalEntry_WriteAdv demo_env (WalEntry_sized demo_env demo_bloom) = Inr w"
    "0 \<le> int (length w) + 98 \<and> int (length w) + 98 < 2 ^ 31 \<longrightarrow> serialize_entry demo_env demo_bloom =
       Inl (UnrecoverableError ''WalManager::Flush WalEntry estimated size differ with the actual one'')"
    using WalEntry_roundtrip [OF demo_env_blocks demo_bloom_ok(1)] unfolding demo_bloom_ok(2) by auto
  have "length w = 73"
    using w(1) by (auto simp: WalEntry_WriteAdv_def WalEntry_sized_def demo_bloom_def demo_entry_def demo_sealed_def write_counted_def
        filter_write_def Let_def codec_sizes length_entry_bytes split: if_splits)
  then show "serialize_entry demo_env demo_bloom = Inl (UnrecoverableError ''WalManager::Flush WalEntry estimated size differ with the actual one'')"
    using w(2) by simp
qed

end
