(* ===== verification/Wal_Recovery.thy ===== *)
theory Wal_Recovery
  imports Wal_Log
begin

text \<open>
  What a restart finds.  The backward scans of \<^verbatim>\<open>ReplayWalFile\<close> and \<^verbatim>\<open>CollectWalEntries\<close> are computed on a log
  whose last write was cut off, and removing the files that a checkpoint makes superfluous is shown
  not to change their result.
\<close>

subsection \<open>Scanning backwards\<close>

lemma replay_phase1_rep:
  "wl_rep env d li R \<Longrightarrow> \<exists>li'. replay_phase1 env d li acc =
     Some (Inr ((acc @ takeWhile (\<lambda>e. \<not> fst (IsCheckPoint e)) R,
                 case dropWhile (\<lambda>e. \<not> fst (IsCheckPoint e)) R of [] \<Rightarrow> None | c # _ \<Rightarrow> Some c), li')) \<and>
     wl_rep env d li' (tl (dropWhile (\<lambda>e. \<not> fst (IsCheckPoint e)) R))"
proof (induction R arbitrary: li acc)
  case Nil
  obtain li' where "wl_HasNext d li = Inr (False, li')" "wl_rep env d li' []"
    using wl_HasNext_rep [OF Nil] by auto
  then show ?case by (subst replay_phase1.simps) simp
next
  case (Cons e R)
  obtain li1 where 1: "wl_HasNext d li = Inr (True, li1)" "wl_rep env d li1 (e # R)" "wl_ready li1"
    using wl_HasNext_rep [OF Cons.prems] by auto
  obtain li2 where 2: "wl_Next env li1 = Inr (Some e, li2)" "wl_rep env d li2 R"
    by (rule wl_Next_rep [OF 1(2,3)]) auto
  show ?case using 1(1) 2 Cons.IH [OF 2(2), of "acc @ [e]"] by (subst replay_phase1.simps) auto
qed

lemma replay_phase2_rep:
  "wl_rep env d li R \<Longrightarrow> replay_phase2 env d ts li acc = Some (Inr (acc @ takeWhile (\<lambda>e. ts < we_commit_ts e) R))"
proof (induction R arbitrary: li acc)
  case Nil
  obtain li' where "wl_HasNext d li = Inr (False, li')" using wl_HasNext_rep [OF Nil] by auto
  then show ?case by (subst replay_phase2.simps) simp
next
  case (Cons e R)
  obtain li1 where 1: "wl_HasNext d li = Inr (True, li1)" "wl_rep env d li1 (e # R)" "wl_ready li1"
    using wl_HasNext_rep [OF Cons.prems] by auto
  obtain li2 where 2: "wl_Next env li1 = Inr (Some e, li2)" "wl_rep env d li2 R"
    by (rule wl_Next_rep [OF 1(2,3)]) auto
  show ?case using 1(1) 2 Cons.IH [OF 2(2), of "acc @ [e]"] by (subst replay_phase2.simps) simp
qed

lemma max_commit_loop_rep:
  "wl_rep env d li R \<Longrightarrow> max_commit_loop env d li m = Some (Inr (fold max (map we_commit_ts R) m))"
proof (induction R arbitrary: li m)
  case Nil
  obtain li' where "wl_HasNext d li = Inr (False, li')" using wl_HasNext_rep [OF Nil] by auto
  then show ?case by (subst max_commit_loop.simps) simp
next
  case (Cons e R)
  obtain li1 where 1: "wl_HasNext d li = Inr (True, li1)" "wl_rep env d li1 (e # R)" "wl_ready li1"
    using wl_HasNext_rep [OF Cons.prems] by auto
  obtain li2 where 2: "wl_Next env li1 = Inr (Some e, li2)" "wl_rep env d li2 R"
    by (rule wl_Next_rep [OF 1(2,3)]) auto
  show ?case using 1(1) 2 Cons.IH [OF 2(2)] by (subst max_commit_loop.simps) (simp add: max.commute)
qed

subsection \<open>Restart\<close>

lemma decreasing_distinct: "sorted_wrt (>) xs \<Longrightarrow> distinct xs" for xs :: "nat list"
  by (induction xs) auto

lemma distinct_names:
  "inj g \<Longrightarrow> distinct tss \<Longrightarrow> distinct (map g (TempWalFilename # map WalFilename tss))"
  by (auto simp: distinct_map inj_eq intro!: inj_onI)

text \<open>The files that a restart finds when the last write to the current file was cut off.\<close>

definition crash_disk :: "wal_manager \<Rightarrow> byte list \<Rightarrow> disk" where
  "crash_disk wm torn = append_file (wm_wal_path wm) torn (wm_disk wm)"

lemma crashed_files:
  assumes inv: "wal_inv env wm es ws segs" and t: "torn = [] \<or> torn_entry torn" "length (concat ws @ torn) < 2 ^ 63"
  defines "gs \<equiv> cur_file (wm_wal_dir wm) es ws torn # map (seg_file (wm_wal_dir wm)) segs"
  shows "\<forall>f \<in> set gs. on_disk env (crash_disk wm torn) f" "distinct (map lf_path gs)"
    "map lf_path gs = map (\<lambda>f. wm_wal_dir wm @ ''/'' @ f) (TempWalFilename # map WalFilename (map fst segs))"
proof -
  let ?dir = "wm_wal_dir wm" and ?d = "crash_disk wm torn"
  note I = inv [unfolded wal_inv_def]
  have d: "?d = (wm_disk wm)(?dir @ ''/'' @ TempWalFilename := Some (concat ws @ torn))"
    using I by (simp add: crash_disk_def append_file_def on_disk_def cur_file_def)
  have "on_disk env ?d (seg_file ?dir s)" if "s \<in> set segs" for s
  proof (rule on_disk_other)
    show "on_disk env (wm_disk wm) (seg_file ?dir s)" using I that by blast
    show "?d (lf_path (seg_file ?dir s)) = wm_disk wm (lf_path (seg_file ?dir s))"
      by (simp add: d seg_file_def split: prod.splits)
  qed
  moreover have "on_disk env ?d (cur_file ?dir es ws torn)"
    using I t unfolding d by (simp add: on_disk_def cur_file_def)
  ultimately show "\<forall>f \<in> set gs. on_disk env ?d f" by (simp add: gs_def)
  show paths: "map lf_path gs = map (\<lambda>f. ?dir @ ''/'' @ f) (TempWalFilename # map WalFilename (map fst segs))"
    by (simp add: gs_def cur_file_def seg_file_def case_prod_beta)
  have "distinct (map fst segs)" using I by (intro decreasing_distinct) simp
  then show "distinct (map lf_path gs)"
    unfolding paths by (intro distinct_names injI) simp_all
qed

lemma crashed_names:
  assumes inv: "wal_inv env wm es ws segs"
  shows "{dir_file (wm_wal_dir wm) f | f. CHR ''/'' \<notin> set f \<and> crash_disk wm torn (wm_wal_dir wm @ ''/'' @ f) \<noteq> None} =
    set (map (dir_file (wm_wal_dir wm)) (TempWalFilename # map WalFilename (map fst segs)))"
proof -
  let ?dir = "wm_wal_dir wm" and ?L = "TempWalFilename # map WalFilename (map fst segs)"
  note I = inv [unfolded wal_inv_def]
  have "{f. CHR ''/'' \<notin> set f \<and> crash_disk wm torn (?dir @ ''/'' @ f) \<noteq> None} = set ?L"
  proof (intro equalityI subsetI)
    fix f assume "f \<in> set ?L"
    then show "f \<in> {f. CHR ''/'' \<notin> set f \<and> crash_disk wm torn (?dir @ ''/'' @ f) \<noteq> None}"
      using I slash_not_in_names by (auto simp: crash_disk_def append_file_def on_disk_def seg_file_def)
  qed (use I in \<open>auto simp: crash_disk_def append_file_def split: if_splits\<close>)
  then show ?thesis unfolding set_map by blast
qed

lemma names_distinct:
  "wal_inv env wm es ws segs \<Longrightarrow> distinct (map (dir_file dir) (TempWalFilename # map WalFilename (map fst segs)))"
  by (intro distinct_names injI) (simp_all add: dir_file_def wal_inv_def decreasing_distinct)

lemma crashed_listing:
  assumes inv: "wal_inv env wm es ws segs" and "is_listing (wm_wal_dir wm) (crash_disk wm torn) entries"
  shows "mset entries = mset (map (dir_file (wm_wal_dir wm)) (TempWalFilename # map WalFilename (map fst segs)))"
  using assms(2) names_distinct [OF inv] unfolding is_listing_def crashed_names [OF inv]
  by (metis set_eq_iff_mset_eq_distinct)

lemma listing_exists:
  assumes "wal_inv env wm es ws segs"
  shows "is_listing (wm_wal_dir wm) (crash_disk wm torn) (map (dir_file (wm_wal_dir wm)) (TempWalFilename # map WalFilename (map fst segs)))"
  unfolding is_listing_def crashed_names [OF assms] using names_distinct [OF assms] by blast


lemma restart_iterator:
  assumes inv: "wal_inv env wm es ws segs" and t: "torn = [] \<or> torn_entry torn" "length (concat ws @ torn) < 2 ^ 63"
    and "is_listing (wm_wal_dir wm) (crash_disk wm torn) entries"
  obtains L d li where "wal_file_list entries = Inr L" "L \<noteq> []" "WalListIterator_new env (crash_disk wm torn) L = Some (Inr (d, li))"
    "wl_rep env d li (rev (log_entries es segs))"
proof -
  let ?gs = "map (seg_file (wm_wal_dir wm)) segs" and ?f = "cur_file (wm_wal_dir wm) es ws torn"
  note files = crashed_files [OF inv t]
  have L: "wal_file_list entries = Inr (map lf_path (?f # ?gs))"
    unfolding files(3) using inv [unfolded wal_inv_def]
    by (intro wal_file_list_dir [OF _ _ crashed_listing [OF inv assms(4)]]) (simp_all add: list_all_iff)
  have torn: "\<forall>g \<in> set ?gs. lf_torn g = []" by (auto simp: seg_file_def)
  note rec = recover_newest_torn [OF torn, of ?f]
  obtain d li where n: "WalListIterator_new env (crash_disk wm torn) (map lf_path (?f # ?gs)) = Some (Inr (d, li))"
    "wl_rep env d li (concat (map (\<lambda>g. rev (lf_entries g)) (recover (?f # ?gs) [])))"
    by (rule WalListIterator_new_rep [OF _ files(1,2) rec [THEN conjunct2]]) simp
  have "concat (map (\<lambda>g. rev (lf_entries g)) (recover (?f # ?gs) [])) = rev (log_entries es segs)"
    unfolding rec [THEN conjunct1] by (simp add: log_entries_def cur_file_def seg_file_def case_prod_beta rev_concat rev_map o_def)
  then show thesis using that [OF L _ n(1)] n(2) by simp
qed

text \<open>A crash that leaves one to three bytes of an entry, less than its size field, makes the next restart read outside its buffer.\<close>

lemma restart_short_tail:
  assumes inv: "wal_inv env wm es ws segs" and t: "0 < length torn" "length torn < 4" "length (concat ws @ torn) < 2 ^ 63"
    and "is_listing (wm_wal_dir wm) (crash_disk wm torn) entries"
  obtains L where "wal_file_list entries = Inr L" "L \<noteq> []"
    "WalListIterator_new env (crash_disk wm torn) L = Some (Inl (UndefinedBehaviour ''read outside the buffer''))"
proof -
  let ?cur = "wm_wal_dir wm @ ''/'' @ TempWalFilename"
  note I = inv [unfolded wal_inv_def]
  have L: "wal_file_list entries = Inr (map (\<lambda>f. wm_wal_dir wm @ ''/'' @ f) (TempWalFilename # map WalFilename (map fst segs)))"
    using I by (intro wal_file_list_dir [OF _ _ crashed_listing [OF inv assms(5)]]) (simp_all add: list_all_iff)
  have "log_image env es ws" "crash_disk wm torn ?cur = Some (concat ws @ torn)"
    using I by (simp_all add: on_disk_def cur_file_def crash_disk_def append_file_def)
  then have "WalListIterator_new env (crash_disk wm torn) (?cur # ps) = Some (Inl (UndefinedBehaviour ''read outside the buffer''))" for ps
    by (rule purge_short_tail [OF _ t])
  then show thesis using that [OF L] by simp
qed

lemma takeWhile_newer:
  "sorted_wrt (<) (map we_commit_ts old) \<Longrightarrow> takeWhile (\<lambda>e. ts < we_commit_ts e) (rev old) = rev (filter (\<lambda>e. ts < we_commit_ts e) old)"
proof (induction old rule: rev_induct)
  case (snoc e old)
  show ?case
  proof (cases "ts < we_commit_ts e")
    case False
    then have "\<forall>x \<in> set old. \<not> ts < we_commit_ts x" using snoc.prems by (auto simp: sorted_wrt_append)
    then show ?thesis using False by (simp add: filter_empty_conv)
  qed (use snoc in \<open>simp add: sorted_wrt_append\<close>)
qed simp

lemma scan_back:
  assumes "fst (IsCheckPoint c)" "\<forall>e \<in> set new. \<not> fst (IsCheckPoint e)"
  shows "takeWhile (\<lambda>e. \<not> fst (IsCheckPoint e)) (rev (old @ c # new)) = rev new"
    "dropWhile (\<lambda>e. \<not> fst (IsCheckPoint e)) (rev (old @ c # new)) = c # rev old"
  using assms by (simp_all add: takeWhile_append dropWhile_append)

lemma restart_phases:
  assumes "wl_rep env d li (rev (old @ c # new))" "fst (IsCheckPoint c)" "\<forall>e \<in> set new. \<not> fst (IsCheckPoint e)"
    and "sorted_wrt (<) (map we_commit_ts (old @ c # new))"
  obtains li' where "replay_phase1 env d li [] = Some (Inr ((rev new, Some c), li'))"
    "\<And>acc. replay_phase2 env d ts li' acc = Some (Inr (acc @ rev (filter (\<lambda>e. ts < we_commit_ts e) old)))"
proof -
  obtain li' where 1: "replay_phase1 env d li [] = Some (Inr ((rev new, Some c), li'))" "wl_rep env d li' (rev old)"
    using replay_phase1_rep [OF assms(1), of "[]"] unfolding scan_back [OF assms(2,3)] by auto
  have "takeWhile (\<lambda>e. ts < we_commit_ts e) (rev old) = rev (filter (\<lambda>e. ts < we_commit_ts e) old)"
    by (rule takeWhile_newer) (use assms(4) in \<open>simp add: sorted_wrt_append\<close>)
  then show thesis using that [OF 1(1)] replay_phase2_rep [OF 1(2)] by simp
qed

lemma log_sorted:
  "wal_inv env wm es ws segs \<Longrightarrow> log_entries es segs = old @ c # new \<Longrightarrow>
     sorted_wrt (<) (map we_commit_ts (old @ c # new)) \<and> 0 < we_commit_ts c"
  unfolding wal_inv_def by (metis in_set_conv_decomp)

lemma Collect_after_crash:
  assumes inv: "wal_inv env wm es ws segs" and t: "torn = [] \<or> torn_entry torn" "length (concat ws @ torn) < 2 ^ 63"
    and L: "is_listing (wm_wal_dir wm) (crash_disk wm torn) entries"
    and c: "log_entries es segs = old @ c # new" "fst (IsCheckPoint c)" "\<forall>e \<in> set new. \<not> fst (IsCheckPoint e)"
  obtains d' where "CollectWalEntries env entries (crash_disk wm torn) =
    Some (Inr (d', filter (\<lambda>e. entry_checkpoint_ts c < we_commit_ts e) old @ c # new))"
proof -
  obtain L d li where 1: "wal_file_list entries = Inr L" "L \<noteq> []" "WalListIterator_new env (crash_disk wm torn) L = Some (Inr (d, li))"
    "wl_rep env d li (rev (log_entries es segs))" by (rule restart_iterator [OF inv t L])
  note sorted = log_sorted [OF inv c(1)]
  obtain li' where 2: "replay_phase1 env d li [] = Some (Inr ((rev new, Some c), li'))"
    "\<And>acc. replay_phase2 env d (entry_checkpoint_ts c) li' acc =
       Some (Inr (acc @ rev (filter (\<lambda>e. entry_checkpoint_ts c < we_commit_ts e) old)))"
    by (rule restart_phases [OF 1(4) [unfolded c(1)] c(2,3), where ts = "entry_checkpoint_ts c"]) (use sorted in simp_all)
  show thesis by (rule that [of d]) (use 1(1-3) 2 sorted in \<open>simp add: CollectWalEntries_def\<close>)
qed

lemma Collect_short_tail:
  assumes "wal_inv env wm es ws segs" "0 < length torn" "length torn < 4" "length (concat ws @ torn) < 2 ^ 63"
    and "is_listing (wm_wal_dir wm) (crash_disk wm torn) entries"
  shows "CollectWalEntries env entries (crash_disk wm torn) = Some (Inl (UndefinedBehaviour ''read outside the buffer''))"
  by (rule restart_short_tail [OF assms]) (simp add: CollectWalEntries_def)

lemma Replay_short_tail:
  assumes "wal_inv env wm es ws segs" "0 < length torn" "length torn < 4" "length (concat ws @ torn) < 2 ^ 63"
    and "is_listing (wm_wal_dir wm) (crash_disk wm torn) (ls (wm_wal_dir wm))"
  shows "ReplayWalFile env ls mode (WalManager_new (wm_wal_dir wm) data threshold interval (crash_disk wm torn)) =
    Some (Inl (UndefinedBehaviour ''read outside the buffer''))"
  by (rule restart_short_tail [OF assms]) (simp add: ReplayWalFile_def replay_select_def WalManager_new_def)

text \<open>A fresh manager over an empty log directory.\<close>

lemma fresh_inv:
  fixes data :: string and threshold interval :: nat
  assumes "is_absolute dir" "\<forall>f. d (dir @ ''/'' @ f) = None"
  defines "wm \<equiv> WalManager_Start (WalManager_new dir data threshold interval d)"
  shows "wal_inv env wm [] [] []" "wm_running wm" "wm_wal_dir wm = dir" "wm_max_commit_ts wm = 0"
  using assms
  by (simp_all add: wal_inv_def WalManager_Start_def WalManager_new_def open_append_def on_disk_def cur_file_def log_image_def log_entries_def)

lemma Flush_batches:
  assumes blk: "blocks_stored env blk_ok"
  shows "wal_inv env wm es ws segs \<Longrightarrow> room (length (concat batches) + n) ws \<Longrightarrow>
    txns_ok env blk_ok (wm_max_commit_ts wm) (concat batches) \<Longrightarrow> wm_running wm \<Longrightarrow>
    \<exists>wm' es' ws' segs' new. rfold (\<lambda>b. Flush env (map Some b)) batches wm = Inr wm' \<and> wal_inv env wm' es' ws' segs' \<and>
      room n ws' \<and> log_entries es' segs' = log_entries es segs @ new \<and> list_all2 WalEntry_eq (loggable (concat batches)) new \<and>
      wm_wal_dir wm' = wm_wal_dir wm"
proof (induction batches arbitrary: wm es ws segs)
  case Nil
  then show ?case by auto
next
  case (Cons b batches)
  have ok: "txns_ok env blk_ok (wm_max_commit_ts wm) b" "txns_ok env blk_ok (last_ts (wm_max_commit_ts wm) b) (concat batches)"
    using Cons.prems(3) by (simp_all add: txns_ok_append)
  have "room (length b + (length (concat batches) + n)) ws" using Cons.prems(2) by (simp add: add.assoc)
  then obtain wm1 es1 ws1 segs1 new1 where 1: "Flush env (map Some b) wm = Inr wm1" "wal_inv env wm1 es1 ws1 segs1"
      "room (length (concat batches) + n) ws1" "log_entries es1 segs1 = log_entries es segs @ new1" "list_all2 WalEntry_eq (loggable b) new1"
      "wm_max_commit_ts wm1 = last_ts (wm_max_commit_ts wm) b" "wm_wal_dir wm1 = wm_wal_dir wm" "wm_running wm1"
    by (rule Flush_logs [OF blk Cons.prems(1) _ ok(1) Cons.prems(4)])
  from Cons.IH [OF 1(2,3) _ 1(8)] ok(2) 1(6) obtain wm' es' ws' segs' new where
    "rfold (\<lambda>b. Flush env (map Some b)) batches wm1 = Inr wm'" "wal_inv env wm' es' ws' segs'" "room n ws'"
    "log_entries es' segs' = log_entries es1 segs1 @ new" "list_all2 WalEntry_eq (loggable (concat batches)) new"
    "wm_wal_dir wm' = wm_wal_dir wm1" by auto
  then show ?case using 1
    by (intro exI [of _ wm'] exI [of _ es'] exI [of _ ws'] exI [of _ segs'] exI [of _ "new1 @ new"]) (simp add: list_all2_appendI)
qed

text \<open>\<^verbatim>\<open>ReplayWalFile\<close> of a new manager over the crashed disk.\<close>

lemma Replay_after_crash:
  fixes threshold interval :: nat
  assumes inv: "wal_inv env wm es ws segs" and t: "torn = [] \<or> torn_entry torn" "length (concat ws @ torn) < 2 ^ 63"
    and L: "is_listing (wm_wal_dir wm) (crash_disk wm torn) (ls (wm_wal_dir wm))"
    and c: "log_entries es segs = old @ c # new" "fst (IsCheckPoint c)" "\<forall>e \<in> set new. \<not> fst (IsCheckPoint e)"
    and ckp: "entry_checkpoint_ts c \<le> we_commit_ts c"
    and cat: "ParseValidCheckpointFilenames (ls (entry_catalog_dir data c)) (entry_checkpoint_ts c) = Some files"
  defines "replayed \<equiv> filter (\<lambda>e. entry_checkpoint_ts c < we_commit_ts e) old @ new"
  defines "start \<equiv> WalManager_new (wm_wal_dir wm) data threshold interval (crash_disk wm torn)"
    and "last_commit \<equiv> we_commit_ts (last (c # replayed))"
  obtains wm' where "ReplayWalFile env ls mode start = Some (Inr (wm', Some \<lparr>rr_catalog = files, rr_entries = replayed,
      rr_next_txn_id = (if replayed = [] then 0 else to_u64 (we_txn_id (last replayed))),
      rr_system_start_ts = last_commit + 1\<rparr>))" "wm_max_commit_ts wm' = last_commit"
proof -
  obtain L d li where 1: "wal_file_list (ls (wm_wal_dir wm)) = Inr L" "L \<noteq> []"
    "WalListIterator_new env (crash_disk wm torn) L = Some (Inr (d, li))"
    "wl_rep env d li (rev (log_entries es segs))" by (rule restart_iterator [OF inv t L])
  note sorted = log_sorted [OF inv c(1)]
  obtain li' where 2: "replay_phase1 env d li [] = Some (Inr ((rev new, Some c), li'))"
    "\<And>acc. replay_phase2 env d (entry_checkpoint_ts c) li' acc =
       Some (Inr (acc @ rev (filter (\<lambda>e. entry_checkpoint_ts c < we_commit_ts e) old)))"
    by (rule restart_phases [OF 1(4) [unfolded c(1)] c(2,3), where ts = "entry_checkpoint_ts c"]) (use sorted in simp_all)
  have select: "replay_select env L (crash_disk wm torn) = Some (Inr (d, rev replayed, Some c))"
    using 1(3) 2 by (simp add: replay_select_def replayed_def)
  have all: "\<forall>e \<in> set (c # replayed). 0 < we_commit_ts e \<and> we_commit_ts e < 2 ^ 63"
  proof
    fix e assume "e \<in> set (c # replayed)"
    then have "e \<in> set (log_entries es segs)" unfolding c(1) replayed_def by auto
    then show "0 < we_commit_ts e \<and> we_commit_ts e < 2 ^ 63" using inv unfolding wal_inv_def by (meson le_less_trans)
  qed
  then have lc: "0 < last_commit" "u64_add last_commit 1 = last_commit + 1"
    unfolding last_commit_def u64_add_def using last_in_set [of "c # replayed"] by fastforce+
  have ok: "\<not> list_ex (\<lambda>e. we_commit_ts e < entry_checkpoint_ts c) replayed"
    using sorted ckp by (auto simp: list_ex_iff replayed_def sorted_wrt_append)
  have lc': "(if replayed = [] then we_commit_ts c else we_commit_ts (last replayed)) = last_commit"
    by (simp add: last_commit_def)
  have "ReplayWalFile env ls mode start =
      pbind (Some (UpdateCommitState last_commit 0 (start\<lparr>wm_disk := d\<rparr>))) (\<lambda>wm2.
        Some (Inr (wm2, Some \<lparr>rr_catalog = files, rr_entries = replayed,
          rr_next_txn_id = (if replayed = [] then 0 else to_u64 (we_txn_id (last replayed))), rr_system_start_ts = last_commit + 1\<rparr>)))"
    using 1(1,2) select cat ok sorted lc lc' by (cases "replayed = []") (simp_all add: ReplayWalFile_def start_def WalManager_new_def Let_def)
  moreover have "UpdateCommitState last_commit 0 (start\<lparr>wm_disk := d\<rparr>) = Inr (start\<lparr>wm_disk := d, wm_max_commit_ts := last_commit, wm_wal_size := 0\<rparr>)"
    using lc(1) by (simp add: UpdateCommitState_def start_def WalManager_new_def)
  ultimately show thesis by (intro that [of "start\<lparr>wm_disk := d, wm_max_commit_ts := last_commit, wm_wal_size := 0\<rparr>"]) simp_all
qed

subsection \<open>Removal of closed files\<close>






lemma increasing_last: "sorted_wrt (<) (map f xs) \<Longrightarrow> x \<in> set xs \<Longrightarrow> f x \<le> f (last xs)" for f :: "_ \<Rightarrow> nat"
  by (induction xs rule: rev_induct) (auto simp: sorted_wrt_append)

text \<open>The commit timestamp of the checkpoint \<open>c\<close> against that of the last replayed entry.\<close>

lemma last_after_checkpoint:
  assumes "sorted_wrt (<) (map we_commit_ts (old @ c # new))"
  shows "we_commit_ts c \<le> we_commit_ts (last (c # filter P old @ new)) \<longleftrightarrow> new \<noteq> [] \<or> filter P old @ new = []"
proof (cases "new = []")
  case True
  have "we_commit_ts (last (filter P old)) < we_commit_ts c" if "filter P old \<noteq> []"
    using last_in_set [OF that] assms by (auto simp: sorted_wrt_append)
  then show ?thesis using True by auto
next
  case False
  then show ?thesis using last_in_set [OF False] assms by (auto simp: sorted_wrt_append intro: less_imp_le)
qed


lemma checkpoint_ts_eq: "WalCmd_eq a b \<Longrightarrow> checkpoint_ts a = checkpoint_ts b"
  by (cases a; cases b; simp add: WalCmd_eq_def)

lemma checkpoint_fold_eq:
  "list_all2 WalCmd_eq as bs \<Longrightarrow> fst (fold checkpoint_step as (m, x)) = fst (fold checkpoint_step bs (m, y))"
proof (induction arbitrary: m x y rule: list_all2_induct)
  case (Cons a as b bs)
  show ?case
    using checkpoint_ts_eq [OF Cons.hyps(1)] Cons.IH by (auto simp: checkpoint_step_def split: option.splits)
qed simp

lemma WalEntry_eq_checkpoint: "WalEntry_eq a b \<Longrightarrow> fst (IsCheckPoint a) = fst (IsCheckPoint b)"
  using checkpoint_fold_eq [of "we_cmds a" "we_cmds b" 0 None None]
  by (simp add: WalEntry_eq_def IsCheckPoint_def case_prod_beta list_all2_conv_all_nth)

lemma demo_entry_checkpoint: "fst (IsCheckPoint demo_entry)"
  by (simp add: IsCheckPoint_def demo_entry_def checkpoint_step_def to_u64_def)

lemma demo_entry_fits: "entry_misfit demo_env demo_entry = 0"
  by (simp add: entry_misfit_def demo_entry_def demo_env_def to_i32_def codec_sizes)

lemma serialize_entry_written: "serialize_entry env e = Inr w \<Longrightarrow> WalEntry_WriteAdv env (WalEntry_sized env e) = Inr w"
  by (auto simp: serialize_entry_def res_simps split: if_splits)

lemma flushed_listing:
  assumes "blocks_stored env blk_ok"
    and "is_absolute dir" and "\<forall>f. d (dir @ ''/'' @ f) = None"
    and "txns_ok env blk_ok 0 (concat batches)" and "(length (concat batches) + 1) * 2 ^ 31 < 2 ^ 63"
    and "rfold (\<lambda>b. Flush env (map Some b)) batches (WalManager_Start (WalManager_new dir data threshold interval d)) = Inr wm"
  shows "\<exists>entries. is_listing dir (crash_disk wm torn) entries"
proof -
  note fresh = fresh_inv(1) [OF assms(2,3), where env = env and data = data and threshold = threshold and interval = interval]
    fresh_inv(2-4) [OF assms(2,3), where data = data and threshold = threshold and interval = interval]
  have "room (length (concat batches) + 1) []" using assms(5) by (simp add: room_def)
  then obtain es ws segs where "wal_inv env wm es ws segs" "wm_wal_dir wm = dir"
    using Flush_batches [OF assms(1) fresh(1) _ _ fresh(2), of batches 1] assms(4,6) fresh(3,4) by auto
  then show ?thesis using listing_exists by blast
qed

subsection \<open>Properties\<close>

text \<open>(C6) Crash recovery, from an empty log directory: whatever batches of transactions with growing
  timestamps and with entries of exactly announced size are flushed, whenever files are closed for their size or for a checkpoint, the
  flushes succeed.  If the writing of one more entry is then cut off after any number of bytes, \<^verbatim>\<open>CollectWalEntries\<close> returns in order
  exactly the entries behind the latest checkpoint, this
  checkpoint, and those before it that are newer than what it covers, each equal to what was
  submitted; except that after one to three bytes, less than the size field, it reads outside its buffer.\<close>

theorem crash_recovery:
  assumes "blocks_stored env blk_ok"
    and "is_absolute dir" and "\<forall>f. d (dir @ ''/'' @ f) = None"
    and "txns_ok env blk_ok 0 (concat batches)" and "(length (concat batches) + 1) * 2 ^ 31 < 2 ^ 63"
    and "WalEntry_ok env blk_ok e" and "serialize_entry env e = Inr w" and "k < length w"
  shows "\<exists>wm log. rfold (\<lambda>b. Flush env (map Some b)) batches (WalManager_Start (WalManager_new dir data threshold interval d)) = Inr wm \<and>
     list_all2 WalEntry_eq (loggable (concat batches)) log \<and>
     (\<forall>entries old c new. is_listing dir (crash_disk wm (take k w)) entries \<longrightarrow> log = old @ c # new \<longrightarrow>
        fst (IsCheckPoint c) \<longrightarrow> (\<forall>e \<in> set new. \<not> fst (IsCheckPoint e)) \<longrightarrow>
        (if 0 < k \<and> k < 4
         then CollectWalEntries env entries (crash_disk wm (take k w)) = Some (Inl (UndefinedBehaviour ''read outside the buffer''))
         else \<exists>d'. CollectWalEntries env entries (crash_disk wm (take k w)) =
           Some (Inr (d', filter (\<lambda>e. entry_checkpoint_ts c < we_commit_ts e) old @ c # new))))"
proof -
  let ?wm = "WalManager_Start (WalManager_new dir data threshold interval d)"
  note fresh = fresh_inv(1) [OF assms(2,3), where env = env and data = data and threshold = threshold and interval = interval]
    fresh_inv(2-4) [OF assms(2,3), where data = data and threshold = threshold and interval = interval]
  have "room (length (concat batches) + 1) []" using assms(5) by (simp add: room_def)
  then obtain wm es ws segs log where 1: "rfold (\<lambda>b. Flush env (map Some b)) batches ?wm = Inr wm" "wal_inv env wm es ws segs"
      "room 1 ws" "log_entries es segs = log" "list_all2 WalEntry_eq (loggable (concat batches)) log" "wm_wal_dir wm = dir"
    using Flush_batches [OF assms(1) fresh(1) _ _ fresh(2), of batches 1] assms(4) fresh(3,4) by (auto simp: log_entries_def)
  obtain a where w: "entry_image env a w" using WalEntry_image [OF assms(1,6)] serialize_entry_written [OF assms(7)] by (metis sum.inject(2))
  have "length (take k w) < 2 ^ 31" using w assms(8) by (simp add: entry_image_def)
  then have len: "length (concat ws @ take k w) < 2 ^ 63" using 1(3) by (simp add: room_def del: length_take)
  show ?thesis
  proof (intro exI conjI allI impI)
    fix entries old c new
    assume L: "is_listing dir (crash_disk wm (take k w)) entries" and c: "log = old @ c # new" "fst (IsCheckPoint c)"
      "\<forall>e \<in> set new. \<not> fst (IsCheckPoint e)"
    show "if 0 < k \<and> k < 4
       then CollectWalEntries env entries (crash_disk wm (take k w)) = Some (Inl (UndefinedBehaviour ''read outside the buffer''))
       else \<exists>d'. CollectWalEntries env entries (crash_disk wm (take k w)) =
         Some (Inr (d', filter (\<lambda>e. entry_checkpoint_ts c < we_commit_ts e) old @ c # new))"
    proof (cases "0 < k \<and> k < 4")
      case True
      then show ?thesis using Collect_short_tail [OF 1(2) _ _ len, of entries] L 1(6) assms(8) by simp
    next
      case False
      then have torn: "take k w = [] \<or> torn_entry (take k w)" using torn_prefix [OF w _ assms(8)] by auto
      have "is_listing (wm_wal_dir wm) (crash_disk wm (take k w)) entries" "log_entries es segs = old @ c # new" using L c(1) 1(4,6) by simp_all
      from Collect_after_crash [OF 1(2) torn len this c(2,3)] show ?thesis unfolding if_not_P [OF False] by blast
    qed
  qed (use 1(1,5) in simp_all)
qed

theorem crash_recovery_witness:
  "\<exists>wm w c d' entries. serialize_entry demo_env demo_entry = Inr w \<and> WalEntry_eq demo_entry c \<and>
     rfold (\<lambda>b. Flush demo_env (map Some b)) [[(True, demo_entry)], []] (WalManager_Start (WalManager_new ''/w'' ''/data'' 10 100 Map.empty)) = Inr wm \<and>
     is_listing ''/w'' (crash_disk wm (take 9 w)) entries \<and>
     CollectWalEntries demo_env entries (crash_disk wm (take 9 w)) = Some (Inr (d', [c]))"
proof -
  let ?B = "[[(True, demo_entry)], []]" and ?s = "WalManager_Start (WalManager_new ''/w'' ''/data'' 10 100 Map.empty)"
  obtain w where w: "serialize_entry demo_env demo_entry = Inr w" "entry_image demo_env (WalEntry_stored demo_env w demo_entry) w"
    by (rule serialize_entry_image [OF demo_env_blocks demo_entry_ok demo_entry_fits])
  then have k: "(9::nat) < length w" by (simp add: entry_image_def)
  have ok: "txns_ok demo_env (\<lambda>n. n < 2 ^ 32) 0 (concat ?B)" "loggable (concat ?B) = [demo_entry]"
    using demo_entry_ok demo_entry_fits by (simp_all add: txns_ok_def) (simp_all add: demo_entry_def)
  have dir: "is_absolute ''/w''" "\<forall>f. Map.empty (''/w'' @ ''/'' @ f) = None" "(length (concat ?B) + 1) * 2 ^ 31 < (2::nat) ^ 63"
    by (simp_all add: is_absolute_def starts_with_def)
  obtain wm log where 1: "rfold (\<lambda>b. Flush demo_env (map Some b)) ?B ?s = Inr wm" "list_all2 WalEntry_eq [demo_entry] log"
    "\<forall>entries old c new. is_listing ''/w'' (crash_disk wm (take 9 w)) entries \<longrightarrow> log = old @ c # new \<longrightarrow>
        fst (IsCheckPoint c) \<longrightarrow> (\<forall>e \<in> set new. \<not> fst (IsCheckPoint e)) \<longrightarrow>
        (if 0 < (9::nat) \<and> 9 < (4::nat)
         then CollectWalEntries demo_env entries (crash_disk wm (take 9 w)) = Some (Inl (UndefinedBehaviour ''read outside the buffer''))
         else \<exists>d'. CollectWalEntries demo_env entries (crash_disk wm (take 9 w)) =
           Some (Inr (d', filter (\<lambda>e. entry_checkpoint_ts c < we_commit_ts e) old @ c # new)))"
    using crash_recovery [OF demo_env_blocks dir(1,2) ok(1) dir(3) demo_entry_ok w(1) k, of "''/data''" 10 100] unfolding ok(2) by blast
  then obtain c where c: "log = [] @ c # []" "WalEntry_eq demo_entry c" by (auto simp: list_all2_Cons1)
  have "fst (IsCheckPoint c)" using WalEntry_eq_checkpoint [OF c(2)] by (simp add: demo_entry_checkpoint)
  moreover obtain entries where L: "is_listing ''/w'' (crash_disk wm (take 9 w)) entries"
    using flushed_listing [OF demo_env_blocks dir(1,2) ok(1) dir(3) 1(1)] by blast
  ultimately have "\<exists>d'. CollectWalEntries demo_env entries (crash_disk wm (take 9 w)) = Some (Inr (d', [c]))"
    using 1(3) c(1) by fastforce
  then show ?thesis using w(1) c(2) 1(1) L by blast
qed

text \<open>(C7) A restart replays what it should.  Take the disk that a crash leaves, the newest file ending in an entry cut off at any byte,
  where the latest checkpoint of the log covers nothing behind its own commit timestamp and its catalog files are in place.
  A new manager attaches these
  catalog files, replays in order exactly the entries behind that
  checkpoint and the older ones it does not cover, and continues with timestamps behind the last
  replayed one.  These are also behind the checkpoint itself, unless it is the last entry of the log
  and an older entry is replayed.  Where only one to three bytes of the cut off entry reached the disk, the restart reads outside its buffer instead.\<close>

theorem replay_after_crash:
  assumes "wal_inv env wm es ws segs" and "length torn < 4 \<or> torn_entry torn" and "length (concat ws @ torn) < 2 ^ 63"
    and "is_listing (wm_wal_dir wm) (crash_disk wm torn) (ls (wm_wal_dir wm))"
    and "log_entries es segs = old @ c # new" and "fst (IsCheckPoint c)" and "\<forall>e \<in> set new. \<not> fst (IsCheckPoint e)"
    and "entry_checkpoint_ts c \<le> we_commit_ts c"
    and "ParseValidCheckpointFilenames (ls (entry_catalog_dir data c)) (entry_checkpoint_ts c) = Some files"
  shows "if torn \<noteq> [] \<and> length torn < 4
     then ReplayWalFile env ls mode (WalManager_new (wm_wal_dir wm) data threshold interval (crash_disk wm torn)) =
       Some (Inl (UndefinedBehaviour ''read outside the buffer''))
     else \<exists>wm' r. ReplayWalFile env ls mode (WalManager_new (wm_wal_dir wm) data threshold interval (crash_disk wm torn)) = Some (Inr (wm', Some r)) \<and>
     rr_catalog r = files \<and> rr_entries r = filter (\<lambda>e. entry_checkpoint_ts c < we_commit_ts e) old @ new \<and>
     wm_max_commit_ts wm' + 1 = rr_system_start_ts r \<and> (\<forall>e \<in> set (rr_entries r). we_commit_ts e < rr_system_start_ts r) \<and>
     (we_commit_ts c < rr_system_start_ts r \<longleftrightarrow> new \<noteq> [] \<or> rr_entries r = [])"
proof (cases "torn \<noteq> [] \<and> length torn < 4")
  case True
  then show ?thesis using Replay_short_tail [of env wm es ws segs torn ls, OF assms(1) _ _ assms(3,4)] by simp
next
  case False
  then have torn: "torn = [] \<or> torn_entry torn" using assms(2) by blast
  let ?F = "filter (\<lambda>e. entry_checkpoint_ts c < we_commit_ts e) old"
  let ?last = "we_commit_ts (last (c # ?F @ new))"
  let ?r = "\<lparr>rr_catalog = files, rr_entries = ?F @ new,
      rr_next_txn_id = (if ?F @ new = [] then 0 else to_u64 (we_txn_id (last (?F @ new)))), rr_system_start_ts = ?last + 1\<rparr>"
  obtain wm' where r: "ReplayWalFile env ls mode (WalManager_new (wm_wal_dir wm) data threshold interval (crash_disk wm torn)) =
      Some (Inr (wm', Some ?r))" "wm_max_commit_ts wm' = ?last"
    by (rule Replay_after_crash [OF assms(1) torn assms(3-9)])
  have sorted: "sorted_wrt (<) (map we_commit_ts (old @ c # new))" using log_sorted [OF assms(1,5)] by simp
  then have "sorted_wrt (<) (map we_commit_ts (?F @ new))"
    by (auto simp: sorted_wrt_append sorted_wrt_map sorted_wrt_filter)
  then have "we_commit_ts e \<le> ?last" if "e \<in> set (?F @ new)" for e
    using increasing_last [of we_commit_ts "?F @ new" e] that by (cases "?F @ new = []") auto
  moreover have "we_commit_ts c \<le> ?last \<longleftrightarrow> new \<noteq> [] \<or> ?F @ new = []"
    by (rule last_after_checkpoint [OF sorted])
  ultimately show ?thesis unfolding if_not_P [OF False]
    using r by (intro exI [of _ wm'] exI [of _ ?r]) (simp add: less_Suc_eq_le)
qed

text \<open>A log of two files, the older one closed at timestamp 3.\<close>

definition demo_old :: "nat WalEntry" where
  "demo_old = demo_entry\<lparr>we_commit_ts := 3\<rparr>"

definition demo_wm :: "byte list \<Rightarrow> byte list \<Rightarrow> wal_manager" where
  "demo_wm w v = (WalManager_new ''/w'' ''/data'' 10 100 [''/w/wal.log'' \<mapsto> w, ''/w/wal.log.3'' \<mapsto> v])\<lparr>wm_max_commit_ts := 9\<rparr>"

lemma demo_WalFilename: "WalFilename 3 = ''wal.log.3''"
  by code_simp

lemma demo_wm_inv:
  obtains w v where "wal_inv demo_env (demo_wm w v) [WalEntry_stored demo_env w demo_entry] [w] [(3, [WalEntry_stored demo_env v demo_old], [v])]"
    "length w < 2 ^ 31"
proof -
  have "WalEntry_ok demo_env (\<lambda>n. n < 2 ^ 32) demo_old" using demo_entry_ok by (simp add: demo_old_def WalEntry_ok_def)
  moreover have "entry_misfit demo_env demo_old = 0" using demo_entry_fits by (simp add: demo_old_def entry_misfit_def)
  ultimately obtain v where v: "entry_image demo_env (WalEntry_stored demo_env v demo_old) v"
    by (rule serialize_entry_image [OF demo_env_blocks])
  obtain w where w: "entry_image demo_env (WalEntry_stored demo_env w demo_entry) w"
    by (rule serialize_entry_image [OF demo_env_blocks demo_entry_ok demo_entry_fits])
  have name: "TempWalFilename = ''wal.log''" by code_simp
  have len: "length w < 2 ^ 31" "length v < 2 ^ 31" using v w by (simp_all add: entry_image_def)
  have "wal_inv demo_env (demo_wm w v) [WalEntry_stored demo_env w demo_entry] [w] [(3, [WalEntry_stored demo_env v demo_old], [v])]"
    using v w len unfolding wal_inv_def
    by (simp add: demo_wm_def WalManager_new_def on_disk_def cur_file_def seg_file_def log_image_def log_entries_def name demo_WalFilename
        is_absolute_def starts_with_def WalEntry_stored_def demo_old_def demo_entry_def)
  then show thesis using len(1) by (rule that)
qed

lemma demo_stored_checkpoint:
  "fst (IsCheckPoint (WalEntry_stored demo_env w demo_entry))" "entry_checkpoint_ts (WalEntry_stored demo_env w demo_entry) = 8"
  "entry_catalog_dir ''/data'' (WalEntry_stored demo_env w demo_entry) = ''/data/catalog''"
  "we_commit_ts (WalEntry_stored demo_env w demo_entry) = 9"
  by (simp_all add: IsCheckPoint_def entry_checkpoint_ts_def entry_catalog_dir_def WalEntry_stored_def demo_entry_def
      checkpoint_step_def to_u64_def parent_path_def)

lemma demo_catalog:
  "ParseValidCheckpointFilenames [dir_file ''/data/catalog'' ''FULL.8.json''] 8 =
     Some (\<lparr>fi_path = ''/data/catalog/FULL.8.json'', fi_max_commit_ts = 8\<rparr>, [])"
  unfolding dir_file_def by code_simp

theorem replay_after_crash_witness:
  "\<exists>w v ls wm' r. ReplayWalFile demo_env ls kWritable (WalManager_new ''/w'' ''/data'' 10 100 (crash_disk (demo_wm w v) [])) = Some (Inr (wm', Some r)) \<and>
     rr_catalog r = (\<lparr>fi_path = ''/data/catalog/FULL.8.json'', fi_max_commit_ts = 8\<rparr>, []) \<and> rr_entries r = [] \<and> rr_system_start_ts r = wm_max_commit_ts wm' + 1"
proof -
  obtain w v where inv: "wal_inv demo_env (demo_wm w v) [WalEntry_stored demo_env w demo_entry] [w] [(3, [WalEntry_stored demo_env v demo_old], [v])]"
    "length w < 2 ^ 31" by (rule demo_wm_inv)
  let ?c = "WalEntry_stored demo_env w demo_entry" and ?o = "WalEntry_stored demo_env v demo_old"
  have dir: "wm_wal_dir (demo_wm w v) = ''/w''" by (simp add: demo_wm_def WalManager_new_def)
  obtain entries where L: "is_listing ''/w'' (crash_disk (demo_wm w v) []) entries" using listing_exists [OF inv(1), of "[]"] dir by auto
  let ?ls = "\<lambda>p. if p = ''/w'' then entries else [dir_file ''/data/catalog'' ''FULL.8.json'']"
  have old: "filter (\<lambda>e. entry_checkpoint_ts ?c < we_commit_ts e) [?o] = []"
    by (simp add: demo_stored_checkpoint) (simp add: WalEntry_stored_def demo_old_def)
  have log: "log_entries [?c] [(3, [?o], [v])] = [?o] @ ?c # []" by (simp add: log_entries_def)
  have cat: "ParseValidCheckpointFilenames (?ls (entry_catalog_dir ''/data'' ?c)) (entry_checkpoint_ts ?c) =
      Some (\<lparr>fi_path = ''/data/catalog/FULL.8.json'', fi_max_commit_ts = 8\<rparr>, [])"
    by (simp add: demo_stored_checkpoint demo_catalog)
  have len: "length (concat [w] @ []) < 2 ^ 63" using inv(2) by simp
  have L': "is_listing (wm_wal_dir (demo_wm w v)) (crash_disk (demo_wm w v) []) (?ls (wm_wal_dir (demo_wm w v)))" using L dir by simp
  from replay_after_crash [OF inv(1) _ len L' log _ _ _ cat, of kWritable 10 100]
  obtain wm' r where "ReplayWalFile demo_env ?ls kWritable (WalManager_new (wm_wal_dir (demo_wm w v)) ''/data'' 10 100 (crash_disk (demo_wm w v) [])) = Some (Inr (wm', Some r))"
    "rr_catalog r = (\<lparr>fi_path = ''/data/catalog/FULL.8.json'', fi_max_commit_ts = 8\<rparr>, [])"
    "rr_entries r = filter (\<lambda>e. entry_checkpoint_ts ?c < we_commit_ts e) [?o] @ []" "wm_max_commit_ts wm' + 1 = rr_system_start_ts r"
    using demo_stored_checkpoint [of w] by auto
  then show ?thesis unfolding old dir by (metis append_Nil)
qed



end
