(* ===== verification/Std_Algorithm.thy ===== *)
theory Std_Algorithm
  imports Main
begin

text \<open>
  The binary searches of the C++ standard library.  \<^verbatim>\<open>std::lower_bound\<close> and \<^verbatim>\<open>std::upper_bound\<close> find the first
  element that fails a predicate by halving an interval; on a range that the predicate divides they
  return the length of its prefix of elements that satisfy the predicate.
\<close>

function bisect :: "('a \<Rightarrow> bool) \<Rightarrow> 'a list \<Rightarrow> nat \<Rightarrow> nat \<Rightarrow> nat" where
  "bisect P xs first n =
     (if n = 0 then first
      else let step = n div 2
           in if P (xs ! (first + step)) then bisect P xs (first + step + 1) (n - (step + 1)) else bisect P xs first step)"
  by auto

termination by (relation "measure (\<lambda>(P, xs, first, n). n)") auto

declare bisect.simps [simp del]

definition partition_point :: "('a \<Rightarrow> bool) \<Rightarrow> 'a list \<Rightarrow> nat" where
  "partition_point P xs = bisect P xs 0 (length xs)"

definition lower_bound :: "('a \<Rightarrow> 'k::linorder) \<Rightarrow> 'a list \<Rightarrow> 'k \<Rightarrow> nat" where
  "lower_bound key xs v = partition_point (\<lambda>x. key x < v) xs"

definition upper_bound :: "('a \<Rightarrow> 'k::linorder) \<Rightarrow> 'a list \<Rightarrow> 'k \<Rightarrow> nat" where
  "upper_bound key xs v = partition_point (\<lambda>x. \<not> v < key x) xs"

lemma bisect_cut:
  "first \<le> c \<Longrightarrow> c \<le> first + n \<Longrightarrow> \<forall>i < first + n. P (xs ! i) \<longleftrightarrow> i < c \<Longrightarrow> bisect P xs first n = c"
proof (induction P xs first n rule: bisect.induct)
  case (1 P xs first n)
  show ?case
  proof (cases "n = 0")
    case False
    then have "first + n div 2 < first + n" by simp
    then have mid: "P (xs ! (first + n div 2)) \<longleftrightarrow> first + n div 2 < c" using "1.prems"(3) by blast
    show ?thesis
    proof (cases "first + n div 2 < c")
      case True
      then have "bisect P xs (first + n div 2 + 1) (n - (n div 2 + 1)) = c"
        using "1.prems" mid False by (intro "1.IH"(1) [OF False refl]) auto
      then show ?thesis using False mid True by (simp add: bisect.simps [of P xs first n] Let_def)
    next
      case below: False
      then have "bisect P xs first (n div 2) = c"
        using "1.prems" mid False by (intro "1.IH"(2) [OF False refl]) auto
      then show ?thesis using False mid below by (simp add: bisect.simps [of P xs first n] Let_def)
    qed
  qed (use "1.prems" in \<open>simp add: bisect.simps\<close>)
qed

lemma partition_point_takeWhile:
  assumes "sorted_wrt (\<lambda>x y. P y \<longrightarrow> P x) xs"
  shows "partition_point P xs = length (takeWhile P xs)"
  unfolding partition_point_def
proof (rule bisect_cut)
  let ?c = "length (takeWhile P xs)"
  show "\<forall>i < 0 + length xs. P (xs ! i) \<longleftrightarrow> i < ?c"
  proof (intro allI impI iffI)
    fix i assume i: "i < 0 + length xs" "P (xs ! i)"
    show "i < ?c"
    proof (rule ccontr)
      assume "\<not> i < ?c"
      then have c: "?c \<le> i" "?c < length xs" using i(1) by simp_all
      then have "\<not> P (xs ! ?c)" by (intro nth_length_takeWhile)
      moreover have "P (xs ! ?c)" using assms i c by (cases "?c = i") (auto simp: sorted_wrt_iff_nth_less le_less)
      ultimately show False by contradiction
    qed
  next
    fix i assume "i < ?c"
    then show "P (xs ! i)" by (metis nth_mem set_takeWhileD takeWhile_nth)
  qed
qed (simp_all add: length_takeWhile_le)

lemma lower_bound_takeWhile: "sorted (map key xs) \<Longrightarrow> lower_bound key xs v = length (takeWhile (\<lambda>x. key x < v) xs)"
  unfolding lower_bound_def
  by (rule partition_point_takeWhile) (auto simp: sorted_wrt_map elim!: sorted_wrt_mono_rel [rotated])

lemma upper_bound_takeWhile: "sorted (map key xs) \<Longrightarrow> upper_bound key xs v = length (takeWhile (\<lambda>x. key x \<le> v) xs)"
  unfolding upper_bound_def not_less
  by (rule partition_point_takeWhile) (auto simp: sorted_wrt_map elim!: sorted_wrt_mono_rel [rotated])

end
