(* ===== verification/Var_Buffer.thy ===== *)
theory Var_Buffer
  imports Serialize Std_Algorithm
begin

text \<open>
  Storage of values of variable length (\<^verbatim>\<open>src/src/storage/column_vector/var_buffer.cpp\<close>): a list of chunks addressed
  by their position in the concatenation.  A buffer that is mapped from a file is one constant chunk.
  Appending is modelled without the call that reserves memory for the object that owns the buffer; the buffer
  manager adds it.  A pointer is the chunk it points into and the offset there; reading through it outside the chunk
  is undefined behaviour.
\<close>

datatype var_chunks = Chunks "byte list list" | ConstChunk "byte list"

record VarBuffer =
  vb_buffers :: var_chunks
  buffer_size_prefix_sum :: "nat list"

definition VarBuffer_new :: VarBuffer where
  "VarBuffer_new = \<lparr>vb_buffers = Chunks [], buffer_size_prefix_sum = [0]\<rparr>"

definition VarBuffer_owned :: "byte list \<Rightarrow> VarBuffer" where
  "VarBuffer_owned b = \<lparr>vb_buffers = Chunks [b], buffer_size_prefix_sum = [0, length b]\<rparr>"

definition VarBuffer_const :: "byte list \<Rightarrow> VarBuffer" where
  "VarBuffer_const b = \<lparr>vb_buffers = ConstChunk b, buffer_size_prefix_sum = [0, length b]\<rparr>"

definition VarBuffer_Append :: "byte list \<Rightarrow> VarBuffer \<Rightarrow> (nat \<times> VarBuffer) res" where
  "VarBuffer_Append b vb =
     (case vb_buffers vb of
        ConstChunk _ \<Rightarrow> Inl (UnrecoverableError ''Cannot append to a const buffer'')
      | Chunks bs \<Rightarrow>
          let offset = last (buffer_size_prefix_sum vb)
          in Inr (offset, \<lparr>vb_buffers = Chunks (bs @ [b]), buffer_size_prefix_sum = buffer_size_prefix_sum vb @ [offset + length b]\<rparr>))"

datatype vb_ptr = NullPtr | ConstPtr nat | ChunkPtr nat nat

definition VarBuffer_Get :: "nat \<Rightarrow> nat \<Rightarrow> VarBuffer \<Rightarrow> vb_ptr res" where
  "VarBuffer_Get offset n vb =
     (if n = 0 then Inr NullPtr
      else case vb_buffers vb of
          ConstChunk _ \<Rightarrow> Inr (ConstPtr offset)
        | Chunks bs \<Rightarrow>
            let prefix_sum = buffer_size_prefix_sum vb; it = upper_bound id prefix_sum offset
            in if it = length prefix_sum then Inl (UnrecoverableError ''offset is out of range'')
               else if it = 0 then Inl (UnrecoverableError ''prefix_sum[0] should be 0'')
               else let i = it - 1; offset_in_buffer = offset - prefix_sum ! i
                    in if prefix_sum ! (i + 1) < offset_in_buffer + n then Inl (UnrecoverableError ''offset and size is out of range'')
                       else Inr (ChunkPtr i offset_in_buffer))"

definition deref :: "vb_ptr \<Rightarrow> nat \<Rightarrow> VarBuffer \<Rightarrow> byte list res" where
  "deref p n vb =
     (let rd = (\<lambda>b off. if length b < off + n then Inl (UndefinedBehaviour ''read outside the buffer'') else Inr (take n (drop off b)))
      in case p of
           NullPtr \<Rightarrow> if n = 0 then Inr [] else Inl (UndefinedBehaviour ''null pointer'')
         | ConstPtr off \<Rightarrow> (case vb_buffers vb of ConstChunk b \<Rightarrow> rd b off | Chunks _ \<Rightarrow> Inl (UndefinedBehaviour ''dangling pointer''))
         | ChunkPtr i off \<Rightarrow>
             (case vb_buffers vb of Chunks bs \<Rightarrow> if i < length bs then rd (bs ! i) off else Inl (UndefinedBehaviour ''dangling pointer'')
              | ConstChunk _ \<Rightarrow> Inl (UndefinedBehaviour ''dangling pointer'')))"

fun write_chunks :: "byte list list \<Rightarrow> nat list \<Rightarrow> byte list res" where
  "write_chunks [] prefix_sum = Inr []"
| "write_chunks (b # bs) prefix_sum =
     (let n = prefix_sum ! 1 - prefix_sum ! 0
      in if length b < n then Inl (UndefinedBehaviour ''read outside the buffer'')
         else rbind (write_chunks bs (tl prefix_sum)) (\<lambda>r. Inr (take n b @ r)))"

definition VarBuffer_Write :: "VarBuffer \<Rightarrow> byte list res" where
  "VarBuffer_Write vb =
     (case vb_buffers vb of
        ConstChunk _ \<Rightarrow> Inl (UnrecoverableError ''Cannot write to a const buffer'')
      | Chunks bs \<Rightarrow> write_chunks bs (buffer_size_prefix_sum vb))"

text \<open>Reading a value through the pointer that \<^verbatim>\<open>Get\<close> returns.\<close>

definition var_read :: "nat \<Rightarrow> nat \<Rightarrow> VarBuffer \<Rightarrow> byte list res" where
  "var_read offset n vb = rbind (VarBuffer_Get offset n vb) (\<lambda>data. deref data n vb)"

text \<open>\<^verbatim>\<open>Write\<close> of a range holds a shared lock while it calls \<^verbatim>\<open>Get\<close>, which takes a shared lock on the same
  \<^verbatim>\<open>std::shared_mutex\<close>, except for an empty range and for a constant buffer.  Taking it twice in one thread is undefined.\<close>

definition VarBuffer_Write_part :: "nat \<Rightarrow> nat \<Rightarrow> VarBuffer \<Rightarrow> byte list res" where
  "VarBuffer_Write_part offset n vb =
     (case vb_buffers vb of
        ConstChunk _ \<Rightarrow> var_read offset n vb
      | Chunks _ \<Rightarrow>
          if n = 0 then var_read offset n vb else Inl (UndefinedBehaviour ''shared lock on a mutex the thread already owns''))"

definition TotalSize :: "VarBuffer \<Rightarrow> nat" where
  "TotalSize vb = last (buffer_size_prefix_sum vb)"

subsection \<open>The file worker\<close>

record VarFileWorker =
  vfw_buffer_size :: nat
  vfw_data :: "VarBuffer option"
  vfw_mmap_data :: "VarBuffer option"

definition VarFileWorker_AllocateInMemory :: "VarFileWorker \<Rightarrow> VarFileWorker res" where
  "VarFileWorker_AllocateInMemory w =
     (if vfw_data w \<noteq> None then Inl (UnrecoverableError ''Data is already allocated.'')
      else Inr (w\<lparr>vfw_data := Some VarBuffer_new\<rparr>))"

definition VarFileWorker_FreeInMemory :: "VarFileWorker \<Rightarrow> VarFileWorker res" where
  "VarFileWorker_FreeInMemory w =
     (case vfw_data w of
        None \<Rightarrow> Inl (UnrecoverableError ''Data is already freed.'')
      | Some vb \<Rightarrow> Inr (w\<lparr>vfw_buffer_size := TotalSize vb, vfw_data := None\<rparr>))"

definition VarFileWorker_GetMemoryCost :: "VarFileWorker \<Rightarrow> nat" where
  "VarFileWorker_GetMemoryCost w = (case vfw_data w of None \<Rightarrow> vfw_buffer_size w | Some vb \<Rightarrow> TotalSize vb)"

definition VarFileWorker_WriteToFileImpl :: "VarFileWorker \<Rightarrow> (byte list \<times> VarFileWorker) res" where
  "VarFileWorker_WriteToFileImpl w =
     (case vfw_data w of
        None \<Rightarrow> Inl (UnrecoverableError ''Data is not allocated.'')
      | Some vb \<Rightarrow> rbind (VarBuffer_Write vb) (\<lambda>b.
          if TotalSize vb < length b then Inl (UndefinedBehaviour ''write past the end of the buffer'')
          else Inr (b @ replicate (TotalSize vb - length b) 0, w\<lparr>vfw_buffer_size := TotalSize vb\<rparr>)))"

definition VarFileWorker_ReadFromFileImpl :: "byte list \<Rightarrow> VarFileWorker \<Rightarrow> VarFileWorker res" where
  "VarFileWorker_ReadFromFileImpl file w =
     (if vfw_data w \<noteq> None then Inl (UnrecoverableError ''Data is not allocated.'')
      else if length file < vfw_buffer_size w then Inl (UnrecoverableError ''File size is smaller than buffer size'')
      else Inr (w\<lparr>vfw_data := Some (VarBuffer_owned (take (vfw_buffer_size w) file))\<rparr>))"

definition VarFileWorker_ReadFromMmapImpl :: "byte list \<Rightarrow> VarFileWorker \<Rightarrow> VarFileWorker res" where
  "VarFileWorker_ReadFromMmapImpl file w =
     (if length file < vfw_buffer_size w then Inl (UnrecoverableError ''File size is smaller than buffer size'')
      else Inr (w\<lparr>vfw_mmap_data := Some (VarBuffer_const (take (vfw_buffer_size w) file))\<rparr>))"

definition VarFileWorker_FreeFromMmapImpl :: "VarFileWorker \<Rightarrow> VarFileWorker res" where
  "VarFileWorker_FreeFromMmapImpl w =
     (case vfw_mmap_data w of
        None \<Rightarrow> Inl (UnrecoverableError ''Data is already freed.'')
      | Some vb \<Rightarrow> Inr (w\<lparr>vfw_mmap_data := None\<rparr>))"

subsection \<open>Chunks and their prefix sums\<close>

definition vb_ok :: "byte list list \<Rightarrow> VarBuffer \<Rightarrow> bool" where
  "vb_ok bs vb \<longleftrightarrow> vb_buffers vb = Chunks bs \<and>
     buffer_size_prefix_sum vb = map (\<lambda>i. length (concat (take i bs))) [0..<Suc (length bs)]"

lemma vb_ok_new: "vb_ok [] VarBuffer_new" "vb_ok [b] (VarBuffer_owned b)"
  by (simp_all add: vb_ok_def VarBuffer_new_def VarBuffer_owned_def)

lemma vb_ok_total: "vb_ok bs vb \<Longrightarrow> TotalSize vb = length (concat bs)"
  by (simp add: vb_ok_def TotalSize_def)

lemma vb_ok_Append:
  assumes "vb_ok bs vb"
  obtains vb' where "VarBuffer_Append b vb = Inr (length (concat bs), vb')" "vb_ok (bs @ [b]) vb'"
proof -
  have "map (\<lambda>i. length (concat (take i (bs @ [b])))) [0..<Suc (length bs)] = map (\<lambda>i. length (concat (take i bs))) [0..<Suc (length bs)]"
    by (rule map_cong) auto
  then show thesis
    using assms by (intro that) (auto simp: VarBuffer_Append_def vb_ok_def Let_def)
qed

lemma write_chunks_all:
  "write_chunks bs (map (\<lambda>i. k + length (concat (take i bs))) [0..<Suc (length bs)]) = Inr (concat bs)"
proof (induction bs arbitrary: k)
  case (Cons b bs)
  have "map (\<lambda>i. k + length (concat (take i (b # bs)))) [0..<Suc (length (b # bs))] =
      k # map (\<lambda>i. (k + length b) + length (concat (take i bs))) [0..<Suc (length bs)]"
    by (subst upt_conv_Cons) (simp_all add: map_Suc_upt [symmetric] o_def add.assoc del: upt_Suc)
  moreover have "map (\<lambda>i. (k + length b) + length (concat (take i bs))) [0..<Suc (length bs)] ! 0 = k + length b"
    by (simp del: upt_Suc)
  ultimately show ?case using Cons.IH [of "k + length b"] by (simp del: upt_Suc)
qed simp

lemma vb_ok_Write: "vb_ok bs vb \<Longrightarrow> VarBuffer_Write vb = Inr (concat bs)"
  using write_chunks_all [of bs 0] by (simp add: VarBuffer_Write_def vb_ok_def)

lemma take_concat_mono: "i \<le> j \<Longrightarrow> length (concat (take i bs)) \<le> length (concat (take j bs))"
  by (metis concat_append le_add1 length_append take_add le_iff_add)

lemma prefix_sums_sorted: "sorted (map (\<lambda>i. length (concat (take i bs))) [0..<n])"
  by (auto simp: sorted_iff_nth_mono intro: take_concat_mono)

text \<open>The chunk that holds a position, for a position inside the chunk \<open>i\<close>.\<close>

lemma upper_bound_chunk:
  assumes "i < length bs" "length (concat (take i bs)) \<le> offset" "offset < length (concat (take (Suc i) bs))"
  shows "upper_bound id (map (\<lambda>i. length (concat (take i bs))) [0..<Suc (length bs)]) offset = Suc i"
proof -
  let ?p = "\<lambda>i. length (concat (take i bs))"
  have upt_split: "[0..<Suc (length bs)] = [0..<Suc i] @ [Suc i..<Suc (length bs)]"
    using upt_add_eq_append [of 0 "Suc i" "length bs - i"] assms(1) by simp
  have "takeWhile (\<lambda>x. x \<le> offset) (map ?p [0..<Suc i] @ map ?p [Suc i..<Suc (length bs)]) = map ?p [0..<Suc i] @ []"
  proof (subst takeWhile_append2)
    fix x assume "x \<in> set (map ?p [0..<Suc i])"
    then obtain j where "j < Suc i" "x = ?p j" by (auto simp del: upt_Suc)
    then show "x \<le> offset" using take_concat_mono [of j i bs] assms(2) by simp
  next
    have "[Suc i..<Suc (length bs)] = Suc i # [Suc (Suc i)..<Suc (length bs)]" using assms(1) by (simp add: upt_conv_Cons)
    then show "map ?p [0..<Suc i] @ takeWhile (\<lambda>x. x \<le> offset) (map ?p [Suc i..<Suc (length bs)]) = map ?p [0..<Suc i] @ []"
      using assms(3) by simp
  qed
  moreover have "upper_bound id (map ?p [0..<Suc (length bs)]) offset = length (takeWhile (\<lambda>x. id x \<le> offset) (map ?p [0..<Suc (length bs)]))"
    by (rule upper_bound_takeWhile) (simp add: prefix_sums_sorted del: upt_Suc)
  ultimately show ?thesis by (simp add: upt_split del: upt_Suc)
qed

lemma Get_chunk:
  assumes "vb_ok bs vb" "i < length bs" "k + n \<le> length (bs ! i)" "0 < n"
  shows "VarBuffer_Get (length (concat (take i bs)) + k) n vb = Inr (ChunkPtr i k)"
    "deref (ChunkPtr i k) n vb = Inr (take n (drop k (bs ! i)))"
proof -
  let ?p = "map (\<lambda>i. length (concat (take i bs))) [0..<Suc (length bs)]"
  have next_sum: "length (concat (take (Suc i) bs)) = length (concat (take i bs)) + length (bs ! i)"
    using assms(2) by (simp add: take_Suc_conv_app_nth)
  then have "upper_bound id ?p (length (concat (take i bs)) + k) = Suc i"
    using assms by (intro upper_bound_chunk) auto
  moreover have "?p ! i = length (concat (take i bs))" "?p ! Suc i = length (concat (take i bs)) + length (bs ! i)" "length ?p = Suc (length bs)"
    using assms(2) next_sum by (simp_all del: upt_Suc)
  ultimately show "VarBuffer_Get (length (concat (take i bs)) + k) n vb = Inr (ChunkPtr i k)"
    using assms by (simp add: VarBuffer_Get_def vb_ok_def Let_def del: upt_Suc)
  show "deref (ChunkPtr i k) n vb = Inr (take n (drop k (bs ! i)))"
    using assms by (simp add: deref_def vb_ok_def Let_def)
qed

lemma Append_all:
  "vb_ok bs vb \<Longrightarrow> \<exists>vb'. rfold (\<lambda>b v. rbind (VarBuffer_Append b v) (\<lambda>(offset, v'). Inr v')) cs vb = Inr vb' \<and> vb_ok (bs @ cs) vb'"
proof (induction cs arbitrary: bs vb)
  case (Cons c cs)
  obtain vb1 where 1: "VarBuffer_Append c vb = Inr (length (concat bs), vb1)" "vb_ok (bs @ [c]) vb1" by (rule vb_ok_Append [OF Cons.prems])
  show ?case using Cons.IH [OF 1(2)] 1(1) by simp
qed auto

subsection \<open>Properties\<close>

text \<open>(C22) Values stay where they were put: in a buffer filled by appends, the offset that an append returned
  reads back, through the pointer that \<^verbatim>\<open>Get\<close> returns, the appended bytes, and any part of them, however many values are appended behind it.
  \<^verbatim>\<open>Write\<close> of the same range does not: it takes the shared lock a second time.\<close>

theorem Append_then_Get:
  assumes "rfold (\<lambda>b v. rbind (VarBuffer_Append b v) (\<lambda>(offset, v'). Inr v')) before VarBuffer_new = Inr vb0"
    and "VarBuffer_Append b vb0 = Inr (offset, vb1)"
    and "rfold (\<lambda>b v. rbind (VarBuffer_Append b v) (\<lambda>(offset, v'). Inr v')) after vb1 = Inr vb2"
    and "0 < n" and "k + n \<le> length b"
  shows "rbind (VarBuffer_Get (offset + k) n vb2) (\<lambda>data. deref data n vb2) = Inr (take n (drop k b)) \<and>
    VarBuffer_Write_part (offset + k) n vb2 = Inl (UndefinedBehaviour ''shared lock on a mutex the thread already owns'')"
proof -
  have ok0: "vb_ok before vb0" using Append_all [OF vb_ok_new(1), of before] assms(1) by simp
  then have "offset = length (concat before)" and ok1: "vb_ok (before @ [b]) vb1"
    using assms(2) by (metis Inr_inject Pair_inject vb_ok_Append)+
  moreover have ok2: "vb_ok (before @ b # after) vb2" using Append_all [OF ok1, of after] assms(3) by simp
  moreover have "vb_buffers vb2 = Chunks (before @ b # after)" using ok2 by (simp add: vb_ok_def)
  ultimately show ?thesis
    using Get_chunk [of "before @ b # after" vb2 "length before" k n] assms(4,5) by (simp add: VarBuffer_Write_part_def)
qed

theorem Append_then_Get_witness:
  "rbind (VarBuffer_Get (2 + 1) 2 \<lparr>vb_buffers = Chunks [[1, 2], [3, 4, 5], [6]], buffer_size_prefix_sum = [0, 2, 5, 6]\<rparr>) (\<lambda>data. deref data 2 \<lparr>vb_buffers = Chunks [[1, 2], [3, 4, 5], [6]], buffer_size_prefix_sum = [0, 2, 5, 6]\<rparr>) = Inr [4, 5]"
proof -
  let ?vb0 = "\<lparr>vb_buffers = Chunks [[1, 2]], buffer_size_prefix_sum = [0, 2]\<rparr>"
    and ?vb1 = "\<lparr>vb_buffers = Chunks [[1, 2], [3, 4, 5]], buffer_size_prefix_sum = [0, 2, 5]\<rparr>"
    and ?vb2 = "\<lparr>vb_buffers = Chunks [[1, 2], [3, 4, 5], [6]], buffer_size_prefix_sum = [0, 2, 5, 6]\<rparr>"
  have "rbind (VarBuffer_Get (2 + 1) 2 ?vb2) (\<lambda>data. deref data 2 ?vb2) = Inr (take 2 (drop 1 [3, 4, 5]))"
    by (rule conjunct1 [OF Append_then_Get [of "[[1, 2]]" ?vb0 "[3, 4, 5]" 2 ?vb1 "[[6]]"]])
      (simp_all add: VarBuffer_new_def VarBuffer_Append_def)
  then show ?thesis by simp
qed

text \<open>A buffer survives its file: after writing to the file, freeing the memory and reading the file
  again, the memory cost is the same and every value that could be read is read as before.\<close>

lemma VarFileWorker_file_roundtrip:
  assumes "rfold (\<lambda>b v. rbind (VarBuffer_Append b v) (\<lambda>(offset, v'). Inr v')) bs VarBuffer_new = Inr vb"
    and "vfw_data w = Some vb"
  shows "\<exists>file w1 w2 w3. VarFileWorker_WriteToFileImpl w = Inr (file, w1) \<and> VarFileWorker_FreeInMemory w1 = Inr w2 \<and>
     VarFileWorker_ReadFromFileImpl file w2 = Inr w3 \<and> VarFileWorker_GetMemoryCost w3 = VarFileWorker_GetMemoryCost w \<and>
     (\<exists>vb'. vfw_data w3 = Some vb' \<and>
        (\<forall>i k n. i < length bs \<longrightarrow> 0 < n \<longrightarrow> k + n \<le> length (bs ! i) \<longrightarrow>
           var_read (length (concat (take i bs)) + k) n vb' = var_read (length (concat (take i bs)) + k) n vb))"
proof -
  have ok: "vb_ok bs vb" using Append_all [OF vb_ok_new(1), of bs] assms(1) by simp
  note total = vb_ok_total [OF ok] and wr = vb_ok_Write [OF ok]
  let ?vb = "VarBuffer_owned (concat bs)"
  have "var_read (length (concat (take i bs)) + k) n ?vb = var_read (length (concat (take i bs)) + k) n vb"
    if "i < length bs" "0 < n" "k + n \<le> length (bs ! i)" for i k n
  proof -
    have "concat bs = concat (take i bs) @ bs ! i @ concat (drop (Suc i) bs)"
      using that(1) by (metis append_take_drop_id concat.simps(2) concat_append Cons_nth_drop_Suc)
    then have "length (concat (take i bs)) + k + n \<le> length (concat bs)"
      "take n (drop (length (concat (take i bs)) + k) (concat bs)) = take n (drop k (bs ! i))"
      using that(3) by simp_all
    then show ?thesis
      using Get_chunk [OF vb_ok_new(2), of 0 "concat bs" "length (concat (take i bs)) + k" n] Get_chunk [OF ok that(1,3,2)] that(2)
      by (simp add: var_read_def)
  qed
  then show ?thesis
    using assms(2) total wr
    by (simp add: VarFileWorker_WriteToFileImpl_def VarFileWorker_FreeInMemory_def VarFileWorker_ReadFromFileImpl_def
        VarFileWorker_GetMemoryCost_def) (simp add: TotalSize_def VarBuffer_owned_def)
qed

lemma VarFileWorker_file_roundtrip_example:
  "\<exists>file w1 w2 w3. VarFileWorker_WriteToFileImpl \<lparr>vfw_buffer_size = 0,
       vfw_data = Some \<lparr>vb_buffers = Chunks [[1, 2], [3]], buffer_size_prefix_sum = [0, 2, 3]\<rparr>, vfw_mmap_data = None\<rparr> = Inr (file, w1) \<and>
     VarFileWorker_FreeInMemory w1 = Inr w2 \<and> VarFileWorker_ReadFromFileImpl file w2 = Inr w3 \<and> VarFileWorker_GetMemoryCost w3 = 3"
  using VarFileWorker_file_roundtrip [of "[[1, 2], [3]]" "\<lparr>vb_buffers = Chunks [[1, 2], [3]], buffer_size_prefix_sum = [0, 2, 3]\<rparr>"
      "\<lparr>vfw_buffer_size = 0, vfw_data = Some \<lparr>vb_buffers = Chunks [[1, 2], [3]], buffer_size_prefix_sum = [0, 2, 3]\<rparr>, vfw_mmap_data = None\<rparr>"]
  by (fastforce simp: VarBuffer_new_def VarBuffer_Append_def VarFileWorker_GetMemoryCost_def TotalSize_def)

text \<open>The range check of \<^verbatim>\<open>Get\<close> is too weak behind the first chunk: it compares the end of the range inside
  the chunk with the end of the chunk in the whole buffer, so that a range that leaves the chunk is
  accepted and reading it is out of bounds.\<close>

lemma Get_range_check_too_weak:
  assumes "a \<noteq> []" and "b \<noteq> []" and "vb_ok [a, b] vb" and "length b < n" and "n \<le> length a + length b"
  shows "VarBuffer_Get (length a) n vb = Inr (ChunkPtr 1 0) \<and>
     deref (ChunkPtr 1 0) n vb = Inl (UndefinedBehaviour ''read outside the buffer'')"
proof -
  have "upper_bound id (map (\<lambda>i. length (concat (take i [a, b]))) [0..<Suc (length [a, b])]) (length a) = Suc 1"
    using assms(1,2) by (intro upper_bound_chunk) auto
  then have "upper_bound id (buffer_size_prefix_sum vb) (length a) = 2" "buffer_size_prefix_sum vb = [0, length a, length a + length b]"
    using assms(3) by (simp_all add: vb_ok_def)
  then show ?thesis using assms by (simp add: VarBuffer_Get_def deref_def vb_ok_def Let_def)
qed

lemma Get_range_check_too_weak_example:
  "VarBuffer_Get 2 3 \<lparr>vb_buffers = Chunks [[1, 2], [3]], buffer_size_prefix_sum = [0, 2, 3]\<rparr> = Inr (ChunkPtr 1 0)"
  using Get_range_check_too_weak [of "[1, 2]" "[3]" "\<lparr>vb_buffers = Chunks [[1, 2], [3]], buffer_size_prefix_sum = [0, 2, 3]\<rparr>" 3]
  by (simp add: vb_ok_def numeral_2_eq_2)

end
