(* ===== verification/Block_Version.thy ===== *)
theory Block_Version
  imports Serialize Std_Algorithm
begin

text \<open>
  The version data of a block (\<^verbatim>\<open>src/src/storage/meta/entry/block_version.cpp\<close>): after which commit how many rows
  exist, and when each row was deleted.

  A file is its bytes; reading from an open file consumes them.  \<^verbatim>\<open>Read\<close> at the end of the file leaves the
  rest of the target unchanged and reports no error, so a short read of a variable that was
  initialised to zero gives the bytes that are there, and one of an uninitialised variable is
  undefined behaviour.  \<^verbatim>\<open>BlockOffset\<close> has 16 bits.
\<close>

record CreateField =
  create_ts :: nat
  row_count :: int

record BlockVersion =
  created :: "CreateField list"
  deleted :: "nat list"
  latest_change_ts :: nat

definition BlockVersion_new :: "nat \<Rightarrow> BlockVersion" where
  "BlockVersion_new capacity = \<lparr>created = [], deleted = replicate capacity 0, latest_change_ts = 0\<rparr>"

definition BlockVersion_eq :: "BlockVersion \<Rightarrow> BlockVersion \<Rightarrow> bool" where
  "BlockVersion_eq a b \<longleftrightarrow> length (created a) = length (created b) \<and> length (deleted a) = length (deleted b) \<and>
     (\<forall>i < length (created a). created a ! i = created b ! i) \<and> (\<forall>i < length (deleted a). deleted a ! i = deleted b ! i)"

definition GetRowCount :: "nat \<Rightarrow> BlockVersion \<Rightarrow> int" where
  "GetRowCount begin_ts v =
     (let iter = upper_bound create_ts (created v) begin_ts
      in if iter = 0 then 0 else to_i32 (row_count (created v ! (iter - 1))))"

subsection \<open>Files\<close>

definition Read_pod :: "nat \<Rightarrow> byte list \<Rightarrow> nat \<times> byte list" where
  "Read_pod k p = (le_nat (take k p), drop k p)"

definition CreateField_SaveToFile :: "CreateField \<Rightarrow> byte list" where
  "CreateField_SaveToFile f = WriteBufAdv_pod 8 (create_ts f) @ WriteBufAdv_i64 (row_count f)"

definition CreateField_LoadFromFile :: "byte list \<Rightarrow> CreateField \<times> byte list" where
  "CreateField_LoadFromFile p =
     (case Read_pod 8 p of (ts, p1) \<Rightarrow> case Read_pod 8 p1 of (n, p2) \<Rightarrow>
        (\<lparr>create_ts = ts, row_count = to_i64 (int n)\<rparr>, p2))"

fun create_size_at :: "CreateField list \<Rightarrow> nat \<Rightarrow> nat \<Rightarrow> nat" where
  "create_size_at cs checkpoint_ts 0 = 0"
| "create_size_at cs checkpoint_ts (Suc n) =
     (if checkpoint_ts < create_ts (cs ! n) then create_size_at cs checkpoint_ts n else Suc n)"

definition SaveToFile :: "nat \<Rightarrow> BlockVersion \<Rightarrow> byte list" where
  "SaveToFile checkpoint_ts v =
     (let create_size = create_size_at (created v) checkpoint_ts (length (created v) mod 2 ^ 16)
      in WriteBufAdv_pod 2 create_size @ concat (map CreateField_SaveToFile (take create_size (created v))) @
         WriteBufAdv_pod 2 (length (deleted v) mod 2 ^ 16) @
         concat (map (\<lambda>ts. WriteBufAdv_pod 8 (if ts \<le> checkpoint_ts then ts else 0)) (deleted v)))"

definition SpillToFile :: "BlockVersion \<Rightarrow> byte list" where
  "SpillToFile v =
     (let capacity = length (deleted v) mod 2 ^ 16
      in WriteBufAdv_pod 2 (length (created v) mod 2 ^ 16) @ concat (map CreateField_SaveToFile (created v)) @
         WriteBufAdv_pod 2 capacity @ concat (map (WriteBufAdv_pod 8) (take capacity (deleted v))))"

fun read_times :: "(byte list \<Rightarrow> 'a \<times> byte list) \<Rightarrow> nat \<Rightarrow> byte list \<Rightarrow> 'a list \<times> byte list" where
  "read_times rd 0 p = ([], p)"
| "read_times rd (Suc n) p = (case rd p of (x, p1) \<Rightarrow> case read_times rd n p1 of (xs, p2) \<Rightarrow> (x # xs, p2))"

definition LoadFromFile :: "byte list \<Rightarrow> BlockVersion res" where
  "LoadFromFile p =
     (if length p < 2 then Inl (UndefinedBehaviour ''create_size is not initialised'')
      else case Read_pod 2 p of (create_size, p1) \<Rightarrow>
           case read_times CreateField_LoadFromFile create_size p1 of (cs, p2) \<Rightarrow>
           if length p2 < 2 then Inl (UndefinedBehaviour ''capacity is not initialised'')
           else case Read_pod 2 p2 of (capacity, p3) \<Rightarrow>
                case read_times (Read_pod 8) capacity p3 of (dels, p4) \<Rightarrow>
                  Inr \<lparr>created = cs, deleted = dels, latest_change_ts = 0\<rparr>)"

subsection \<open>Timestamps of rows\<close>

definition MAX_TIMESTAMP :: nat where "MAX_TIMESTAMP = 2 ^ 64 - 1"

fun create_ts_loop :: "CreateField list \<Rightarrow> nat \<Rightarrow> nat \<Rightarrow> nat list" where
  "create_ts_loop cs row 0 = []"
| "create_ts_loop [] row (Suc n) = MAX_TIMESTAMP # create_ts_loop [] row n"
| "create_ts_loop (f # cs) row (Suc n) =
     create_ts f # create_ts_loop (if row_count f = int row then cs else f # cs) (row + 1) n"

definition GetCreateTS :: "nat \<Rightarrow> nat \<Rightarrow> BlockVersion \<Rightarrow> nat list" where
  "GetCreateTS offset n v = create_ts_loop (drop (lower_bound row_count (created v) (int offset)) (created v)) offset n"

definition GetDeleteTS :: "nat \<Rightarrow> nat \<Rightarrow> BlockVersion \<Rightarrow> nat list res" where
  "GetDeleteTS offset n v =
     (if length (deleted v) < offset + n \<and> n \<noteq> 0 then Inl (UndefinedBehaviour ''index outside the vector'')
      else Inr (take n (drop offset (deleted v))))"

subsection \<open>Changes\<close>

definition BlockVersion_Append :: "nat \<Rightarrow> int \<Rightarrow> BlockVersion \<Rightarrow> BlockVersion" where
  "BlockVersion_Append commit_ts n v = v\<lparr>created := created v @ [\<lparr>create_ts = commit_ts, row_count = n\<rparr>], latest_change_ts := commit_ts\<rparr>"

definition BlockVersion_Delete :: "int \<Rightarrow> nat \<Rightarrow> BlockVersion \<Rightarrow> BlockVersion res" where
  "BlockVersion_Delete offset commit_ts v =
     (if offset < 0 \<or> int (length (deleted v)) \<le> offset then Inl (UndefinedBehaviour ''index outside the vector'')
      else if deleted v ! nat offset \<noteq> 0 then Inl (UnrecoverableError ''Delete twice'')
      else Inr (v\<lparr>deleted := (deleted v)[nat offset := commit_ts], latest_change_ts := commit_ts\<rparr>))"

definition CheckDelete :: "int \<Rightarrow> nat \<Rightarrow> BlockVersion \<Rightarrow> bool" where
  "CheckDelete offset check_ts v =
     (if offset < 0 \<or> int (length (deleted v)) \<le> offset then False
      else deleted v ! nat offset \<noteq> 0 \<and> deleted v ! nat offset \<le> check_ts)"

subsection \<open>Well-formed versions\<close>

text \<open>Timestamps of creation grow, as commits do; all numbers fit into their fields.\<close>

definition BlockVersion_ok :: "BlockVersion \<Rightarrow> bool" where
  "BlockVersion_ok v \<longleftrightarrow> sorted (map create_ts (created v)) \<and> length (created v) < 2 ^ 16 \<and> length (deleted v) < 2 ^ 16 \<and>
     list_all (\<lambda>f. create_ts f < 2 ^ 64 \<and> - (2 ^ 63) \<le> row_count f \<and> row_count f < 2 ^ 63) (created v) \<and>
     list_all (\<lambda>ts. ts < 2 ^ 64) (deleted v)"

lemma GetRowCount_cong: "created v = created w \<Longrightarrow> GetRowCount ts v = GetRowCount ts w"
  unfolding GetRowCount_def Let_def by simp

lemma GetRowCount_takeWhile:
  "sorted (map create_ts (created v)) \<Longrightarrow> GetRowCount ts v =
     (let cs = takeWhile (\<lambda>f. create_ts f \<le> ts) (created v) in if cs = [] then 0 else to_i32 (row_count (last cs)))"
  by (auto simp: GetRowCount_def upper_bound_takeWhile Let_def last_conv_nth takeWhile_nth)

lemma Read_pod_write: "v < 256 ^ k \<Longrightarrow> Read_pod k (WriteBufAdv_pod k v @ r) = (v, r)"
  by (simp add: Read_pod_def WriteBufAdv_pod_def le_nat_le_bytes)

lemma CreateField_file:
  assumes "create_ts f < 2 ^ 64 \<and> - (2 ^ 63) \<le> row_count f \<and> row_count f < 2 ^ 63"
  shows "CreateField_LoadFromFile (CreateField_SaveToFile f @ r) = (f, r)"
proof -
  have "to_i64 (int (nat (row_count f mod 2 ^ 64))) = row_count f"
  proof -
    have "to_i64 (row_count f mod 2 ^ 64) = to_i64 (row_count f)" by (simp add: to_i64_def mod_add_left_eq)
    then show ?thesis using assms by (simp add: to_i64_id)
  qed
  moreover have "nat (row_count f mod 2 ^ 64) < 256 ^ 8" by (simp add: nat_less_iff)
  ultimately show ?thesis
    using assms by (simp add: CreateField_LoadFromFile_def CreateField_SaveToFile_def WriteBufAdv_i64_def Read_pod_write)
qed

lemma read_times_written:
  "(\<And>x r. x \<in> set xs \<Longrightarrow> rd (wr x @ r) = (x, r)) \<Longrightarrow> read_times rd (length xs) (concat (map wr xs) @ r) = (xs, r)"
  by (induction xs) simp_all

lemma LoadFromFile_written:
  assumes "length cs < 2 ^ 16" "length ds < 2 ^ 16" "list_all (\<lambda>ts. ts < 2 ^ 64) ds"
    and "list_all (\<lambda>f. create_ts f < 2 ^ 64 \<and> - (2 ^ 63) \<le> row_count f \<and> row_count f < 2 ^ 63) cs"
  shows "LoadFromFile (WriteBufAdv_pod 2 (length cs) @ concat (map CreateField_SaveToFile cs) @ WriteBufAdv_pod 2 (length ds) @
      concat (map (WriteBufAdv_pod 8) ds) @ r) = Inr \<lparr>created = cs, deleted = ds, latest_change_ts = 0\<rparr>"
proof -
  have "read_times CreateField_LoadFromFile (length cs) (concat (map CreateField_SaveToFile cs) @ r) = (cs, r)" for r
    by (rule read_times_written) (use assms(4) in \<open>simp add: CreateField_file list_all_iff\<close>)
  moreover have "read_times (Read_pod 8) (length ds) (concat (map (WriteBufAdv_pod 8) ds) @ r) = (ds, r)"
    using read_times_written [of ds "Read_pod 8" "WriteBufAdv_pod 8" r] assms(3) by (simp add: Read_pod_write list_all_iff)
  ultimately show ?thesis using assms(1,2) by (simp add: LoadFromFile_def Read_pod_write)
qed

lemma create_size_append: "n \<le> length cs \<Longrightarrow> create_size_at (cs @ xs) ts n = create_size_at cs ts n"
  by (induction n) (simp_all add: nth_append)

lemma create_size_sorted:
  "sorted (map create_ts cs) \<Longrightarrow> create_size_at cs ts (length cs) = length (takeWhile (\<lambda>f. create_ts f \<le> ts) cs)"
proof (induction cs rule: rev_induct)
  case (snoc f cs)
  have "sorted (map create_ts cs)" "\<forall>x \<in> set cs. create_ts x \<le> create_ts f" using snoc.prems by (auto simp: sorted_append)
  then show ?case
  proof (cases "ts < create_ts f")
    case True
    then have "takeWhile (\<lambda>f. create_ts f \<le> ts) (cs @ [f]) = takeWhile (\<lambda>f. create_ts f \<le> ts) cs"
      by (induction cs) simp_all
    then show ?thesis using True snoc.IH \<open>sorted (map create_ts cs)\<close> by (simp add: create_size_append)
  next
    case False
    then have "\<forall>x \<in> set cs. create_ts x \<le> ts" using \<open>\<forall>x \<in> set cs. create_ts x \<le> create_ts f\<close> by (auto intro: order_trans)
    then show ?thesis using False by simp
  qed
qed simp

text \<open>A file may be longer than what was written into it: an existing file is not truncated when it is written again.\<close>

lemma Load_Save_tail:
  assumes "BlockVersion_ok v"
  shows "LoadFromFile (SaveToFile ts v @ r) =
    Inr \<lparr>created = takeWhile (\<lambda>f. create_ts f \<le> ts) (created v), deleted = map (\<lambda>x. if x \<le> ts then x else 0) (deleted v), latest_change_ts = 0\<rparr>"
proof -
  let ?cs = "takeWhile (\<lambda>f. create_ts f \<le> ts) (created v)" and ?ds = "map (\<lambda>x. if x \<le> ts then x else 0) (deleted v)"
  have "take (length ?cs) (created v) = ?cs" by (metis takeWhile_eq_take)
  moreover have "length ?cs < 2 ^ 16" using assms length_takeWhile_le [of "\<lambda>f. create_ts f \<le> ts" "created v"] by (simp add: BlockVersion_ok_def)
  moreover have "create_size_at (created v) ts (length (created v)) = length ?cs" "length (created v) mod 2 ^ 16 = length (created v)"
    "length (deleted v) mod 2 ^ 16 = length (deleted v)"
    using assms unfolding BlockVersion_ok_def by (simp_all add: create_size_sorted)
  ultimately have save: "SaveToFile ts v = WriteBufAdv_pod 2 (length ?cs) @ concat (map CreateField_SaveToFile ?cs) @
      WriteBufAdv_pod 2 (length ?ds) @ concat (map (WriteBufAdv_pod 8) ?ds)"
    unfolding SaveToFile_def Let_def by (simp only: map_map o_def length_map)
  show ?thesis
    unfolding save append_assoc using assms \<open>length ?cs < 2 ^ 16\<close> set_takeWhileD [of _ "\<lambda>f. create_ts f \<le> ts" "created v"]
    by (intro LoadFromFile_written) (auto simp: BlockVersion_ok_def list_all_iff)
qed

lemmas Load_Save = Load_Save_tail [where r = "[]", unfolded append_Nil2]

lemma Load_Spill_tail: "BlockVersion_ok v \<Longrightarrow> LoadFromFile (SpillToFile v @ r) = Inr (v\<lparr>latest_change_ts := 0\<rparr>)"
  using LoadFromFile_written [of "created v" "deleted v" r] unfolding SpillToFile_def BlockVersion_ok_def Let_def by simp

lemmas Load_Spill = Load_Spill_tail [where r = "[]", unfolded append_Nil2]

lemma GetRowCount_cut:
  assumes "sorted (map create_ts (created v))" "created w = takeWhile (\<lambda>f. create_ts f \<le> m) (created v)"
  shows "GetRowCount ts w = GetRowCount (min ts m) v"
proof -
  have s: "sorted (map create_ts (created w))"
    using sorted_takeWhile [OF assms(1), of "\<lambda>t. t \<le> m"] by (simp add: assms(2) takeWhile_map o_def)
  have t: "takeWhile (\<lambda>f. create_ts f \<le> ts) (takeWhile (\<lambda>f. create_ts f \<le> m) cs) = takeWhile (\<lambda>f. create_ts f \<le> min ts m) cs" for cs
    by (induction cs) auto
  show ?thesis unfolding GetRowCount_takeWhile [OF assms(1)] GetRowCount_takeWhile [OF s] assms(2) t ..
qed

subsection \<open>Readers at a timestamp\<close>

text \<open>What a reader at timestamp \<open>ts\<close> sees: the number of rows and which of them are deleted.\<close>

definition visible :: "nat \<Rightarrow> BlockVersion \<Rightarrow> int \<times> (int \<Rightarrow> bool)" where
  "visible ts v = (GetRowCount ts v, \<lambda>offset. CheckDelete offset ts v)"

definition version_commit :: "nat \<Rightarrow> int \<Rightarrow> int list \<Rightarrow> BlockVersion \<Rightarrow> BlockVersion res" where
  "version_commit ts rows dels v = rfold (\<lambda>offset. BlockVersion_Delete offset ts) dels (BlockVersion_Append ts rows v)"

lemma takeWhile_newest:
  "\<forall>f \<in> set cs. create_ts f \<le> create_ts x \<Longrightarrow>
     takeWhile (\<lambda>f. create_ts f \<le> t) (cs @ [x]) = (if create_ts x \<le> t then cs @ [x] else takeWhile (\<lambda>f. create_ts f \<le> t) cs)"
  by (induction cs) auto

lemma Append_visible:
  assumes "BlockVersion_ok v" "\<forall>f \<in> set (created v). create_ts f \<le> ts"
  shows "GetRowCount t (BlockVersion_Append ts n v) = (if ts \<le> t then to_i32 n else GetRowCount t v)"
    "CheckDelete offset t (BlockVersion_Append ts n v) = CheckDelete offset t v"
proof -
  let ?f = "\<lparr>create_ts = ts, row_count = n\<rparr>"
  have "sorted (map create_ts (created v @ [?f]))" using assms by (auto simp: BlockVersion_ok_def sorted_append)
  then show "GetRowCount t (BlockVersion_Append ts n v) = (if ts \<le> t then to_i32 n else GetRowCount t v)"
    using assms takeWhile_newest [of "created v" ?f t] by (simp add: GetRowCount_takeWhile BlockVersion_Append_def BlockVersion_ok_def)
  show "CheckDelete offset t (BlockVersion_Append ts n v) = CheckDelete offset t v"
    by (simp add: CheckDelete_def BlockVersion_Append_def)
qed

lemma Delete_visible:
  assumes "BlockVersion_Delete i ts v = Inr v'" "0 < ts"
  shows "created v' = created v" "CheckDelete offset t v' \<longleftrightarrow> offset = i \<and> ts \<le> t \<or> CheckDelete offset t v"
  using assms by (auto simp: BlockVersion_Delete_def CheckDelete_def nth_list_update split: if_splits)

lemma Deletes_visible:
  assumes "rfold (\<lambda>offset. BlockVersion_Delete offset ts) dels v = Inr v'" "0 < ts"
  shows "created v' = created v \<and> (CheckDelete offset t v' \<longleftrightarrow> offset \<in> set dels \<and> ts \<le> t \<or> CheckDelete offset t v)"
  using assms(1)
proof (induction dels arbitrary: v)
  case (Cons i dels)
  then obtain v1 where v1: "BlockVersion_Delete i ts v = Inr v1" "rfold (\<lambda>offset. BlockVersion_Delete offset ts) dels v1 = Inr v'"
    by (auto simp: res_simps)
  show ?case using Cons.IH [OF v1(2)] Delete_visible(1) [OF v1(1) assms(2)] Delete_visible(2) [OF v1(1) assms(2), of offset t] by auto
qed simp

subsection \<open>Properties\<close>

text \<open>(C17) Snapshot isolation of a block: committing appended rows and deletions at a timestamp not before
  the earlier ones changes nothing for readers at smaller timestamps, and readers from that timestamp
  on see exactly the new number of rows and the new deletions.\<close>

theorem commit_snapshot_isolation:
  assumes "BlockVersion_ok v" and "\<forall>f \<in> set (created v). create_ts f \<le> ts" and "0 < ts"
    and "version_commit ts rows dels v = Inr v'"
  shows "visible t v' = (if t < ts then visible t v else (to_i32 rows, \<lambda>offset. offset \<in> set dels \<or> CheckDelete offset t v))"
proof -
  have D: "rfold (\<lambda>offset. BlockVersion_Delete offset ts) dels (BlockVersion_Append ts rows v) = Inr v'"
    using assms(4) by (simp add: version_commit_def)
  have "GetRowCount t v' = GetRowCount t (BlockVersion_Append ts rows v)"
    using Deletes_visible [OF D assms(3)] by (intro GetRowCount_cong) blast
  then show ?thesis
    using Deletes_visible [OF D assms(3)] Append_visible(1) [OF assms(1,2), of t rows] Append_visible(2) [OF assms(1,2), of _ t rows] by (auto simp: visible_def fun_eq_iff)
qed

definition demo_version :: BlockVersion where
  "demo_version = \<lparr>created = [\<lparr>create_ts = 5, row_count = 10\<rparr>, \<lparr>create_ts = 7, row_count = 20\<rparr>],
     deleted = replicate 32 0, latest_change_ts = 7\<rparr>"

lemma demo_version_ok: "BlockVersion_ok demo_version"
  by (simp add: demo_version_def BlockVersion_ok_def list_all_iff)

theorem commit_snapshot_isolation_witness:
  "\<exists>v'. version_commit 9 25 [3, 21] demo_version = Inr v' \<and> visible 8 v' = visible 8 demo_version \<and>
     fst (visible 9 v') = 25 \<and> snd (visible 9 v') 21 \<and> \<not> snd (visible 9 v') 4"
proof -
  obtain v' where v': "version_commit 9 25 [3, 21] demo_version = Inr v'"
    by (simp add: version_commit_def demo_version_def BlockVersion_Append_def BlockVersion_Delete_def)
  have "visible t v' = (if t < 9 then visible t demo_version else (to_i32 25, \<lambda>offset. offset \<in> set [3, 21] \<or> CheckDelete offset t demo_version))" for t
    by (rule commit_snapshot_isolation [OF demo_version_ok _ _ v']) (simp_all add: demo_version_def)
  then show ?thesis using v' by (simp add: to_i32_def CheckDelete_def demo_version_def)
qed

text \<open>(C18) A checkpoint of a block is its state at the checkpoint timestamp: loading the saved file gives a
  version in which every reader sees what it saw in memory, readers behind the checkpoint what the
  reader at the checkpoint saw.\<close>

theorem checkpoint_is_snapshot:
  assumes "BlockVersion_ok v"
  shows "\<exists>v'. LoadFromFile (SaveToFile checkpoint_ts v) = Inr v' \<and> BlockVersion_ok v' \<and>
     (\<forall>ts. visible ts v' = visible (min ts checkpoint_ts) v)"
proof -
  let ?v = "\<lparr>created = takeWhile (\<lambda>f. create_ts f \<le> checkpoint_ts) (created v),
    deleted = map (\<lambda>x. if x \<le> checkpoint_ts then x else 0) (deleted v), latest_change_ts = 0\<rparr>"
  have "GetRowCount ts ?v = GetRowCount (min ts checkpoint_ts) v" for ts
    by (rule GetRowCount_cut) (use assms in \<open>simp_all add: BlockVersion_ok_def\<close>)
  moreover have "CheckDelete i ts ?v = CheckDelete i (min ts checkpoint_ts) v" for i ts
    by (auto simp: CheckDelete_def split: if_splits)
  moreover have "BlockVersion_ok ?v"
    using assms sorted_takeWhile [of "map create_ts (created v)" "\<lambda>t. t \<le> checkpoint_ts"]
      length_takeWhile_le [of "\<lambda>f. create_ts f \<le> checkpoint_ts" "created v"]
    by (auto simp: BlockVersion_ok_def takeWhile_map o_def list_all_iff dest: set_takeWhileD)
  ultimately show ?thesis using Load_Save [OF assms] by (simp add: visible_def)
qed

theorem checkpoint_is_snapshot_witness:
  "\<exists>v'. LoadFromFile (SaveToFile 6 demo_version) = Inr v' \<and> visible 9 v' = visible 6 demo_version"
  using checkpoint_is_snapshot [OF demo_version_ok, of 6] by (metis min.commute min_def numeral_le_iff semiring_norm(69,71,72,76,77,78))

text \<open>(C19) \<^verbatim>\<open>GetCreateTS\<close> is wrong at the borders of appends: for the first row of an append behind an earlier
  one it reports the timestamp of the earlier append, at which a reader does not see the row.\<close>

theorem GetCreateTS_border_wrong:
  assumes "created v = cs @ a # b # ds" and "sorted (map row_count (created v))" and "\<forall>f \<in> set cs. row_count f < row_count a"
    and "sorted_wrt (<) (map create_ts (created v))" and "0 \<le> row_count a" and "row_count a < 2 ^ 31"
  shows "GetCreateTS (nat (row_count a)) 1 v = [create_ts a] \<and> GetRowCount (create_ts a) v \<le> row_count a"
proof -
  have "lower_bound row_count (created v) (row_count a) = length (takeWhile (\<lambda>f. row_count f < row_count a) (cs @ a # b # ds))"
    using lower_bound_takeWhile [OF assms(2)] assms(1) by simp
  also have "\<dots> = length cs" using assms(3) by (simp add: takeWhile_append)
  finally have "GetCreateTS (nat (row_count a)) 1 v = [create_ts a]" using assms(1,5) by (simp add: GetCreateTS_def)
  moreover have "sorted (map create_ts (created v))" using assms(4) by (simp add: strict_sorted_imp_sorted)
  moreover have "takeWhile (\<lambda>f. create_ts f \<le> create_ts a) (created v) = cs @ [a]"
    using assms(4) unfolding assms(1) by (auto simp: sorted_wrt_append takeWhile_append)
  ultimately show ?thesis using assms(5,6) by (simp add: GetRowCount_takeWhile to_i32_id)
qed

theorem GetCreateTS_border_wrong_witness:
  "GetCreateTS 10 1 demo_version = [5] \<and> GetRowCount 5 demo_version \<le> 10"
  using GetCreateTS_border_wrong [of demo_version "[]" "\<lparr>create_ts = 5, row_count = 10\<rparr>" "\<lparr>create_ts = 7, row_count = 20\<rparr>" "[]"]
  by (simp add: demo_version_def)

end
