(* ===== verification/File_Worker.thy ===== *)
theory File_Worker
  imports Virtual_Store Var_Buffer Block_Version
begin

text \<open>
  The file workers (\<^verbatim>\<open>src/src/storage/buffer/file_worker/\<close>): each holds the data of one buffer object in memory and knows
  how to write it to a file, to the data directory or as a spill file to the temporary directory, and to read it
  back.  Modelled is the operation without a persistence manager.  The disk maps paths to bytes and has no
  directories.  \<^verbatim>\<open>VirtualStore::Open\<close> for writing does not truncate, so an existing longer file keeps its tail.
  A memory mapping is the bytes of the file when it was mapped.
\<close>

subsection \<open>The data file worker\<close>

record DataFileWorker =
  dfw_buffer_size :: nat
  dfw_data :: "byte list option"
  dfw_mmap_data :: "byte list option"

definition DataFileWorker_AllocateInMemory :: "DataFileWorker \<Rightarrow> DataFileWorker res" where
  "DataFileWorker_AllocateInMemory w =
     (if dfw_data w \<noteq> None then Inl (UnrecoverableError ''Data is already allocated.'')
      else if dfw_buffer_size w = 0 then Inl (UnrecoverableError ''Buffer size is 0.'')
      else Inr (w\<lparr>dfw_data := Some (replicate (dfw_buffer_size w) 0)\<rparr>))"

definition DataFileWorker_FreeInMemory :: "DataFileWorker \<Rightarrow> DataFileWorker res" where
  "DataFileWorker_FreeInMemory w =
     (if dfw_data w = None then Inl (UnrecoverableError ''Data is already freed.'')
      else Inr (w\<lparr>dfw_data := None\<rparr>))"

definition DataFileWorker_GetMemoryCost :: "DataFileWorker \<Rightarrow> nat" where
  "DataFileWorker_GetMemoryCost w = dfw_buffer_size w"

definition data_magic :: nat where "data_magic = 0x00dd3344"

definition DataFileWorker_WriteToFileImpl :: "DataFileWorker \<Rightarrow> byte list res" where
  "DataFileWorker_WriteToFileImpl w =
     (case dfw_data w of
        None \<Rightarrow> Inl (UndefinedBehaviour ''null pointer'')
      | Some b \<Rightarrow>
          if length b < dfw_buffer_size w then Inl (UndefinedBehaviour ''read outside the buffer'')
          else Inr (WriteBufAdv_pod 8 data_magic @ WriteBufAdv_pod 8 (dfw_buffer_size w) @
                    take (dfw_buffer_size w) b @ WriteBufAdv_pod 8 0))"

text \<open>The size that is read from the file is a local variable; the member keeps its value.\<close>

definition DataFileWorker_ReadFromFileImpl :: "byte list \<Rightarrow> DataFileWorker \<Rightarrow> DataFileWorker res" where
  "DataFileWorker_ReadFromFileImpl file w =
     (if length file < 8 * 3 then Inl (RecoverableError ''Incorrect file length'')
      else let magic_number = le_nat (take 8 file); buffer_size = le_nat (take 8 (drop 8 file)); body = take buffer_size (drop 16 file)
        in if magic_number \<noteq> data_magic then Inl (RecoverableError ''Read magic error'')
           else if length file \<noteq> u64_add buffer_size (3 * 8) then Inl (RecoverableError ''File size isn't matched'')
           else if 2 ^ 63 \<le> buffer_size then Inl (StdException ''bad_alloc'')
           else if length body \<noteq> buffer_size then Inl (RecoverableError ''Expect to read buffer'')
           else if length (drop (16 + buffer_size) file) < 8 then Inl (RecoverableError ''Incorrect file checksum length'')
           else Inr (w\<lparr>dfw_data := Some body\<rparr>))"

definition DataFileWorker_ReadFromMmapImpl :: "byte list \<Rightarrow> DataFileWorker \<Rightarrow> DataFileWorker res" where
  "DataFileWorker_ReadFromMmapImpl file w =
     (let magic_number = le_nat (take 8 file); buffer_size = le_nat (take 8 (drop 8 file))
      in if magic_number \<noteq> data_magic then Inl (RecoverableError ''Read magic error'')
         else if length file \<noteq> u64_add buffer_size (3 * 8) then Inl (RecoverableError ''File size isn't matched'')
         else Inr (w\<lparr>dfw_mmap_data := Some (take buffer_size (drop 16 file))\<rparr>))"

subsection \<open>The raw file worker\<close>

text \<open>The memory that is allocated is not initialised: the bytes it holds are a field of the worker.\<close>

record RawFileWorker =
  rfw_buffer_size :: nat
  rfw_data :: "byte list option"
  rfw_uninitialised :: "nat \<Rightarrow> byte"

definition RawFileWorker_AllocateInMemory :: "RawFileWorker \<Rightarrow> RawFileWorker res" where
  "RawFileWorker_AllocateInMemory w =
     (if rfw_data w \<noteq> None then Inl (UnrecoverableError ''Data is already allocated.'')
      else if rfw_buffer_size w = 0 then Inl (UnrecoverableError ''Buffer size is 0.'')
      else Inr (w\<lparr>rfw_data := Some (map (rfw_uninitialised w) [0..<rfw_buffer_size w])\<rparr>))"

definition RawFileWorker_FreeInMemory :: "RawFileWorker \<Rightarrow> RawFileWorker res" where
  "RawFileWorker_FreeInMemory w =
     (if rfw_data w = None then Inl (UnrecoverableError ''Data is already freed.'')
      else Inr (w\<lparr>rfw_data := None\<rparr>))"

definition RawFileWorker_GetMemoryCost :: "RawFileWorker \<Rightarrow> nat" where
  "RawFileWorker_GetMemoryCost w = rfw_buffer_size w"

definition RawFileWorker_WriteToFileImpl :: "RawFileWorker \<Rightarrow> byte list res" where
  "RawFileWorker_WriteToFileImpl w =
     (case rfw_data w of
        None \<Rightarrow> Inl (AssertionFailure ''data_ != nullptr'')
      | Some b \<Rightarrow>
          if rfw_buffer_size w = 0 then Inl (AssertionFailure ''buffer_size_ > 0'')
          else if length b < rfw_buffer_size w then Inl (UndefinedBehaviour ''read outside the buffer'')
          else Inr (take (rfw_buffer_size w) b))"

definition RawFileWorker_ReadFromFileImpl :: "byte list \<Rightarrow> RawFileWorker \<Rightarrow> RawFileWorker res" where
  "RawFileWorker_ReadFromFileImpl file w = Inr (w\<lparr>rfw_buffer_size := length file, rfw_data := Some file\<rparr>)"

subsection \<open>The version file worker\<close>

text \<open>The context of a checkpoint carries its timestamp; other workers ignore the context.\<close>

datatype save_ctx = FileWorkerSaveCtx | VersionFileWorkerSaveCtx nat

record VersionFileWorker =
  vsw_capacity :: nat
  vsw_data :: "BlockVersion option"

definition VersionFileWorker_AllocateInMemory :: "VersionFileWorker \<Rightarrow> VersionFileWorker res" where
  "VersionFileWorker_AllocateInMemory w =
     (if vsw_data w \<noteq> None then Inl (UnrecoverableError ''Data is already allocated.'')
      else if vsw_capacity w = 0 then Inl (UnrecoverableError ''Capacity is 0.'')
      else Inr (w\<lparr>vsw_data := Some (BlockVersion_new (vsw_capacity w))\<rparr>))"

definition VersionFileWorker_FreeInMemory :: "VersionFileWorker \<Rightarrow> VersionFileWorker res" where
  "VersionFileWorker_FreeInMemory w =
     (if vsw_data w = None then Inl (UnrecoverableError ''Data is already freed.'')
      else Inr (w\<lparr>vsw_data := None\<rparr>))"

definition VersionFileWorker_GetMemoryCost :: "VersionFileWorker \<Rightarrow> nat" where
  "VersionFileWorker_GetMemoryCost w = vsw_capacity w * 8"

text \<open>The result says whether everything was saved.\<close>

definition VersionFileWorker_WriteToFileImpl :: "bool \<Rightarrow> save_ctx \<Rightarrow> VersionFileWorker \<Rightarrow> (byte list \<times> bool) res" where
  "VersionFileWorker_WriteToFileImpl to_spill ctx w =
     (case vsw_data w of
        None \<Rightarrow> Inl (UnrecoverableError ''Data is not allocated.'')
      | Some v \<Rightarrow>
          if to_spill then Inr (SpillToFile v, True)
          else case ctx of
              FileWorkerSaveCtx \<Rightarrow> Inl (UndefinedBehaviour ''cast to VersionFileWorkerSaveCtx'')
            | VersionFileWorkerSaveCtx checkpoint_ts \<Rightarrow> Inr (SaveToFile checkpoint_ts v, latest_change_ts v \<le> checkpoint_ts))"

definition VersionFileWorker_ReadFromFileImpl :: "byte list \<Rightarrow> VersionFileWorker \<Rightarrow> VersionFileWorker res" where
  "VersionFileWorker_ReadFromFileImpl file w =
     (if vsw_data w \<noteq> None then Inl (UnrecoverableError ''Data is already allocated.'')
      else rbind (LoadFromFile file) (\<lambda>v. Inr (w\<lparr>vsw_data := Some v\<rparr>)))"

subsection \<open>Dispatch\<close>

datatype worker =
    DataWorker DataFileWorker
  | RawWorker RawFileWorker
  | VarWorker VarFileWorker
  | VersionWorker VersionFileWorker

definition rmap :: "('a \<Rightarrow> 'b) \<Rightarrow> 'a res \<Rightarrow> 'b res" where
  "rmap f m = rbind m (\<lambda>x. Inr (f x))"

lemma rmap_simps [simp]: "rmap f (Inl e) = Inl e" "rmap f (Inr x) = Inr (f x)"
  by (simp_all add: rmap_def)

lemma if_Inl_eq_Inr [res_simps]: "(if P then Inl e else m) = Inr y \<longleftrightarrow> \<not> P \<and> m = Inr y"
  by simp

lemma rmap_eq_Inr [res_simps]: "rmap f m = Inr y \<longleftrightarrow> (\<exists>x. m = Inr x \<and> y = f x)"
  by (cases m) auto

fun data_null :: "worker \<Rightarrow> bool" where
  "data_null (DataWorker w) = (dfw_data w = None)"
| "data_null (RawWorker w) = (rfw_data w = None)"
| "data_null (VarWorker w) = (vfw_data w = None)"
| "data_null (VersionWorker w) = (vsw_data w = None)"

fun AllocateInMemory :: "worker \<Rightarrow> worker res" where
  "AllocateInMemory (DataWorker w) = rmap DataWorker (DataFileWorker_AllocateInMemory w)"
| "AllocateInMemory (RawWorker w) = rmap RawWorker (RawFileWorker_AllocateInMemory w)"
| "AllocateInMemory (VarWorker w) = rmap VarWorker (VarFileWorker_AllocateInMemory w)"
| "AllocateInMemory (VersionWorker w) = rmap VersionWorker (VersionFileWorker_AllocateInMemory w)"

fun FreeInMemory :: "worker \<Rightarrow> worker res" where
  "FreeInMemory (DataWorker w) = rmap DataWorker (DataFileWorker_FreeInMemory w)"
| "FreeInMemory (RawWorker w) = rmap RawWorker (RawFileWorker_FreeInMemory w)"
| "FreeInMemory (VarWorker w) = rmap VarWorker (VarFileWorker_FreeInMemory w)"
| "FreeInMemory (VersionWorker w) = rmap VersionWorker (VersionFileWorker_FreeInMemory w)"

fun GetMemoryCost :: "worker \<Rightarrow> nat" where
  "GetMemoryCost (DataWorker w) = DataFileWorker_GetMemoryCost w"
| "GetMemoryCost (RawWorker w) = RawFileWorker_GetMemoryCost w"
| "GetMemoryCost (VarWorker w) = VarFileWorker_GetMemoryCost w"
| "GetMemoryCost (VersionWorker w) = VersionFileWorker_GetMemoryCost w"

fun WriteToFileImpl :: "bool \<Rightarrow> save_ctx \<Rightarrow> worker \<Rightarrow> (byte list \<times> bool \<times> worker) res" where
  "WriteToFileImpl to_spill ctx (DataWorker w) = rmap (\<lambda>b. (b, True, DataWorker w)) (DataFileWorker_WriteToFileImpl w)"
| "WriteToFileImpl to_spill ctx (RawWorker w) = rmap (\<lambda>b. (b, True, RawWorker w)) (RawFileWorker_WriteToFileImpl w)"
| "WriteToFileImpl to_spill ctx (VarWorker w) = rmap (\<lambda>(b, w'). (b, True, VarWorker w')) (VarFileWorker_WriteToFileImpl w)"
| "WriteToFileImpl to_spill ctx (VersionWorker w) =
     rmap (\<lambda>(b, all_save). (b, all_save, VersionWorker w)) (VersionFileWorker_WriteToFileImpl to_spill ctx w)"

fun ReadFromFileImpl :: "byte list \<Rightarrow> worker \<Rightarrow> worker res" where
  "ReadFromFileImpl file (DataWorker w) = rmap DataWorker (DataFileWorker_ReadFromFileImpl file w)"
| "ReadFromFileImpl file (RawWorker w) = rmap RawWorker (RawFileWorker_ReadFromFileImpl file w)"
| "ReadFromFileImpl file (VarWorker w) = rmap VarWorker (VarFileWorker_ReadFromFileImpl file w)"
| "ReadFromFileImpl file (VersionWorker w) = rmap VersionWorker (VersionFileWorker_ReadFromFileImpl file w)"

text \<open>Only the data and the variable length worker override the operations on mappings.\<close>

fun ReadFromMmapImpl :: "byte list \<Rightarrow> worker \<Rightarrow> worker res" where
  "ReadFromMmapImpl file (DataWorker w) = rmap DataWorker (DataFileWorker_ReadFromMmapImpl file w)"
| "ReadFromMmapImpl file (RawWorker w) = Inl (UnrecoverableError ''Not implemented'')"
| "ReadFromMmapImpl file (VarWorker w) = rmap VarWorker (VarFileWorker_ReadFromMmapImpl file w)"
| "ReadFromMmapImpl file (VersionWorker w) = Inl (UnrecoverableError ''Not implemented'')"

fun FreeFromMmapImpl :: "worker \<Rightarrow> worker res" where
  "FreeFromMmapImpl (DataWorker w) = Inr (DataWorker w)"
| "FreeFromMmapImpl (RawWorker w) = Inl (UnrecoverableError ''Not implemented'')"
| "FreeFromMmapImpl (VarWorker w) = rmap VarWorker (VarFileWorker_FreeFromMmapImpl w)"
| "FreeFromMmapImpl (VersionWorker w) = Inl (UnrecoverableError ''Not implemented'')"

fun mmap_data_reset :: "worker \<Rightarrow> worker" where
  "mmap_data_reset (DataWorker w) = DataWorker (w\<lparr>dfw_mmap_data := None\<rparr>)"
| "mmap_data_reset (VarWorker w) = VarWorker (w\<lparr>vfw_mmap_data := None\<rparr>)"
| "mmap_data_reset w = w"

subsection \<open>The common part\<close>

record FileWorker =
  fw_data_dir :: string
  fw_temp_dir :: string
  fw_file_dir :: string
  fw_file_name :: string
  fw_worker :: worker
  fw_mmap_addr :: "byte list option"

definition GetFilePath :: "FileWorker \<Rightarrow> string" where
  "GetFilePath w = path_append (path_append (fw_data_dir w) (fw_file_dir w)) (fw_file_name w)"

definition ChooseFileDir :: "bool \<Rightarrow> FileWorker \<Rightarrow> string" where
  "ChooseFileDir spill w = (if spill then path_append (fw_temp_dir w) (fw_file_dir w) else path_append (fw_data_dir w) (fw_file_dir w))"

definition file_path :: "bool \<Rightarrow> FileWorker \<Rightarrow> string" where
  "file_path spill w = ChooseFileDir spill w @ ''/'' @ fw_file_name w"

definition overwrite :: "byte list \<Rightarrow> byte list option \<Rightarrow> byte list" where
  "overwrite b old = b @ drop (length b) (case old of None \<Rightarrow> [] | Some f \<Rightarrow> f)"

definition WriteToFile :: "bool \<Rightarrow> save_ctx \<Rightarrow> FileWorker \<Rightarrow> disk \<Rightarrow> (bool \<times> FileWorker \<times> disk) res" where
  "WriteToFile to_spill ctx w d =
     (if data_null (fw_worker w) then Inl (UnrecoverableError ''No data will be written.'')
      else let write_path = file_path to_spill w
        in rbind (WriteToFileImpl to_spill ctx (fw_worker w)) (\<lambda>(b, all_save, w').
             Inr (all_save, w\<lparr>fw_worker := w'\<rparr>, d(write_path := Some (overwrite b (d write_path))))))"

definition ReadFromFile :: "bool \<Rightarrow> FileWorker \<Rightarrow> disk \<Rightarrow> FileWorker res" where
  "ReadFromFile from_spill w d =
     (case d (file_path from_spill w) of
        None \<Rightarrow> Inl (UnrecoverableError ''File open failed'')
      | Some file \<Rightarrow> rbind (ReadFromFileImpl file (fw_worker w)) (\<lambda>w'. Inr (w\<lparr>fw_worker := w'\<rparr>)))"

definition MoveFile :: "FileWorker \<Rightarrow> disk \<Rightarrow> disk res" where
  "MoveFile w d =
     (let src_path = file_path True w; dest_path = file_path False w
      in if \<not> vs_Exists src_path d then Inl (RecoverableError ''File not found'')
         else vs_Rename src_path dest_path d)"

definition CleanupFile :: "FileWorker \<Rightarrow> disk \<Rightarrow> disk res" where
  "CleanupFile w d = (let path = file_path False w in if vs_Exists path d then vs_DeleteFile path d else Inr d)"

definition CleanupTempFile :: "FileWorker \<Rightarrow> disk \<Rightarrow> disk res" where
  "CleanupTempFile w d =
     (let path = file_path True w
      in if vs_Exists path d then vs_DeleteFile path d else Inl (UnrecoverableError ''Cleanup: File not found for deletion''))"

definition Munmap :: "FileWorker \<Rightarrow> FileWorker res" where
  "Munmap w =
     (if fw_mmap_addr w = None then Inr w
      else rbind (FreeFromMmapImpl (fw_worker w)) (\<lambda>w'. Inr (w\<lparr>fw_worker := mmap_data_reset w', fw_mmap_addr := None\<rparr>)))"

text \<open>\<^verbatim>\<open>MmapFile\<close> fails on an empty file.\<close>

definition mmap_data_null :: "worker \<Rightarrow> bool" where
  "mmap_data_null w \<longleftrightarrow> (case w of DataWorker x \<Rightarrow> dfw_mmap_data x = None | VarWorker x \<Rightarrow> vfw_mmap_data x = None | _ \<Rightarrow> True)"

definition Mmap :: "FileWorker \<Rightarrow> disk \<Rightarrow> FileWorker res" where
  "Mmap w d =
     rbind (if fw_mmap_addr w \<noteq> None \<or> \<not> mmap_data_null (fw_worker w) then Munmap w else Inr w) (\<lambda>w1.
     let read_path = file_path False w1
     in rbind (vs_GetFileSize read_path d) (\<lambda>file_size.
        if file_size = 0 then Inl (UnrecoverableError ''Mmap file failed'')
        else let addr = (case d read_path of None \<Rightarrow> [] | Some f \<Rightarrow> f)
             in rbind (ReadFromMmapImpl addr (fw_worker w1)) (\<lambda>w2. Inr (w1\<lparr>fw_worker := w2, fw_mmap_addr := Some addr\<rparr>))))"

subsection \<open>The contract of a worker\<close>

text \<open>What the data of a worker means, independent of how it is chunked in memory.  The timestamp of the latest change of a
  version is not part of it: it is not written to the file.\<close>

datatype content = ByteContent "byte list" | VersionContent "CreateField list" "nat list"

fun chunk_bytes :: "var_chunks \<Rightarrow> byte list" where
  "chunk_bytes (Chunks bs) = concat bs"
| "chunk_bytes (ConstChunk b) = b"

text \<open>A worker satisfies the contract when freeing it only forgets the data, and a file that it has written, also over
  an older file that is not too long (\<open>stale\<close>), is read back to the same contents by the freed worker.  Saving at a
  checkpoint may report that not everything was saved; \<open>sound\<close> excludes that it wrongly reports that everything was.\<close>

locale worker_contract =
  fixes null :: "'w \<Rightarrow> bool"
    and alloc :: "'w \<Rightarrow> 'w res"
    and free_mem :: "'w \<Rightarrow> 'w res"
    and cost :: "'w \<Rightarrow> nat"
    and put :: "bool \<Rightarrow> save_ctx \<Rightarrow> 'w \<Rightarrow> (byte list \<times> bool \<times> 'w) res"
    and read :: "byte list \<Rightarrow> 'w \<Rightarrow> 'w res"
    and freed :: "'w \<Rightarrow> 'w"
    and contents :: "'w \<Rightarrow> content option"
    and ok :: "'w \<Rightarrow> bool"
    and stale :: "'w \<Rightarrow> byte list \<Rightarrow> bool"
    and sound :: "save_ctx \<Rightarrow> 'w \<Rightarrow> bool"
    and fresh :: "'w \<Rightarrow> bool"
  assumes freed: "null (freed w)" "freed (freed w) = freed w" "cost (freed w) = cost w" "stale (freed w) = stale w"
    and freed_null: "null w \<Longrightarrow> freed w = w"
    and contents_null: "contents w = None \<longleftrightarrow> null w"
    and alloc_ok: "null w \<Longrightarrow> fresh w \<Longrightarrow> \<exists>w'. alloc w = Inr w' \<and> ok w' \<and> \<not> null w' \<and> freed w' = w"
    and free_ok: "\<not> null w \<Longrightarrow> free_mem w = Inr (freed w)"
    and write_ok: "ok w \<Longrightarrow> \<not> null w \<Longrightarrow> to_spill \<or> sound ctx w \<Longrightarrow>
       \<exists>b all w'. put to_spill ctx w = Inr (b, all, w') \<and> freed w' = freed w \<and> ok w' \<and> contents w' = contents w \<and>
         (to_spill \<longrightarrow> all) \<and>
         (\<forall>old. (case old of None \<Rightarrow> True | Some f \<Rightarrow> stale w f) \<longrightarrow> stale w (overwrite b old) \<and>
            (all \<longrightarrow> (\<exists>w2. read (overwrite b old) (freed w) = Inr w2 \<and> contents w2 = contents w \<and> ok w2 \<and> freed w2 = freed w)))"
begin

text \<open>A file holds the contents \<open>c\<close> for a worker.\<close>

definition stored :: "byte list \<Rightarrow> 'w \<Rightarrow> content option \<Rightarrow> bool" where
  "stored f w c \<longleftrightarrow> c \<noteq> None \<and> (\<exists>w2. read f (freed w) = Inr w2 \<and> contents w2 = c \<and> ok w2 \<and> freed w2 = freed w)"

lemma stored_freed: "freed w = freed w' \<Longrightarrow> stored f w c = stored f w' c"
  by (simp add: stored_def)

lemma cost_freed: "freed w = freed w' \<Longrightarrow> cost w = cost w'"
  by (metis freed(3))

lemma stale_freed: "freed w = freed w' \<Longrightarrow> stale w = stale w'"
  by (metis freed(4))

lemma read_stored:
  assumes "stored f w c" "null w"
  obtains w2 where "read f w = Inr w2" "contents w2 = c" "ok w2" "freed w2 = freed w" "\<not> null w2"
  using assms unfolding stored_def by (metis contents_null freed_null)

lemma write_stores:
  assumes "ok w" "\<not> null w" "to_spill \<or> sound ctx w" "\<And>f. old = Some f \<Longrightarrow> stale w f"
  obtains b all w' where "put to_spill ctx w = Inr (b, all, w')" "freed w' = freed w" "ok w'" "contents w' = contents w"
    "to_spill \<Longrightarrow> all" "stale w (overwrite b old)" "all \<Longrightarrow> stored (overwrite b old) w (contents w)"
proof -
  obtain b all w' where w: "put to_spill ctx w = Inr (b, all, w') \<and> freed w' = freed w \<and> ok w' \<and> contents w' = contents w \<and>
         (to_spill \<longrightarrow> all) \<and>
         (\<forall>old. (case old of None \<Rightarrow> True | Some f \<Rightarrow> stale w f) \<longrightarrow> stale w (overwrite b old) \<and>
            (all \<longrightarrow> (\<exists>w2. read (overwrite b old) (freed w) = Inr w2 \<and> contents w2 = contents w \<and> ok w2 \<and> freed w2 = freed w)))"
    using write_ok [OF assms(1-3)] by blast
  have "stale w (overwrite b old)" "all \<Longrightarrow> stored (overwrite b old) w (contents w)"
    using w assms(2,4) contents_null [of w] by (auto simp: stored_def split: option.splits)
  with w show thesis by (intro that [of b all w']) simp_all
qed

text \<open>Eviction and reload: what is spilled, freed and read again is what was there.\<close>

lemma evict_reload:
  assumes "ok w" "\<not> null w" "\<And>f. old = Some f \<Longrightarrow> stale w f"
  shows "\<exists>b w' w2 w3. put True ctx w = Inr (b, True, w') \<and> free_mem w' = Inr w2 \<and> read (overwrite b old) w2 = Inr w3 \<and>
    contents w3 = contents w \<and> cost w3 = cost w"
proof -
  obtain b all w' where w: "put True ctx w = Inr (b, all, w')" "freed w' = freed w" "contents w' = contents w" "all"
    "all \<Longrightarrow> stored (overwrite b old) w (contents w)"
    by (rule write_stores [where w = w and to_spill = True and ctx = ctx and old = old]) (use assms in simp_all)
  then have "free_mem w' = Inr (freed w)" using free_ok [of w'] contents_null assms(2) by metis
  moreover obtain w3 where "read (overwrite b old) (freed w) = Inr w3" "contents w3 = contents w" "freed w3 = freed (freed w)"
    using w(4,5) by (metis freed(1,2) read_stored stored_freed)
  ultimately show ?thesis using w(1,4) by (metis cost_freed freed(2))
qed

end

subsection \<open>The four workers\<close>

definition DataFileWorker_ok :: "DataFileWorker \<Rightarrow> bool" where
  "DataFileWorker_ok w \<longleftrightarrow> dfw_buffer_size w < 2 ^ 63 \<and> (\<forall>b. dfw_data w = Some b \<longrightarrow> length b = dfw_buffer_size w)"

lemma u64_header: "n < 2 ^ 64 \<Longrightarrow> le_nat (WriteBufAdv_pod 8 n) = n"
  by (simp add: WriteBufAdv_pod_def le_nat_le_bytes)

lemma DataFileWorker_file:
  assumes "dfw_buffer_size w < 2 ^ 63" "length b = dfw_buffer_size w"
  shows "DataFileWorker_ReadFromFileImpl (WriteBufAdv_pod 8 data_magic @ WriteBufAdv_pod 8 (dfw_buffer_size w) @ b @ WriteBufAdv_pod 8 0) w =
    Inr (w\<lparr>dfw_data := Some b\<rparr>)"
  using assms by (simp add: DataFileWorker_ReadFromFileImpl_def u64_header data_magic_def u64_add_id Let_def)

interpretation data_worker: worker_contract "\<lambda>w. dfw_data w = None" DataFileWorker_AllocateInMemory DataFileWorker_FreeInMemory
  DataFileWorker_GetMemoryCost "\<lambda>to_spill ctx w. rmap (\<lambda>b. (b, True, w)) (DataFileWorker_WriteToFileImpl w)"
  DataFileWorker_ReadFromFileImpl "\<lambda>w. w\<lparr>dfw_data := None\<rparr>" "\<lambda>w. map_option ByteContent (dfw_data w)" DataFileWorker_ok
  "\<lambda>w f. length f \<le> dfw_buffer_size w + 24" "\<lambda>ctx w. True" "\<lambda>w. 0 < dfw_buffer_size w \<and> dfw_buffer_size w < 2 ^ 63"
proof (unfold_locales, goal_cases)
  case (9 w to_spill ctx)
  then obtain b where b: "dfw_data w = Some b" "length b = dfw_buffer_size w" "dfw_buffer_size w < 2 ^ 63"
    by (auto simp: DataFileWorker_ok_def)
  let ?f = "WriteBufAdv_pod 8 data_magic @ WriteBufAdv_pod 8 (dfw_buffer_size w) @ b @ WriteBufAdv_pod 8 0"
  have "overwrite ?f old = ?f" if "case old of None \<Rightarrow> True | Some f \<Rightarrow> length f \<le> dfw_buffer_size w + 24" for old
    using that b(2) by (auto simp: overwrite_def split: option.splits)
  moreover have "DataFileWorker_ReadFromFileImpl ?f (w\<lparr>dfw_data := None\<rparr>) = Inr (w\<lparr>dfw_data := Some b\<rparr>)"
    using DataFileWorker_file [of "w\<lparr>dfw_data := None\<rparr>" b] b by simp
  ultimately show ?case using b by (auto simp: DataFileWorker_WriteToFileImpl_def DataFileWorker_ok_def)
qed (auto simp: DataFileWorker_GetMemoryCost_def DataFileWorker_AllocateInMemory_def DataFileWorker_FreeInMemory_def DataFileWorker_ok_def)

definition RawFileWorker_ok :: "RawFileWorker \<Rightarrow> bool" where
  "RawFileWorker_ok w \<longleftrightarrow> 0 < rfw_buffer_size w \<and> (\<forall>b. rfw_data w = Some b \<longrightarrow> length b = rfw_buffer_size w)"

interpretation raw_worker: worker_contract "\<lambda>w. rfw_data w = None" RawFileWorker_AllocateInMemory RawFileWorker_FreeInMemory
  RawFileWorker_GetMemoryCost "\<lambda>to_spill ctx w. rmap (\<lambda>b. (b, True, w)) (RawFileWorker_WriteToFileImpl w)"
  RawFileWorker_ReadFromFileImpl "\<lambda>w. w\<lparr>rfw_data := None\<rparr>" "\<lambda>w. map_option ByteContent (rfw_data w)" RawFileWorker_ok
  "\<lambda>w f. length f \<le> rfw_buffer_size w" "\<lambda>ctx w. True" "\<lambda>w. 0 < rfw_buffer_size w"
proof (unfold_locales, goal_cases)
  case (9 w to_spill ctx)
  then obtain b where b: "rfw_data w = Some b" "length b = rfw_buffer_size w" "0 < rfw_buffer_size w"
    by (auto simp: RawFileWorker_ok_def)
  have "overwrite b old = b" if "case old of None \<Rightarrow> True | Some f \<Rightarrow> length f \<le> rfw_buffer_size w" for old
    using that b(2) by (auto simp: overwrite_def split: option.splits)
  then show ?case
    by (intro exI [of _ b], intro exI [of _ True], intro exI [of _ w])
      (use b in \<open>simp add: RawFileWorker_WriteToFileImpl_def RawFileWorker_ReadFromFileImpl_def RawFileWorker_ok_def\<close>)
qed (auto simp: RawFileWorker_GetMemoryCost_def RawFileWorker_AllocateInMemory_def RawFileWorker_FreeInMemory_def RawFileWorker_ok_def)

definition VarFileWorker_ok :: "VarFileWorker \<Rightarrow> bool" where
  "VarFileWorker_ok w \<longleftrightarrow> (\<forall>vb. vfw_data w = Some vb \<longrightarrow> (\<exists>bs. vb_ok bs vb))"

definition var_freed :: "VarFileWorker \<Rightarrow> VarFileWorker" where
  "var_freed w = w\<lparr>vfw_buffer_size := VarFileWorker_GetMemoryCost w, vfw_data := None\<rparr>"

lemmas var_worker_defs = VarFileWorker_AllocateInMemory_def VarFileWorker_FreeInMemory_def VarFileWorker_GetMemoryCost_def
  VarFileWorker_WriteToFileImpl_def VarFileWorker_ReadFromFileImpl_def var_freed_def

interpretation var_worker: worker_contract "\<lambda>w. vfw_data w = None" VarFileWorker_AllocateInMemory VarFileWorker_FreeInMemory
  VarFileWorker_GetMemoryCost "\<lambda>to_spill ctx w. rmap (\<lambda>(b, w'). (b, True, w')) (VarFileWorker_WriteToFileImpl w)"
  VarFileWorker_ReadFromFileImpl var_freed "\<lambda>w. map_option (\<lambda>vb. ByteContent (chunk_bytes (vb_buffers vb))) (vfw_data w)" VarFileWorker_ok
  "\<lambda>w f. True" "\<lambda>ctx w. True" "\<lambda>w. vfw_buffer_size w = 0"
proof (unfold_locales, goal_cases)
  case (7 w)
  then show ?case by (auto simp: var_worker_defs VarFileWorker_ok_def TotalSize_def VarBuffer_new_def intro!: exI [of _ "[]"] vb_ok_new(1) [unfolded VarBuffer_new_def])
next
  case (9 w to_spill ctx)
  then obtain vb bs where vb: "vfw_data w = Some vb" "vb_ok bs vb" by (auto simp: VarFileWorker_ok_def)
  note total = vb_ok_total [OF vb(2)] and wr = vb_ok_Write [OF vb(2)]
  let ?w = "w\<lparr>vfw_buffer_size := length (concat bs)\<rparr>" and ?c = "VarBuffer_owned (concat bs)"
  have contents: "chunk_bytes (vb_buffers vb) = concat bs" "chunk_bytes (vb_buffers ?c) = concat bs"
    using vb(2) by (simp_all add: vb_ok_def VarBuffer_owned_def)
  have cost: "VarFileWorker_GetMemoryCost w = length (concat bs)" "TotalSize ?c = length (concat bs)"
    using vb(1) total by (simp_all add: VarFileWorker_GetMemoryCost_def TotalSize_def VarBuffer_owned_def)
  have wr': "VarFileWorker_WriteToFileImpl w = Inr (concat bs, ?w)"
    using vb(1) total wr by (simp add: VarFileWorker_WriteToFileImpl_def)
  have rd: "VarFileWorker_ReadFromFileImpl (overwrite (concat bs) old) (var_freed w) = Inr (?w\<lparr>vfw_data := Some ?c\<rparr>)" for old
    using cost(1) by (simp add: VarFileWorker_ReadFromFileImpl_def var_freed_def overwrite_def del: length_concat)
  have freed: "var_freed ?w = var_freed w" "var_freed (?w\<lparr>vfw_data := Some ?c\<rparr>) = var_freed w"
    using vb(1) cost total by (simp_all add: var_freed_def VarFileWorker_GetMemoryCost_def del: length_concat)
  have ok: "VarFileWorker_ok ?w" "VarFileWorker_ok (?w\<lparr>vfw_data := Some ?c\<rparr>)"
    using vb vb_ok_new(2) by (auto simp: VarFileWorker_ok_def)
  show ?case
    by (rule exI [of _ "concat bs"], rule exI [of _ True], rule exI [of _ ?w])
      (use vb(1) wr' rd freed ok contents in \<open>simp del: length_concat\<close>)
qed (auto simp: var_worker_defs VarFileWorker_ok_def split: option.splits)

definition VersionFileWorker_ok :: "VersionFileWorker \<Rightarrow> bool" where
  "VersionFileWorker_ok w \<longleftrightarrow> (\<forall>v. vsw_data w = Some v \<longrightarrow> BlockVersion_ok v)"

text \<open>All changes are at or before the checkpoint, unless the worker reports that there are newer ones.\<close>

definition version_sound :: "save_ctx \<Rightarrow> VersionFileWorker \<Rightarrow> bool" where
  "version_sound ctx w \<longleftrightarrow> (\<exists>ts. ctx = VersionFileWorkerSaveCtx ts \<and>
     (\<forall>v. vsw_data w = Some v \<longrightarrow> latest_change_ts v \<le> ts \<longrightarrow>
        (\<forall>f \<in> set (created v). create_ts f \<le> ts) \<and> (\<forall>x \<in> set (deleted v). x \<le> ts)))"

lemmas version_worker_defs = VersionFileWorker_AllocateInMemory_def VersionFileWorker_FreeInMemory_def VersionFileWorker_GetMemoryCost_def
  VersionFileWorker_WriteToFileImpl_def VersionFileWorker_ReadFromFileImpl_def VersionFileWorker_ok_def

interpretation version_worker: worker_contract "\<lambda>w. vsw_data w = None" VersionFileWorker_AllocateInMemory VersionFileWorker_FreeInMemory
  VersionFileWorker_GetMemoryCost "\<lambda>to_spill ctx w. rmap (\<lambda>(b, all_save). (b, all_save, w)) (VersionFileWorker_WriteToFileImpl to_spill ctx w)"
  VersionFileWorker_ReadFromFileImpl "\<lambda>w. w\<lparr>vsw_data := None\<rparr>" "\<lambda>w. map_option (\<lambda>v. VersionContent (created v) (deleted v)) (vsw_data w)"
  VersionFileWorker_ok "\<lambda>w f. True" version_sound "\<lambda>w. 0 < vsw_capacity w \<and> vsw_capacity w < 2 ^ 16"
proof (unfold_locales, goal_cases)
  case (7 w)
  then show ?case by (simp add: version_worker_defs BlockVersion_ok_def BlockVersion_new_def list_all_iff)
next
  case (9 w to_spill ctx)
  then obtain v where v: "vsw_data w = Some v" "BlockVersion_ok v" by (auto simp: VersionFileWorker_ok_def)
  have reload: "VersionFileWorker_ReadFromFileImpl (overwrite (SpillToFile v) old) (w\<lparr>vsw_data := None\<rparr>) =
      Inr (w\<lparr>vsw_data := Some (v\<lparr>latest_change_ts := 0\<rparr>)\<rparr>)" for old
    using Load_Spill_tail [OF v(2)] by (simp add: version_worker_defs overwrite_def)
  have ok0: "BlockVersion_ok (v\<lparr>latest_change_ts := 0\<rparr>)" using v(2) by (simp add: BlockVersion_ok_def)
  show ?case
  proof (cases to_spill)
    case True
    show ?thesis
      by (rule exI [of _ "SpillToFile v"], rule exI [of _ True], rule exI [of _ w])
        (use True v reload ok0 in \<open>simp add: VersionFileWorker_WriteToFileImpl_def VersionFileWorker_ok_def\<close>)
  next
    case False
    then obtain ts where ts: "ctx = VersionFileWorkerSaveCtx ts" "latest_change_ts v \<le> ts \<Longrightarrow>
        (\<forall>f \<in> set (created v). create_ts f \<le> ts) \<and> (\<forall>x \<in> set (deleted v). x \<le> ts)"
      using 9(3) v(1) by (auto simp: version_sound_def)
    have "VersionFileWorker_ReadFromFileImpl (overwrite (SaveToFile ts v) old) (w\<lparr>vsw_data := None\<rparr>) =
        Inr (w\<lparr>vsw_data := Some (v\<lparr>latest_change_ts := 0\<rparr>)\<rparr>)" if "latest_change_ts v \<le> ts" for old
    proof -
      have "takeWhile (\<lambda>f. create_ts f \<le> ts) (created v) = created v" "map (\<lambda>x. if x \<le> ts then x else 0) (deleted v) = deleted v"
        using ts(2) [OF that] by (auto simp: takeWhile_eq_all_conv intro: map_idI)
      then show ?thesis using Load_Save_tail [OF v(2), of ts] by (simp add: version_worker_defs overwrite_def)
    qed
    then show ?thesis
      by (intro exI [of _ "SaveToFile ts v"], intro exI [of _ "latest_change_ts v \<le> ts"], intro exI [of _ w])
        (use False ts v ok0 in \<open>simp add: VersionFileWorker_WriteToFileImpl_def VersionFileWorker_ok_def\<close>)
  qed
qed (auto simp: version_worker_defs)

subsection \<open>All workers\<close>

fun freed_worker :: "worker \<Rightarrow> worker" where
  "freed_worker (DataWorker w) = DataWorker (w\<lparr>dfw_data := None\<rparr>)"
| "freed_worker (RawWorker w) = RawWorker (w\<lparr>rfw_data := None\<rparr>)"
| "freed_worker (VarWorker w) = VarWorker (var_freed w)"
| "freed_worker (VersionWorker w) = VersionWorker (w\<lparr>vsw_data := None\<rparr>)"

fun worker_contents :: "worker \<Rightarrow> content option" where
  "worker_contents (DataWorker w) = map_option ByteContent (dfw_data w)"
| "worker_contents (RawWorker w) = map_option ByteContent (rfw_data w)"
| "worker_contents (VarWorker w) = map_option (\<lambda>vb. ByteContent (chunk_bytes (vb_buffers vb))) (vfw_data w)"
| "worker_contents (VersionWorker w) = map_option (\<lambda>v. VersionContent (created v) (deleted v)) (vsw_data w)"

fun worker_ok :: "worker \<Rightarrow> bool" where
  "worker_ok (DataWorker w) = DataFileWorker_ok w"
| "worker_ok (RawWorker w) = RawFileWorker_ok w"
| "worker_ok (VarWorker w) = VarFileWorker_ok w"
| "worker_ok (VersionWorker w) = VersionFileWorker_ok w"

fun stale_ok :: "worker \<Rightarrow> byte list \<Rightarrow> bool" where
  "stale_ok (DataWorker w) f = (length f \<le> dfw_buffer_size w + 24)"
| "stale_ok (RawWorker w) f = (length f \<le> rfw_buffer_size w)"
| "stale_ok _ f = True"

fun save_sound :: "save_ctx \<Rightarrow> worker \<Rightarrow> bool" where
  "save_sound ctx (VersionWorker w) = version_sound ctx w"
| "save_sound ctx _ = True"

fun worker_fresh :: "worker \<Rightarrow> bool" where
  "worker_fresh (DataWorker w) = (0 < dfw_buffer_size w \<and> dfw_buffer_size w < 2 ^ 63)"
| "worker_fresh (RawWorker w) = (0 < rfw_buffer_size w)"
| "worker_fresh (VarWorker w) = (vfw_buffer_size w = 0)"
| "worker_fresh (VersionWorker w) = (0 < vsw_capacity w \<and> vsw_capacity w < 2 ^ 16)"

lemma WriteToFileImpl_rmap:
  "WriteToFileImpl to_spill ctx (DataWorker d) = rmap (\<lambda>(b, a, w). (b, a, DataWorker w)) (rmap (\<lambda>b. (b, True, d)) (DataFileWorker_WriteToFileImpl d))"
  "WriteToFileImpl to_spill ctx (RawWorker r) = rmap (\<lambda>(b, a, w). (b, a, RawWorker w)) (rmap (\<lambda>b. (b, True, r)) (RawFileWorker_WriteToFileImpl r))"
  "WriteToFileImpl to_spill ctx (VarWorker v) = rmap (\<lambda>(b, a, w). (b, a, VarWorker w)) (rmap (\<lambda>(b, w'). (b, True, w')) (VarFileWorker_WriteToFileImpl v))"
  "WriteToFileImpl to_spill ctx (VersionWorker x) = rmap (\<lambda>(b, a, w). (b, a, VersionWorker w))
     (rmap (\<lambda>(b, all_save). (b, all_save, x)) (VersionFileWorker_WriteToFileImpl to_spill ctx x))"
  by (cases "DataFileWorker_WriteToFileImpl d", simp_all)
    (cases "RawFileWorker_WriteToFileImpl r", simp_all,
      cases "VarFileWorker_WriteToFileImpl v", simp_all add: split_beta,
      cases "VersionFileWorker_WriteToFileImpl to_spill ctx x", simp_all add: split_beta)

text \<open>The contract carries over along a constructor of the sum.\<close>

lemma lift_alloc:
  assumes "\<exists>w'. m = Inr w' \<and> okk w' \<and> \<not> nul w' \<and> fr w' = w"
    and "\<And>x. FR (C x) = C (fr x)" "\<And>x. OK (C x) = okk x" "\<And>x. NU (C x) = nul x"
  shows "\<exists>w'. rmap C m = Inr w' \<and> OK w' \<and> \<not> NU w' \<and> FR w' = C w"
  using assms by auto

lemma lift_write:
  assumes "\<exists>b all w'. wr = Inr (b, all, w') \<and> fr w' = fr w \<and> okk w' \<and> ct w' = ct w \<and> (sp \<longrightarrow> all) \<and>
      (\<forall>old. P old \<longrightarrow> S (overwrite b old) \<and> (all \<longrightarrow> (\<exists>w2. rd (overwrite b old) = Inr w2 \<and> ct w2 = ct w \<and> okk w2 \<and> fr w2 = fr w)))"
    and C: "\<And>x. FR (C x) = C (fr x)" "\<And>x. OK (C x) = okk x" "\<And>x. CT (C x) = ct x" "\<And>f. RD f = rmap C (rd f)"
  shows "\<exists>b all w'. rmap (\<lambda>(b, a, w). (b, a, C w)) wr = Inr (b, all, w') \<and> FR w' = FR (C w) \<and> OK w' \<and> CT w' = CT (C w) \<and> (sp \<longrightarrow> all) \<and>
      (\<forall>old. P old \<longrightarrow> S (overwrite b old) \<and> (all \<longrightarrow> (\<exists>w2. RD (overwrite b old) = Inr w2 \<and> CT w2 = CT (C w) \<and> OK w2 \<and> FR w2 = FR (C w))))"
proof -
  from assms(1) obtain b all w' where H: "wr = Inr (b, all, w')" "fr w' = fr w" "okk w'" "ct w' = ct w" "sp \<Longrightarrow> all"
    "\<And>old. P old \<Longrightarrow> S (overwrite b old)"
    "\<And>old. P old \<Longrightarrow> all \<Longrightarrow> \<exists>w2. rd (overwrite b old) = Inr w2 \<and> ct w2 = ct w \<and> okk w2 \<and> fr w2 = fr w"
    by blast
  have "\<exists>w2. RD (overwrite b old) = Inr w2 \<and> CT w2 = CT (C w) \<and> OK w2 \<and> FR w2 = FR (C w)" if P: "P old" and all: "all" for old
  proof -
    obtain w2 where w2: "rd (overwrite b old) = Inr w2 \<and> ct w2 = ct w \<and> okk w2 \<and> fr w2 = fr w" using H(7) [OF P all] by blast
    show ?thesis by (rule exI [of _ "C w2"]) (use w2 C in simp)
  qed
  then show ?thesis
    by (intro exI [of _ b], intro exI [of _ all], intro exI [of _ "C w'"]) (use H(1-6) C(1-3) in simp)
qed

lemma worker_write_ok:
  assumes "worker_ok w" "\<not> data_null w" "to_spill \<or> save_sound ctx w"
  shows "\<exists>b all w'. WriteToFileImpl to_spill ctx w = Inr (b, all, w') \<and> freed_worker w' = freed_worker w \<and> worker_ok w' \<and>
    worker_contents w' = worker_contents w \<and> (to_spill \<longrightarrow> all) \<and>
    (\<forall>old. (case old of None \<Rightarrow> True | Some f \<Rightarrow> stale_ok w f) \<longrightarrow> stale_ok w (overwrite b old) \<and>
       (all \<longrightarrow> (\<exists>w2. ReadFromFileImpl (overwrite b old) (freed_worker w) = Inr w2 \<and> worker_contents w2 = worker_contents w \<and>
          worker_ok w2 \<and> freed_worker w2 = freed_worker w)))"
proof (cases w)
  case (DataWorker x)
  show ?thesis
    unfolding DataWorker WriteToFileImpl_rmap stale_ok.simps
    by (rule lift_write [OF data_worker.write_ok [of x to_spill]]) (use assms in \<open>simp_all add: DataWorker\<close>)
next
  case (RawWorker x)
  show ?thesis
    unfolding RawWorker WriteToFileImpl_rmap stale_ok.simps
    by (rule lift_write [OF raw_worker.write_ok [of x to_spill]]) (use assms in \<open>simp_all add: RawWorker\<close>)
next
  case (VarWorker x)
  show ?thesis
    unfolding VarWorker WriteToFileImpl_rmap stale_ok.simps
    by (rule lift_write [OF var_worker.write_ok [of x to_spill]]) (use assms in \<open>simp_all add: VarWorker\<close>)
next
  case (VersionWorker x)
  show ?thesis
    unfolding VersionWorker WriteToFileImpl_rmap stale_ok.simps
    by (rule lift_write [OF version_worker.write_ok [of x to_spill ctx]]) (use assms in \<open>simp_all add: VersionWorker\<close>)
qed

interpretation any_worker: worker_contract data_null AllocateInMemory FreeInMemory GetMemoryCost WriteToFileImpl ReadFromFileImpl
  freed_worker worker_contents worker_ok stale_ok save_sound worker_fresh
proof (unfold_locales, goal_cases)
  case (7 w)
  then show ?case
  proof (cases w)
    case (DataWorker x)
    show ?thesis unfolding DataWorker AllocateInMemory.simps by (rule lift_alloc [OF data_worker.alloc_ok]) (use 7 in \<open>simp_all add: DataWorker\<close>)
  next
    case (RawWorker x)
    show ?thesis unfolding RawWorker AllocateInMemory.simps by (rule lift_alloc [OF raw_worker.alloc_ok]) (use 7 in \<open>simp_all add: RawWorker\<close>)
  next
    case (VarWorker x)
    show ?thesis unfolding VarWorker AllocateInMemory.simps by (rule lift_alloc [OF var_worker.alloc_ok]) (use 7 in \<open>simp_all add: VarWorker\<close>)
  next
    case (VersionWorker x)
    show ?thesis unfolding VersionWorker AllocateInMemory.simps by (rule lift_alloc [OF version_worker.alloc_ok]) (use 7 in \<open>simp_all add: VersionWorker\<close>)
  qed
next
  case (9 w to_spill ctx)
  then show ?case by (rule worker_write_ok)
next
  case (8 w)
  then show ?case
    by (cases w) (simp_all add: data_worker.free_ok raw_worker.free_ok var_worker.free_ok version_worker.free_ok)
next
  case (1 w)
  then show ?case by (cases w) (simp_all add: var_worker.freed)
next
  case (2 w)
  then show ?case by (cases w) (simp_all add: var_worker.freed)
next
  case (3 w)
  then show ?case by (cases w) (simp_all add: data_worker.freed raw_worker.freed var_worker.freed version_worker.freed)
next
  case (4 w)
  then show ?case by (cases w) (simp_all add: fun_eq_iff)
next
  case (5 w)
  then show ?case
    by (cases w) (simp_all add: data_worker.freed_null raw_worker.freed_null var_worker.freed_null version_worker.freed_null)
next
  case (6 w)
  then show ?case by (cases w) simp_all
qed

subsection \<open>What a file holds for a worker\<close>

lemma stored_DataWorker:
  "any_worker.stored f (DataWorker w) c \<longleftrightarrow> dfw_buffer_size w < 2 ^ 63 \<and> length f = dfw_buffer_size w + 24 \<and> le_nat (take 8 f) = data_magic \<and>
     le_nat (take 8 (drop 8 f)) = dfw_buffer_size w \<and> c = Some (ByteContent (take (dfw_buffer_size w) (drop 16 f)))"
proof
  let ?n = "le_nat (take 8 (drop 8 f))"
  assume "any_worker.stored f (DataWorker w) c"
  then obtain w2 where w2: "rmap DataWorker (DataFileWorker_ReadFromFileImpl f (w\<lparr>dfw_data := None\<rparr>)) = Inr w2" "worker_contents w2 = c" "worker_ok w2"
    unfolding any_worker.stored_def freed_worker.simps ReadFromFileImpl.simps by blast
  then obtain x where x: "DataFileWorker_ReadFromFileImpl f (w\<lparr>dfw_data := None\<rparr>) = Inr x" "map_option ByteContent (dfw_data x) = c" "DataFileWorker_ok x"
    by (auto simp: rmap_eq_Inr)
  define n where "n = ?n"
  define body where "body = take n (drop 16 f)"
  have read: "le_nat (take 8 f) = data_magic" "length f = u64_add n (3 * 8)" "n < 2 ^ 63" "length body = n" "x = w\<lparr>dfw_data := Some body\<rparr>"
    using x(1) unfolding DataFileWorker_ReadFromFileImpl_def Let_def n_def [symmetric] body_def [symmetric] res_simps not_le not_not
    by simp_all
  then have len: "length f = n + 24" by (simp add: u64_add_id)
  have n: "n = dfw_buffer_size w" using x(3) read(4) unfolding read(5) by (simp add: DataFileWorker_ok_def)
  show "dfw_buffer_size w < 2 ^ 63 \<and> length f = dfw_buffer_size w + 24 \<and> le_nat (take 8 f) = data_magic \<and>
     ?n = dfw_buffer_size w \<and> c = Some (ByteContent (take (dfw_buffer_size w) (drop 16 f)))"
    using x(2) read(1,3) len unfolding n_def [symmetric] n [symmetric] read(5) body_def by simp
next
  assume "dfw_buffer_size w < 2 ^ 63 \<and> length f = dfw_buffer_size w + 24 \<and> le_nat (take 8 f) = data_magic \<and>
     le_nat (take 8 (drop 8 f)) = dfw_buffer_size w \<and> c = Some (ByteContent (take (dfw_buffer_size w) (drop 16 f)))"
  then show "any_worker.stored f (DataWorker w) c"
    by (simp add: any_worker.stored_def DataFileWorker_ReadFromFileImpl_def DataFileWorker_ok_def u64_add_id Let_def)
qed

lemma stored_RawWorker:
  "any_worker.stored f (RawWorker w) c \<longleftrightarrow> 0 < rfw_buffer_size w \<and> length f = rfw_buffer_size w \<and> c = Some (ByteContent f)"
  by (cases w) (auto simp: any_worker.stored_def RawFileWorker_ReadFromFileImpl_def RawFileWorker_ok_def)

lemma var_cost_data: "VarFileWorker_GetMemoryCost (w\<lparr>vfw_data := Some vb\<rparr>) = TotalSize vb"
  by (simp add: VarFileWorker_GetMemoryCost_def)

lemma stored_VarWorker:
  "any_worker.stored f (VarWorker w) c \<longleftrightarrow> VarFileWorker_GetMemoryCost w \<le> length f \<and> c = Some (ByteContent (take (VarFileWorker_GetMemoryCost w) f))"
proof -
  let ?n = "VarFileWorker_GetMemoryCost w" and ?x = "(var_freed w)\<lparr>vfw_data := Some (VarBuffer_owned (take (VarFileWorker_GetMemoryCost w) f))\<rparr>"
  have "VarFileWorker_ReadFromFileImpl f (var_freed w) = (if length f < ?n then Inl (UnrecoverableError ''File size is smaller than buffer size'') else Inr ?x)"
    by (simp add: VarFileWorker_ReadFromFileImpl_def var_freed_def)
  moreover have "VarFileWorker_ok ?x" using vb_ok_new(2) by (auto simp: VarFileWorker_ok_def)
  moreover have "var_freed ?x = var_freed w" if "?n \<le> length f"
    using that by (simp add: var_freed_def [of ?x] var_cost_data) (simp add: var_freed_def VarBuffer_owned_def TotalSize_def)
  ultimately show ?thesis by (auto simp: any_worker.stored_def VarBuffer_owned_def not_less)
qed

lemma stored_VersionWorker:
  "any_worker.stored f (VersionWorker w) c \<longleftrightarrow>
     (\<exists>v. LoadFromFile f = Inr v \<and> BlockVersion_ok v \<and> c = Some (VersionContent (created v) (deleted v)))"
  by (auto simp: any_worker.stored_def VersionFileWorker_ReadFromFileImpl_def VersionFileWorker_ok_def rmap_def res_simps)

lemmas stored_simps = stored_DataWorker stored_RawWorker stored_VarWorker stored_VersionWorker

text \<open>Neither the data nor the mapping in memory matter for what a file holds.\<close>

definition same_base :: "worker \<Rightarrow> worker \<Rightarrow> bool" where
  "same_base w w' \<longleftrightarrow> mmap_data_reset (freed_worker w) = mmap_data_reset (freed_worker w')"

lemma same_base_refl [simp]: "same_base w w"
  by (simp add: same_base_def)

lemma same_base_sym: "same_base w w' \<Longrightarrow> same_base w' w"
  by (simp add: same_base_def)

lemma same_base_trans: "same_base w w' \<Longrightarrow> same_base w' w'' \<Longrightarrow> same_base w w''"
  by (simp add: same_base_def)

lemma freed_same_base: "freed_worker w = freed_worker w' \<Longrightarrow> same_base w w'"
  by (simp add: same_base_def)

lemma same_base_freed [simp]: "same_base (freed_worker w) w" "same_base w (freed_worker w)"
  by (simp_all add: same_base_def any_worker.freed)

lemma same_base_DataWorker: "same_base (DataWorker x) w' \<Longrightarrow> \<exists>y. w' = DataWorker y \<and> dfw_buffer_size x = dfw_buffer_size y"
  by (cases w') (simp_all add: same_base_def, drule arg_cong [where f = dfw_buffer_size], simp)

lemma same_base_RawWorker: "same_base (RawWorker x) w' \<Longrightarrow> \<exists>y. w' = RawWorker y \<and> rfw_buffer_size x = rfw_buffer_size y"
  by (cases w') (simp_all add: same_base_def, drule arg_cong [where f = rfw_buffer_size], simp)

lemma same_base_VarWorker:
  "same_base (VarWorker x) w' \<Longrightarrow> \<exists>y. w' = VarWorker y \<and> VarFileWorker_GetMemoryCost x = VarFileWorker_GetMemoryCost y"
  by (cases w') (simp_all add: same_base_def var_freed_def, drule arg_cong [where f = vfw_buffer_size], simp)

lemma same_base_VersionWorker: "same_base (VersionWorker x) w' \<Longrightarrow> \<exists>y. w' = VersionWorker y \<and> vsw_capacity x = vsw_capacity y"
  by (cases w') (simp_all add: same_base_def, drule arg_cong [where f = vsw_capacity], simp)

lemma same_base_cases:
  assumes "same_base w w'"
  shows "GetMemoryCost w = GetMemoryCost w' \<and> stale_ok w = stale_ok w' \<and> (\<forall>f c. any_worker.stored f w c \<longleftrightarrow> any_worker.stored f w' c)"
proof (cases w)
  case (DataWorker x)
  then show ?thesis using assms same_base_DataWorker [of x w'] by (auto simp: stored_simps fun_eq_iff DataFileWorker_GetMemoryCost_def)
next
  case (RawWorker x)
  then show ?thesis using assms same_base_RawWorker [of x w'] by (auto simp: stored_simps fun_eq_iff RawFileWorker_GetMemoryCost_def)
next
  case (VarWorker x)
  then show ?thesis using assms same_base_VarWorker [of x w'] by (auto simp: stored_simps fun_eq_iff)
next
  case (VersionWorker x)
  then show ?thesis using assms same_base_VersionWorker [of x w'] by (auto simp: stored_simps fun_eq_iff VersionFileWorker_GetMemoryCost_def)
qed

lemma same_base_stored: "same_base w w' \<Longrightarrow> any_worker.stored f w c = any_worker.stored f w' c"
  and same_base_cost: "same_base w w' \<Longrightarrow> GetMemoryCost w = GetMemoryCost w'"
  and same_base_stale: "same_base w w' \<Longrightarrow> stale_ok w = stale_ok w'"
  using same_base_cases by blast+

lemma same_base_ok: "same_base w w' \<Longrightarrow> data_null w \<Longrightarrow> data_null w' \<Longrightarrow> worker_ok w = worker_ok w'"
  by (cases w)
    (auto dest: same_base_DataWorker same_base_RawWorker same_base_VarWorker same_base_VersionWorker
      simp: DataFileWorker_ok_def RawFileWorker_ok_def VarFileWorker_ok_def VersionFileWorker_ok_def)

subsection \<open>Mappings\<close>

fun mmap_contents :: "worker \<Rightarrow> content option" where
  "mmap_contents (DataWorker w) = map_option ByteContent (dfw_mmap_data w)"
| "mmap_contents (VarWorker w) = map_option (\<lambda>vb. ByteContent (chunk_bytes (vb_buffers vb))) (vfw_mmap_data w)"
| "mmap_contents _ = None"

lemma mmap_null: "mmap_data_null w \<longleftrightarrow> mmap_contents w = None"
  by (cases w) (simp_all add: mmap_data_null_def)

text \<open>A mapping shows what the file holds.\<close>

lemma ReadFromMmap_stored:
  assumes "any_worker.stored f w c" "ReadFromMmapImpl f w = Inr w'" "data_null w"
  shows "mmap_contents w' = c \<and> same_base w' w \<and> data_null w'"
proof (cases w)
  case (DataWorker x)
  with assms show ?thesis
    by (auto simp: stored_simps DataFileWorker_ReadFromMmapImpl_def same_base_def Let_def split: if_splits)
next
  case (VarWorker x)
  with assms show ?thesis
    by (auto simp: stored_simps VarFileWorker_ReadFromMmapImpl_def same_base_def VarBuffer_const_def VarFileWorker_GetMemoryCost_def var_freed_def
        split: if_splits)
qed (use assms in simp_all)

lemma FreeFromMmap_same:
  assumes "FreeFromMmapImpl w = Inr w'" "data_null w"
  shows "same_base (mmap_data_reset w') w \<and> data_null (mmap_data_reset w') \<and> mmap_contents (mmap_data_reset w') = None"
  using assms
  by (cases w) (auto simp: same_base_def VarFileWorker_FreeFromMmapImpl_def var_freed_def VarFileWorker_GetMemoryCost_def split: option.splits)

subsection \<open>Properties\<close>

lemma file_path_worker [simp]: "file_path sp (w\<lparr>fw_worker := x\<rparr>) = file_path sp w" "file_path sp (w\<lparr>fw_mmap_addr := m\<rparr>) = file_path sp w"
  by (simp_all add: file_path_def ChooseFileDir_def)

text \<open>(C20) Eviction and reload: for the four kinds of worker that are modelled (data, raw, variable length and version), spilling the data to the
  temporary directory, freeing the memory and reading the
  spill file again succeeds, gives the same contents at the same memory cost, and touches no other file.  The file is written over an older spill file without truncating it,
  so where the length of the file matters for reading, an older spill file must not be longer than the new one (\<open>stale_ok\<close>).\<close>

theorem spill_and_reload:
  assumes "worker_ok (fw_worker w)" and "\<not> data_null (fw_worker w)"
    and "\<And>f. d (file_path True w) = Some f \<Longrightarrow> stale_ok (fw_worker w) f"
  shows "\<exists>w1 d1 x w2. WriteToFile True ctx w d = Inr (True, w1, d1) \<and> FreeInMemory (fw_worker w1) = Inr x \<and>
     ReadFromFile True (w1\<lparr>fw_worker := x\<rparr>) d1 = Inr w2 \<and> worker_contents (fw_worker w2) = worker_contents (fw_worker w) \<and>
     GetMemoryCost (fw_worker w2) = GetMemoryCost (fw_worker w) \<and> (\<forall>p. p \<noteq> file_path True w \<longrightarrow> d1 p = d p)"
proof -
  obtain b w' x w3 where "WriteToFileImpl True ctx (fw_worker w) = Inr (b, True, w')" "FreeInMemory w' = Inr x"
    "ReadFromFileImpl (overwrite b (d (file_path True w))) x = Inr w3" "worker_contents w3 = worker_contents (fw_worker w)"
    "GetMemoryCost w3 = GetMemoryCost (fw_worker w)"
    using any_worker.evict_reload [OF assms(1,2), of "d (file_path True w)" ctx] assms(3) by auto
  then show ?thesis
    using assms(2) by (simp add: WriteToFile_def ReadFromFile_def Let_def)
qed

definition demo_worker :: FileWorker where
  "demo_worker = \<lparr>fw_data_dir = ''/data'', fw_temp_dir = ''/tmp'', fw_file_dir = ''db'', fw_file_name = ''col'',
     fw_worker = DataWorker \<lparr>dfw_buffer_size = 2, dfw_data = Some [7, 8], dfw_mmap_data = None\<rparr>, fw_mmap_addr = None\<rparr>"

theorem spill_and_reload_witness:
  "\<exists>w1 d1 x w2. WriteToFile True FileWorkerSaveCtx demo_worker Map.empty = Inr (True, w1, d1) \<and> FreeInMemory (fw_worker w1) = Inr x \<and>
     ReadFromFile True (w1\<lparr>fw_worker := x\<rparr>) d1 = Inr w2 \<and> worker_contents (fw_worker w2) = Some (ByteContent [7, 8])"
  using spill_and_reload [of demo_worker Map.empty FileWorkerSaveCtx]
  by (fastforce simp: demo_worker_def DataFileWorker_ok_def)

text \<open>(C21) Changes newer than a checkpoint are lost after an eviction: before it, saving at the checkpoint reports that not everything was
  saved.  After the version was spilled and read again, the same save writes the same file but reports that everything
  was saved, and what the file gives back lacks the newer changes.\<close>

theorem version_changes_lost:
  assumes "BlockVersion_ok v" and "ts < latest_change_ts v"
  shows "VersionFileWorker_WriteToFileImpl False (VersionFileWorkerSaveCtx ts) \<lparr>vsw_capacity = n, vsw_data = Some v\<rparr> = Inr (SaveToFile ts v, False) \<and>
     (\<exists>b x. VersionFileWorker_WriteToFileImpl True ctx \<lparr>vsw_capacity = n, vsw_data = Some v\<rparr> = Inr (b, True) \<and>
        VersionFileWorker_ReadFromFileImpl b \<lparr>vsw_capacity = n, vsw_data = None\<rparr> = Inr x \<and>
        VersionFileWorker_WriteToFileImpl False (VersionFileWorkerSaveCtx ts) x = Inr (SaveToFile ts v, True)) \<and>
     VersionFileWorker_ReadFromFileImpl (SaveToFile ts v) \<lparr>vsw_capacity = n, vsw_data = None\<rparr> =
       Inr \<lparr>vsw_capacity = n, vsw_data = Some \<lparr>created = takeWhile (\<lambda>f. create_ts f \<le> ts) (created v),
         deleted = map (\<lambda>x. if x \<le> ts then x else 0) (deleted v), latest_change_ts = 0\<rparr>\<rparr>"
proof -
  have "SaveToFile ts (v\<lparr>latest_change_ts := 0\<rparr>) = SaveToFile ts v" by (simp add: SaveToFile_def)
  then show ?thesis
    using assms(2) Load_Spill [OF assms(1)] Load_Save [OF assms(1), of ts]
    by (simp add: VersionFileWorker_WriteToFileImpl_def VersionFileWorker_ReadFromFileImpl_def)
qed

theorem version_changes_lost_witness:
  "VersionFileWorker_ReadFromFileImpl (SaveToFile 6 demo_version) \<lparr>vsw_capacity = 4, vsw_data = None\<rparr> =
     Inr \<lparr>vsw_capacity = 4, vsw_data = Some \<lparr>created = takeWhile (\<lambda>f. create_ts f \<le> 6) (created demo_version),
       deleted = map (\<lambda>x. if x \<le> 6 then x else 0) (deleted demo_version), latest_change_ts = 0\<rparr>\<rparr> \<and> 6 < latest_change_ts demo_version"
  using version_changes_lost [OF demo_version_ok, of 6 4] by (simp add: demo_version_def)

end
