(* ===== verification/Buffer_Manager.thy ===== *)
theory Buffer_Manager
  imports File_Worker
begin

text \<open>
  The buffer manager (\<^verbatim>\<open>src/src/storage/buffer/buffer_manager.cpp\<close>), the buffer objects it manages
  (\<^verbatim>\<open>buffer_obj.cpp\<close>) and the handles that pin them (\<^verbatim>\<open>buffer_handle.cpp\<close>).

  Pointers to objects are numbers that are never reused; \<open>objs\<close> is the heap of the objects.  Memory sizes are 64 bit
  words and wrap.  A method of an object runs with the mutex of the object held: \<open>own\<close> is that object, and
  \<open>others\<close> are the objects whose mutex another thread holds, for which \<^verbatim>\<open>try_lock\<close> in \<^verbatim>\<open>Free\<close>
  fails.  Sets of pointers are lists without duplicates.  Reference counts are natural numbers.
\<close>

datatype BufferStatus = kLoaded | kUnloaded | kFreed | kClean | kNew

datatype BufferType = kPersistent | kEphemeral | kTemp | kToMmap | kMmap

record BufferObj =
  bo_status :: BufferStatus
  bo_type :: BufferType
  bo_rc :: nat
  bo_worker :: FileWorker
  bo_id :: nat
  bo_obj_rc :: nat

record BufferManager =
  memory_limit :: "64 word"
  current_memory_size :: "64 word"
  objs :: "nat \<rightharpoonup> BufferObj"
  next_ptr :: nat
  buffer_map :: "string \<rightharpoonup> nat"
  buffer_id :: nat
  lru_caches :: "nat list list"
  round_robin :: nat
  clean_list :: "nat list"
  temp_set :: "nat list"
  clean_temp_set :: "nat list"
  total_request_count :: nat
  cache_miss_count :: nat
  bm_disk :: disk

definition BufferManager_new :: "64 word \<Rightarrow> nat \<Rightarrow> disk \<Rightarrow> BufferManager" where
  "BufferManager_new limit lru_count d =
     \<lparr>memory_limit = limit, current_memory_size = 0, objs = Map.empty, next_ptr = 0, buffer_map = Map.empty, buffer_id = 0,
      lru_caches = replicate lru_count [], round_robin = 0, clean_list = [], temp_set = [], clean_temp_set = [],
      total_request_count = 0, cache_miss_count = 0, bm_disk = d\<rparr>"

definition with_obj :: "nat \<Rightarrow> BufferManager \<Rightarrow> (BufferObj \<Rightarrow> 'a res) \<Rightarrow> 'a res" where
  "with_obj p s k = (case objs s p of None \<Rightarrow> Inl (UndefinedBehaviour ''dangling pointer'') | Some ob \<Rightarrow> k ob)"

definition set_obj :: "nat \<Rightarrow> BufferObj \<Rightarrow> BufferManager \<Rightarrow> BufferManager" where
  "set_obj p ob s = s\<lparr>objs := (objs s)(p \<mapsto> ob)\<rparr>"

definition set_worker :: "worker \<Rightarrow> BufferObj \<Rightarrow> BufferObj" where
  "set_worker w ob = ob\<lparr>bo_worker := (bo_worker ob)\<lparr>fw_worker := w\<rparr>\<rparr>"

definition GetBufferSize :: "BufferObj \<Rightarrow> 64 word" where
  "GetBufferSize ob = of_nat (GetMemoryCost (fw_worker (bo_worker ob)))"

definition GetFilename :: "BufferObj \<Rightarrow> string" where
  "GetFilename ob = GetFilePath (bo_worker ob)"

subsection \<open>The queue of unpinned objects\<close>

definition set_lru :: "nat \<Rightarrow> nat list \<Rightarrow> BufferManager \<Rightarrow> BufferManager" where
  "set_lru i l s = s\<lparr>lru_caches := (lru_caches s)[i := l]\<rparr>"

definition LRUCache_PushGCQueue :: "nat \<Rightarrow> nat \<Rightarrow> BufferManager \<Rightarrow> BufferManager" where
  "LRUCache_PushGCQueue i p s = set_lru i (remove1 p (lru_caches s ! i) @ [p]) s"

definition LRUCache_RemoveFromGCQueue :: "nat \<Rightarrow> nat \<Rightarrow> BufferManager \<Rightarrow> bool \<times> BufferManager" where
  "LRUCache_RemoveFromGCQueue i p s =
     (if p \<in> set (lru_caches s ! i) then (True, set_lru i (remove1 p (lru_caches s ! i)) s) else (False, s))"

definition LRUCache_RemoveClean :: "nat list \<Rightarrow> nat list \<Rightarrow> nat list" where
  "LRUCache_RemoveClean clean l = foldl (\<lambda>l p. remove1 p l) l clean"

definition LRUIdx :: "BufferObj \<Rightarrow> BufferManager \<Rightarrow> nat" where
  "LRUIdx ob s = bo_id ob mod length (lru_caches s)"

definition RemoveFromGCQueue :: "nat \<Rightarrow> BufferManager \<Rightarrow> (bool \<times> BufferManager) res" where
  "RemoveFromGCQueue p s = with_obj p s (\<lambda>ob. Inr (LRUCache_RemoveFromGCQueue (LRUIdx ob s) p s))"

subsection \<open>Temporary files\<close>

definition AddTemp :: "nat \<Rightarrow> BufferManager \<Rightarrow> BufferManager res" where
  "AddTemp p s =
     (if p \<in> set (temp_set s) then Inl (UnrecoverableError ''BufferManager::AddTemp: file already exists.'')
      else Inr (s\<lparr>temp_set := temp_set s @ [p], clean_temp_set := remove1 p (clean_temp_set s)\<rparr>))"

definition RemoveTemp :: "nat \<Rightarrow> BufferManager \<Rightarrow> BufferManager res" where
  "RemoveTemp p s =
     (if p \<notin> set (temp_set s) then Inl (UnrecoverableError ''BufferManager::RemoveTemp: file not found.'')
      else if p \<in> set (clean_temp_set s) then Inl (UnrecoverableError ''BufferManager::RemoveTemp: file already exists in clean temp set.'')
      else Inr (s\<lparr>temp_set := remove1 p (temp_set s), clean_temp_set := clean_temp_set s @ [p]\<rparr>))"

definition MoveTemp :: "nat \<Rightarrow> BufferManager \<Rightarrow> BufferManager res" where
  "MoveTemp p s =
     (if p \<notin> set (temp_set s) then Inl (UnrecoverableError ''BufferManager::RemoveTemp: file not found.'')
      else Inr (s\<lparr>temp_set := remove1 p (temp_set s)\<rparr>))"

subsection \<open>Eviction\<close>

definition Free :: "nat option \<Rightarrow> nat list \<Rightarrow> nat \<Rightarrow> BufferManager \<Rightarrow> (bool \<times> BufferManager) res" where
  "Free own others p s =
     (if own = Some p then Inl (UndefinedBehaviour ''try_lock of a mutex that the thread owns'')
      else if p \<in> set others then Inr (False, s)
      else with_obj p s (\<lambda>ob.
        if bo_status ob \<noteq> kUnloaded then Inl (UnrecoverableError ''attempt to free buffer object'')
        else rbind
          (case bo_type ob of
             kTemp \<Rightarrow> Inr (ob, s)
           | kPersistent \<Rightarrow> Inr (ob, s)
           | kEphemeral \<Rightarrow>
               rbind (WriteToFile True FileWorkerSaveCtx (bo_worker ob) (bm_disk s)) (\<lambda>(all_save, w, d).
                 if \<not> all_save then Inl (UnrecoverableError ''Spill to file failed'')
                 else rbind (AddTemp p (s\<lparr>bm_disk := d\<rparr>)) (\<lambda>s1. Inr (ob\<lparr>bo_type := kTemp, bo_worker := w\<rparr>, s1)))
           | _ \<Rightarrow> Inl (UnrecoverableError ''Invalid buffer type''))
          (\<lambda>(ob1, s1). rbind (FreeInMemory (fw_worker (bo_worker ob1))) (\<lambda>w.
             Inr (True, set_obj p ((set_worker w ob1)\<lparr>bo_status := kFreed\<rparr>) s1)))))"

text \<open>The loop of \<^verbatim>\<open>LRUCache::RequestSpace\<close> over the entries of one queue, oldest first.\<close>

fun lru_loop :: "nat option \<Rightarrow> nat list \<Rightarrow> 64 word \<Rightarrow> nat \<Rightarrow> nat list \<Rightarrow> 64 word \<Rightarrow> BufferManager \<Rightarrow> (64 word \<times> BufferManager) res" where
  "lru_loop own others need_space i [] free_space s = Inr (free_space, s)"
| "lru_loop own others need_space i (p # ps) free_space s =
     (if \<not> free_space < need_space then Inr (free_space, s)
      else rbind (Free own others p s) (\<lambda>(ok, s1).
        if ok then with_obj p s1 (\<lambda>ob.
          lru_loop own others need_space i ps (free_space + GetBufferSize ob) (set_lru i (remove1 p (lru_caches s1 ! i)) s1))
        else lru_loop own others need_space i ps free_space s1))"

definition LRUCache_RequestSpace :: "nat option \<Rightarrow> nat list \<Rightarrow> 64 word \<Rightarrow> nat \<Rightarrow> BufferManager \<Rightarrow> (64 word \<times> BufferManager) res" where
  "LRUCache_RequestSpace own others need_space i s = lru_loop own others need_space i (lru_caches s ! i) 0 s"

text \<open>The loop over the queues; the list holds the indices that are still to visit, from \<open>round_robin\<close> on.\<close>

fun request_loop :: "nat option \<Rightarrow> nat list \<Rightarrow> 64 word \<Rightarrow> 64 word \<Rightarrow> nat list \<Rightarrow> 64 word \<Rightarrow> BufferManager \<Rightarrow> (64 word \<times> BufferManager) res" where
  "request_loop own others need_size free_space [] freed_space s = Inr (freed_space, s)"
| "request_loop own others need_size free_space (i # is) freed_space s =
     rbind (LRUCache_RequestSpace own others need_size i s) (\<lambda>(f, s1).
       let freed_space1 = freed_space + f; s2 = s1\<lparr>round_robin := (i + 1) mod length (lru_caches s1)\<rparr>
       in if freed_space1 + free_space < need_size then request_loop own others need_size free_space is freed_space1 s2
          else Inr (freed_space1, s2))"

definition visit_order :: "BufferManager \<Rightarrow> nat list" where
  "visit_order s = map (\<lambda>k. (round_robin s + k) mod length (lru_caches s)) [0..<length (lru_caches s)]"

definition RequestSpace :: "nat option \<Rightarrow> nat list \<Rightarrow> 64 word \<Rightarrow> BufferManager \<Rightarrow> (bool \<times> BufferManager) res" where
  "RequestSpace own others need_size s =
     (let free_space = memory_limit s - current_memory_size s
      in if need_size \<le> free_space then Inr (True, s\<lparr>current_memory_size := current_memory_size s + need_size\<rparr>)
         else if lru_caches s = [] then Inl (UndefinedBehaviour ''index outside the vector'')
         else rbind (request_loop own others need_size free_space (visit_order s) 0 s) (\<lambda>(freed_space, s1).
           Inr (need_size \<le> freed_space + free_space,
                s1\<lparr>current_memory_size := current_memory_size s1 + (need_size - freed_space)\<rparr>)))"

definition PushGCQueue :: "nat list \<Rightarrow> nat \<Rightarrow> BufferManager \<Rightarrow> BufferManager res" where
  "PushGCQueue others p s = with_obj p s (\<lambda>ob.
     let s1 = LRUCache_PushGCQueue (LRUIdx ob s) p s; mem_usage = current_memory_size s1
     in if memory_limit s1 < mem_usage
        then rbind (RequestSpace (Some p) others (mem_usage - memory_limit s1) s1) (\<lambda>(_, s2). Inr s2)
        else Inr s1)"

definition AddToCleanList :: "nat \<Rightarrow> bool \<Rightarrow> BufferManager \<Rightarrow> BufferManager res" where
  "AddToCleanList p do_free s = with_obj p s (\<lambda>ob.
     let s1 = s\<lparr>clean_list := clean_list s @ [p]\<rparr>
     in if do_free
        then let buffer_size = GetBufferSize ob; memory_size = current_memory_size s1;
                 s2 = s1\<lparr>current_memory_size := memory_size - buffer_size\<rparr>
             in if memory_size < buffer_size then Inl (UnrecoverableError ''BufferManager::AddToCleanList: memory_size < buffer_size'')
                else rbind (RemoveFromGCQueue p s2) (\<lambda>(ok, s3).
                  if \<not> ok then Inl (UnrecoverableError ''status is UNLOADED, but not in GC queue'') else Inr s3)
        else Inr s1)"

definition FreeUnloadBuffer :: "nat \<Rightarrow> BufferManager \<Rightarrow> BufferManager res" where
  "FreeUnloadBuffer p s = with_obj p s (\<lambda>ob.
     let buffer_size = GetBufferSize ob; memory_size = current_memory_size s
     in if memory_size < buffer_size then Inl (UnrecoverableError ''BufferManager::FreeUnloadBuffer: memory_size < buffer_size'')
        else Inr (s\<lparr>current_memory_size := memory_size - buffer_size\<rparr>))"

subsection \<open>Buffer objects\<close>

definition BufferObj_new :: "bool \<Rightarrow> FileWorker \<Rightarrow> nat \<Rightarrow> BufferObj" where
  "BufferObj_new is_ephemeral w i =
     \<lparr>bo_status = (if is_ephemeral then kNew else kFreed), bo_type = (if is_ephemeral then kEphemeral else kPersistent),
      bo_rc = 0, bo_worker = w, bo_id = i, bo_obj_rc = 0\<rparr>"

definition UpdateFileWorkerInfo :: "FileWorker \<Rightarrow> BufferObj \<Rightarrow> BufferObj res" where
  "UpdateFileWorkerInfo new_worker ob =
     (case fw_worker (bo_worker ob) of
        VarWorker v \<Rightarrow>
          (case fw_worker new_worker of
             VarWorker v' \<Rightarrow> Inr (set_worker (VarWorker (v\<lparr>vfw_buffer_size := vfw_buffer_size v'\<rparr>)) ob)
           | _ \<Rightarrow> Inl (AssertionFailure ''new_file_worker->Type() == FileWorkerType::kVarFile''))
      | _ \<Rightarrow> Inr ob)"

text \<open>A handle remembers the object and whether it points to the data or to the mapping.\<close>

datatype data_ptr = NullData | MemData | MmapData

record BufferHandle =
  bh_obj :: "nat option"
  bh_data :: data_ptr

definition mem_ptr :: "BufferObj \<Rightarrow> data_ptr" where
  "mem_ptr ob = (if data_null (fw_worker (bo_worker ob)) then NullData else MemData)"

definition mmap_ptr :: "BufferObj \<Rightarrow> data_ptr" where
  "mmap_ptr ob = (if mmap_data_null (fw_worker (bo_worker ob)) then NullData else MmapData)"

definition pin :: "BufferObj \<Rightarrow> BufferObj" where
  "pin ob = ob\<lparr>bo_status := kLoaded, bo_rc := bo_rc ob + 1\<rparr>"

definition load_mmap :: "nat \<Rightarrow> BufferObj \<Rightarrow> BufferManager \<Rightarrow> (BufferHandle \<times> BufferManager) res" where
  "load_mmap p ob s =
     rbind (case bo_status ob of
              kUnloaded \<Rightarrow> Inr (bo_worker ob)
            | kLoaded \<Rightarrow> Inr (bo_worker ob)
            | kFreed \<Rightarrow> Mmap (bo_worker ob) (bm_disk s)
            | kNew \<Rightarrow> Mmap (bo_worker ob) (bm_disk s)
            | kClean \<Rightarrow> Inl (UnrecoverableError ''Invalid status''))
       (\<lambda>w. let ob1 = pin (ob\<lparr>bo_worker := w\<rparr>) in Inr (\<lparr>bh_obj = Some p, bh_data = mmap_ptr ob1\<rparr>, set_obj p ob1 s))"

definition reserve :: "nat \<Rightarrow> nat list \<Rightarrow> BufferObj \<Rightarrow> BufferManager \<Rightarrow> BufferManager res" where
  "reserve p others ob s =
     rbind (RequestSpace (Some p) others (GetBufferSize ob) (s\<lparr>cache_miss_count := cache_miss_count s + 1\<rparr>)) (\<lambda>(free_success, s1).
       if \<not> free_success then Inl (UnrecoverableError ''Out of memory.'') else Inr s1)"

definition load_memory :: "nat \<Rightarrow> nat list \<Rightarrow> BufferObj \<Rightarrow> BufferManager \<Rightarrow> (BufferHandle \<times> BufferManager) res" where
  "load_memory p others ob s =
     rbind (case bo_status ob of
              kLoaded \<Rightarrow> Inr (ob, s)
            | kUnloaded \<Rightarrow>
                rbind (RemoveFromGCQueue p s) (\<lambda>(ok, s1).
                  if \<not> ok then Inl (UnrecoverableError ''status is UNLOADED, but not in GC queue'') else Inr (ob, s1))
            | kFreed \<Rightarrow>
                rbind (reserve p others ob s) (\<lambda>s1.
                  if bo_type ob = kEphemeral then Inl (UnrecoverableError ''Invalid status'')
                  else rbind (ReadFromFile (bo_type ob \<noteq> kPersistent) (bo_worker ob) (bm_disk s1)) (\<lambda>w. Inr (ob\<lparr>bo_worker := w\<rparr>, s1)))
            | kNew \<Rightarrow>
                rbind (reserve p others ob s) (\<lambda>s1.
                  rbind (AllocateInMemory (fw_worker (bo_worker ob))) (\<lambda>w. Inr (set_worker w ob, s1)))
            | kClean \<Rightarrow> Inl (UnrecoverableError ''Invalid status''))
       (\<lambda>(ob1, s1). let ob2 = pin ob1 in Inr (\<lparr>bh_obj = Some p, bh_data = mem_ptr ob2\<rparr>, set_obj p ob2 s1))"

definition Load :: "nat \<Rightarrow> nat list \<Rightarrow> BufferManager \<Rightarrow> (BufferHandle \<times> BufferManager) res" where
  "Load p others s = with_obj p s (\<lambda>ob.
     let s1 = s\<lparr>total_request_count := total_request_count s + 1\<rparr>
     in if bo_type ob = kMmap then load_mmap p ob s1 else load_memory p others ob s1)"

definition LoadInner :: "nat \<Rightarrow> BufferManager \<Rightarrow> BufferManager res" where
  "LoadInner p s = with_obj p s (\<lambda>ob.
     if bo_status ob \<noteq> kLoaded then Inl (UnrecoverableError ''Invalid status'')
     else Inr (set_obj p (ob\<lparr>bo_rc := bo_rc ob + 1\<rparr>) s))"

definition UnloadInner :: "nat \<Rightarrow> nat list \<Rightarrow> BufferManager \<Rightarrow> BufferManager res" where
  "UnloadInner p others s = with_obj p s (\<lambda>ob.
     if bo_status ob \<noteq> kLoaded then Inl (UnrecoverableError ''Invalid status'')
     else let rc = (if bo_rc ob = 0 then 2 ^ 64 - 1 else bo_rc ob - 1); ob1 = ob\<lparr>bo_rc := rc\<rparr>; s1 = set_obj p ob1 s
       in if rc \<noteq> 0 then Inr s1
          else case bo_type ob of
              kToMmap \<Rightarrow>
                rbind (FreeInMemory (fw_worker (bo_worker ob1))) (\<lambda>w.
                  let ob2 = set_worker w ob1
                  in rbind (FreeUnloadBuffer p (set_obj p ob2 s1)) (\<lambda>s2.
                       Inr (set_obj p (ob2\<lparr>bo_status := kFreed, bo_type := kMmap\<rparr>) s2)))
            | kMmap \<Rightarrow> Inr (set_obj p (ob1\<lparr>bo_status := kUnloaded\<rparr>) s1)
            | _ \<Rightarrow> rbind (PushGCQueue others p s1) (\<lambda>s2. Inr (set_obj p (ob1\<lparr>bo_status := kUnloaded\<rparr>) s2)))"

definition GetMutPointer :: "nat \<Rightarrow> nat list \<Rightarrow> BufferManager \<Rightarrow> (data_ptr \<times> BufferManager) res" where
  "GetMutPointer p others s = with_obj p s (\<lambda>ob.
     rbind (if bo_type ob = kTemp then rbind (RemoveTemp p s) (\<lambda>s1. Inr (ob, s1))
            else if bo_type ob = kMmap
            then rbind (RequestSpace (Some p) others (GetBufferSize ob) s) (\<lambda>(free_success, s1).
                   if \<not> free_success then Inl (UnrecoverableError ''Out of memory.'')
                   else rbind (ReadFromFile False (bo_worker ob) (bm_disk s1)) (\<lambda>w. Inr (ob\<lparr>bo_worker := w\<rparr>, s1)))
            else Inr (ob, s))
       (\<lambda>(ob1, s1). let ob2 = ob1\<lparr>bo_type := kEphemeral\<rparr> in Inr (mem_ptr ob2, set_obj p ob2 s1)))"

definition Save :: "nat \<Rightarrow> save_ctx \<Rightarrow> BufferManager \<Rightarrow> (bool \<times> BufferManager) res" where
  "Save p ctx s = with_obj p s (\<lambda>ob.
     case bo_type ob of
       kEphemeral \<Rightarrow>
         if bo_status ob = kLoaded \<or> bo_status ob = kUnloaded
         then rbind (WriteToFile False ctx (bo_worker ob) (bm_disk s)) (\<lambda>(all_save, w, d).
                Inr (True, set_obj p (ob\<lparr>bo_worker := w, bo_type := if all_save then kPersistent else kEphemeral\<rparr>) (s\<lparr>bm_disk := d\<rparr>)))
         else if bo_status ob = kFreed
         then rbind (MoveFile (bo_worker ob) (bm_disk s)) (\<lambda>d. Inr (False, s\<lparr>bm_disk := d\<rparr>))
         else Inl (UnrecoverableError ''Invalid buffer status'')
     | kTemp \<Rightarrow>
         rbind (MoveTemp p s) (\<lambda>s1.
           rbind (MoveFile (bo_worker ob) (bm_disk s1)) (\<lambda>d.
             Inr (False, set_obj p (ob\<lparr>bo_type := kPersistent\<rparr>) (s1\<lparr>bm_disk := d\<rparr>))))
     | kMmap \<Rightarrow> Inl (UnrecoverableError ''Invalid buffer type: mmap'')
     | _ \<Rightarrow> Inr (False, s))"

definition PickForCleanup :: "nat \<Rightarrow> BufferManager \<Rightarrow> BufferManager res" where
  "PickForCleanup p s = with_obj p s (\<lambda>ob.
     if bo_obj_rc ob = 0 then Inl (UnrecoverableError ''SubObjRc: obj_rc_ is 0'')
     else let ob1 = ob\<lparr>bo_obj_rc := bo_obj_rc ob - 1\<rparr>; s1 = set_obj p ob1 s
       in if bo_obj_rc ob1 > 0 then Inr s1
          else if bo_type ob = kMmap
          then rbind (Munmap (bo_worker ob1)) (\<lambda>w.
                 rbind (AddToCleanList p False s1) (\<lambda>s2. Inr (set_obj p (ob1\<lparr>bo_worker := w, bo_status := kClean\<rparr>) s2)))
          else rbind
            (case bo_status ob of
               kNew \<Rightarrow> rbind (AddToCleanList p False s1) (\<lambda>s2. Inr (ob1, s2))
             | kFreed \<Rightarrow> rbind (AddToCleanList p False s1) (\<lambda>s2. Inr (ob1, s2))
             | kUnloaded \<Rightarrow>
                 rbind (FreeInMemory (fw_worker (bo_worker ob1))) (\<lambda>w.
                   let ob2 = set_worker w ob1 in rbind (AddToCleanList p True (set_obj p ob2 s1)) (\<lambda>s2. Inr (ob2, s2)))
             | _ \<Rightarrow> Inl (UnrecoverableError ''Invalid status''))
            (\<lambda>(ob2, s2).
               let s3 = set_obj p (ob2\<lparr>bo_status := kClean\<rparr>) s2
               in if bo_type ob = kTemp then RemoveTemp p s3 else Inr s3))"

definition ToMmap :: "nat \<Rightarrow> BufferManager \<Rightarrow> BufferManager res" where
  "ToMmap p s = with_obj p s (\<lambda>ob.
     if bo_type ob = kMmap then Inr s
     else if bo_type ob \<noteq> kPersistent then Inl (UnrecoverableError ''Invalid buffer type'')
     else case bo_status ob of
         kLoaded \<Rightarrow> Inr (set_obj p (ob\<lparr>bo_type := kToMmap\<rparr>) s)
       | kUnloaded \<Rightarrow>
           rbind (RemoveFromGCQueue p s) (\<lambda>(_, s1).
             rbind (FreeInMemory (fw_worker (bo_worker ob))) (\<lambda>w.
               let ob1 = set_worker w ob
               in rbind (FreeUnloadBuffer p (set_obj p ob1 s1)) (\<lambda>s2.
                    Inr (set_obj p (ob1\<lparr>bo_status := kFreed, bo_type := kMmap\<rparr>) s2))))
       | kFreed \<Rightarrow> Inr (set_obj p (ob\<lparr>bo_type := kMmap\<rparr>) s)
       | _ \<Rightarrow> Inl (UnrecoverableError ''Invalid status''))"

definition AddBufferSize :: "nat \<Rightarrow> nat list \<Rightarrow> 64 word \<Rightarrow> BufferManager \<Rightarrow> (bool \<times> BufferManager) res" where
  "AddBufferSize p others add_size s = with_obj p s (\<lambda>ob.
     case fw_worker (bo_worker ob) of
       VarWorker _ \<Rightarrow> RequestSpace None others add_size s
     | _ \<Rightarrow> Inl (UnrecoverableError ''Invalid file worker type''))"

definition AddObjRc :: "nat \<Rightarrow> BufferManager \<Rightarrow> BufferManager res" where
  "AddObjRc p s = with_obj p s (\<lambda>ob. Inr (set_obj p (ob\<lparr>bo_obj_rc := bo_obj_rc ob + 1\<rparr>) s))"

definition SubObjRc :: "nat \<Rightarrow> BufferManager \<Rightarrow> BufferManager res" where
  "SubObjRc p s = with_obj p s (\<lambda>ob.
     if bo_obj_rc ob = 0 then Inl (UnrecoverableError ''SubObjRc: obj_rc_ is 0'')
     else let ob1 = ob\<lparr>bo_obj_rc := bo_obj_rc ob - 1\<rparr>
       in if bo_obj_rc ob1 = 0 then AddToCleanList p False (set_obj p (ob1\<lparr>bo_status := kClean\<rparr>) s)
          else Inr (set_obj p ob1 s))"

definition CheckState :: "BufferObj \<Rightarrow> unit res" where
  "CheckState ob =
     (let invalid = Inl (UnrecoverableError ''Invalid status'')
      in case bo_status ob of
           kLoaded \<Rightarrow> if bo_rc ob = 0 then invalid else Inr ()
         | kUnloaded \<Rightarrow> if bo_rc ob > 0 then invalid else Inr ()
         | kFreed \<Rightarrow> if bo_rc ob > 0 then invalid else Inr ()
         | kNew \<Rightarrow> if bo_type ob \<noteq> kEphemeral \<or> bo_rc ob > 0 then invalid else Inr ()
         | kClean \<Rightarrow> if bo_rc ob > 0 then invalid else Inr ())"

definition BufferObj_CleanupFile :: "nat \<Rightarrow> BufferManager \<Rightarrow> BufferManager res" where
  "BufferObj_CleanupFile p s = with_obj p s (\<lambda>ob.
     if bo_status ob \<noteq> kClean then Inl (UnrecoverableError ''Invalid status'')
     else if \<not> data_null (fw_worker (bo_worker ob)) then Inl (UnrecoverableError ''Buffer is not freed.'')
     else rbind (CleanupFile (bo_worker ob) (bm_disk s)) (\<lambda>d. Inr (s\<lparr>bm_disk := d\<rparr>)))"

definition BufferObj_CleanupTempFile :: "nat \<Rightarrow> BufferManager \<Rightarrow> BufferManager res" where
  "BufferObj_CleanupTempFile p s = with_obj p s (\<lambda>ob.
     if bo_type ob = kTemp then Inr s
     else rbind (CleanupTempFile (bo_worker ob) (bm_disk s)) (\<lambda>d. Inr (s\<lparr>bm_disk := d\<rparr>)))"

subsection \<open>Allocation and removal of objects\<close>

definition MakeBufferObj :: "FileWorker \<Rightarrow> bool \<Rightarrow> BufferManager \<Rightarrow> nat \<times> BufferManager" where
  "MakeBufferObj w is_ephemeral s =
     (next_ptr s, s\<lparr>objs := (objs s)(next_ptr s \<mapsto> BufferObj_new is_ephemeral w (buffer_id s)), next_ptr := next_ptr s + 1,
        buffer_id := (buffer_id s + 1) mod 2 ^ 32\<rparr>)"

definition AllocateBufferObject :: "FileWorker \<Rightarrow> BufferManager \<Rightarrow> (nat \<times> BufferManager) res" where
  "AllocateBufferObject w s =
     (let path = GetFilePath w; (p, s1) = MakeBufferObj w True s
      in if buffer_map s1 path \<noteq> None then Inl (UnrecoverableError ''BufferManager::Allocate: file already exists.'')
         else Inr (p, s1\<lparr>buffer_map := (buffer_map s1)(path \<mapsto> p)\<rparr>))"

definition GetBufferObject :: "FileWorker \<Rightarrow> bool \<Rightarrow> BufferManager \<Rightarrow> (nat \<times> BufferManager) res" where
  "GetBufferObject w restart s =
     (let path = GetFilePath w
      in case buffer_map s path of
           Some p \<Rightarrow>
             if restart then with_obj p s (\<lambda>ob. rbind (UpdateFileWorkerInfo w ob) (\<lambda>ob1. Inr (p, set_obj p ob1 s)))
             else Inr (p, s)
         | None \<Rightarrow>
             let (p, s1) = MakeBufferObj w False s
             in Inr (p, s1\<lparr>buffer_map := (buffer_map s1)(path \<mapsto> p)\<rparr>))"

text \<open>Erasing an entry of the map destroys the object.\<close>

definition erase_obj :: "nat \<Rightarrow> BufferManager \<Rightarrow> BufferManager res" where
  "erase_obj p s = with_obj p s (\<lambda>ob.
     let path = GetFilename ob
     in case buffer_map s path of
          None \<Rightarrow> Inl (UnrecoverableError ''BufferManager::RemoveClean: file not found.'')
        | Some q \<Rightarrow> Inr (s\<lparr>buffer_map := (buffer_map s)(path := None), objs := (objs s)(q := None)\<rparr>))"

definition RemoveClean :: "BufferManager \<Rightarrow> BufferManager res" where
  "RemoveClean s =
     (let clean = clean_list s; s1 = s\<lparr>clean_list := []\<rparr>
      in rbind (rfold BufferObj_CleanupFile clean s1) (\<lambda>s2.
         let clean_temp = clean_temp_set s2
         in rbind (rfold BufferObj_CleanupTempFile clean_temp (s2\<lparr>clean_temp_set := []\<rparr>)) (\<lambda>s3.
              rfold erase_obj clean (s3\<lparr>lru_caches := map (LRUCache_RemoveClean clean) (lru_caches s3)\<rparr>))))"

definition WaitingGCObjectCount :: "BufferManager \<Rightarrow> nat list" where
  "WaitingGCObjectCount s = map length (lru_caches s)"

subsection \<open>Appending to a variable length buffer\<close>

text \<open>\<^verbatim>\<open>VarBuffer::Append\<close> on the data of an object, with the reservation of memory for it.\<close>

definition VarBuffer_Append_obj :: "nat \<Rightarrow> nat list \<Rightarrow> byte list \<Rightarrow> BufferManager \<Rightarrow> (nat \<times> bool \<times> BufferManager) res" where
  "VarBuffer_Append_obj p others b s = with_obj p s (\<lambda>ob.
     case fw_worker (bo_worker ob) of
       VarWorker v \<Rightarrow>
         (case vfw_data v of
            None \<Rightarrow> Inl (UndefinedBehaviour ''null pointer'')
          | Some vb \<Rightarrow>
              rbind (VarBuffer_Append b vb) (\<lambda>(offset, vb1).
                rbind (AddBufferSize p others (of_nat (length b)) (set_obj p (set_worker (VarWorker (v\<lparr>vfw_data := Some vb1\<rparr>)) ob) s))
                  (\<lambda>(free_success, s1). Inr (offset, free_success, s1))))
     | _ \<Rightarrow> Inl (UndefinedBehaviour ''cast to VarFileWorker''))"

subsection \<open>Handles\<close>

definition deref_handle :: "BufferHandle \<Rightarrow> (nat \<Rightarrow> 'a res) \<Rightarrow> 'a res" where
  "deref_handle h k = (case bh_obj h of None \<Rightarrow> Inl (UndefinedBehaviour ''null pointer'') | Some p \<Rightarrow> k p)"

definition BufferHandle_copy :: "BufferHandle \<Rightarrow> BufferManager \<Rightarrow> (BufferHandle \<times> BufferManager) res" where
  "BufferHandle_copy other s = deref_handle other (\<lambda>p. rbind (LoadInner p s) (\<lambda>s1. Inr (other, s1)))"

definition BufferHandle_release :: "nat list \<Rightarrow> BufferHandle \<Rightarrow> BufferManager \<Rightarrow> BufferManager res" where
  "BufferHandle_release others h s = (case bh_obj h of None \<Rightarrow> Inr s | Some p \<Rightarrow> UnloadInner p others s)"

definition BufferHandle_copy_assign :: "nat list \<Rightarrow> BufferHandle \<Rightarrow> BufferHandle \<Rightarrow> BufferManager \<Rightarrow> (BufferHandle \<times> BufferManager) res" where
  "BufferHandle_copy_assign others this other s =
     rbind (BufferHandle_release others this s) (\<lambda>s1. deref_handle other (\<lambda>p. rbind (LoadInner p s1) (\<lambda>s2. Inr (other, s2))))"

definition BufferHandle_move_assign :: "nat list \<Rightarrow> BufferHandle \<Rightarrow> BufferHandle \<Rightarrow> BufferManager \<Rightarrow> (BufferHandle \<times> BufferHandle \<times> BufferManager) res" where
  "BufferHandle_move_assign others this other s =
     rbind (BufferHandle_release others this s) (\<lambda>s1. Inr (other, \<lparr>bh_obj = None, bh_data = NullData\<rparr>, s1))"

definition GetDataMut :: "nat list \<Rightarrow> BufferHandle \<Rightarrow> BufferManager \<Rightarrow> (BufferHandle \<times> BufferManager) res" where
  "GetDataMut others h s = deref_handle h (\<lambda>p. rbind (GetMutPointer p others s) (\<lambda>(d, s1). Inr (h\<lparr>bh_data := d\<rparr>, s1)))"

text \<open>What a handle shows.\<close>

definition handle_contents :: "BufferHandle \<Rightarrow> BufferManager \<Rightarrow> content option" where
  "handle_contents h s =
     (case bh_obj h of
        None \<Rightarrow> None
      | Some p \<Rightarrow>
          (case objs s p of
             None \<Rightarrow> None
           | Some ob \<Rightarrow>
               (case bh_data h of
                  NullData \<Rightarrow> None
                | MemData \<Rightarrow> worker_contents (fw_worker (bo_worker ob))
                | MmapData \<Rightarrow> mmap_contents (fw_worker (bo_worker ob)))))"

end
