(* ===== verification/Buffer_Invariant.thy ===== *)
theory Buffer_Invariant
  imports Buffer_Manager
begin

text \<open>
  The invariant of the buffer manager: the state of every object fits its status and type, files hold what they should, the queues
  hold exactly the unpinned objects in memory, and the accounted memory is the memory in use, within the limit.
  The parameter \<open>k\<close> is memory that is accounted but not in use, in the middle of a request.
\<close>

named_theorems buf_simps \<open>unfolding of the operations of the buffer manager\<close>

abbreviation wk :: "BufferObj \<Rightarrow> worker" where
  "wk ob \<equiv> fw_worker (bo_worker ob)"

abbreviation obj_path :: "bool \<Rightarrow> BufferObj \<Rightarrow> string" where
  "obj_path sp ob \<equiv> file_path sp (bo_worker ob)"

subsection \<open>Names of files\<close>

text \<open>The directories are absolute and none lies in the other; workers use them and a relative name.\<close>

definition dirs_ok :: "string \<Rightarrow> string \<Rightarrow> bool" where
  "dirs_ok dd td \<longleftrightarrow> starts_with dd ''/'' \<and> starts_with td ''/'' \<and> last dd \<noteq> CHR ''/'' \<and> last td \<noteq> CHR ''/'' \<and>
     \<not> starts_with (dd @ ''/'') (td @ ''/'') \<and> \<not> starts_with (td @ ''/'') (dd @ ''/'')"

definition named :: "string \<Rightarrow> string \<Rightarrow> FileWorker \<Rightarrow> bool" where
  "named dd td w \<longleftrightarrow> fw_data_dir w = dd \<and> fw_temp_dir w = td \<and> fw_file_dir w \<noteq> [] \<and> \<not> starts_with (fw_file_dir w) ''/'' \<and>
     last (fw_file_dir w) \<noteq> CHR ''/'' \<and> fw_file_name w \<noteq> [] \<and> \<not> starts_with (fw_file_name w) ''/''"

lemma path_append_plain:
  "\<not> starts_with k ''/'' \<Longrightarrow> p \<noteq> [] \<Longrightarrow> last p \<noteq> CHR ''/'' \<Longrightarrow> path_append p k = p @ ''/'' @ k"
  by (simp add: path_append_def)

lemma dirs_nonempty: "dirs_ok dd td \<Longrightarrow> dd \<noteq> [] \<and> td \<noteq> []"
  by (auto simp: dirs_ok_def starts_with_def)

lemma file_path_named:
  assumes "dirs_ok dd td" "named dd td w"
  shows "file_path sp w = (if sp then td else dd) @ ''/'' @ fw_file_dir w @ ''/'' @ fw_file_name w"
    "GetFilePath w = file_path False w"
proof -
  have dir: "ChooseFileDir sp w = (if sp then td else dd) @ ''/'' @ fw_file_dir w" for sp
    using assms dirs_nonempty [OF assms(1)] by (auto simp: ChooseFileDir_def named_def dirs_ok_def path_append_plain)
  then show path: "file_path sp w = (if sp then td else dd) @ ''/'' @ fw_file_dir w @ ''/'' @ fw_file_name w" for sp
    by (simp add: file_path_def)
  have "path_append (fw_data_dir w) (fw_file_dir w) = dd @ ''/'' @ fw_file_dir w" using dir [of False] by (simp add: ChooseFileDir_def)
  then show "GetFilePath w = file_path False w"
    using assms(2) by (simp add: GetFilePath_def path named_def path_append_plain)
qed

lemma starts_with_append: "a @ x = b @ y \<Longrightarrow> starts_with a b \<or> starts_with b a"
  by (auto simp: starts_with_def append_eq_append_conv2)

text \<open>Two workers with different names never touch the same file, and spill files are not data files.\<close>

lemma file_paths_distinct:
  assumes "dirs_ok dd td" "named dd td w" "named dd td w'"
  shows "file_path sp w = file_path sp' w' \<Longrightarrow> sp = sp' \<and> GetFilePath w = GetFilePath w'"
proof -
  assume eq: "file_path sp w = file_path sp' w'"
  let ?d = "\<lambda>sp. if sp then td else dd"
  from eq have split: "(?d sp @ ''/'') @ fw_file_dir w @ ''/'' @ fw_file_name w = (?d sp' @ ''/'') @ fw_file_dir w' @ ''/'' @ fw_file_name w'"
    using file_path_named(1) [OF assms(1,2), of sp] file_path_named(1) [OF assms(1,3), of sp'] by simp
  have "sp = sp'"
    using starts_with_append [OF split] assms(1) by (cases sp; cases sp') (auto simp: dirs_ok_def)
  with split show ?thesis
    using file_path_named(1) [OF assms(1,2), of False] file_path_named(1) [OF assms(1,3), of False] file_path_named(2) assms by auto
qed

subsection \<open>Objects\<close>

definition mem_cost :: "BufferObj \<Rightarrow> nat" where
  "mem_cost ob = (if data_null (wk ob) then 0 else GetMemoryCost (wk ob))"

definition queued :: "BufferObj \<Rightarrow> bool" where
  "queued ob \<longleftrightarrow> bo_status ob = kUnloaded \<and> bo_type ob \<noteq> kMmap"

definition status_ok :: "BufferObj \<Rightarrow> bool" where
  "status_ok ob \<longleftrightarrow>
     (case bo_status ob of
        kNew \<Rightarrow> bo_type ob = kEphemeral \<and> bo_rc ob = 0 \<and> data_null (wk ob) \<and> worker_fresh (wk ob)
      | kFreed \<Rightarrow> bo_type ob \<in> {kPersistent, kTemp, kMmap} \<and> bo_rc ob = 0 \<and> data_null (wk ob)
      | kUnloaded \<Rightarrow> bo_type ob \<noteq> kToMmap \<and> bo_rc ob = 0 \<and> (data_null (wk ob) \<longleftrightarrow> bo_type ob = kMmap)
      | kLoaded \<Rightarrow> 0 < bo_rc ob \<and> (data_null (wk ob) \<longleftrightarrow> bo_type ob = kMmap)
      | kClean \<Rightarrow> bo_rc ob = 0 \<and> data_null (wk ob))"

text \<open>The file holds contents that agree with the data and the mapping in memory.\<close>

definition holds :: "byte list option \<Rightarrow> BufferObj \<Rightarrow> bool" where
  "holds file ob \<longleftrightarrow> (\<exists>f c. file = Some f \<and> any_worker.stored f (wk ob) c \<and> (\<not> data_null (wk ob) \<longrightarrow> worker_contents (wk ob) = c) \<and>
     (bo_type ob = kMmap \<longrightarrow> bo_status ob \<in> {kLoaded, kUnloaded} \<longrightarrow> mmap_contents (wk ob) = c))"

definition obj_ok :: "bool \<Rightarrow> bool \<Rightarrow> bool \<Rightarrow> byte list option \<Rightarrow> byte list option \<Rightarrow> BufferObj \<Rightarrow> bool" where
  "obj_ok in_temp in_clean_temp in_clean data_file spill_file ob \<longleftrightarrow>
     worker_ok (wk ob) \<and> GetMemoryCost (wk ob) < 2 ^ 64 \<and> status_ok ob \<and>
     (in_temp \<longleftrightarrow> bo_type ob = kTemp \<and> bo_status ob \<noteq> kClean) \<and>
     (in_clean_temp \<longrightarrow> (if bo_type ob = kTemp then bo_status ob = kClean else spill_file \<noteq> None)) \<and> (in_clean \<longleftrightarrow> bo_status ob = kClean) \<and>
     (\<forall>f. data_file = Some f \<longrightarrow> stale_ok (wk ob) f) \<and> (\<forall>f. spill_file = Some f \<longrightarrow> stale_ok (wk ob) f) \<and>
     (bo_status ob \<noteq> kClean \<longrightarrow> bo_type ob \<in> {kPersistent, kToMmap, kMmap} \<longrightarrow> holds data_file ob) \<and>
     (bo_status ob \<noteq> kClean \<longrightarrow> bo_type ob = kTemp \<longrightarrow> holds spill_file ob)"

text \<open>The contents of an object, wherever they are.\<close>

definition content_of :: "byte list option \<Rightarrow> byte list option \<Rightarrow> BufferObj \<Rightarrow> content option" where
  "content_of data_file spill_file ob =
     (if \<not> data_null (wk ob) then worker_contents (wk ob)
      else if bo_status ob = kClean then None
      else if bo_status ob = kNew then (case AllocateInMemory (wk ob) of Inl _ \<Rightarrow> None | Inr w \<Rightarrow> worker_contents w)
      else case (if bo_type ob = kTemp then spill_file else data_file) of
          None \<Rightarrow> None
        | Some f \<Rightarrow> (case ReadFromFileImpl f (wk ob) of Inl _ \<Rightarrow> None | Inr w \<Rightarrow> worker_contents w))"

definition obj_content :: "BufferManager \<Rightarrow> BufferObj \<Rightarrow> content option" where
  "obj_content s ob = content_of (bm_disk s (obj_path False ob)) (bm_disk s (obj_path True ob)) ob"

definition contents_at :: "BufferManager \<Rightarrow> nat \<Rightarrow> content option" where
  "contents_at s p = (case objs s p of None \<Rightarrow> None | Some ob \<Rightarrow> obj_content s ob)"

subsection \<open>The manager\<close>

definition usage :: "BufferManager \<Rightarrow> nat" where
  "usage s = (\<Sum>p \<in> dom (objs s). mem_cost (the (objs s p)))"

definition pinned :: "BufferManager \<Rightarrow> nat" where
  "pinned s = (\<Sum>p \<in> dom (objs s). if queued (the (objs s p)) then 0 else mem_cost (the (objs s p)))"

definition heap_ok :: "string \<Rightarrow> string \<Rightarrow> BufferManager \<Rightarrow> bool" where
  "heap_ok dd td s \<longleftrightarrow> finite (dom (objs s)) \<and> (\<forall>p \<in> dom (objs s). p < next_ptr s) \<and> distinct (temp_set s) \<and>
     (\<forall>p ob. objs s p = Some ob \<longrightarrow> named dd td (bo_worker ob) \<and> buffer_map s (GetFilename ob) = Some p) \<and>
     (\<forall>path p. buffer_map s path = Some p \<longrightarrow> (\<exists>ob. objs s p = Some ob \<and> GetFilename ob = path)) \<and>
     distinct (clean_temp_set s) \<and> distinct (clean_list s) \<and>
     (\<forall>p \<in> set (temp_set s) \<union> set (clean_temp_set s) \<union> set (clean_list s). \<exists>ob. objs s p = Some ob)"

definition queue_ok :: "BufferManager \<Rightarrow> bool" where
  "queue_ok s \<longleftrightarrow> lru_caches s \<noteq> [] \<and> round_robin s < length (lru_caches s) \<and>
     (\<forall>i < length (lru_caches s). distinct (lru_caches s ! i) \<and>
        (\<forall>p. p \<in> set (lru_caches s ! i) \<longleftrightarrow> (\<exists>ob. objs s p = Some ob \<and> queued ob \<and> LRUIdx ob s = i)))"

definition objs_ok :: "BufferManager \<Rightarrow> bool" where
  "objs_ok s \<longleftrightarrow> (\<forall>p ob. objs s p = Some ob \<longrightarrow>
     obj_ok (p \<in> set (temp_set s)) (p \<in> set (clean_temp_set s)) (p \<in> set (clean_list s)) (bm_disk s (obj_path False ob)) (bm_disk s (obj_path True ob)) ob)"

definition binv :: "string \<Rightarrow> string \<Rightarrow> nat \<Rightarrow> BufferManager \<Rightarrow> bool" where
  "binv dd td k s \<longleftrightarrow> dirs_ok dd td \<and> heap_ok dd td s \<and> queue_ok s \<and> objs_ok s \<and>
     unat (current_memory_size s) = usage s + k \<and> usage s + k \<le> unat (memory_limit s)"

lemma usage_update:
  assumes "finite (dom (objs s))" "objs s p = Some ob" "objs s' = (objs s)(p \<mapsto> ob')"
  shows "usage s' + mem_cost ob = usage s + mem_cost ob'"
proof -
  have d: "dom (objs s') = dom (objs s)" "p \<in> dom (objs s)" using assms(2,3) by auto
  have "usage s = mem_cost ob + (\<Sum>q \<in> dom (objs s) - {p}. mem_cost (the (objs s q)))"
    using sum.remove [OF assms(1) d(2), of "\<lambda>p. mem_cost (the (objs s p))"] assms(2) by (simp add: usage_def)
  moreover have "usage s' = mem_cost ob' + (\<Sum>q \<in> dom (objs s) - {p}. mem_cost (the (objs s' q)))"
    using sum.remove [OF assms(1) d(2), of "\<lambda>p. mem_cost (the (objs s' p))"] d(1) assms(3) by (simp add: usage_def)
  moreover have "(\<Sum>q \<in> dom (objs s) - {p}. mem_cost (the (objs s' q))) = (\<Sum>q \<in> dom (objs s) - {p}. mem_cost (the (objs s q)))"
    by (rule sum.cong) (simp_all add: assms(3))
  ultimately show ?thesis by simp
qed

subsection \<open>Changing one object\<close>

definition same_names :: "BufferObj \<Rightarrow> BufferObj \<Rightarrow> bool" where
  "same_names ob ob' \<longleftrightarrow> bo_id ob' = bo_id ob \<and> fw_data_dir (bo_worker ob') = fw_data_dir (bo_worker ob) \<and>
     fw_temp_dir (bo_worker ob') = fw_temp_dir (bo_worker ob) \<and> fw_file_dir (bo_worker ob') = fw_file_dir (bo_worker ob) \<and>
     fw_file_name (bo_worker ob') = fw_file_name (bo_worker ob)"

lemma same_names_path:
  assumes "same_names ob ob'"
  shows "obj_path sp ob' = obj_path sp ob" "GetFilename ob' = GetFilename ob" "named dd td (bo_worker ob') = named dd td (bo_worker ob)"
  using assms by (simp_all add: same_names_def file_path_def ChooseFileDir_def GetFilename_def GetFilePath_def named_def)

text \<open>Every operation changes one object, its two files, and its membership in the queue and in the set of temporary files.\<close>

definition update_ok :: "string \<Rightarrow> string \<Rightarrow> nat \<Rightarrow> nat \<Rightarrow> BufferObj \<Rightarrow> nat \<Rightarrow> BufferObj \<Rightarrow> BufferManager \<Rightarrow> BufferManager \<Rightarrow> bool" where
  "update_ok dd td k p ob k' ob' s s' \<longleftrightarrow>
     objs s' = (objs s)(p \<mapsto> ob') \<and> same_names ob ob' \<and> buffer_map s' = buffer_map s \<and> next_ptr s' = next_ptr s \<and>
     memory_limit s' = memory_limit s \<and> length (lru_caches s') = length (lru_caches s) \<and> round_robin s' = round_robin s \<and>
     (\<forall>i < length (lru_caches s). distinct (lru_caches s' ! i) \<and>
        (\<forall>q. q \<in> set (lru_caches s' ! i) \<longleftrightarrow> (if q = p then queued ob' \<and> LRUIdx ob s = i else q \<in> set (lru_caches s ! i)))) \<and>
     distinct (temp_set s') \<and> distinct (clean_temp_set s') \<and> distinct (clean_list s') \<and>
     (\<forall>q. q \<noteq> p \<longrightarrow> (q \<in> set (temp_set s') \<longleftrightarrow> q \<in> set (temp_set s)) \<and> (q \<in> set (clean_temp_set s') \<longleftrightarrow> q \<in> set (clean_temp_set s)) \<and>
        (q \<in> set (clean_list s') \<longleftrightarrow> q \<in> set (clean_list s))) \<and>
     (\<forall>path. path \<noteq> obj_path False ob \<longrightarrow> path \<noteq> obj_path True ob \<longrightarrow> bm_disk s' path = bm_disk s path) \<and>
     obj_ok (p \<in> set (temp_set s')) (p \<in> set (clean_temp_set s')) (p \<in> set (clean_list s')) (bm_disk s' (obj_path False ob)) (bm_disk s' (obj_path True ob)) ob' \<and>
     unat (current_memory_size s') + mem_cost ob + k = unat (current_memory_size s) + mem_cost ob' + k' \<and>
     unat (current_memory_size s') \<le> unat (memory_limit s)"

lemma binv_paths:
  assumes "binv dd td k s" "objs s p = Some ob" "objs s q = Some ob'" "obj_path sp ob = obj_path sp' ob'"
  shows "p = q \<and> sp = sp'"
proof -
  have "dirs_ok dd td" "named dd td (bo_worker ob)" "named dd td (bo_worker ob')"
    and m: "buffer_map s (GetFilename ob) = Some p" "buffer_map s (GetFilename ob') = Some q"
    using assms(1-3) by (auto simp: binv_def heap_ok_def)
  from file_paths_distinct [OF this(1-3) assms(4)] m show ?thesis by (simp add: GetFilename_def)
qed

lemma binv_update:
  assumes inv: "binv dd td k s" and p: "objs s p = Some ob" and u: "update_ok dd td k p ob k' ob' s s'"
  shows "binv dd td k' s'" and "\<And>q. q \<noteq> p \<Longrightarrow> contents_at s' q = contents_at s q"
proof -
  have objs: "objs s' = (objs s)(p \<mapsto> ob')" and same: "same_names ob ob'"
    and frame: "buffer_map s' = buffer_map s" "next_ptr s' = next_ptr s" "memory_limit s' = memory_limit s"
      "length (lru_caches s') = length (lru_caches s)" "round_robin s' = round_robin s"
    and lru: "\<And>i. i < length (lru_caches s) \<Longrightarrow> distinct (lru_caches s' ! i)"
      "\<And>i q. i < length (lru_caches s) \<Longrightarrow> q \<in> set (lru_caches s' ! i) \<longleftrightarrow> (if q = p then queued ob' \<and> LRUIdx ob s = i else q \<in> set (lru_caches s ! i))"
    and dist: "distinct (temp_set s')" "distinct (clean_temp_set s')" "distinct (clean_list s')"
    and temp: "\<And>q. q \<noteq> p \<Longrightarrow> q \<in> set (temp_set s') \<longleftrightarrow> q \<in> set (temp_set s)" "\<And>q. q \<noteq> p \<Longrightarrow> q \<in> set (clean_temp_set s') \<longleftrightarrow> q \<in> set (clean_temp_set s)"
      "\<And>q. q \<noteq> p \<Longrightarrow> q \<in> set (clean_list s') \<longleftrightarrow> q \<in> set (clean_list s)"
    and disk: "\<And>path. path \<noteq> obj_path False ob \<Longrightarrow> path \<noteq> obj_path True ob \<Longrightarrow> bm_disk s' path = bm_disk s path"
    and ok: "obj_ok (p \<in> set (temp_set s')) (p \<in> set (clean_temp_set s')) (p \<in> set (clean_list s')) (bm_disk s' (obj_path False ob)) (bm_disk s' (obj_path True ob)) ob'"
    and mem: "unat (current_memory_size s') + mem_cost ob + k = unat (current_memory_size s) + mem_cost ob' + k'"
      "unat (current_memory_size s') \<le> unat (memory_limit s)"
    using u by (simp_all add: update_ok_def)
  have heap: "heap_ok dd td s" and q_ok: "queue_ok s" and o_ok: "objs_ok s" and fin: "finite (dom (objs s))"
    using inv by (simp_all add: binv_def heap_ok_def)
  have other: "bm_disk s' (obj_path sp obq) = bm_disk s (obj_path sp obq)" if "objs s q = Some obq" "q \<noteq> p" for q obq sp
    using binv_paths [OF inv that(1) p] that(2) by (intro disk) blast+
  show "contents_at s' q = contents_at s q" if "q \<noteq> p" for q
    using other [OF _ that] that by (simp add: contents_at_def objs obj_content_def split: option.splits)
  have "heap_ok dd td s'"
  proof -
    have "\<exists>obq. objs s' q = Some obq" if "q \<in> set (temp_set s') \<union> set (clean_temp_set s') \<union> set (clean_list s')" for q
      using that temp [of q] heap by (cases "q = p") (auto simp: heap_ok_def objs)
    moreover have "GetFilename ob = path" if "buffer_map s path = Some p" for path
      using that heap p by (metis heap_ok_def option.inject)
    ultimately show ?thesis
      using heap p dist unfolding heap_ok_def frame objs by (auto simp: same_names_path [OF same])
  qed
  moreover have "queue_ok s'"
  proof -
    have "LRUIdx ob' s' = LRUIdx ob s" "\<And>x. LRUIdx x s' = LRUIdx x s" using same frame(4) by (simp_all add: LRUIdx_def same_names_def)
    moreover have "lru_caches s' \<noteq> []" using q_ok frame(4) by (auto simp: queue_ok_def)
    ultimately show ?thesis using q_ok lru p unfolding queue_ok_def frame objs by (auto split: if_splits)
  qed
  moreover have "objs_ok s'"
    unfolding objs_ok_def
  proof (intro allI impI)
    fix q obq assume q: "objs s' q = Some obq"
    show "obj_ok (q \<in> set (temp_set s')) (q \<in> set (clean_temp_set s')) (q \<in> set (clean_list s')) (bm_disk s' (obj_path False obq)) (bm_disk s' (obj_path True obq)) obq"
    proof (cases "q = p")
      case True
      then have "obq = ob'" using q by (simp add: objs)
      with True show ?thesis using ok by (simp only: same_names_path [OF same])
    next
      case False
      then have "objs s q = Some obq" using q by (simp add: objs)
      then show ?thesis using o_ok temp [OF False] other [OF _ False] by (simp add: objs_ok_def)
    qed
  qed
  moreover have "unat (current_memory_size s') = usage s' + k'"
    using usage_update [OF fin p objs] mem(1) inv by (simp add: binv_def)
  ultimately show "binv dd td k' s'" using inv mem(2) by (simp add: binv_def frame)
qed

subsection \<open>Contents of objects\<close>

lemma content_of_stored:
  assumes "data_null (wk ob)" "bo_status ob \<notin> {kClean, kNew}" "(if bo_type ob = kTemp then sf else df) = Some f" "any_worker.stored f (wk ob) c"
  shows "content_of df sf ob = c"
proof -
  obtain w2 where "ReadFromFileImpl f (wk ob) = Inr w2" "worker_contents w2 = c" using any_worker.read_stored [OF assms(4,1)] by blast
  then show ?thesis using assms by (auto simp: content_of_def split: if_splits)
qed

lemma content_of_data: "\<not> data_null (wk ob) \<Longrightarrow> content_of df sf ob = worker_contents (wk ob)"
  by (simp add: content_of_def)

lemma worker_ok_freed: "worker_ok w \<Longrightarrow> worker_ok (freed_worker w)"
  by (cases w) (simp_all add: DataFileWorker_ok_def RawFileWorker_ok_def VarFileWorker_ok_def VersionFileWorker_ok_def var_freed_def)

lemma binv_obj:
  assumes "binv dd td k s" "objs s p = Some ob"
  shows "obj_ok (p \<in> set (temp_set s)) (p \<in> set (clean_temp_set s)) (p \<in> set (clean_list s)) (bm_disk s (obj_path False ob)) (bm_disk s (obj_path True ob)) ob"
  using assms by (simp add: binv_def objs_ok_def)

lemma queue_objs:
  assumes "binv dd td k s" "i < length (lru_caches s)" "p \<in> set (lru_caches s ! i)"
  obtains ob where "objs s p = Some ob" "queued ob" "LRUIdx ob s = i"
  using assms by (auto simp: binv_def queue_ok_def)

lemma cost_le_usage: "finite (dom (objs s)) \<Longrightarrow> objs s p = Some ob \<Longrightarrow> mem_cost ob \<le> usage s"
  using member_le_sum [of p "dom (objs s)" "\<lambda>p. mem_cost (the (objs s p))"] by (auto simp: usage_def)

lemma set_obj_simps [simp]:
  "objs (set_obj p ob s) = (objs s)(p \<mapsto> ob)" "buffer_map (set_obj p ob s) = buffer_map s" "next_ptr (set_obj p ob s) = next_ptr s"
  "memory_limit (set_obj p ob s) = memory_limit s" "current_memory_size (set_obj p ob s) = current_memory_size s"
  "lru_caches (set_obj p ob s) = lru_caches s" "round_robin (set_obj p ob s) = round_robin s" "temp_set (set_obj p ob s) = temp_set s"
  "clean_temp_set (set_obj p ob s) = clean_temp_set s" "clean_list (set_obj p ob s) = clean_list s" "bm_disk (set_obj p ob s) = bm_disk s"
  by (simp_all add: set_obj_def)

lemma set_lru_simps [simp]:
  "objs (set_lru i l s) = objs s" "buffer_map (set_lru i l s) = buffer_map s" "next_ptr (set_lru i l s) = next_ptr s"
  "memory_limit (set_lru i l s) = memory_limit s" "current_memory_size (set_lru i l s) = current_memory_size s"
  "lru_caches (set_lru i l s) = (lru_caches s)[i := l]" "round_robin (set_lru i l s) = round_robin s" "temp_set (set_lru i l s) = temp_set s"
  "clean_temp_set (set_lru i l s) = clean_temp_set s" "clean_list (set_lru i l s) = clean_list s" "bm_disk (set_lru i l s) = bm_disk s"
  by (simp_all add: set_lru_def)

lemma set_worker_simps [simp]:
  "wk (set_worker w ob) = w" "bo_status (set_worker w ob) = bo_status ob" "bo_type (set_worker w ob) = bo_type ob" "bo_rc (set_worker w ob) = bo_rc ob"
  "same_names ob (set_worker w ob)" "obj_path sp (set_worker w ob) = obj_path sp ob" "bo_obj_rc (set_worker w ob) = bo_obj_rc ob"
  by (simp_all add: set_worker_def same_names_def)

lemma with_obj_Some [simp]: "objs s p = Some ob \<Longrightarrow> with_obj p s f = f ob"
  by (simp add: with_obj_def)

lemma with_obj_eq_Inr [res_simps]: "with_obj p s f = Inr y \<longleftrightarrow> (\<exists>ob. objs s p = Some ob \<and> f ob = Inr y)"
  by (auto simp: with_obj_def split: option.splits)

text \<open>Removing an object from the queue keeps the queues.\<close>

lemma lru_removed:
  assumes "binv dd td k s" "objs s p = Some ob" "\<not> queued ob'"
    and "i < length (lru_caches s)" "LRUIdx ob s = i \<or> \<not> queued ob"
  shows "\<forall>j < length (lru_caches s). distinct ((lru_caches s)[i := remove1 p (lru_caches s ! i)] ! j) \<and>
    (\<forall>q. q \<in> set ((lru_caches s)[i := remove1 p (lru_caches s ! i)] ! j) \<longleftrightarrow> (if q = p then queued ob' \<and> LRUIdx ob s = j else q \<in> set (lru_caches s ! j)))"
  using assms by (auto simp: binv_def queue_ok_def nth_list_update)

lemma lru_unqueued:
  assumes "binv dd td k s" "objs s p = Some ob" "\<not> queued ob" "\<not> queued ob'"
  shows "\<forall>j < length (lru_caches s). distinct (lru_caches s ! j) \<and>
    (\<forall>q. q \<in> set (lru_caches s ! j) \<longleftrightarrow> (if q = p then queued ob' \<and> LRUIdx ob s = j else q \<in> set (lru_caches s ! j)))"
  using assms by (auto simp: binv_def queue_ok_def)

lemma lru_kept:
  assumes "binv dd td k s" "objs s p = Some ob" "queued ob = queued ob'"
  shows "\<forall>j < length (lru_caches s). distinct (lru_caches s ! j) \<and>
    (\<forall>q. q \<in> set (lru_caches s ! j) \<longleftrightarrow> (if q = p then queued ob' \<and> LRUIdx ob s = j else q \<in> set (lru_caches s ! j)))"
  using assms by (auto simp: binv_def queue_ok_def)

lemma LRUIdx_less: "binv dd td k s \<Longrightarrow> LRUIdx ob s < length (lru_caches s)"
  by (simp add: LRUIdx_def binv_def queue_ok_def)

lemma lru_pushed:
  assumes "binv dd td k s" "objs s p = Some ob" "queued ob'" "\<not> queued ob" "i = LRUIdx ob s"
  shows "\<forall>j < length (lru_caches s). distinct ((lru_caches s)[i := remove1 p (lru_caches s ! i) @ [p]] ! j) \<and>
    (\<forall>q. q \<in> set ((lru_caches s)[i := remove1 p (lru_caches s ! i) @ [p]] ! j) \<longleftrightarrow> (if q = p then queued ob' \<and> LRUIdx ob s = j else q \<in> set (lru_caches s ! j)))"
proof -
  have "i < length (lru_caches s)" using LRUIdx_less [OF assms(1)] assms(5) by simp
  then show ?thesis using assms by (auto simp: binv_def queue_ok_def nth_list_update)
qed

text \<open>Evicting an object: it leaves memory and the queue and keeps its contents.\<close>

lemma Free_evicts:
  assumes inv: "binv dd td k s" and i: "i < length (lru_caches s)" "p \<in> set (lru_caches s ! i)" and lock: "own \<noteq> Some p" "p \<notin> set others"
  obtains ob ob' s1 where "objs s p = Some ob" "queued ob" "Free own others p s = Inr (True, s1)" "objs s1 p = Some ob'"
    "GetBufferSize ob' = of_nat (mem_cost ob)" "\<not> queued ob'" "lru_caches s1 = lru_caches s"
    "update_ok dd td k p ob (k + mem_cost ob) ob' s (set_lru i (remove1 p (lru_caches s ! i)) s1)"
    "obj_content s1 ob' = obj_content s ob" "mem_cost ob' = 0" "current_memory_size s1 = current_memory_size s"
proof -
  obtain ob where ob: "objs s p = Some ob" "queued ob" "LRUIdx ob s = i" by (rule queue_objs [OF inv i])
  note ok = binv_obj [OF inv ob(1)]
  have st: "bo_status ob = kUnloaded" "bo_type ob \<in> {kPersistent, kTemp, kEphemeral}" "\<not> data_null (wk ob)" "bo_rc ob = 0"
    and wok: "worker_ok (wk ob)" "GetMemoryCost (wk ob) < 2 ^ 64"
    and stale: "\<And>f. bm_disk s (obj_path False ob) = Some f \<Longrightarrow> stale_ok (wk ob) f" "\<And>f. bm_disk s (obj_path True ob) = Some f \<Longrightarrow> stale_ok (wk ob) f"
    using ok ob(2) by (simp_all add: obj_ok_def queued_def status_ok_def) (cases "bo_type ob", simp_all)
  let ?w = "freed_worker (wk ob)"
  have lim: "unat (current_memory_size s) \<le> unat (memory_limit s)" using inv by (simp add: binv_def)
  have temp: "distinct (temp_set s)" "distinct (clean_temp_set s)" "distinct (clean_list s)" using inv by (simp_all add: binv_def heap_ok_def)
  show thesis
  proof (cases "bo_type ob = kEphemeral")
    case False
    let ?ob = "(set_worker ?w ob)\<lparr>bo_status := kFreed\<rparr>"
    have hold: "(if bo_type ob = kTemp then holds (bm_disk s (obj_path True ob)) ob else holds (bm_disk s (obj_path False ob)) ob)"
      using ok st False by (auto simp: obj_ok_def)
    then obtain f where f: "(if bo_type ob = kTemp then bm_disk s (obj_path True ob) else bm_disk s (obj_path False ob)) = Some f"
      "any_worker.stored f (wk ob) (worker_contents (wk ob))"
      using st(3) by (auto simp: holds_def split: if_splits)
    have f': "any_worker.stored f ?w (worker_contents (wk ob))" using f(2) same_base_stored [of ?w "wk ob"] by simp
    have free: "Free own others p s = Inr (True, set_obj p ?ob s)"
      using lock ob st False any_worker.free_ok [of "wk ob"] by (auto simp: Free_def)
    have content: "obj_content (set_obj p ?ob s) ?ob = obj_content s ob"
      using content_of_stored [of ?ob _ _ f] st f f' by (auto simp: obj_content_def content_of_data any_worker.freed split: if_splits)
    have "obj_ok (p \<in> set (temp_set s)) (p \<in> set (clean_temp_set s)) (p \<in> set (clean_list s)) (bm_disk s (obj_path False ob)) (bm_disk s (obj_path True ob)) ?ob"
      using ok st False f f' wok by (auto simp: obj_ok_def status_ok_def holds_def any_worker.freed worker_ok_freed split: if_splits)
    moreover have "\<not> queued ?ob" "mem_cost ?ob = 0" "same_names ob ?ob" "mem_cost ob = GetMemoryCost (wk ob)"
      using st by (simp_all add: queued_def mem_cost_def any_worker.freed same_names_def set_worker_def)
    ultimately show thesis
      using lru_removed [OF inv ob(1), of ?ob i] i(1) ob lim temp free content st
      by (intro that [of ob "set_obj p ?ob s" ?ob]) (simp_all add: update_ok_def GetBufferSize_def any_worker.freed)
  next
    case True
    obtain b all w' where w: "WriteToFileImpl True FileWorkerSaveCtx (wk ob) = Inr (b, all, w')" "freed_worker w' = ?w" "worker_ok w'"
      "worker_contents w' = worker_contents (wk ob)" "all" "stale_ok (wk ob) (overwrite b (bm_disk s (obj_path True ob)))"
      "any_worker.stored (overwrite b (bm_disk s (obj_path True ob))) (wk ob) (worker_contents (wk ob))"
      by (rule any_worker.write_stores [of "wk ob" True FileWorkerSaveCtx "bm_disk s (obj_path True ob)"]) (use wok st stale in auto)
    let ?d = "(bm_disk s)(obj_path True ob := Some (overwrite b (bm_disk s (obj_path True ob))))"
    let ?s = "s\<lparr>bm_disk := ?d, temp_set := temp_set s @ [p], clean_temp_set := remove1 p (clean_temp_set s)\<rparr>"
    let ?ob = "ob\<lparr>bo_type := kTemp, bo_worker := (bo_worker ob)\<lparr>fw_worker := ?w\<rparr>, bo_status := kFreed\<rparr>"
    have notin: "p \<notin> set (temp_set s)" using ok True by (simp add: obj_ok_def)
    have "\<not> data_null w'" using w(4) st(3) any_worker.contents_null by metis
    then have free: "Free own others p s = Inr (True, set_obj p ?ob ?s)"
      using lock ob st True w(1,2,5) notin any_worker.free_ok [of w'] by (simp add: Free_def WriteToFile_def AddTemp_def Let_def set_worker_def)
    have paths: "obj_path True ob \<noteq> obj_path False ob" using binv_paths [OF inv ob(1) ob(1)] by blast
    have f': "any_worker.stored (overwrite b (bm_disk s (obj_path True ob))) ?w (worker_contents (wk ob))"
      using w(7) same_base_stored [of ?w "wk ob"] by simp
    have content: "obj_content (set_obj p ?ob ?s) ?ob = obj_content s ob"
      using content_of_stored [of ?ob "Some (overwrite b (bm_disk s (obj_path True ob)))" _ _ "worker_contents (wk ob)"] st f' paths
      by (simp add: obj_content_def content_of_data any_worker.freed set_worker_def)
    have "obj_ok True False (p \<in> set (clean_list s)) (bm_disk s (obj_path False ob)) (Some (overwrite b (bm_disk s (obj_path True ob)))) ?ob"
      using ok st f' wok w(6) by (auto simp: obj_ok_def status_ok_def holds_def any_worker.freed worker_ok_freed)
    moreover have "\<not> queued ?ob" "mem_cost ?ob = 0" "same_names ob ?ob" "mem_cost ob = GetMemoryCost (wk ob)"
      using st by (simp_all add: queued_def mem_cost_def any_worker.freed same_names_def set_worker_def)
    ultimately show thesis
      using lru_removed [OF inv ob(1), of ?ob i] i(1) ob lim temp free content st notin paths
      by (intro that [of ob "set_obj p ?ob ?s" ?ob]) (simp_all add: update_ok_def GetBufferSize_def any_worker.freed)
  qed
qed

subsection \<open>Requesting space\<close>

lemma word64_less: "unat (x :: 64 word) < 2 ^ 64"
  using unsigned_less [of x] by simp

lemma unat64_of_nat: "n < 2 ^ 64 \<Longrightarrow> unat (of_nat n :: 64 word) = n"
  by (simp add: unat_of_nat)

lemma unat64_add: "unat (a :: 64 word) + unat b < 2 ^ 64 \<Longrightarrow> unat (a + b) = unat a + unat b"
  by (simp add: unat_word_ariths)

lemma unat64_sub: "b \<le> a \<Longrightarrow> unat (a - b :: 64 word) = unat a - unat b"
  by (simp add: unat_sub)

text \<open>What eviction keeps: pinned objects, the limit, the accounted size, and the contents of all objects.\<close>

definition evicted :: "BufferManager \<Rightarrow> BufferManager \<Rightarrow> bool" where
  "evicted s s' \<longleftrightarrow> memory_limit s' = memory_limit s \<and> current_memory_size s' = current_memory_size s \<and>
     (\<forall>q. contents_at s' q = contents_at s q) \<and> length (lru_caches s') = length (lru_caches s) \<and> pinned s' = pinned s \<and>
     (\<forall>q ob. objs s q = Some ob \<longrightarrow> \<not> queued ob \<longrightarrow> objs s' q = Some ob)"

lemma evicted_refl [simp]: "evicted s s"
  by (simp add: evicted_def)

lemma evicted_trans: "evicted s s' \<Longrightarrow> evicted s' s'' \<Longrightarrow> evicted s s''"
  by (simp add: evicted_def)

lemma pinned_update:
  assumes "finite (dom (objs s))" "objs s p = Some ob" "objs s' = (objs s)(p \<mapsto> ob')" "queued ob" "mem_cost ob' = 0"
  shows "pinned s' = pinned s"
  unfolding pinned_def using assms by (intro sum.cong) auto

lemma evict_one:
  assumes inv: "binv dd td k s" and i: "i < length (lru_caches s)" "p \<in> set (lru_caches s ! i)" and lock: "own \<noteq> Some p" "p \<notin> set others"
  obtains c ob' s1 where "Free own others p s = Inr (True, s1)" "objs s1 p = Some ob'" "GetBufferSize ob' = of_nat c"
    "binv dd td (k + c) (set_lru i (remove1 p (lru_caches s ! i)) s1)" "evicted s (set_lru i (remove1 p (lru_caches s ! i)) s1)"
    "lru_caches s1 = lru_caches s" "round_robin s1 = round_robin s"
proof -
  obtain ob ob' s1 where e: "objs s p = Some ob" "queued ob" "Free own others p s = Inr (True, s1)" "objs s1 p = Some ob'"
    "GetBufferSize ob' = of_nat (mem_cost ob)" "\<not> queued ob'" "lru_caches s1 = lru_caches s"
    and u: "update_ok dd td k p ob (k + mem_cost ob) ob' s (set_lru i (remove1 p (lru_caches s ! i)) s1)"
    and c: "obj_content s1 ob' = obj_content s ob" "mem_cost ob' = 0" "current_memory_size s1 = current_memory_size s"
    by (rule Free_evicts [OF inv i lock])
  let ?s = "set_lru i (remove1 p (lru_caches s ! i)) s1"
  have objs: "objs ?s = (objs s)(p \<mapsto> ob')" and frame: "memory_limit ?s = memory_limit s" "round_robin ?s = round_robin s"
    using u by (simp_all add: update_ok_def)
  have fin: "finite (dom (objs s))" using inv by (simp add: binv_def heap_ok_def)
  have "contents_at ?s q = contents_at s q" for q
  proof (cases "q = p")
    case True
    then show ?thesis using c(1) e(1) objs by (simp add: contents_at_def obj_content_def)
  next
    case False
    then show ?thesis by (rule binv_update(2) [OF inv e(1) u])
  qed
  then have "evicted s ?s"
    using frame c(3) e(1,2,7) objs pinned_update [OF fin e(1) objs e(2) c(2)] by (auto simp: evicted_def)
  then show thesis using e binv_update(1) [OF inv e(1) u] frame by (intro that [of s1 ob' "mem_cost ob"]) simp_all
qed

lemma lru_loop_evicts:
  assumes "binv dd td k s" "i < length (lru_caches s)" "set ps \<subseteq> set (lru_caches s ! i)" "distinct ps" "\<And>p. p \<in> set ps \<Longrightarrow> own \<noteq> Some p" "unat f0 \<le> k"
  shows "\<exists>f s' k'. lru_loop own others need i ps f0 s = Inr (f, s') \<and> binv dd td k' s' \<and> k \<le> k' \<and> unat f = unat f0 + (k' - k) \<and> evicted s s' \<and>
    (\<forall>j. j \<noteq> i \<longrightarrow> lru_caches s' ! j = lru_caches s ! j) \<and> round_robin s' = round_robin s \<and> set (lru_caches s' ! i) \<subseteq> set (lru_caches s ! i) \<and>
    (need \<le> f \<or> set (lru_caches s' ! i) \<inter> set ps \<subseteq> set others)"
  using assms
proof (induction ps arbitrary: f0 s k)
  case Nil
  then show ?case by (intro exI [of _ f0] exI [of _ s] exI [of _ k]) simp
next
  case (Cons p ps)
  have own: "own \<noteq> Some p" using Cons.prems(5) by simp
  show ?case
  proof (cases "\<not> f0 < need")
    case True
    then show ?thesis using Cons.prems by (intro exI [of _ f0] exI [of _ s] exI [of _ k]) (simp add: not_less)
  next
    case need: False
    show ?thesis
    proof (cases "p \<in> set others")
      case True
      then have step: "lru_loop own others need i (p # ps) f0 s = lru_loop own others need i ps f0 s"
        using need own by (simp add: Free_def)
      have "set ps \<subseteq> set (lru_caches s ! i)" "distinct ps" "\<And>q. q \<in> set ps \<Longrightarrow> own \<noteq> Some q" using Cons.prems(3-5) by simp_all
      from Cons.IH [OF Cons.prems(1,2) this Cons.prems(6)] show ?thesis
        unfolding step using True by fastforce
    next
      case False
      have pi: "p \<in> set (lru_caches s ! i)" using Cons.prems(3) by simp
      obtain c ob' s1 where e: "Free own others p s = Inr (True, s1)" "objs s1 p = Some ob'" "GetBufferSize ob' = of_nat c"
        "binv dd td (k + c) (set_lru i (remove1 p (lru_caches s ! i)) s1)" "evicted s (set_lru i (remove1 p (lru_caches s ! i)) s1)"
        "lru_caches s1 = lru_caches s" "round_robin s1 = round_robin s"
        by (rule evict_one [OF Cons.prems(1,2) pi own False])
      let ?s = "set_lru i (remove1 p (lru_caches s ! i)) s1" and ?f = "f0 + of_nat c"
      have step: "lru_loop own others need i (p # ps) f0 s = lru_loop own others need i ps ?f ?s"
        using need e by simp
      have "k + c < 2 ^ 64"
        using e(4) word64_less [of "memory_limit s1"] unfolding binv_def by simp
      then have f: "unat ?f = unat f0 + c"
        using Cons.prems(6) by (simp add: unat64_add unat64_of_nat)
      have dist: "distinct (lru_caches s ! i)" using Cons.prems(1,2) by (simp add: binv_def queue_ok_def)
      have lru: "lru_caches ?s ! i = remove1 p (lru_caches s ! i)" "i < length (lru_caches ?s)" using Cons.prems(2) e(6) by simp_all
      have "set ps \<subseteq> set (lru_caches ?s ! i)" using Cons.prems(3,4) lru(1) dist by auto
      moreover have "unat ?f \<le> k + c" using f Cons.prems(6) by simp
      ultimately obtain f s' k' where r: "lru_loop own others need i ps ?f ?s = Inr (f, s')" "binv dd td k' s'" "k + c \<le> k'"
        "unat f = unat ?f + (k' - (k + c))" "evicted ?s s'" "\<forall>j. j \<noteq> i \<longrightarrow> lru_caches s' ! j = lru_caches ?s ! j" "round_robin s' = round_robin ?s"
        "set (lru_caches s' ! i) \<subseteq> set (lru_caches ?s ! i)" "need \<le> f \<or> set (lru_caches s' ! i) \<inter> set ps \<subseteq> set others"
        using Cons.IH [OF e(4) lru(2), of ?f] Cons.prems(4,5) by auto
      have sub: "p \<notin> set (lru_caches s' ! i)" "set (lru_caches s' ! i) \<subseteq> set (lru_caches s ! i)"
        using r(8) lru(1) dist set_remove1_subset [of p "lru_caches s ! i"] by auto
      then show ?thesis
        unfolding step using r f e(5-7) evicted_trans [OF e(5) r(5)]
        by (intro exI [of _ f] exI [of _ s'] exI [of _ k']) auto
    qed
  qed
qed

lemma evicted_unqueued: "evicted s s' \<Longrightarrow> objs s q = Some ob \<Longrightarrow> \<not> queued ob \<Longrightarrow> objs s' q = Some ob"
  by (simp add: evicted_def)

lemma contents_at_cong: "objs s' = objs s \<Longrightarrow> bm_disk s' = bm_disk s \<Longrightarrow> contents_at s' = contents_at s"
  by (simp add: fun_eq_iff contents_at_def obj_content_def cong: option.case_cong)

lemma usage_cong: "objs s' = objs s \<Longrightarrow> usage s' = usage s"
  and pinned_cong: "objs s' = objs s \<Longrightarrow> pinned s' = pinned s"
  by (simp_all add: usage_def pinned_def cong: if_cong)

lemma binv_round_robin: "binv dd td k s \<Longrightarrow> r < length (lru_caches s) \<Longrightarrow> binv dd td k (s\<lparr>round_robin := r\<rparr>)"
  using usage_cong [of "s\<lparr>round_robin := r\<rparr>" s] by (simp add: binv_def heap_ok_def queue_ok_def objs_ok_def LRUIdx_def)

lemma evicted_round_robin: "evicted s s' \<Longrightarrow> evicted s (s'\<lparr>round_robin := r\<rparr>)"
  using contents_at_cong [of "s'\<lparr>round_robin := r\<rparr>" s'] pinned_cong [of "s'\<lparr>round_robin := r\<rparr>" s'] by (simp add: evicted_def)

text \<open>The object whose method runs is not in a queue.\<close>

definition own_ok :: "nat option \<Rightarrow> BufferManager \<Rightarrow> bool" where
  "own_ok own s \<longleftrightarrow> (\<forall>p. own = Some p \<longrightarrow> (\<exists>ob. objs s p = Some ob \<and> \<not> queued ob))"

lemma own_ok_evicted: "own_ok own s \<Longrightarrow> evicted s s' \<Longrightarrow> own_ok own s'"
  unfolding own_ok_def using evicted_unqueued by fast

lemma LRUCache_RequestSpace_evicts:
  assumes inv: "binv dd td k s" and i: "i < length (lru_caches s)" and own: "own_ok own s"
  obtains f s' where "LRUCache_RequestSpace own others need i s = Inr (f, s')" "binv dd td (k + unat f) s'" "evicted s s'"
    "\<forall>j. j \<noteq> i \<longrightarrow> lru_caches s' ! j = lru_caches s ! j" "round_robin s' = round_robin s" "need \<le> f \<or> set (lru_caches s' ! i) \<subseteq> set others"
proof -
  have own': "own \<noteq> Some p" if p: "p \<in> set (lru_caches s ! i)" for p
  proof -
    obtain ob where "objs s p = Some ob" "queued ob" by (rule queue_objs [OF inv i p])
    then show ?thesis using own by (auto simp: own_ok_def)
  qed
  have dist: "distinct (lru_caches s ! i)" using inv i by (simp add: binv_def queue_ok_def)
  have zero: "unat (0 :: 64 word) \<le> k" by simp
  obtain f s' k' where r: "lru_loop own others need i (lru_caches s ! i) 0 s = Inr (f, s')" "binv dd td k' s'" "k \<le> k'"
    "unat f = unat (0 :: 64 word) + (k' - k)" "evicted s s'"
    "\<forall>j. j \<noteq> i \<longrightarrow> lru_caches s' ! j = lru_caches s ! j" "round_robin s' = round_robin s" "set (lru_caches s' ! i) \<subseteq> set (lru_caches s ! i)"
    "need \<le> f \<or> set (lru_caches s' ! i) \<inter> set (lru_caches s ! i) \<subseteq> set others"
    using lru_loop_evicts [OF inv i subset_refl dist own' zero, of others need] by blast
  have eq: "LRUCache_RequestSpace own others need i s = Inr (f, s')" using r(1) by (simp add: LRUCache_RequestSpace_def)
  have inv': "binv dd td (k + unat f) s'" using r(2-4) by simp
  have "need \<le> f \<or> set (lru_caches s' ! i) \<subseteq> set others" using r(8,9) by auto
  then show thesis by (rule that [OF eq inv' r(5-7)])
qed

lemma request_loop_evicts:
  assumes "binv dd td k s" "\<And>i. i \<in> set is \<Longrightarrow> i < length (lru_caches s)" "distinct is" "own_ok own s" "unat f0 = k"
    "unat free + unat (current_memory_size s) = unat (memory_limit s)"
  shows "\<exists>f s'. request_loop own others need free is f0 s = Inr (f, s') \<and> binv dd td (unat f) s' \<and> evicted s s' \<and>
    (\<forall>j. j \<notin> set is \<longrightarrow> lru_caches s' ! j = lru_caches s ! j) \<and>
    (need \<le> f + free \<or> (\<forall>i \<in> set is. set (lru_caches s' ! i) \<subseteq> set others))"
  using assms
proof (induction "is" arbitrary: f0 s k)
  case Nil
  then show ?case by simp
next
  case (Cons i js)
  have i: "i < length (lru_caches s)" "i \<notin> set js" using Cons.prems(2,3) by simp_all
  obtain f s1 where l: "LRUCache_RequestSpace own others need i s = Inr (f, s1)" "binv dd td (k + unat f) s1" "evicted s s1"
    "\<forall>j. j \<noteq> i \<longrightarrow> lru_caches s1 ! j = lru_caches s ! j" "round_robin s1 = round_robin s" "need \<le> f \<or> set (lru_caches s1 ! i) \<subseteq> set others"
    by (rule LRUCache_RequestSpace_evicts [OF Cons.prems(1) i(1) Cons.prems(4), of others need])
  have frame: "length (lru_caches s1) = length (lru_caches s)" "current_memory_size s1 = current_memory_size s" "memory_limit s1 = memory_limit s"
    using l(3) by (simp_all add: evicted_def)
  have used: "k + unat f \<le> unat (current_memory_size s)" "k + unat f < 2 ^ 64"
    using l(2) frame(2,3) word64_less [of "memory_limit s"] by (auto simp: binv_def)
  then have f1: "unat (f0 + f) = k + unat f" using Cons.prems(5) by (simp add: unat64_add)
  have "unat (f0 + f) + unat free \<le> unat (memory_limit s)" using f1 used(1) Cons.prems(6) by simp
  then have f2: "unat (f0 + f + free) = k + unat f + unat free" using f1 word64_less [of "memory_limit s"] by (simp add: unat64_add)
  define s2 where "s2 = s1\<lparr>round_robin := (i + 1) mod length (lru_caches s1)\<rparr>"
  have "(i + 1) mod length (lru_caches s1) < length (lru_caches s1)" using i(1) frame(1) by (intro mod_less_divisor) auto
  then have inv2: "binv dd td (k + unat f) s2" unfolding s2_def by (rule binv_round_robin [OF l(2)])
  have ev2: "evicted s s2" unfolding s2_def by (rule evicted_round_robin [OF l(3)])
  have s2: "lru_caches s2 = lru_caches s1" "current_memory_size s2 = current_memory_size s1" "memory_limit s2 = memory_limit s1" by (simp_all add: s2_def)
  have step: "request_loop own others need free (i # js) f0 s =
      (if f0 + f + free < need then request_loop own others need free js (f0 + f) s2 else Inr (f0 + f, s2))"
    using l(1) by (simp add: Let_def s2_def)
  show ?case
  proof (cases "f0 + f + free < need")
    case False
    then have "request_loop own others need free (i # js) f0 s = Inr (f0 + f, s2)" unfolding step by (rule if_not_P)
    moreover have "need \<le> f0 + f + free" using False by (simp only: not_less)
    moreover have "binv dd td (unat (f0 + f)) s2" using inv2 f1 by simp
    moreover have "\<forall>j. j \<notin> set (i # js) \<longrightarrow> lru_caches s2 ! j = lru_caches s ! j" using l(4) s2(1) by simp
    ultimately show ?thesis using ev2 by blast
  next
    case True
    have "\<not> need \<le> f" using True f2 by (auto simp: word_less_nat_alt word_le_nat_alt)
    then have done_i: "set (lru_caches s2 ! i) \<subseteq> set others" using l(6) s2(1) by simp
    have "own_ok own s2" by (rule own_ok_evicted [OF Cons.prems(4) ev2])
    moreover have "unat free + unat (current_memory_size s2) = unat (memory_limit s2)" using frame s2 Cons.prems(6) by simp
    moreover have "\<And>j. j \<in> set js \<Longrightarrow> j < length (lru_caches s2)" using Cons.prems(2) frame(1) s2(1) by simp
    ultimately obtain f' s' where r: "request_loop own others need free js (f0 + f) s2 = Inr (f', s')" "binv dd td (unat f') s'" "evicted s2 s'"
      "\<forall>j. j \<notin> set js \<longrightarrow> lru_caches s' ! j = lru_caches s2 ! j" "need \<le> f' + free \<or> (\<forall>i \<in> set js. set (lru_caches s' ! i) \<subseteq> set others)"
      using Cons.IH [OF inv2, of "f0 + f"] Cons.prems(3) f1 by auto
    have "request_loop own others need free (i # js) f0 s = Inr (f', s')" using True r(1) unfolding step by simp
    moreover have "set (lru_caches s' ! i) \<subseteq> set others" using r(4) i(2) done_i by simp
    moreover have "\<forall>j. j \<notin> set (i # js) \<longrightarrow> lru_caches s' ! j = lru_caches s ! j" using r(4) l(4) s2(1) by simp
    ultimately show ?thesis using r(2,5) evicted_trans [OF ev2 r(3)] by auto
  qed
qed

lemma visit_order:
  assumes "round_robin s < length (lru_caches s)"
  shows "distinct (visit_order s)" "set (visit_order s) = {..< length (lru_caches s)}"
proof -
  let ?n = "length (lru_caches s)"
  have mod: "(round_robin s + k) mod ?n = (if round_robin s + k < ?n then round_robin s + k else round_robin s + k - ?n)" if "k < ?n" for k
    using that assms by (simp add: mod_if)
  have "inj_on (\<lambda>k. (round_robin s + k) mod ?n) (set [0..<?n])"
    using mod assms by (intro inj_onI) (auto split: if_splits)
  then show dist: "distinct (visit_order s)" by (simp add: visit_order_def distinct_map)
  have "set (visit_order s) \<subseteq> {..< ?n}" using assms by (auto simp: visit_order_def intro!: mod_less_divisor)
  moreover have "card (set (visit_order s)) = card {..< ?n}" using distinct_card [OF dist] by (simp add: visit_order_def)
  ultimately show "set (visit_order s) = {..< ?n}" by (intro card_subset_eq) auto
qed

lemma pinned_le_usage: "pinned s \<le> usage s"
  unfolding pinned_def usage_def by (rule sum_mono) simp

lemma pinned_eq_usage: "(\<And>p ob. objs s p = Some ob \<Longrightarrow> \<not> queued ob) \<Longrightarrow> pinned s = usage s"
  unfolding pinned_def usage_def by (rule sum.cong) auto

lemma binv_resize:
  assumes "binv dd td k s" "unat c = usage s + k'" "usage s + k' \<le> unat (memory_limit s)"
  shows "binv dd td k' (s\<lparr>current_memory_size := c\<rparr>)"
  using assms usage_cong [of "s\<lparr>current_memory_size := c\<rparr>" s] by (simp add: binv_def heap_ok_def queue_ok_def objs_ok_def LRUIdx_def)

text \<open>A request for memory never raises.  It keeps pinned objects and all contents.  When it succeeds, the requested memory is accounted
  and within the limit, and without locked objects it succeeds exactly when the memory fits beside the pinned objects.\<close>

lemma RequestSpace_spec:
  assumes inv: "binv dd td 0 s" and own: "own_ok own s"
  obtains ok t c where "RequestSpace own others need s = Inr (ok, t\<lparr>current_memory_size := c\<rparr>)" "evicted s t"
    "ok \<longrightarrow> binv dd td (unat need) (t\<lparr>current_memory_size := c\<rparr>)" "others = [] \<longrightarrow> ok = (pinned s + unat need \<le> unat (memory_limit s))"
proof -
  let ?free = "memory_limit s - current_memory_size s"
  have mem: "unat (current_memory_size s) = usage s" "usage s \<le> unat (memory_limit s)" using inv by (simp_all add: binv_def)
  then have free: "unat ?free = unat (memory_limit s) - usage s" by (simp add: unat64_sub word_le_nat_alt)
  show thesis
  proof (cases "need \<le> ?free")
    case True
    then have fit: "usage s + unat need \<le> unat (memory_limit s)" using free mem(2) by (simp add: word_le_nat_alt)
    then have "unat (current_memory_size s + need) = usage s + unat need"
      using mem(1) word64_less [of "memory_limit s"] by (simp add: unat64_add)
    then have "binv dd td (unat need) (s\<lparr>current_memory_size := current_memory_size s + need\<rparr>)" by (rule binv_resize [OF inv _ fit])
    moreover have "pinned s + unat need \<le> unat (memory_limit s)" using fit pinned_le_usage [of s] by simp
    moreover have "RequestSpace own others need s = Inr (True, s\<lparr>current_memory_size := current_memory_size s + need\<rparr>)"
      using True by (simp add: RequestSpace_def)
    ultimately show thesis by (intro that [of True "current_memory_size s + need" s]) simp_all
  next
    case False
    have q: "lru_caches s \<noteq> []" "round_robin s < length (lru_caches s)" using inv by (simp_all add: binv_def queue_ok_def)
    have "\<And>i. i \<in> set (visit_order s) \<Longrightarrow> i < length (lru_caches s)" using visit_order(2) [OF q(2)] by simp
    moreover have "unat ?free + unat (current_memory_size s) = unat (memory_limit s)" using free mem by simp
    ultimately obtain f t where r: "request_loop own others need ?free (visit_order s) 0 s = Inr (f, t)" "binv dd td (unat f) t" "evicted s t"
      "need \<le> f + ?free \<or> (\<forall>i \<in> set (visit_order s). set (lru_caches t ! i) \<subseteq> set others)"
      using request_loop_evicts [OF inv _ visit_order(1) [OF q(2)] own, of 0 ?free others need] by auto
    have frame: "memory_limit t = memory_limit s" "current_memory_size t = current_memory_size s" "length (lru_caches t) = length (lru_caches s)"
      "pinned t = pinned s"
      using r(3) by (simp_all add: evicted_def)
    have used: "usage s = usage t + unat f" using r(2) mem(1) frame(2) by (simp add: binv_def)
    then have sum: "unat (f + ?free) = unat f + unat ?free" using free mem(2) word64_less [of "memory_limit s"] by (intro unat64_add) simp
    let ?c = "current_memory_size t + (need - f)" and ?ok = "need \<le> f + ?free"
    have eq: "RequestSpace own others need s = Inr (?ok, t\<lparr>current_memory_size := ?c\<rparr>)"
      using False q(1) r(1) by (simp add: RequestSpace_def)
    have fit: "usage t + unat need \<le> unat (memory_limit s)" if ?ok
      using that sum free used mem(2) by (simp add: word_le_nat_alt)
    have ok: "binv dd td (unat need) (t\<lparr>current_memory_size := ?c\<rparr>)" if ?ok
    proof -
      have "unat (current_memory_size s - f) = usage t" using used mem(1) by (simp add: unat64_sub word_le_nat_alt)
      then have "unat (current_memory_size s - f + need) = usage t + unat need"
        using fit [OF that] word64_less [of "memory_limit s"] by (simp add: unat64_add)
      then have "unat ?c = usage t + unat need" using frame(2) by (simp add: algebra_simps)
      then show ?thesis using fit [OF that] frame(1) by (intro binv_resize [OF r(2)]) simp_all
    qed
    have "?ok \<longleftrightarrow> pinned s + unat need \<le> unat (memory_limit s)" if "others = []"
    proof (cases ?ok)
      case True
      then show ?thesis using fit [OF True] pinned_le_usage [of t] frame(4) by simp
    next
      case nok: False
      have empty: "lru_caches t ! i = []" if "i < length (lru_caches t)" for i
        using r(4) nok that \<open>others = []\<close> visit_order(2) [OF q(2)] frame(3) by simp
      have "\<not> queued ob" if "objs t p = Some ob" for p ob
      proof
        assume "queued ob"
        then have "p \<in> set (lru_caches t ! LRUIdx ob t)" using r(2) that LRUIdx_less [OF r(2), of ob] by (auto simp: binv_def queue_ok_def)
        then show False using empty [OF LRUIdx_less [OF r(2), of ob]] by simp
      qed
      then have "pinned t = usage t" by (rule pinned_eq_usage)
      then show ?thesis using nok sum free used mem(2) frame(4) by (simp add: word_le_nat_alt)
    qed
    then show thesis using eq r(3) ok by (intro that [of ?ok ?c t]) simp_all
  qed
qed

end
