(* ===== verification/Buffer_Steps.thy ===== *)
theory Buffer_Steps
  imports Buffer_Invariant
begin

text \<open>
  Every operation of the buffer manager keeps the invariant, and what it does to the contents of the objects.
\<close>

lemma binv_cong:
  assumes "objs s' = objs s" "buffer_map s' = buffer_map s" "next_ptr s' = next_ptr s" "lru_caches s' = lru_caches s"
    "round_robin s' = round_robin s" "temp_set s' = temp_set s" "clean_temp_set s' = clean_temp_set s" "clean_list s' = clean_list s" "bm_disk s' = bm_disk s"
    "current_memory_size s' = current_memory_size s" "memory_limit s' = memory_limit s"
  shows "binv dd td k s' = binv dd td k s"
  using assms usage_cong [OF assms(1)] by (simp add: binv_def heap_ok_def queue_ok_def objs_ok_def LRUIdx_def)

lemma binv_counters [simp]:
  "binv dd td k (s\<lparr>total_request_count := n\<rparr>) = binv dd td k s" "binv dd td k (s\<lparr>cache_miss_count := n\<rparr>) = binv dd td k s"
  by (rule binv_cong; simp)+

lemma contents_at_counters [simp]:
  "contents_at (s\<lparr>total_request_count := n\<rparr>) = contents_at s" "contents_at (s\<lparr>cache_miss_count := n\<rparr>) = contents_at s"
  "contents_at (s\<lparr>clean_list := l\<rparr>) = contents_at s" "contents_at (s\<lparr>clean_temp_set := l\<rparr>) = contents_at s"
  "contents_at (s\<lparr>current_memory_size := c\<rparr>) = contents_at s" "contents_at (set_lru i l s) = contents_at s"
  by (rule contents_at_cong; simp)+

lemma pinned_counters [simp]:
  "pinned (s\<lparr>total_request_count := n\<rparr>) = pinned s" "pinned (s\<lparr>cache_miss_count := n\<rparr>) = pinned s"
  by (rule pinned_cong; simp)+

lemma own_ok_Some: "objs s p = Some ob \<Longrightarrow> \<not> queued ob \<Longrightarrow> own_ok (Some p) s"
  by (simp add: own_ok_def)

lemma paths_absolute:
  assumes "binv dd td k s" "objs s p = Some ob"
  shows "is_absolute (obj_path sp ob)"
proof -
  have "dirs_ok dd td" "named dd td (bo_worker ob)" using assms by (auto simp: binv_def heap_ok_def)
  then show ?thesis
    using file_path_named(1) [of dd td "bo_worker ob" sp] by (cases dd; cases td) (auto simp: is_absolute_def dirs_ok_def starts_with_def)
qed

lemma obj_ok_kept:
  assumes "obj_ok t ct cl df sf ob" "bo_type ob' = kTemp \<longleftrightarrow> bo_type ob = kTemp" "bo_status ob' = kClean \<longleftrightarrow> bo_status ob = kClean"
    and base: "same_base (wk ob') (wk ob)" and "worker_ok (wk ob')" "status_ok ob'"
    and "bo_status ob \<noteq> kClean \<Longrightarrow> bo_type ob' \<in> {kPersistent, kToMmap, kMmap} \<Longrightarrow> (bo_type ob \<in> {kPersistent, kToMmap, kMmap} \<longrightarrow> holds df ob) \<Longrightarrow> holds df ob'"
    and "bo_status ob \<noteq> kClean \<Longrightarrow> bo_type ob = kTemp \<Longrightarrow> holds sf ob \<Longrightarrow> holds sf ob'"
  shows "obj_ok t ct cl df sf ob'"
proof -
  have "stale_ok (wk ob') = stale_ok (wk ob)" "GetMemoryCost (wk ob') = GetMemoryCost (wk ob)"
    using same_base_stale [OF base] same_base_cost [OF base] by simp_all
  with assms(1-3,5-8) show ?thesis unfolding obj_ok_def by (simp cong: if_cong)
qed

lemma obj_ok_worker: "obj_ok t ct cl df sf ob \<Longrightarrow> worker_ok (wk ob)" and obj_ok_status: "obj_ok t ct cl df sf ob \<Longrightarrow> status_ok ob"
  by (simp_all add: obj_ok_def)

subsection \<open>Loading\<close>

text \<open>The contents of a live object are always defined.\<close>

lemma obj_content_defined:
  assumes inv: "binv dd td k s" and p: "objs s p = Some ob" and live: "bo_status ob \<noteq> kClean"
  shows "obj_content s ob \<noteq> None"
proof (cases "data_null (wk ob)")
  case False
  then show ?thesis using any_worker.contents_null [of "wk ob"] by (simp add: obj_content_def content_of_data)
next
  case null: True
  note ok = binv_obj [OF inv p]
  show ?thesis
  proof (cases "bo_status ob = kNew")
    case True
    then have "worker_fresh (wk ob)" using ok by (simp add: obj_ok_def status_ok_def)
    then obtain w where "AllocateInMemory (wk ob) = Inr w" "\<not> data_null w" using any_worker.alloc_ok [OF null] by blast
    then show ?thesis using True null any_worker.contents_null [of w] by (simp add: obj_content_def content_of_def)
  next
    case False
    then have "bo_type ob \<in> {kPersistent, kTemp, kMmap}" using ok null live by (auto simp: obj_ok_def status_ok_def split: BufferStatus.splits)
    then have "holds (if bo_type ob = kTemp then bm_disk s (obj_path True ob) else bm_disk s (obj_path False ob)) ob"
      using ok live by (auto simp: obj_ok_def)
    then obtain f c where "(if bo_type ob = kTemp then bm_disk s (obj_path True ob) else bm_disk s (obj_path False ob)) = Some f" "any_worker.stored f (wk ob) c"
      by (auto simp: holds_def)
    then have "obj_content s ob = c" "c \<noteq> None"
      using content_of_stored [OF null] live False by (auto simp: obj_content_def any_worker.stored_def)
    then show ?thesis by simp
  qed
qed

text \<open>The data of an object has been brought to memory; the accounted memory \<open>k\<close> covers it.\<close>

lemma pin_update:
  assumes inv: "binv dd td k s" and p: "objs s p = Some ob" and q: "\<not> queued ob" and live: "bo_status ob \<noteq> kClean" "bo_type ob \<noteq> kMmap"
    and w: "\<not> data_null w" "worker_ok w" "same_base w (wk ob)" "worker_contents w = obj_content s ob" "k + mem_cost ob = GetMemoryCost w"
  shows "binv dd td 0 (set_obj p (pin (set_worker w ob)) s)" "contents_at (set_obj p (pin (set_worker w ob)) s) q = contents_at s q"
    "handle_contents \<lparr>bh_obj = Some p, bh_data = mem_ptr (pin (set_worker w ob))\<rparr> (set_obj p (pin (set_worker w ob)) s) = contents_at s p"
proof -
  let ?ob = "pin (set_worker w ob)"
  let ?s = "set_obj p ?ob s"
  note ok = binv_obj [OF inv p]
  have wk: "wk ?ob = w" "bo_type ?ob = bo_type ob" "bo_status ?ob = kLoaded" "bo_rc ?ob = bo_rc ob + 1" "same_names ob ?ob"
    by (simp_all add: pin_def same_names_def set_worker_def)
  have hold: "holds fl ?ob" if H: "holds fl ob" "fl = (if bo_type ob = kTemp then bm_disk s (obj_path True ob) else bm_disk s (obj_path False ob))"
    "bo_status ob \<noteq> kNew" for fl
  proof -
    obtain f c where f: "fl = Some f" "any_worker.stored f (wk ob) c" "\<not> data_null (wk ob) \<Longrightarrow> worker_contents (wk ob) = c"
      using H(1) by (auto simp: holds_def)
    have "obj_content s ob = c"
    proof (cases "data_null (wk ob)")
      case True
      then show ?thesis using content_of_stored [OF True, of _ _ f c] f(1,2) H(2,3) live by (simp add: obj_content_def split: if_splits)
    qed (use f(3) in \<open>simp add: obj_content_def content_of_data\<close>)
    then show ?thesis using f w same_base_stored [OF w(3)] live by (auto simp: holds_def wk)
  qed
  have new: "bo_status ob \<noteq> kNew" if "bo_type ob \<noteq> kEphemeral" using ok that by (auto simp: obj_ok_def status_ok_def)
  have "obj_ok (p \<in> set (temp_set s)) (p \<in> set (clean_temp_set s)) (p \<in> set (clean_list s)) (bm_disk s (obj_path False ob)) (bm_disk s (obj_path True ob)) ?ob"
  proof (rule obj_ok_kept [OF ok])
    show "status_ok ?ob" using w(1) live(2) by (simp add: status_ok_def wk)
  qed (use w(2,3) live wk hold new in auto)
  moreover have "\<not> queued ?ob" "mem_cost ?ob = GetMemoryCost w" using w(1) by (simp_all add: queued_def wk mem_cost_def)
  ultimately have u: "update_ok dd td k p ob 0 ?ob s ?s"
    using lru_unqueued [OF inv p q, of ?ob] inv w(5) wk(5) by (simp add: update_ok_def binv_def heap_ok_def)
  show "binv dd td 0 ?s" by (rule binv_update(1) [OF inv p u])
  have self: "contents_at ?s p = contents_at s p" using p w by (simp add: contents_at_def obj_content_def content_of_data wk)
  show "contents_at ?s q = contents_at s q" using binv_update(2) [OF inv p u, of q] self by (cases "q = p") simp_all
  show "handle_contents \<lparr>bh_obj = Some p, bh_data = mem_ptr ?ob\<rparr> ?s = contents_at s p"
    using p w by (simp add: handle_contents_def mem_ptr_def wk contents_at_def)
qed

definition loaded :: "string \<Rightarrow> string \<Rightarrow> nat \<Rightarrow> BufferManager \<Rightarrow> BufferHandle \<Rightarrow> BufferManager \<Rightarrow> bool" where
  "loaded dd td p s h s' \<longleftrightarrow> binv dd td 0 s' \<and> memory_limit s' = memory_limit s \<and> (\<forall>q. contents_at s' q = contents_at s q) \<and> bh_obj h = Some p \<and>
     handle_contents h s' = contents_at s p \<and> (\<exists>ob. objs s' p = Some ob \<and> bo_status ob = kLoaded)"

lemma loadedI:
  assumes "binv dd td k s" "objs s p = Some ob" "\<not> queued ob" "bo_status ob \<noteq> kClean" "bo_type ob \<noteq> kMmap"
    and "\<not> data_null w" "worker_ok w" "same_base w (wk ob)" "worker_contents w = obj_content s ob" "k + mem_cost ob = GetMemoryCost w"
    and "\<And>q. contents_at s q = contents_at s0 q" "memory_limit s = memory_limit s0"
  shows "loaded dd td p s0 \<lparr>bh_obj = Some p, bh_data = mem_ptr (pin (set_worker w ob))\<rparr> (set_obj p (pin (set_worker w ob)) s)"
  using pin_update [OF assms(1-10)] assms(11,12) by (simp add: loaded_def pin_def)

text \<open>Memory is reserved for an object that is not in memory.\<close>

lemma reserve_spec:
  assumes inv: "binv dd td 0 s" and p: "objs s p = Some ob" "\<not> queued ob"
  shows "(\<exists>s1. reserve p others ob s = Inr s1 \<and> binv dd td (GetMemoryCost (wk ob)) s1 \<and> objs s1 p = Some ob \<and> (\<forall>q. contents_at s1 q = contents_at s q) \<and> memory_limit s1 = memory_limit s \<and>
            (others = [] \<longrightarrow> pinned s + GetMemoryCost (wk ob) \<le> unat (memory_limit s))) \<or>
         reserve p others ob s = Inl (UnrecoverableError ''Out of memory.'') \<and> (others = [] \<longrightarrow> unat (memory_limit s) < pinned s + GetMemoryCost (wk ob))"
proof -
  let ?s = "s\<lparr>cache_miss_count := cache_miss_count s + 1\<rparr>"
  have inv': "binv dd td 0 ?s" "own_ok (Some p) ?s" using inv p by (simp_all add: own_ok_Some)
  obtain ok t c where r: "RequestSpace (Some p) others (GetBufferSize ob) ?s = Inr (ok, t\<lparr>current_memory_size := c\<rparr>)" "evicted ?s t"
    "ok \<longrightarrow> binv dd td (unat (GetBufferSize ob)) (t\<lparr>current_memory_size := c\<rparr>)"
    "others = [] \<longrightarrow> ok = (pinned ?s + unat (GetBufferSize ob) \<le> unat (memory_limit ?s))"
    by (rule RequestSpace_spec [OF inv', of others "GetBufferSize ob"])
  have size: "unat (GetBufferSize ob) = GetMemoryCost (wk ob)"
    using binv_obj [OF inv p(1)] by (simp add: GetBufferSize_def obj_ok_def unat64_of_nat)
  have kept: "objs t p = Some ob" "\<And>q. contents_at t q = contents_at s q" "memory_limit t = memory_limit s" using r(2) p by (simp_all add: evicted_def)
  show ?thesis
  proof (cases ok)
    case True
    then show ?thesis using r size kept by (simp add: reserve_def)
  next
    case False
    then show ?thesis using r size by (simp add: reserve_def not_le)
  qed
qed

lemma RemoveFromGCQueue_queued:
  assumes "binv dd td k s" "objs s p = Some ob" "queued ob"
  shows "RemoveFromGCQueue p s = Inr (True, set_lru (LRUIdx ob s) (remove1 p (lru_caches s ! LRUIdx ob s)) s)"
proof -
  have "p \<in> set (lru_caches s ! LRUIdx ob s)" using assms LRUIdx_less [OF assms(1), of ob] by (auto simp: binv_def queue_ok_def)
  then show ?thesis using assms(2) by (simp add: RemoveFromGCQueue_def LRUCache_RemoveFromGCQueue_def)
qed

lemma load_queued:
  assumes inv: "binv dd td 0 s" and p: "objs s p = Some ob" "queued ob"
  shows "loaded dd td p s \<lparr>bh_obj = Some p, bh_data = mem_ptr (pin ob)\<rparr> (set_obj p (pin ob) (set_lru (LRUIdx ob s) (remove1 p (lru_caches s ! LRUIdx ob s)) s))"
proof -
  let ?s = "set_obj p (pin ob) (set_lru (LRUIdx ob s) (remove1 p (lru_caches s ! LRUIdx ob s)) s)"
  note ok = binv_obj [OF inv p(1)]
  have pin: "wk (pin ob) = wk ob" "bo_type (pin ob) = bo_type ob" "bo_status (pin ob) = kLoaded" "bo_rc (pin ob) = bo_rc ob + 1" "same_names ob (pin ob)"
    by (simp_all add: pin_def same_names_def)
  have st: "bo_status ob = kUnloaded" "bo_type ob \<noteq> kMmap" "\<not> data_null (wk ob)" using ok p(2) by (auto simp: queued_def obj_ok_def status_ok_def)
  have "obj_ok (p \<in> set (temp_set s)) (p \<in> set (clean_temp_set s)) (p \<in> set (clean_list s)) (bm_disk s (obj_path False ob)) (bm_disk s (obj_path True ob)) (pin ob)"
    by (rule obj_ok_kept [OF ok]) (use ok st in \<open>simp_all add: status_ok_def holds_def pin obj_ok_def\<close>)
  moreover have "\<not> queued (pin ob)" "mem_cost (pin ob) = mem_cost ob" by (simp_all add: queued_def mem_cost_def pin)
  ultimately have u: "update_ok dd td 0 p ob 0 (pin ob) s ?s"
    using lru_removed [OF inv p(1), of "pin ob" "LRUIdx ob s"] LRUIdx_less [OF inv, of ob] inv pin(5) by (simp add: update_ok_def binv_def heap_ok_def)
  have "contents_at ?s p = contents_at s p" using p st by (simp add: contents_at_def obj_content_def content_of_data pin)
  then have "contents_at ?s q = contents_at s q" for q using binv_update(2) [OF inv p(1) u, of q] by (cases "q = p") simp_all
  then show ?thesis
    using binv_update(1) [OF inv p(1) u] p(1) st
    by (simp add: loaded_def handle_contents_def mem_ptr_def pin contents_at_def obj_content_def content_of_data)
qed

lemma read_back:
  assumes inv: "binv dd td k s" and p: "objs s p = Some ob" and st: "bo_status ob = kFreed" "bo_type ob \<noteq> kMmap"
  obtains w where "ReadFromFile (bo_type ob \<noteq> kPersistent) (bo_worker ob) (bm_disk s) = Inr ((bo_worker ob)\<lparr>fw_worker := w\<rparr>)"
    "\<not> data_null w" "worker_ok w" "same_base w (wk ob)" "worker_contents w = obj_content s ob"
proof -
  note ok = binv_obj [OF inv p]
  have ty: "bo_type ob \<in> {kPersistent, kTemp}" "data_null (wk ob)" using ok st by (auto simp: obj_ok_def status_ok_def)
  then have "holds (bm_disk s (obj_path (bo_type ob \<noteq> kPersistent) ob)) ob" using ok st(1) by (auto simp: obj_ok_def)
  then obtain f c where f: "bm_disk s (obj_path (bo_type ob \<noteq> kPersistent) ob) = Some f" "any_worker.stored f (wk ob) c" by (auto simp: holds_def)
  obtain w where w: "ReadFromFileImpl f (wk ob) = Inr w" "worker_contents w = c" "worker_ok w" "freed_worker w = freed_worker (wk ob)" "\<not> data_null w"
    by (rule any_worker.read_stored [OF f(2) ty(2)])
  have "obj_content s ob = c" using content_of_stored [OF ty(2), of _ _ f c] ty f st(1) by (auto simp: obj_content_def)
  then show thesis using w f(1) freed_same_base [OF w(4)] by (intro that [of w]) (simp_all add: ReadFromFile_def)
qed

lemma load_memory_spec:
  assumes inv: "binv dd td 0 s" and p: "objs s p = Some ob" and live: "bo_type ob \<noteq> kMmap" "bo_status ob \<noteq> kClean"
  shows "(\<exists>h s'. load_memory p others ob s = Inr (h, s') \<and> loaded dd td p s h s' \<and>
            (others = [] \<longrightarrow> bo_status ob \<in> {kFreed, kNew} \<longrightarrow> pinned s + GetMemoryCost (wk ob) \<le> unat (memory_limit s))) \<or>
         load_memory p others ob s = Inl (UnrecoverableError ''Out of memory.'') \<and> bo_status ob \<in> {kFreed, kNew} \<and>
            (others = [] \<longrightarrow> unat (memory_limit s) < pinned s + GetMemoryCost (wk ob))"
proof -
  note ok = binv_obj [OF inv p]
  show ?thesis
  proof (cases "bo_status ob")
    case kLoaded
    have w: "set_worker (wk ob) ob = ob" by (simp add: set_worker_def)
    have "\<not> data_null (wk ob)" "worker_ok (wk ob)" using ok kLoaded live by (simp_all add: obj_ok_def status_ok_def)
    then have "loaded dd td p s \<lparr>bh_obj = Some p, bh_data = mem_ptr (pin ob)\<rparr> (set_obj p (pin ob) s)"
      using loadedI [OF inv p, of "wk ob" s, unfolded w] kLoaded live by (simp add: queued_def obj_content_def content_of_data mem_cost_def)
    then show ?thesis using kLoaded by (simp add: load_memory_def Let_def)
  next
    case kUnloaded
    then have q: "queued ob" using live by (simp add: queued_def)
    then show ?thesis using kUnloaded load_queued [OF inv p q] RemoveFromGCQueue_queued [OF inv p q] by (simp add: load_memory_def Let_def)
  next
    case kFreed
    have st: "bo_type ob \<noteq> kEphemeral" "data_null (wk ob)" "\<not> queued ob" using ok kFreed by (auto simp: obj_ok_def status_ok_def queued_def)
    consider (oom) "reserve p others ob s = Inl (UnrecoverableError ''Out of memory.'')" "others = [] \<Longrightarrow> unat (memory_limit s) < pinned s + GetMemoryCost (wk ob)"
      | (got) s1 where "reserve p others ob s = Inr s1" "binv dd td (GetMemoryCost (wk ob)) s1" "objs s1 p = Some ob" "\<And>q. contents_at s1 q = contents_at s q" "memory_limit s1 = memory_limit s"
          "others = [] \<Longrightarrow> pinned s + GetMemoryCost (wk ob) \<le> unat (memory_limit s)"
      using reserve_spec [OF inv p st(3), of others] by blast
    then show ?thesis
    proof cases
      case oom
      then show ?thesis using kFreed by (simp add: load_memory_def)
    next
      case got
      obtain w where w: "ReadFromFile (bo_type ob \<noteq> kPersistent) (bo_worker ob) (bm_disk s1) = Inr ((bo_worker ob)\<lparr>fw_worker := w\<rparr>)"
        "\<not> data_null w" "worker_ok w" "same_base w (wk ob)" "worker_contents w = obj_content s1 ob"
        by (rule read_back [OF got(2,3) kFreed live(1)])
      have "loaded dd td p s \<lparr>bh_obj = Some p, bh_data = mem_ptr (pin (set_worker w ob))\<rparr> (set_obj p (pin (set_worker w ob)) s1)"
        by (rule loadedI [OF got(2,3) st(3) live(2,1) w(2-5) _ got(4,5)]) (simp add: mem_cost_def st(2) same_base_cost [OF w(4)])
      then show ?thesis using kFreed got(1,6) w(1) st(1) by (simp add: load_memory_def Let_def set_worker_def)
    qed
  next
    case kNew
    have st: "worker_fresh (wk ob)" "data_null (wk ob)" "\<not> queued ob" using ok kNew by (auto simp: obj_ok_def status_ok_def queued_def)
    obtain w where w: "AllocateInMemory (wk ob) = Inr w" "worker_ok w" "\<not> data_null w" "freed_worker w = wk ob" using any_worker.alloc_ok [OF st(2,1)] by blast
    consider (oom) "reserve p others ob s = Inl (UnrecoverableError ''Out of memory.'')" "others = [] \<Longrightarrow> unat (memory_limit s) < pinned s + GetMemoryCost (wk ob)"
      | (got) s1 where "reserve p others ob s = Inr s1" "binv dd td (GetMemoryCost (wk ob)) s1" "objs s1 p = Some ob" "\<And>q. contents_at s1 q = contents_at s q" "memory_limit s1 = memory_limit s"
          "others = [] \<Longrightarrow> pinned s + GetMemoryCost (wk ob) \<le> unat (memory_limit s)"
      using reserve_spec [OF inv p st(3), of others] by blast
    then show ?thesis
    proof cases
      case oom
      then show ?thesis using kNew by (simp add: load_memory_def)
    next
      case got
      have base: "same_base w (wk ob)" using freed_same_base [of w "wk ob"] w(4) any_worker.freed_null [OF st(2)] by simp
      have "loaded dd td p s \<lparr>bh_obj = Some p, bh_data = mem_ptr (pin (set_worker w ob))\<rparr> (set_obj p (pin (set_worker w ob)) s1)"
        by (rule loadedI [OF got(2,3) st(3) live(2,1) w(3,2) base _ _ got(4,5)])
          (simp_all add: mem_cost_def st(2) same_base_cost [OF base] obj_content_def content_of_def kNew w(1))
      then show ?thesis using kNew got(1,6) w(1) by (simp add: load_memory_def Let_def)
    qed
  next
    case kClean
    then show ?thesis using live by simp
  qed
qed

text \<open>A mapped object shows the contents of its file.\<close>

lemma Munmap_same:
  assumes "Munmap w = Inr w1" "data_null (fw_worker w)"
  shows "\<exists>x a. w1 = w\<lparr>fw_worker := x, fw_mmap_addr := a\<rparr> \<and> same_base x (fw_worker w) \<and> data_null x"
proof (cases "w1 = w")
  case True
  then show ?thesis using assms(2) by (intro exI [of _ "fw_worker w"] exI [of _ "fw_mmap_addr w"]) simp
next
  case False
  then obtain y where "FreeFromMmapImpl (fw_worker w) = Inr y" "w1 = w\<lparr>fw_worker := mmap_data_reset y, fw_mmap_addr := None\<rparr>"
    using assms(1) by (auto simp: Munmap_def res_simps split: if_splits)
  then show ?thesis using FreeFromMmap_same assms(2) by blast
qed

lemma Mmap_shows:
  assumes m: "Mmap w d = Inr w'" and f: "d (file_path False w) = Some f" "any_worker.stored f (fw_worker w) c" and null: "data_null (fw_worker w)"
  shows "\<exists>x a. w' = w\<lparr>fw_worker := x, fw_mmap_addr := a\<rparr> \<and> mmap_contents x = c \<and> same_base x (fw_worker w) \<and> data_null x"
proof -
  obtain w1 where w1: "(if fw_mmap_addr w \<noteq> None \<or> \<not> mmap_data_null (fw_worker w) then Munmap w else Inr w) = Inr w1"
    using m by (auto simp: Mmap_def res_simps)
  have "\<exists>x a. w1 = w\<lparr>fw_worker := x, fw_mmap_addr := a\<rparr> \<and> same_base x (fw_worker w) \<and> data_null x"
  proof (cases "Munmap w = Inr w1")
    case True
    then show ?thesis by (rule Munmap_same [OF _ null])
  next
    case False
    then have "w1 = w" using w1 by (simp split: if_splits)
    then show ?thesis using null by (intro exI [of _ "fw_worker w"] exI [of _ "fw_mmap_addr w"]) simp
  qed
  then obtain x a where x: "w1 = w\<lparr>fw_worker := x, fw_mmap_addr := a\<rparr>" "same_base x (fw_worker w)" "data_null x" by blast
  then have path: "file_path False w1 = file_path False w" by simp
  obtain w2 where w2: "ReadFromMmapImpl f x = Inr w2" "w' = w1\<lparr>fw_worker := w2, fw_mmap_addr := Some f\<rparr>"
    using m w1 f(1) path x(1) by (auto simp: Mmap_def res_simps Let_def split: if_splits)
  have "any_worker.stored f x c" using f(2) same_base_stored [OF x(2)] by simp
  from ReadFromMmap_stored [OF this w2(1) x(3)] show ?thesis
    using w2(2) x(1) same_base_trans [OF _ x(2)] by (intro exI [of _ w2] exI [of _ "Some f"]) simp
qed

lemma load_mmap_spec:
  assumes inv: "binv dd td 0 s" and p: "objs s p = Some ob" and ty: "bo_type ob = kMmap" and r: "load_mmap p ob s = Inr (h, s')"
  shows "loaded dd td p s h s'"
proof -
  note ok = binv_obj [OF inv p]
  obtain w where w: "(case bo_status ob of kUnloaded \<Rightarrow> Inr (bo_worker ob) | kLoaded \<Rightarrow> Inr (bo_worker ob)
      | kFreed \<Rightarrow> Mmap (bo_worker ob) (bm_disk s) | kNew \<Rightarrow> Mmap (bo_worker ob) (bm_disk s) | kClean \<Rightarrow> Inl (UnrecoverableError ''Invalid status'')) = Inr w"
    and h: "h = \<lparr>bh_obj = Some p, bh_data = mmap_ptr (pin (ob\<lparr>bo_worker := w\<rparr>))\<rparr>" and s': "s' = set_obj p (pin (ob\<lparr>bo_worker := w\<rparr>)) s"
    using r by (auto simp: load_mmap_def res_simps Let_def)
  let ?ob = "pin (ob\<lparr>bo_worker := w\<rparr>)"
  have st: "bo_status ob \<noteq> kClean" "bo_status ob \<noteq> kNew" "data_null (wk ob)" using w ok ty by (auto simp: obj_ok_def status_ok_def split: BufferStatus.splits)
  then obtain f c where f: "bm_disk s (obj_path False ob) = Some f" "any_worker.stored f (wk ob) c"
    "bo_status ob \<in> {kLoaded, kUnloaded} \<Longrightarrow> mmap_contents (wk ob) = c"
    using ok ty by (auto simp: obj_ok_def holds_def)
  have "\<exists>x a. w = (bo_worker ob)\<lparr>fw_worker := x, fw_mmap_addr := a\<rparr> \<and> mmap_contents x = c \<and> same_base x (wk ob) \<and> data_null x"
  proof (cases "bo_status ob \<in> {kLoaded, kUnloaded}")
    case True
    then show ?thesis using w f(3) [OF True] st(3) by (intro exI [of _ "wk ob"] exI [of _ "fw_mmap_addr (bo_worker ob)"]) auto
  next
    case False
    then have "Mmap (bo_worker ob) (bm_disk s) = Inr w" using w st by (cases "bo_status ob") auto
    from Mmap_shows [OF this f(1,2) st(3)] show ?thesis .
  qed
  then obtain x a where x: "w = (bo_worker ob)\<lparr>fw_worker := x, fw_mmap_addr := a\<rparr>" "mmap_contents x = c" "same_base x (wk ob)" "data_null x" by blast
  have wk: "wk ?ob = x" "bo_type ?ob = kMmap" "bo_status ?ob = kLoaded" "bo_rc ?ob = bo_rc ob + 1" "same_names ob ?ob"
    using x(1) ty by (simp_all add: pin_def same_names_def)
  have "any_worker.stored f x c" using f(2) same_base_stored [OF x(3)] by simp
  moreover have "c \<noteq> None" using f(2) by (simp add: any_worker.stored_def)
  ultimately have cx: "any_worker.stored f x c" "c \<noteq> None" .
  have "worker_ok x" using ok x(3,4) st(3) same_base_ok [OF x(3)] by (simp add: obj_ok_def)
  then have "obj_ok (p \<in> set (temp_set s)) (p \<in> set (clean_temp_set s)) (p \<in> set (clean_list s)) (bm_disk s (obj_path False ob)) (bm_disk s (obj_path True ob)) ?ob"
    using ty st f(1) cx x(2-4) by (intro obj_ok_kept [OF ok]) (simp_all add: status_ok_def holds_def wk)
  moreover have "\<not> queued ?ob" "\<not> queued ob" "mem_cost ?ob = 0" "mem_cost ob = 0" using ty x(4) st(3) by (simp_all add: queued_def wk mem_cost_def)
  ultimately have u: "update_ok dd td 0 p ob 0 ?ob s s'"
    using lru_unqueued [OF inv p, of ?ob] inv wk(5) by (simp add: update_ok_def binv_def heap_ok_def s')
  have content: "obj_content s ob = c" using content_of_stored [OF st(3), of _ _ f c] f ty st by (simp add: obj_content_def)
  have "obj_content s' ?ob = c" using content_of_stored [of ?ob _ _ f c] f(1) cx(1) x(4) wk same_names_path(1) [OF wk(5)] by (simp add: obj_content_def s')
  then have "contents_at s' q = contents_at s q" for q
    using binv_update(2) [OF inv p u, of q] p content by (cases "q = p") (simp_all add: contents_at_def s')
  moreover have "handle_contents h s' = contents_at s p"
    using p content cx(2) x(2) by (simp add: h s' handle_contents_def mmap_ptr_def wk mmap_null contents_at_def)
  ultimately show ?thesis using binv_update(1) [OF inv p u] wk(3) by (simp add: loaded_def h s')
qed

subsection \<open>Changes of one object\<close>

text \<open>What an operation on the object \<open>p\<close> does: the invariant holds, other contents are kept, and \<open>c\<close> are the contents of \<open>p\<close>.\<close>

definition changed :: "string \<Rightarrow> string \<Rightarrow> nat \<Rightarrow> content option \<Rightarrow> BufferManager \<Rightarrow> BufferManager \<Rightarrow> bool" where
  "changed dd td p c s s' \<longleftrightarrow> binv dd td 0 s' \<and> memory_limit s' = memory_limit s \<and> (\<forall>q. q \<noteq> p \<longrightarrow> contents_at s' q = contents_at s q) \<and> contents_at s' p = c"

lemma changedI:
  assumes inv: "binv dd td k s" and p: "objs s p = Some ob" and u: "update_ok dd td k p ob 0 ob' s s'" and c: "obj_content s' ob' = c"
  shows "changed dd td p c s s'"
proof -
  have "objs s' p = Some ob'" "memory_limit s' = memory_limit s" using u by (simp_all add: update_ok_def)
  then show ?thesis using binv_update [OF inv p u] c by (simp add: changed_def contents_at_def)
qed

lemma changed_cong:
  assumes "changed dd td p c t s'" "contents_at t = contents_at s" "memory_limit t = memory_limit s"
  shows "changed dd td p c s s'"
  using assms by (simp add: changed_def)

lemma set_obj_changed:
  assumes inv: "binv dd td 0 s" and p: "objs s p = Some ob"
    and same: "same_names ob ob'" "queued ob' = queued ob" "mem_cost ob' = mem_cost ob"
    and ok: "obj_ok (p \<in> set (temp_set s)) (p \<in> set (clean_temp_set s)) (p \<in> set (clean_list s)) (bm_disk s (obj_path False ob)) (bm_disk s (obj_path True ob)) ob'"
    and c: "content_of (bm_disk s (obj_path False ob)) (bm_disk s (obj_path True ob)) ob' = c"
  shows "changed dd td p c s (set_obj p ob' s)"
proof (rule changedI [OF inv p])
  show "update_ok dd td 0 p ob 0 ob' s (set_obj p ob' s)"
    using lru_kept [OF inv p same(2) [symmetric]] inv same(1,3) ok by (simp add: update_ok_def binv_def heap_ok_def)
  show "obj_content (set_obj p ob' s) ob' = c" using c same_names_path(1) [OF same(1)] by (simp add: obj_content_def)
qed

lemma rc_irrelevant [simp]:
  "holds f (ob\<lparr>bo_rc := n\<rparr>) = holds f ob" "holds f (ob\<lparr>bo_obj_rc := n\<rparr>) = holds f ob"
  "content_of df sf (ob\<lparr>bo_rc := n\<rparr>) = content_of df sf ob" "content_of df sf (ob\<lparr>bo_obj_rc := n\<rparr>) = content_of df sf ob"
  by (simp_all add: holds_def content_of_def cong: if_cong option.case_cong)

lemma counts_changed:
  assumes inv: "binv dd td 0 s" and p: "objs s p = Some ob"
    and ob': "ob' = ob\<lparr>bo_rc := n\<rparr> \<and> bo_status ob = kLoaded \<and> 0 < n \<or> ob' = ob\<lparr>bo_obj_rc := n\<rparr>"
  shows "changed dd td p (contents_at s p) s (set_obj p ob' s)"
proof -
  note ok = binv_obj [OF inv p]
  have "status_ok ob'" using obj_ok_status [OF ok] ob' by (auto simp: status_ok_def cong: BufferStatus.case_cong)
  then have "obj_ok (p \<in> set (temp_set s)) (p \<in> set (clean_temp_set s)) (p \<in> set (clean_list s)) (bm_disk s (obj_path False ob)) (bm_disk s (obj_path True ob)) ob'"
    using ob' obj_ok_worker [OF ok] by (intro obj_ok_kept [OF ok]) auto
  then show ?thesis
    using ob' p by (intro set_obj_changed [OF inv p]) (auto simp: same_names_def queued_def mem_cost_def contents_at_def obj_content_def)
qed

lemma LoadInner_changed:
  assumes "binv dd td 0 s" "objs s p = Some ob" "bo_status ob = kLoaded"
  shows "\<exists>s'. LoadInner p s = Inr s' \<and> changed dd td p (contents_at s p) s s'"
  using counts_changed [OF assms(1,2), of "ob\<lparr>bo_rc := bo_rc ob + 1\<rparr>" "bo_rc ob + 1"] assms(2,3) by (simp add: LoadInner_def)

lemma AddObjRc_changed:
  assumes "binv dd td 0 s" "objs s p = Some ob"
  shows "\<exists>s'. AddObjRc p s = Inr s' \<and> changed dd td p (contents_at s p) s s'"
  using counts_changed [OF assms, of "ob\<lparr>bo_obj_rc := bo_obj_rc ob + 1\<rparr>" "bo_obj_rc ob + 1"] assms(2) by (simp add: AddObjRc_def)

text \<open>The data of an object that is no longer needed is dropped; its accounted memory goes with it.\<close>

lemma size_within:
  assumes inv: "binv dd td 0 s" and p: "objs s p = Some ob" "\<not> data_null (wk ob)"
  shows "unat (GetBufferSize ob) = mem_cost ob" "GetBufferSize ob \<le> current_memory_size s"
    "unat (current_memory_size s - GetBufferSize ob) = unat (current_memory_size s) - mem_cost ob"
proof -
  have fin: "finite (dom (objs s))" "unat (current_memory_size s) = usage s" using inv by (simp_all add: binv_def heap_ok_def)
  show size: "unat (GetBufferSize ob) = mem_cost ob"
    using binv_obj [OF inv p(1)] p(2) by (simp add: GetBufferSize_def mem_cost_def obj_ok_def unat64_of_nat)
  show le: "GetBufferSize ob \<le> current_memory_size s" using cost_le_usage [OF fin(1) p(1)] fin(2) size by (simp add: word_le_nat_alt)
  show "unat (current_memory_size s - GetBufferSize ob) = unat (current_memory_size s) - mem_cost ob" using le size by (simp add: unat64_sub)
qed

lemma drop_to_mmap:
  assumes inv: "binv dd td 0 s" and p: "objs s p = Some ob" "\<not> data_null (wk ob)" and ty: "bo_type ob \<in> {kPersistent, kToMmap}" "bo_status ob \<noteq> kClean"
    and ob': "ob' = ob\<lparr>bo_rc := 0, bo_worker := (bo_worker ob)\<lparr>fw_worker := freed_worker (wk ob)\<rparr>, bo_status := kFreed, bo_type := kMmap\<rparr>"
    and l: "lru = (if queued ob then (lru_caches s)[LRUIdx ob s := remove1 p (lru_caches s ! LRUIdx ob s)] else lru_caches s)"
  shows "changed dd td p (contents_at s p) s
    (s\<lparr>lru_caches := lru, current_memory_size := current_memory_size s - GetBufferSize ob, objs := (objs s)(p \<mapsto> ob')\<rparr>)"
proof -
  note ok = binv_obj [OF inv p(1)]
  have wk: "wk ob' = freed_worker (wk ob)" "bo_type ob' = kMmap" "bo_status ob' = kFreed" "bo_rc ob' = 0" "same_names ob ob'"
    by (simp_all add: ob' same_names_def)
  obtain f where f: "bm_disk s (obj_path False ob) = Some f" "any_worker.stored f (wk ob) (worker_contents (wk ob))"
    using ok p(2) ty by (auto simp: obj_ok_def holds_def)
  then have f': "any_worker.stored f (freed_worker (wk ob)) (worker_contents (wk ob))" using same_base_stored [of "freed_worker (wk ob)" "wk ob"] by simp
  have "obj_ok (p \<in> set (temp_set s)) (p \<in> set (clean_temp_set s)) (p \<in> set (clean_list s)) (bm_disk s (obj_path False ob)) (bm_disk s (obj_path True ob)) ob'"
    using ty f(1) f' worker_ok_freed [OF obj_ok_worker [OF ok]] by (intro obj_ok_kept [OF ok]) (auto simp: status_ok_def holds_def wk any_worker.freed)
  moreover have nq: "\<not> queued ob'" "mem_cost ob' = 0" by (simp_all add: queued_def wk mem_cost_def any_worker.freed)
  moreover have "\<forall>j < length (lru_caches s). distinct (lru ! j) \<and>
      (\<forall>q. q \<in> set (lru ! j) \<longleftrightarrow> (if q = p then queued ob' \<and> LRUIdx ob s = j else q \<in> set (lru_caches s ! j)))"
    using lru_removed [OF inv p(1) nq(1) LRUIdx_less [OF inv]] lru_unqueued [OF inv p(1) _ nq(1)] by (cases "queued ob") (simp_all add: l)
  moreover have "length lru = length (lru_caches s)" by (simp add: l)
  moreover have "unat (current_memory_size s - GetBufferSize ob) + mem_cost ob = unat (current_memory_size s)"
    using size_within [OF inv p] by (simp add: word_le_nat_alt)
  ultimately have u: "update_ok dd td 0 p ob 0 ob' s
      (s\<lparr>lru_caches := lru, current_memory_size := current_memory_size s - GetBufferSize ob, objs := (objs s)(p \<mapsto> ob')\<rparr>)"
    using inv wk(5) by (simp add: update_ok_def binv_def heap_ok_def)
  have "content_of (bm_disk s (obj_path False ob)) (bm_disk s (obj_path True ob)) ob' = contents_at s p"
    using content_of_stored [of ob' _ _ f "worker_contents (wk ob)"] f(1) f' p by (simp add: wk any_worker.freed contents_at_def obj_content_def content_of_data)
  then show ?thesis
    by (intro changedI [OF inv p(1) u]) (simp only: obj_content_def same_names_path(1) [OF wk(5)], simp)
qed

end
