(* ===== verification/Buffer_Changes.thy ===== *)
theory Buffer_Changes
  imports Buffer_Steps
begin

text \<open>
  The operations that unpin, write, save, map and remove objects: each keeps the invariant, and changes only the contents it should.
\<close>

subsection \<open>Unpinning\<close>

lemma unpin_queued:
  assumes inv: "binv dd td 0 s" and p: "objs s p = Some ob" and st: "bo_status ob = kLoaded" "bo_type ob \<in> {kPersistent, kEphemeral, kTemp}"
    and ob': "ob' = ob\<lparr>bo_rc := 0, bo_status := kUnloaded\<rparr>"
  shows "changed dd td p (contents_at s p) s (set_obj p ob' (LRUCache_PushGCQueue (LRUIdx ob s) p s))"
proof -
  let ?s = "set_obj p ob' (LRUCache_PushGCQueue (LRUIdx ob s) p s)"
  note ok = binv_obj [OF inv p]
  have wk: "wk ob' = wk ob" "bo_type ob' = bo_type ob" "bo_status ob' = kUnloaded" "bo_rc ob' = 0" "same_names ob ob'" "\<not> data_null (wk ob)"
    using ok st by (auto simp: ob' same_names_def obj_ok_def status_ok_def)
  have q: "queued ob'" "\<not> queued ob" "mem_cost ob' = mem_cost ob" using st by (auto simp: queued_def mem_cost_def wk)
  have "obj_ok (p \<in> set (temp_set s)) (p \<in> set (clean_temp_set s)) (p \<in> set (clean_list s)) (bm_disk s (obj_path False ob)) (bm_disk s (obj_path True ob)) ob'"
    using st wk(6) obj_ok_worker [OF ok] obj_ok_status [OF ok] by (intro obj_ok_kept [OF ok]) (auto simp: status_ok_def holds_def wk)
  then have u: "update_ok dd td 0 p ob 0 ob' s ?s"
    using lru_pushed [OF inv p q(1,2)] inv wk(5) q(3) by (simp add: update_ok_def binv_def heap_ok_def LRUCache_PushGCQueue_def)
  show ?thesis
    using p wk(1,6) by (intro changedI [OF inv p u]) (simp add: contents_at_def obj_content_def content_of_data)
qed

lemma unpin_irrelevant:
  assumes "bo_status ob = kLoaded"
  shows "holds f (ob\<lparr>bo_rc := n, bo_status := kUnloaded\<rparr>) = holds f ob" "content_of df sf (ob\<lparr>bo_rc := n, bo_status := kUnloaded\<rparr>) = content_of df sf ob"
  using assms by (simp_all add: holds_def content_of_def cong: if_cong option.case_cong)

lemma UnloadInner_changed:
  assumes inv: "binv dd td 0 s" and p: "objs s p = Some ob" and st: "bo_status ob = kLoaded"
  shows "\<exists>s'. UnloadInner p others s = Inr s' \<and> changed dd td p (contents_at s p) s s'"
proof -
  note ok = binv_obj [OF inv p]
  have rc: "0 < bo_rc ob" and null: "data_null (wk ob) \<longleftrightarrow> bo_type ob = kMmap" using ok st by (simp_all add: obj_ok_def status_ok_def)
  consider (more) "1 < bo_rc ob" | (tomap) "bo_rc ob = 1" "bo_type ob = kToMmap" | (map) "bo_rc ob = 1" "bo_type ob = kMmap"
    | (push) "bo_rc ob = 1" "bo_type ob \<in> {kPersistent, kEphemeral, kTemp}"
    using rc by (cases "bo_type ob") fastforce+
  then show ?thesis
  proof cases
    case more
    have "changed dd td p (contents_at s p) s (set_obj p (ob\<lparr>bo_rc := bo_rc ob - 1\<rparr>) s)"
      using counts_changed [OF inv p, of "ob\<lparr>bo_rc := bo_rc ob - 1\<rparr>" "bo_rc ob - 1"] st more by simp
    then show ?thesis using p st more by (simp add: UnloadInner_def Let_def)
  next
    case tomap
    have size: "GetBufferSize (ob\<lparr>bo_rc := 0, bo_worker := (bo_worker ob)\<lparr>fw_worker := freed_worker (wk ob)\<rparr>\<rparr>) = GetBufferSize ob"
      by (simp add: GetBufferSize_def same_base_cost [OF same_base_freed(1)])
    have "\<not> data_null (wk ob)" "\<not> queued ob" using null tomap st by (simp_all add: queued_def)
    then show ?thesis
      using drop_to_mmap [OF inv p _ _ _ refl refl] any_worker.free_ok [of "wk ob"] tomap st p size size_within(2) [OF inv p]
      by (simp add: UnloadInner_def Let_def FreeUnloadBuffer_def set_obj_def set_worker_def not_less)
  next
    case map
    have "changed dd td p (contents_at s p) s (set_obj p (ob\<lparr>bo_rc := 0, bo_status := kUnloaded\<rparr>) s)"
      using p st map null obj_ok_worker [OF ok]
      by (intro set_obj_changed [OF inv p] obj_ok_kept [OF ok])
        (simp_all add: same_names_def queued_def mem_cost_def status_ok_def unpin_irrelevant contents_at_def obj_content_def)
    then show ?thesis using p st map by (simp add: UnloadInner_def Let_def set_obj_def)
  next
    case push
    have "\<not> memory_limit s < current_memory_size s" using inv by (simp add: binv_def word_less_nat_alt not_less)
    then show ?thesis
      using unpin_queued [OF inv p st push(2) refl] p st push
      by (auto simp: UnloadInner_def Let_def PushGCQueue_def LRUCache_PushGCQueue_def LRUIdx_def set_obj_def set_lru_def)
  qed
qed

subsection \<open>Writing\<close>

text \<open>A pinned object becomes ephemeral: its data is in memory and no file counts any more.\<close>

lemma make_ephemeral:
  assumes inv: "binv dd td k s" and p: "objs s p = Some ob" and st: "bo_status ob = kLoaded" "bo_type ob \<noteq> kTemp"
    and w: "\<not> data_null w" "worker_ok w" "same_base w (wk ob)" "worker_contents w = obj_content s ob" "k + mem_cost ob = GetMemoryCost w"
  shows "changed dd td p (contents_at s p) s (set_obj p (ob\<lparr>bo_worker := (bo_worker ob)\<lparr>fw_worker := w\<rparr>, bo_type := kEphemeral\<rparr>) s)"
proof -
  let ?ob = "ob\<lparr>bo_worker := (bo_worker ob)\<lparr>fw_worker := w\<rparr>, bo_type := kEphemeral\<rparr>"
  note ok = binv_obj [OF inv p]
  have q: "\<not> queued ob" "\<not> queued ?ob" "same_names ob ?ob" "mem_cost ?ob = GetMemoryCost w"
    using st w(1) by (simp_all add: queued_def same_names_def mem_cost_def)
  have "status_ok ?ob" using obj_ok_status [OF ok] st(1) w(1) by (simp add: status_ok_def)
  then have "obj_ok (p \<in> set (temp_set s)) (p \<in> set (clean_temp_set s)) (p \<in> set (clean_list s)) (bm_disk s (obj_path False ob)) (bm_disk s (obj_path True ob)) ?ob"
    using w(2,3) st by (intro obj_ok_kept [OF ok]) simp_all
  then have u: "update_ok dd td k p ob 0 ?ob s (set_obj p ?ob s)"
    using lru_unqueued [OF inv p q(1,2)] inv q(3,4) w(5) by (simp add: update_ok_def binv_def heap_ok_def)
  show ?thesis using p w(1,4) by (intro changedI [OF inv p u]) (simp add: contents_at_def obj_content_def content_of_data)
qed

lemma make_temp_ephemeral:
  assumes inv: "binv dd td 0 s" and p: "objs s p = Some ob" and st: "bo_status ob = kLoaded" "bo_type ob = kTemp"
  obtains s1 where "RemoveTemp p s = Inr s1" "changed dd td p (contents_at s p) s (set_obj p (ob\<lparr>bo_type := kEphemeral\<rparr>) s1)"
proof -
  let ?ob = "ob\<lparr>bo_type := kEphemeral\<rparr>" and ?s1 = "s\<lparr>temp_set := remove1 p (temp_set s), clean_temp_set := clean_temp_set s @ [p]\<rparr>"
  note ok = binv_obj [OF inv p]
  have dist: "distinct (temp_set s)" "distinct (clean_temp_set s)" "distinct (clean_list s)" using inv by (simp_all add: binv_def heap_ok_def)
  have marks: "p \<in> set (temp_set s)" "p \<notin> set (clean_temp_set s)" "p \<notin> set (clean_list s)" "\<not> data_null (wk ob)" "bm_disk s (obj_path True ob) \<noteq> None"
    using ok st by (auto simp: obj_ok_def status_ok_def holds_def)
  have q: "\<not> queued ob" "\<not> queued ?ob" "same_names ob ?ob" "mem_cost ?ob = mem_cost ob"
    using st by (simp_all add: queued_def same_names_def mem_cost_def)
  have "status_ok ?ob" using obj_ok_status [OF ok] st marks(4) by (simp add: status_ok_def)
  then have "obj_ok False True False (bm_disk s (obj_path False ob)) (bm_disk s (obj_path True ob)) ?ob"
    using ok st marks by (simp add: obj_ok_def)
  then have u: "update_ok dd td 0 p ob 0 ?ob s (set_obj p ?ob ?s1)"
    using lru_unqueued [OF inv p q(1,2)] inv q(3,4) dist marks by (simp add: update_ok_def binv_def)
  have "RemoveTemp p s = Inr ?s1" using marks by (simp add: RemoveTemp_def)
  moreover have "changed dd td p (contents_at s p) s (set_obj p ?ob ?s1)"
    using p marks(4) by (intro changedI [OF inv p u]) (simp add: contents_at_def obj_content_def content_of_data)
  ultimately show thesis by (rule that)
qed

lemma read_mapped:
  assumes inv: "binv dd td k s" and p: "objs s p = Some ob" and st: "bo_status ob = kLoaded" "bo_type ob = kMmap"
  obtains w where "ReadFromFile False (bo_worker ob) (bm_disk s) = Inr ((bo_worker ob)\<lparr>fw_worker := w\<rparr>)"
    "\<not> data_null w" "worker_ok w" "same_base w (wk ob)" "worker_contents w = obj_content s ob"
proof -
  note ok = binv_obj [OF inv p]
  have null: "data_null (wk ob)" using ok st by (simp add: obj_ok_def status_ok_def)
  obtain f c where f: "bm_disk s (obj_path False ob) = Some f" "any_worker.stored f (wk ob) c" using ok st by (auto simp: obj_ok_def holds_def)
  obtain w where w: "ReadFromFileImpl f (wk ob) = Inr w" "worker_contents w = c" "worker_ok w" "freed_worker w = freed_worker (wk ob)" "\<not> data_null w"
    by (rule any_worker.read_stored [OF f(2) null])
  have "obj_content s ob = c" using content_of_stored [OF null, of _ _ f c] f st by (simp add: obj_content_def)
  then show thesis using w f(1) freed_same_base [OF w(4)] by (intro that [of w]) (simp_all add: ReadFromFile_def)
qed

definition mutable :: "nat \<Rightarrow> BufferManager \<Rightarrow> bool" where
  "mutable p s \<longleftrightarrow> (\<exists>ob. objs s p = Some ob \<and> bo_status ob = kLoaded \<and> bo_type ob = kEphemeral)"

lemma GetMutPointer_mapped:
  assumes inv: "binv dd td 0 s" and p: "objs s p = Some ob" and st: "bo_status ob = kLoaded" "bo_type ob = kMmap"
  shows "(\<exists>s'. GetMutPointer p others s = Inr (MemData, s') \<and> changed dd td p (contents_at s p) s s' \<and> mutable p s') \<or>
    GetMutPointer p others s = Inl (UnrecoverableError ''Out of memory.'') \<and> (others = [] \<longrightarrow> unat (memory_limit s) < pinned s + GetMemoryCost (wk ob))"
proof -
  have size: "unat (GetBufferSize ob) = GetMemoryCost (wk ob)"
    using binv_obj [OF inv p] by (simp add: GetBufferSize_def obj_ok_def unat64_of_nat)
  have null: "mem_cost ob = 0" using binv_obj [OF inv p] st by (simp add: obj_ok_def status_ok_def mem_cost_def)
  have own: "own_ok (Some p) s" using p st by (simp add: own_ok_Some queued_def)
  obtain ok t c where r: "RequestSpace (Some p) others (GetBufferSize ob) s = Inr (ok, t\<lparr>current_memory_size := c\<rparr>)" "evicted s t"
    "ok \<longrightarrow> binv dd td (unat (GetBufferSize ob)) (t\<lparr>current_memory_size := c\<rparr>)"
    "others = [] \<longrightarrow> ok = (pinned s + unat (GetBufferSize ob) \<le> unat (memory_limit s))"
    by (rule RequestSpace_spec [OF inv own, of others "GetBufferSize ob"])
  show ?thesis
  proof (cases ok)
    case True
    let ?t = "t\<lparr>current_memory_size := c\<rparr>"
    have t: "binv dd td (GetMemoryCost (wk ob)) ?t" "objs ?t p = Some ob" "contents_at ?t = contents_at s" "memory_limit ?t = memory_limit s"
      using r True size p st by (auto simp: evicted_def queued_def fun_eq_iff)
    obtain w where w: "ReadFromFile False (bo_worker ob) (bm_disk ?t) = Inr ((bo_worker ob)\<lparr>fw_worker := w\<rparr>)"
      "\<not> data_null w" "worker_ok w" "same_base w (wk ob)" "worker_contents w = obj_content ?t ob"
      by (rule read_mapped [OF t(1,2) st])
    have "changed dd td p (contents_at ?t p) ?t (set_obj p (ob\<lparr>bo_worker := (bo_worker ob)\<lparr>fw_worker := w\<rparr>, bo_type := kEphemeral\<rparr>) ?t)"
      by (rule make_ephemeral [OF t(1,2) st(1) _ w(2-5)]) (simp_all add: st null same_base_cost [OF w(4)])
    then have "changed dd td p (contents_at s p) s (set_obj p (ob\<lparr>bo_worker := (bo_worker ob)\<lparr>fw_worker := w\<rparr>, bo_type := kEphemeral\<rparr>) ?t)"
      using changed_cong [of _ _ _ _ ?t _ s] t(3,4) by simp
    then show ?thesis using p st r(1) True w(1,2) by (simp add: GetMutPointer_def Let_def mem_ptr_def mutable_def)
  next
    case False
    then show ?thesis using p st r(1,4) size by (simp add: GetMutPointer_def not_le)
  qed
qed

lemma GetMutPointer_changed:
  assumes inv: "binv dd td 0 s" and p: "objs s p = Some ob" and st: "bo_status ob = kLoaded"
  shows "(\<exists>s'. GetMutPointer p others s = Inr (MemData, s') \<and> changed dd td p (contents_at s p) s s' \<and> mutable p s') \<or>
    GetMutPointer p others s = Inl (UnrecoverableError ''Out of memory.'') \<and> bo_type ob = kMmap \<and>
      (others = [] \<longrightarrow> unat (memory_limit s) < pinned s + GetMemoryCost (wk ob))"
proof -
  consider (map) "bo_type ob = kMmap" | (temp) "bo_type ob = kTemp" | (mem) "bo_type ob \<noteq> kMmap" "bo_type ob \<noteq> kTemp" by blast
  then show ?thesis
  proof cases
    case map
    then show ?thesis using GetMutPointer_mapped [OF inv p st map, of others] by simp
  next
    case temp
    have null: "\<not> data_null (wk ob)" using binv_obj [OF inv p] st temp by (simp add: obj_ok_def status_ok_def)
    obtain s1 where s1: "RemoveTemp p s = Inr s1" "changed dd td p (contents_at s p) s (set_obj p (ob\<lparr>bo_type := kEphemeral\<rparr>) s1)"
      by (rule make_temp_ephemeral [OF inv p st temp])
    then show ?thesis using p st temp null by (simp add: GetMutPointer_def Let_def mem_ptr_def mutable_def)
  next
    case mem
    have ok: "\<not> data_null (wk ob)" "worker_ok (wk ob)" using binv_obj [OF inv p] st mem by (simp_all add: obj_ok_def status_ok_def)
    have "changed dd td p (contents_at s p) s (set_obj p (ob\<lparr>bo_type := kEphemeral\<rparr>) s)"
      using make_ephemeral [OF inv p st mem(2) ok same_base_refl] ok(1) by (simp add: obj_content_def content_of_data mem_cost_def)
    then show ?thesis using p st mem ok by (simp add: GetMutPointer_def Let_def mem_ptr_def mutable_def)
  qed
qed

text \<open>A client writes to the data of an object it has a mutable pointer to.\<close>

definition write_data :: "nat \<Rightarrow> worker \<Rightarrow> BufferManager \<Rightarrow> BufferManager res" where
  "write_data p w s = with_obj p s (\<lambda>ob. Inr (set_obj p (set_worker w ob) s))"

lemma write_data_changed:
  assumes inv: "binv dd td 0 s" and p: "objs s p = Some ob" "bo_status ob = kLoaded" "bo_type ob = kEphemeral"
    and w: "\<not> data_null w" "worker_ok w" "same_base w (wk ob)"
  shows "\<exists>s'. write_data p w s = Inr s' \<and> changed dd td p (worker_contents w) s s' \<and> mutable p s'"
proof -
  note ok = binv_obj [OF inv p(1)]
  have null: "\<not> data_null (wk ob)" using ok p by (simp add: obj_ok_def status_ok_def)
  have "status_ok (set_worker w ob)" using obj_ok_status [OF ok] p w(1) by (simp add: status_ok_def)
  then have "changed dd td p (worker_contents w) s (set_obj p (set_worker w ob) s)"
    using w p null same_base_cost [OF w(3)]
    by (intro set_obj_changed [OF inv p(1)] obj_ok_kept [OF ok]) (simp_all add: queued_def mem_cost_def content_of_data)
  then show ?thesis using p by (simp add: write_data_def mutable_def)
qed

subsection \<open>Saving\<close>

text \<open>The data has been written to the data file, completely (\<open>all\<close>) or not.\<close>

lemma save_written:
  assumes inv: "binv dd td 0 s" and p: "objs s p = Some ob" and st: "bo_status ob \<in> {kLoaded, kUnloaded}" "bo_type ob = kEphemeral"
    and w: "freed_worker w = freed_worker (wk ob)" "worker_ok w" "worker_contents w = worker_contents (wk ob)"
    and f: "stale_ok (wk ob) f" "all \<Longrightarrow> any_worker.stored f (wk ob) (worker_contents (wk ob))"
    and ob': "ob' = ob\<lparr>bo_worker := (bo_worker ob)\<lparr>fw_worker := w\<rparr>, bo_type := if all then kPersistent else kEphemeral\<rparr>"
  shows "changed dd td p (contents_at s p) s (set_obj p ob' (s\<lparr>bm_disk := (bm_disk s)(obj_path False ob \<mapsto> f)\<rparr>))"
proof -
  let ?s = "set_obj p ob' (s\<lparr>bm_disk := (bm_disk s)(obj_path False ob \<mapsto> f)\<rparr>)"
  note ok = binv_obj [OF inv p]
  have null: "\<not> data_null (wk ob)" using ok st by (auto simp: obj_ok_def status_ok_def)
  then have null': "\<not> data_null w" using w(3) any_worker.contents_null by metis
  have base: "same_base w (wk ob)" by (rule freed_same_base [OF w(1)])
  have wk: "wk ob' = w" "bo_status ob' = bo_status ob" "bo_rc ob' = bo_rc ob" "same_names ob ob'" "bo_type ob' = (if all then kPersistent else kEphemeral)"
    by (simp_all add: ob' same_names_def)
  have paths: "obj_path True ob \<noteq> obj_path False ob" using binv_paths [OF inv p p] by blast
  have "status_ok ob'" using obj_ok_status [OF ok] st null null' by (auto simp: status_ok_def wk)
  then have "obj_ok (p \<in> set (temp_set s)) (p \<in> set (clean_temp_set s)) (p \<in> set (clean_list s)) (Some f) (bm_disk s (obj_path True ob)) ob'"
    using ok st f w(2,3) same_base_stale [OF base] same_base_cost [OF base] same_base_stored [OF base] by (auto simp: obj_ok_def wk holds_def)
  moreover have "queued ob = queued ob'" "mem_cost ob' = mem_cost ob" using st null null' same_base_cost [OF base] by (auto simp: queued_def wk mem_cost_def)
  ultimately have u: "update_ok dd td 0 p ob 0 ob' s ?s"
    using lru_kept [OF inv p] inv wk(4) paths by (simp add: update_ok_def binv_def heap_ok_def)
  show ?thesis using p null null' w(3) by (intro changedI [OF inv p u]) (simp add: contents_at_def obj_content_def content_of_data wk)
qed

lemma move_spill:
  assumes inv: "binv dd td 0 s" and p: "objs s p = Some ob" and st: "bo_status ob \<noteq> kClean" "bo_type ob = kTemp"
  obtains f where "bm_disk s (obj_path True ob) = Some f"
    "changed dd td p (contents_at s p) s (set_obj p (ob\<lparr>bo_type := kPersistent\<rparr>)
      (s\<lparr>temp_set := remove1 p (temp_set s), bm_disk := ((bm_disk s)(obj_path True ob := None))(obj_path False ob \<mapsto> f)\<rparr>))"
proof -
  note ok = binv_obj [OF inv p]
  let ?ob = "ob\<lparr>bo_type := kPersistent\<rparr>"
  obtain f c where f: "bm_disk s (obj_path True ob) = Some f" "any_worker.stored f (wk ob) c" "\<not> data_null (wk ob) \<longrightarrow> worker_contents (wk ob) = c"
    using ok st by (auto simp: obj_ok_def holds_def)
  let ?d = "((bm_disk s)(obj_path True ob := None))(obj_path False ob \<mapsto> f)"
  let ?s = "set_obj p ?ob (s\<lparr>temp_set := remove1 p (temp_set s), bm_disk := ?d\<rparr>)"
  have paths: "obj_path True ob \<noteq> obj_path False ob" using binv_paths [OF inv p p] by blast
  have "status_ok ?ob" using obj_ok_status [OF ok] st by (cases "bo_status ob") (simp_all add: status_ok_def)
  then have "obj_ok False (p \<in> set (clean_temp_set s)) (p \<in> set (clean_list s)) (Some f) None ?ob"
    using ok st f by (auto simp: obj_ok_def holds_def)
  moreover have "queued ob = queued ?ob" "mem_cost ?ob = mem_cost ob" "same_names ob ?ob" using st by (simp_all add: queued_def mem_cost_def same_names_def)
  ultimately have u: "update_ok dd td 0 p ob 0 ?ob s ?s"
    using lru_kept [OF inv p, of ?ob] inv paths by (simp add: update_ok_def binv_def heap_ok_def)
  have new: "bo_status ob \<noteq> kNew" using obj_ok_status [OF ok] st by (auto simp: status_ok_def)
  have "obj_content ?s ?ob = contents_at s p"
  proof (cases "data_null (wk ob)")
    case True
    have "obj_content ?s ?ob = c" using content_of_stored [of ?ob _ _ f c] True f(2) st new paths by (simp add: obj_content_def)
    moreover have "obj_content s ob = c" using content_of_stored [of ob _ _ f c] True f(1,2) st new by (simp add: obj_content_def)
    ultimately show ?thesis using p by (simp add: contents_at_def)
  qed (use p in \<open>simp add: contents_at_def obj_content_def content_of_data\<close>)
  then show thesis by (intro that [OF f(1)] changedI [OF inv p u])
qed

lemma all_save_True:
  "WriteToFileImpl to_spill ctx w = Inr (b, all, w') \<Longrightarrow> (\<nexists>v. w = VersionWorker v) \<Longrightarrow> all"
  by (cases w) (auto simp: res_simps)

text \<open>Saving keeps all contents.  Afterwards the data file holds the contents, unless a version has changes after the checkpoint.\<close>

lemma Save_changed:
  assumes inv: "binv dd td 0 s" and p: "objs s p = Some ob" and st: "bo_status ob \<notin> {kNew, kClean}" "bo_type ob \<noteq> kMmap"
    and sound: "bo_type ob = kEphemeral \<Longrightarrow> save_sound ctx (wk ob)"
  shows "\<exists>r s' ob'. Save p ctx s = Inr (r, s') \<and> changed dd td p (contents_at s p) s s' \<and> objs s' p = Some ob' \<and> bo_status ob' = bo_status ob \<and>
    (bo_type ob' \<in> {kPersistent, kToMmap} \<or> (\<exists>v. wk ob = VersionWorker v))"
proof -
  note ok = binv_obj [OF inv p]
  consider (eph) "bo_type ob = kEphemeral" | (temp) "bo_type ob = kTemp" | (same) "bo_type ob \<in> {kPersistent, kToMmap}"
    using st(2) by (cases "bo_type ob") auto
  then show ?thesis
  proof cases
    case eph
    then have live: "bo_status ob \<in> {kLoaded, kUnloaded}" "\<not> data_null (wk ob)" using obj_ok_status [OF ok] st(1) by (auto simp: status_ok_def split: BufferStatus.splits)
    obtain b all w' where w: "WriteToFileImpl False ctx (wk ob) = Inr (b, all, w')" "freed_worker w' = freed_worker (wk ob)" "worker_ok w'"
      "worker_contents w' = worker_contents (wk ob)" "stale_ok (wk ob) (overwrite b (bm_disk s (obj_path False ob)))"
      "all \<Longrightarrow> any_worker.stored (overwrite b (bm_disk s (obj_path False ob))) (wk ob) (worker_contents (wk ob))"
      by (rule any_worker.write_stores [of "wk ob" False ctx "bm_disk s (obj_path False ob)"]) (use obj_ok_worker [OF ok] ok live sound eph in \<open>auto simp: obj_ok_def\<close>)
    show ?thesis
      using save_written [OF inv p live(1) eph w(2-6) refl] p eph live w(1) all_save_True [OF w(1)]
      by (auto simp: Save_def WriteToFile_def Let_def)
  next
    case temp
    obtain f where f: "bm_disk s (obj_path True ob) = Some f" "changed dd td p (contents_at s p) s (set_obj p (ob\<lparr>bo_type := kPersistent\<rparr>)
        (s\<lparr>temp_set := remove1 p (temp_set s), bm_disk := ((bm_disk s)(obj_path True ob := None))(obj_path False ob \<mapsto> f)\<rparr>))"
      by (rule move_spill [OF inv p _ temp]) (use st in simp)
    have "p \<in> set (temp_set s)" using ok temp st(1) by (simp add: obj_ok_def)
    then show ?thesis
      using f p temp paths_absolute [OF inv p] by (auto simp: Save_def MoveTemp_def MoveFile_def vs_defs Let_def)
  next
    case same
    then show ?thesis using p inv by (auto simp: Save_def changed_def)
  qed
qed

subsection \<open>Mapping\<close>

lemma map_changed:
  assumes inv: "binv dd td 0 s" and p: "objs s p = Some ob" and ty: "bo_type ob = kPersistent" "bo_status ob = kLoaded \<and> t = kToMmap \<or> bo_status ob = kFreed \<and> t = kMmap"
  shows "changed dd td p (contents_at s p) s (set_obj p (ob\<lparr>bo_type := t\<rparr>) s)"
proof -
  note ok = binv_obj [OF inv p]
  have "status_ok (ob\<lparr>bo_type := t\<rparr>)" using obj_ok_status [OF ok] ty by (auto simp: status_ok_def)
  moreover have "holds f (ob\<lparr>bo_type := t\<rparr>) = holds f ob" for f using ty by (auto simp: holds_def)
  moreover have "content_of df sf (ob\<lparr>bo_type := t\<rparr>) = content_of df sf ob" for df sf using ty by (auto simp: content_of_def cong: option.case_cong)
  ultimately show ?thesis
    using p ty obj_ok_worker [OF ok]
    by (intro set_obj_changed [OF inv p] obj_ok_kept [OF ok]) (auto simp: same_names_def queued_def mem_cost_def contents_at_def obj_content_def)
qed

lemma ToMmap_changed:
  assumes inv: "binv dd td 0 s" and p: "objs s p = Some ob" and st: "bo_status ob \<notin> {kNew, kClean}" "bo_type ob \<in> {kPersistent, kMmap}"
  shows "\<exists>s'. ToMmap p s = Inr s' \<and> changed dd td p (contents_at s p) s s'"
proof (cases "bo_type ob = kMmap")
  case True
  then show ?thesis using p inv by (simp add: ToMmap_def changed_def)
next
  case False
  then have ty: "bo_type ob = kPersistent" using st(2) by simp
  consider (loaded) "bo_status ob = kLoaded" | (unloaded) "bo_status ob = kUnloaded" | (freed) "bo_status ob = kFreed"
    using st(1) by (cases "bo_status ob") simp_all
  then show ?thesis
  proof cases
    case loaded
    then show ?thesis using map_changed [OF inv p ty, of kToMmap] p ty by (simp add: ToMmap_def)
  next
    case unloaded
    have q: "queued ob" "\<not> data_null (wk ob)" "ob\<lparr>bo_rc := 0\<rparr> = ob"
      using binv_obj [OF inv p] unloaded ty by (simp_all add: queued_def obj_ok_def status_ok_def)
    have size: "GetBufferSize (set_worker (freed_worker (wk ob)) ob) = GetBufferSize ob"
      by (simp add: GetBufferSize_def same_base_cost [OF same_base_freed(1)])
    have le: "\<not> current_memory_size s < GetBufferSize ob" using size_within(2) [OF inv p q(2)] by (simp add: not_less)
    show ?thesis
      using drop_to_mmap [OF inv p q(2) _ _ refl refl, unfolded q(3)] RemoveFromGCQueue_queued [OF inv p q(1)] any_worker.free_ok [OF q(2)] unloaded ty p size q(1) le
      by (simp add: ToMmap_def Let_def FreeUnloadBuffer_def set_obj_def set_worker_def set_lru_def)
  next
    case freed
    then show ?thesis using map_changed [OF inv p ty, of kMmap] p ty by (simp add: ToMmap_def)
  qed
qed

subsection \<open>Cleaning\<close>

text \<open>The state after an object has been marked for removal: no data, no contents, listed for removal.\<close>

lemma clean_changed:
  assumes inv: "binv dd td 0 s" and p: "objs s p = Some ob" and live: "bo_status ob \<noteq> kClean"
    and ob': "bo_status ob' = kClean" "bo_type ob' = bo_type ob" "bo_rc ob' = 0" "same_names ob ob'" "data_null (wk ob')" "same_base (wk ob') (wk ob)"
    and s': "objs s' = (objs s)(p \<mapsto> ob')" "buffer_map s' = buffer_map s" "next_ptr s' = next_ptr s" "memory_limit s' = memory_limit s" "bm_disk s' = bm_disk s"
      "round_robin s' = round_robin s" "lru_caches s' = (if queued ob then (lru_caches s)[LRUIdx ob s := remove1 p (lru_caches s ! LRUIdx ob s)] else lru_caches s)"
      "clean_list s' = clean_list s @ [p]" "temp_set s' = remove1 p (temp_set s)"
      "clean_temp_set s' = (if bo_type ob = kTemp then clean_temp_set s @ [p] else clean_temp_set s)"
      "unat (current_memory_size s') + mem_cost ob = unat (current_memory_size s)"
  shows "changed dd td p None s s'"
proof -
  note ok = binv_obj [OF inv p]
  have dist: "distinct (temp_set s)" "distinct (clean_temp_set s)" "distinct (clean_list s)" and mem: "unat (current_memory_size s) \<le> unat (memory_limit s)"
    using inv by (simp_all add: binv_def heap_ok_def)
  have marks: "p \<notin> set (clean_list s)" "bo_type ob = kTemp \<Longrightarrow> p \<notin> set (clean_temp_set s)" using ok live by (auto simp: obj_ok_def)
  have w: "worker_ok (wk ob')"
    using same_base_ok [of "wk ob'" "freed_worker (wk ob)"] same_base_trans [OF ob'(6) same_base_freed(2)] worker_ok_freed [OF obj_ok_worker [OF ok]] ob'(5)
    by (simp add: any_worker.freed)
  have "status_ok ob'" using ob' by (simp add: status_ok_def)
  then have "obj_ok False (p \<in> set (clean_temp_set s')) True (bm_disk s (obj_path False ob)) (bm_disk s (obj_path True ob)) ob'"
    using ok ob' w same_base_stale [OF ob'(6)] same_base_cost [OF ob'(6)] by (simp add: obj_ok_def s' split: if_splits)
  moreover have nq: "\<not> queued ob'" "mem_cost ob' = 0" using ob' by (simp_all add: queued_def mem_cost_def)
  moreover have "\<forall>j < length (lru_caches s). distinct (lru_caches s' ! j) \<and>
      (\<forall>q. q \<in> set (lru_caches s' ! j) \<longleftrightarrow> (if q = p then queued ob' \<and> LRUIdx ob s = j else q \<in> set (lru_caches s ! j)))"
    using lru_removed [OF inv p nq(1) LRUIdx_less [OF inv]] lru_unqueued [OF inv p _ nq(1)] by (cases "queued ob") (simp_all add: s')
  ultimately have u: "update_ok dd td 0 p ob 0 ob' s s'"
    using inv s' dist marks ob' mem by (auto simp: update_ok_def)
  show ?thesis using ob' by (intro changedI [OF inv p u]) (simp add: obj_content_def content_of_def)
qed

lemma pick_mapped:
  assumes inv: "binv dd td 0 s" and p: "objs s p = Some ob" and st: "bo_type ob = kMmap" "bo_status ob \<notin> {kLoaded, kClean}" "bo_obj_rc ob = 1"
    and w: "Munmap (bo_worker ob) = Inr w"
  shows "\<exists>s'. PickForCleanup p s = Inr s' \<and> changed dd td p None s s'"
proof -
  note ok = binv_obj [OF inv p]
  have null: "data_null (wk ob)" "bo_rc ob = 0" using obj_ok_status [OF ok] st by (auto simp: status_ok_def split: BufferStatus.splits)
  have temp: "p \<notin> set (temp_set s)" using ok st by (simp add: obj_ok_def)
  obtain x a where x: "w = (bo_worker ob)\<lparr>fw_worker := x, fw_mmap_addr := a\<rparr>" "same_base x (wk ob)" "data_null x" using Munmap_same [OF w null(1)] by blast
  let ?ob = "ob\<lparr>bo_obj_rc := 0, bo_worker := w, bo_status := kClean\<rparr>"
  let ?s = "set_obj p ?ob ((set_obj p (ob\<lparr>bo_obj_rc := 0\<rparr>) s)\<lparr>clean_list := clean_list s @ [p]\<rparr>)"
  have "PickForCleanup p s = Inr ?s" using p st w by (simp add: PickForCleanup_def Let_def AddToCleanList_def)
  moreover have "changed dd td p None s ?s"
    by (rule clean_changed [OF inv p, of ?ob]) (use st null temp x in \<open>simp_all add: same_names_def queued_def mem_cost_def remove1_idem\<close>)
  ultimately show ?thesis by blast
qed

lemma pick_freed:
  assumes inv: "binv dd td 0 s" and p: "objs s p = Some ob" and st: "bo_type ob \<noteq> kMmap" "bo_status ob \<in> {kNew, kFreed}" "bo_obj_rc ob = 1"
  shows "\<exists>s'. PickForCleanup p s = Inr s' \<and> changed dd td p None s s'"
proof -
  note ok = binv_obj [OF inv p]
  have null: "data_null (wk ob)" "bo_rc ob = 0" using obj_ok_status [OF ok] st by (auto simp: status_ok_def)
  have temp: "p \<in> set (temp_set s) \<longleftrightarrow> bo_type ob = kTemp" "bo_type ob = kTemp \<Longrightarrow> p \<notin> set (clean_temp_set s)" using ok st by (auto simp: obj_ok_def)
  let ?ob = "ob\<lparr>bo_obj_rc := 0, bo_status := kClean\<rparr>"
  let ?s = "set_obj p ?ob ((set_obj p (ob\<lparr>bo_obj_rc := 0\<rparr>) s)\<lparr>clean_list := clean_list s @ [p]\<rparr>)"
  let ?t = "if bo_type ob = kTemp then ?s\<lparr>temp_set := remove1 p (temp_set s), clean_temp_set := clean_temp_set s @ [p]\<rparr> else ?s"
  have "PickForCleanup p s = Inr ?t" using p st temp by (auto simp: PickForCleanup_def Let_def AddToCleanList_def RemoveTemp_def)
  moreover have "changed dd td p None s ?t"
    by (rule clean_changed [OF inv p, of ?ob]) (use st null temp in \<open>auto simp: same_names_def queued_def mem_cost_def remove1_idem\<close>)
  ultimately show ?thesis by blast
qed

lemma pick_unloaded:
  assumes inv: "binv dd td 0 s" and p: "objs s p = Some ob" and st: "bo_type ob \<noteq> kMmap" "bo_status ob = kUnloaded" "bo_obj_rc ob = 1"
  shows "\<exists>s'. PickForCleanup p s = Inr s' \<and> changed dd td p None s s'"
proof -
  note ok = binv_obj [OF inv p]
  have q: "queued ob" "\<not> data_null (wk ob)" "bo_rc ob = 0" using obj_ok_status [OF ok] st by (auto simp: status_ok_def queued_def)
  have temp: "p \<in> set (temp_set s) \<longleftrightarrow> bo_type ob = kTemp" "bo_type ob = kTemp \<Longrightarrow> p \<notin> set (clean_temp_set s)" using ok st by (auto simp: obj_ok_def)
  have lru: "p \<in> set (lru_caches s ! LRUIdx ob s)" using inv p q(1) LRUIdx_less [OF inv, of ob] by (auto simp: binv_def queue_ok_def)
  let ?w = "freed_worker (wk ob)"
  let ?ob1 = "set_worker ?w (ob\<lparr>bo_obj_rc := 0\<rparr>)"
  let ?ob = "?ob1\<lparr>bo_status := kClean\<rparr>"
  let ?s1 = "(set_obj p ?ob1 (set_obj p (ob\<lparr>bo_obj_rc := 0\<rparr>) s))\<lparr>clean_list := clean_list s @ [p], current_memory_size := current_memory_size s - GetBufferSize ob\<rparr>"
  let ?s = "set_obj p ?ob (set_lru (LRUIdx ob s) (remove1 p (lru_caches s ! LRUIdx ob s)) ?s1)"
  let ?t = "if bo_type ob = kTemp then ?s\<lparr>temp_set := remove1 p (temp_set s), clean_temp_set := clean_temp_set s @ [p]\<rparr> else ?s"
  have size: "GetBufferSize ?ob1 = GetBufferSize ob" by (simp add: GetBufferSize_def same_base_cost [OF same_base_freed(1)])
  have idx: "LRUIdx ?ob1 ?s1 = LRUIdx ob s" by (simp add: LRUIdx_def set_worker_def)
  have rem: "RemoveFromGCQueue p ?s1 = Inr (True, set_lru (LRUIdx ob s) (remove1 p (lru_caches s ! LRUIdx ob s)) ?s1)"
    using lru idx by (simp add: RemoveFromGCQueue_def LRUCache_RemoveFromGCQueue_def)
  have "\<not> current_memory_size s < GetBufferSize ob" using size_within(2) [OF inv p q(2)] by (simp add: not_less)
  then have "AddToCleanList p True (set_obj p ?ob1 (set_obj p (ob\<lparr>bo_obj_rc := 0\<rparr>) s)) = Inr (set_lru (LRUIdx ob s) (remove1 p (lru_caches s ! LRUIdx ob s)) ?s1)"
    using rem size by (simp add: AddToCleanList_def Let_def)
  then have "PickForCleanup p s = Inr ?t" using p st temp any_worker.free_ok [OF q(2)] by (auto simp: PickForCleanup_def Let_def RemoveTemp_def)
  moreover have "changed dd td p None s ?t"
    by (rule clean_changed [OF inv p, of ?ob])
      (use st q temp size_within [OF inv p q(2)] in \<open>auto simp: same_names_def remove1_idem any_worker.freed set_worker_def word_le_nat_alt\<close>)
  ultimately show ?thesis by blast
qed

lemma PickForCleanup_changed:
  assumes inv: "binv dd td 0 s" and p: "objs s p = Some ob" "0 < bo_obj_rc ob" and st: "bo_obj_rc ob = 1 \<Longrightarrow> bo_status ob \<notin> {kLoaded, kClean}"
    and w: "bo_type ob = kMmap \<Longrightarrow> Munmap (bo_worker ob) = Inr w"
  shows "\<exists>s'. PickForCleanup p s = Inr s' \<and> changed dd td p (if bo_obj_rc ob = 1 then None else contents_at s p) s s'"
proof (cases "bo_obj_rc ob = 1")
  case True
  consider "bo_type ob = kMmap" | "bo_type ob \<noteq> kMmap" "bo_status ob \<in> {kNew, kFreed}" | "bo_type ob \<noteq> kMmap" "bo_status ob = kUnloaded"
    using st [OF True] by (cases "bo_status ob") auto
  then show ?thesis
    using pick_mapped [OF inv p(1) _ st [OF True] True w] pick_freed [OF inv p(1) _ _ True] pick_unloaded [OF inv p(1) _ _ True] True by cases simp_all
next
  case False
  then show ?thesis
    using counts_changed [OF inv p(1), of "ob\<lparr>bo_obj_rc := bo_obj_rc ob - 1\<rparr>" "bo_obj_rc ob - 1"] p by (simp add: PickForCleanup_def Let_def)
qed

subsection \<open>Appending\<close>

text \<open>Appending changes the object before it reserves the memory.  Eviction does not look at pinned objects, so the two steps commute.\<close>

lemma set_obj_commutes:
  "q \<noteq> p \<Longrightarrow> set_obj q a (set_obj p ob s) = set_obj p ob (set_obj q a s)"
  "set_lru i l (set_obj p ob s) = set_obj p ob (set_lru i l s)"
  "(set_obj p ob s)\<lparr>bm_disk := d\<rparr> = set_obj p ob (s\<lparr>bm_disk := d\<rparr>)"
  "(set_obj p ob s)\<lparr>temp_set := t, clean_temp_set := ct\<rparr> = set_obj p ob (s\<lparr>temp_set := t, clean_temp_set := ct\<rparr>)"
  "(set_obj p ob s)\<lparr>round_robin := r\<rparr> = set_obj p ob (s\<lparr>round_robin := r\<rparr>)"
  "(set_obj p ob s)\<lparr>current_memory_size := c\<rparr> = set_obj p ob (s\<lparr>current_memory_size := c\<rparr>)"
  by (simp_all add: set_obj_def set_lru_def fun_upd_twist)

lemma AddTemp_frame: "AddTemp q (set_obj p ob s) = rmap (set_obj p ob) (AddTemp q s)"
  by (simp add: AddTemp_def set_obj_commutes)

lemma Free_frame:
  assumes "q \<noteq> p"
  shows "Free None others q (set_obj p ob s) = rmap (map_prod id (set_obj p ob)) (Free None others q s)"
proof (cases "objs s q")
  case None
  then show ?thesis using assms by (simp add: Free_def with_obj_def)
next
  case (Some a)
  show ?thesis
  proof (cases "WriteToFile True FileWorkerSaveCtx (bo_worker a) (bm_disk s)")
    case (Inl e)
    then show ?thesis using Some assms
      by (cases "bo_type a"; cases "FreeInMemory (wk a)") (simp_all add: Free_def set_obj_commutes)
  next
    case (Inr x)
    obtain all w d where x: "x = (all, w, d)" by (cases x)
    show ?thesis using Some assms Inr
      by (cases "bo_type a"; cases "FreeInMemory (wk a)"; cases "AddTemp q (s\<lparr>bm_disk := d\<rparr>)"; cases "FreeInMemory (fw_worker w)")
        (simp_all add: Free_def set_obj_commutes AddTemp_frame x)
  qed
qed

lemma lru_loop_frame:
  "p \<notin> set ps \<Longrightarrow> lru_loop None others need i ps f (set_obj p ob s) = rmap (map_prod id (set_obj p ob)) (lru_loop None others need i ps f s)"
proof (induction ps arbitrary: f s)
  case (Cons q ps)
  then have q: "q \<noteq> p" by auto
  show ?case
  proof (cases "Free None others q s")
    case (Inr x)
    obtain ok s1 where x: "x = (ok, s1)" by (cases x)
    then show ?thesis using Inr q Cons by (cases "objs s1 q") (simp_all add: Free_frame [OF q] set_obj_commutes with_obj_def)
  qed (simp add: Free_frame [OF q])
qed simp

lemma Free_lru:
  assumes "Free own others q s = Inr (ok, s')"
  shows "lru_caches s' = lru_caches s"
proof (cases "q \<in> set others")
  case False
  then obtain ob where "objs s q = Some ob" using assms by (auto simp: Free_def res_simps)
  then show ?thesis using assms False by (cases "bo_type ob") (auto simp: Free_def AddTemp_def res_simps split: if_splits)
qed (use assms in \<open>simp add: Free_def split: if_splits\<close>)

lemma lru_loop_other: "lru_loop own others need i ps f s = Inr (f', s') \<Longrightarrow> j \<noteq> i \<Longrightarrow> lru_caches s' ! j = lru_caches s ! j"
proof (induction ps arbitrary: f s)
  case (Cons q ps)
  show ?case
  proof (cases "f < need")
    case True
    then obtain ok s1 where s1: "Free own others q s = Inr (ok, s1)" using Cons.prems(1) by (auto simp: res_simps)
    then show ?thesis using Cons True Free_lru [OF s1] by (auto simp: res_simps split: if_splits)
  qed (use Cons.prems in simp)
qed simp

lemma request_loop_frame:
  assumes "\<And>i. i \<in> set is \<Longrightarrow> p \<notin> set (lru_caches s ! i)" "distinct is"
  shows "request_loop None others need free is f (set_obj p ob s) = rmap (map_prod id (set_obj p ob)) (request_loop None others need free is f s)"
  using assms
proof (induction "is" arbitrary: f s)
  case (Cons i js)
  note frame = lru_loop_frame [of p "lru_caches s ! i" others need i 0 ob s]
  show ?case
  proof (cases "lru_loop None others need i (lru_caches s ! i) 0 s")
    case (Inl e)
    then show ?thesis using frame Cons.prems(1) by (simp add: LRUCache_RequestSpace_def)
  next
    case (Inr x)
    obtain f' s1 where x: "x = (f', s1)" by (cases x)
    have "p \<notin> set (lru_caches s1 ! j)" if "j \<in> set js" for j
    proof -
      have "j \<noteq> i" using that Cons.prems(2) by auto
      then show ?thesis using lru_loop_other [OF Inr [unfolded x], of j] Cons.prems(1) [of j] that by simp
    qed
    then show ?thesis
      using Inr x frame Cons.prems Cons.IH [of "s1\<lparr>round_robin := (i + 1) mod length (lru_caches s1)\<rparr>"]
      by (simp add: LRUCache_RequestSpace_def Let_def set_obj_commutes)
  qed
qed simp

lemma RequestSpace_frame:
  assumes inv: "binv dd td 0 s" and p: "objs s p = Some obp" "\<not> queued obp"
  shows "RequestSpace None others need (set_obj p ob s) = rmap (map_prod id (set_obj p ob)) (RequestSpace None others need s)"
proof -
  have rr: "round_robin s < length (lru_caches s)" using inv by (simp add: binv_def queue_ok_def)
  have "p \<notin> set (lru_caches s ! i)" if "i \<in> set (visit_order s)" for i
    using that visit_order(2) [OF rr] inv p by (auto simp: binv_def queue_ok_def)
  then have "request_loop None others need (memory_limit s - current_memory_size s) (visit_order s) 0 (set_obj p ob s) =
      rmap (map_prod id (set_obj p ob)) (request_loop None others need (memory_limit s - current_memory_size s) (visit_order s) 0 s)"
    by (rule request_loop_frame) (simp_all add: visit_order(1) [OF rr])
  moreover have "visit_order (set_obj p ob s) = visit_order s" by (simp add: visit_order_def)
  ultimately show ?thesis
    by (cases "request_loop None others need (memory_limit s - current_memory_size s) (visit_order s) 0 s")
      (auto simp: RequestSpace_def Let_def set_obj_commutes)
qed

lemma append_worker:
  assumes ok: "worker_ok (VarWorker v)" and vb: "vfw_data v = Some vb"
  obtains vb1 where "VarBuffer_Append b vb = Inr (TotalSize vb, vb1)" "worker_ok (VarWorker (v\<lparr>vfw_data := Some vb1\<rparr>))"
    "worker_contents (VarWorker (v\<lparr>vfw_data := Some vb1\<rparr>)) = Some (ByteContent (chunk_bytes (vb_buffers vb) @ b))"
    "GetMemoryCost (VarWorker (v\<lparr>vfw_data := Some vb1\<rparr>)) = GetMemoryCost (VarWorker v) + length b"
proof -
  obtain bs where bs: "vb_ok bs vb" using ok vb by (auto simp: VarFileWorker_ok_def)
  obtain vb1 where vb1: "VarBuffer_Append b vb = Inr (length (concat bs), vb1)" "vb_ok (bs @ [b]) vb1" by (rule vb_ok_Append [OF bs])
  have "vb_buffers vb = Chunks bs" "vb_buffers vb1 = Chunks (bs @ [b])" using bs vb1(2) by (simp_all add: vb_ok_def)
  then show thesis
    using vb1 vb_ok_total [OF bs] vb_ok_total [OF vb1(2)] vb
    by (intro that [of vb1]) (auto simp: VarFileWorker_ok_def VarFileWorker_GetMemoryCost_def)
qed

text \<open>An append that is not refused: the bytes are added at the end, and the memory they need is accounted and within the limit.\<close>

lemma Append_changed:
  assumes inv: "binv dd td 0 s" and p: "objs s p = Some ob" "bo_status ob = kLoaded" "bo_type ob = kEphemeral"
    and v: "wk ob = VarWorker v" "vfw_data v = Some vb" and len: "GetMemoryCost (wk ob) + length b < 2 ^ 64"
  shows "\<exists>ok s'. VarBuffer_Append_obj p others b s = Inr (TotalSize vb, ok, s') \<and>
    (ok \<longrightarrow> changed dd td p (Some (ByteContent (chunk_bytes (vb_buffers vb) @ b))) s s' \<and> mutable p s') \<and>
    (others = [] \<longrightarrow> ok = (pinned s + length b \<le> unat (memory_limit s)))"
proof -
  note bok = binv_obj [OF inv p(1)]
  obtain vb1 where vb1: "VarBuffer_Append b vb = Inr (TotalSize vb, vb1)" "worker_ok (VarWorker (v\<lparr>vfw_data := Some vb1\<rparr>))"
    "worker_contents (VarWorker (v\<lparr>vfw_data := Some vb1\<rparr>)) = Some (ByteContent (chunk_bytes (vb_buffers vb) @ b))"
    "GetMemoryCost (VarWorker (v\<lparr>vfw_data := Some vb1\<rparr>)) = GetMemoryCost (VarWorker v) + length b"
    by (rule append_worker [OF obj_ok_worker [OF bok, unfolded v(1)] v(2)])
  let ?w = "VarWorker (v\<lparr>vfw_data := Some vb1\<rparr>)" and ?n = "of_nat (length b) :: 64 word"
  let ?ob = "set_worker ?w ob"
  have n: "unat ?n = length b" using len by (simp add: unat64_of_nat)
  have q: "\<not> queued ob" "\<not> queued ?ob" using p by (simp_all add: queued_def)
  obtain ok t c where r: "RequestSpace None others ?n s = Inr (ok, t\<lparr>current_memory_size := c\<rparr>)" "evicted s t"
    "ok \<longrightarrow> binv dd td (unat ?n) (t\<lparr>current_memory_size := c\<rparr>)" "others = [] \<longrightarrow> ok = (pinned s + unat ?n \<le> unat (memory_limit s))"
    by (rule RequestSpace_spec [OF inv, of None others ?n]) (simp_all add: own_ok_def)
  let ?t = "t\<lparr>current_memory_size := c\<rparr>"
  have run: "VarBuffer_Append_obj p others b s = Inr (TotalSize vb, ok, set_obj p ?ob ?t)"
    using p(1) v vb1(1) r(1) RequestSpace_frame [OF inv p(1) q(1), of others ?n ?ob]
    by (simp add: VarBuffer_Append_obj_def AddBufferSize_def map_prod_def)
  have "changed dd td p (Some (ByteContent (chunk_bytes (vb_buffers vb) @ b))) s (set_obj p ?ob ?t)" if ok
  proof -
    have t: "binv dd td (length b) ?t" "objs ?t p = Some ob" "contents_at ?t = contents_at s" "memory_limit ?t = memory_limit s"
      using r that n p(1) q(1) by (auto simp: evicted_def fun_eq_iff)
    note tok = binv_obj [OF t(1,2)]
    have "status_ok ?ob" using obj_ok_status [OF tok] p by (simp add: status_ok_def)
    then have "obj_ok (p \<in> set (temp_set ?t)) (p \<in> set (clean_temp_set ?t)) (p \<in> set (clean_list ?t)) (bm_disk ?t (obj_path False ob)) (bm_disk ?t (obj_path True ob)) ?ob"
      using tok p vb1(2,4) len v(1) by (simp add: obj_ok_def)
    moreover have "mem_cost ?ob = mem_cost ob + length b" using v vb1(4) by (simp add: mem_cost_def)
    ultimately have u: "update_ok dd td (length b) p ob 0 ?ob ?t (set_obj p ?ob ?t)"
      using lru_unqueued [OF t(1,2) q] t(1) by (simp add: update_ok_def binv_def heap_ok_def)
    have "changed dd td p (Some (ByteContent (chunk_bytes (vb_buffers vb) @ b))) ?t (set_obj p ?ob ?t)"
      using vb1(3) by (intro changedI [OF t(1,2) u]) (simp add: obj_content_def content_of_data)
    then show ?thesis using changed_cong [of _ _ _ _ ?t _ s] t(3,4) by simp
  qed
  then show ?thesis using run r(4) n p by (auto simp: mutable_def)
qed

end
