(* ===== verification/Buffer_Lifetime.thy ===== *)
theory Buffer_Lifetime
  imports Buffer_Steps
begin

text \<open>
  Adding objects to the buffer manager (\<^verbatim>\<open>AllocateBufferObject\<close>, \<^verbatim>\<open>GetBufferObject\<close>) and removing the objects that were
  marked for removal together with their files (\<^verbatim>\<open>RemoveClean\<close>).
\<close>

subsection \<open>Adding an object\<close>

lemma binv_fresh:
  assumes "binv dd td k s"
  shows "objs s (next_ptr s) = None" "next_ptr s \<notin> set (temp_set s)" "next_ptr s \<notin> set (clean_temp_set s)" "next_ptr s \<notin> set (clean_list s)"
    "i < length (lru_caches s) \<Longrightarrow> next_ptr s \<notin> set (lru_caches s ! i)"
proof -
  have heap: "heap_ok dd td s" "queue_ok s" using assms by (simp_all add: binv_def)
  then show none: "objs s (next_ptr s) = None" by (force simp: heap_ok_def)
  show "next_ptr s \<notin> set (temp_set s)" "next_ptr s \<notin> set (clean_temp_set s)" "next_ptr s \<notin> set (clean_list s)"
    using heap(1) none unfolding heap_ok_def by (metis UnCI option.distinct(1))+
  show "next_ptr s \<notin> set (lru_caches s ! i)" if "i < length (lru_caches s)" using heap(2) none that by (auto simp: queue_ok_def)
qed

lemma binv_add:
  assumes inv: "binv dd td 0 s" and w: "named dd td (bo_worker ob)" "buffer_map s (GetFilename ob) = None" "data_null (wk ob)" "\<not> queued ob"
    and ok: "obj_ok False False False (bm_disk s (obj_path False ob)) (bm_disk s (obj_path True ob)) ob"
    and s': "s' = s\<lparr>objs := (objs s)(next_ptr s \<mapsto> ob), next_ptr := next_ptr s + 1, buffer_id := i, buffer_map := (buffer_map s)(GetFilename ob \<mapsto> next_ptr s)\<rparr>"
  shows "changed dd td (next_ptr s) (obj_content s ob) s s'"
proof -
  let ?p = "next_ptr s"
  note fresh = binv_fresh [OF inv]
  have heap: "heap_ok dd td s" "queue_ok s" "objs_ok s" "finite (dom (objs s))" using inv by (simp_all add: binv_def heap_ok_def)
  have less: "q < ?p" if "objs s q = Some obq" for q obq using heap(1) that by (auto simp: heap_ok_def)
  have names: "GetFilename obq \<noteq> GetFilename ob" if "objs s q = Some obq" for q obq
    using heap(1) w(2) that unfolding heap_ok_def by (metis option.distinct(1))
  have unmapped: "buffer_map s path \<noteq> Some ?p" for path using heap(1) fresh(1) unfolding heap_ok_def by (metis option.distinct(1))
  have "heap_ok dd td s'"
    unfolding heap_ok_def
  proof (intro conjI)
    show "\<forall>q \<in> dom (objs s'). q < next_ptr s'" using less by (auto simp: s' less_Suc_eq)
    show "\<forall>q obq. objs s' q = Some obq \<longrightarrow> named dd td (bo_worker obq) \<and> buffer_map s' (GetFilename obq) = Some q"
      using heap(1) w(1) names by (auto simp: s' heap_ok_def)
    show "\<forall>path q. buffer_map s' path = Some q \<longrightarrow> (\<exists>obq. objs s' q = Some obq \<and> GetFilename obq = path)"
      using heap(1) unmapped by (auto simp: s' heap_ok_def)
  qed (use heap(1) in \<open>auto simp: s' heap_ok_def\<close>)
  moreover have "queue_ok s'"
    using heap(2) w(4) fresh(1,5) unfolding queue_ok_def by (auto simp: s' LRUIdx_def)
  moreover have "objs_ok s'"
    using heap(3) ok fresh(2-4) unfolding objs_ok_def by (auto simp: s')
  moreover have "usage s' = usage s"
  proof -
    have "usage s' = mem_cost ob + (\<Sum>q \<in> dom (objs s). mem_cost (the (objs s' q)))"
      using heap(4) fresh(1) by (simp add: usage_def s' domIff)
    also have "(\<Sum>q \<in> dom (objs s). mem_cost (the (objs s' q))) = usage s"
      unfolding usage_def using fresh(1) by (intro sum.cong) (auto simp: s')
    finally show ?thesis using w(3) by (simp add: mem_cost_def)
  qed
  ultimately have "binv dd td 0 s'" using inv by (simp add: binv_def s')
  then show ?thesis by (simp add: changed_def contents_at_def obj_content_def s' cong: option.case_cong)
qed

lemma fresh_worker_ok: "worker_fresh w \<Longrightarrow> data_null w \<Longrightarrow> worker_ok w"
  by (cases w) (simp_all add: DataFileWorker_ok_def RawFileWorker_ok_def VarFileWorker_ok_def VersionFileWorker_ok_def)

text \<open>What a new worker needs: a name of its own, and leftover files that are not longer than what it will write.\<close>

definition worker_placed :: "string \<Rightarrow> string \<Rightarrow> disk \<Rightarrow> FileWorker \<Rightarrow> bool" where
  "worker_placed dd td d w \<longleftrightarrow> named dd td w \<and> data_null (fw_worker w) \<and> GetMemoryCost (fw_worker w) < 2 ^ 64 \<and>
     (case d (file_path False w) of None \<Rightarrow> True | Some f \<Rightarrow> stale_ok (fw_worker w) f) \<and>
     (case d (file_path True w) of None \<Rightarrow> True | Some f \<Rightarrow> stale_ok (fw_worker w) f)"

lemma AllocateBufferObject_changed:
  assumes inv: "binv dd td 0 s" and w: "worker_placed dd td (bm_disk s) w" "worker_fresh (fw_worker w)" and path: "buffer_map s (GetFilePath w) = None"
  shows "\<exists>s' w'. AllocateBufferObject w s = Inr (next_ptr s, s') \<and> AllocateInMemory (fw_worker w) = Inr w' \<and> changed dd td (next_ptr s) (worker_contents w') s s'"
proof -
  let ?ob = "BufferObj_new True w (buffer_id s)"
  have ob: "wk ?ob = fw_worker w" "bo_worker ?ob = w" "bo_status ?ob = kNew" "bo_type ?ob = kEphemeral" "bo_rc ?ob = 0" "GetFilename ?ob = GetFilePath w"
    by (simp_all add: BufferObj_new_def GetFilename_def)
  have null: "data_null (fw_worker w)" using w(1) by (simp add: worker_placed_def)
  obtain w' where w': "AllocateInMemory (fw_worker w) = Inr w'" using any_worker.alloc_ok [OF null w(2)] by blast
  have "obj_ok False False False (bm_disk s (obj_path False ?ob)) (bm_disk s (obj_path True ?ob)) ?ob"
    using w fresh_worker_ok [OF w(2) null] by (auto simp: obj_ok_def status_ok_def ob worker_placed_def)
  moreover have "\<not> queued ?ob" by (simp add: queued_def ob)
  moreover have "obj_content s ?ob = worker_contents w'" using null w' by (simp add: obj_content_def content_of_def ob)
  ultimately show ?thesis
    using binv_add [OF inv, of ?ob _ "(buffer_id s + 1) mod 2 ^ 32"] w(1) path w' by (simp add: ob worker_placed_def AllocateBufferObject_def MakeBufferObj_def Let_def)
qed

lemma GetBufferObject_changed:
  assumes inv: "binv dd td 0 s" and w: "worker_placed dd td (bm_disk s) w" "worker_ok (fw_worker w)" and path: "buffer_map s (GetFilePath w) = None"
    and f: "bm_disk s (file_path False w) = Some f" "any_worker.stored f (fw_worker w) c"
  shows "\<exists>s'. GetBufferObject w restart s = Inr (next_ptr s, s') \<and> changed dd td (next_ptr s) c s s'"
proof -
  let ?ob = "BufferObj_new False w (buffer_id s)"
  have ob: "wk ?ob = fw_worker w" "bo_worker ?ob = w" "bo_status ?ob = kFreed" "bo_type ?ob = kPersistent" "bo_rc ?ob = 0" "GetFilename ?ob = GetFilePath w"
    by (simp_all add: BufferObj_new_def GetFilename_def)
  have null: "data_null (fw_worker w)" using w(1) by (simp add: worker_placed_def)
  have "obj_ok False False False (bm_disk s (obj_path False ?ob)) (bm_disk s (obj_path True ?ob)) ?ob"
    using w f by (auto simp: obj_ok_def status_ok_def holds_def ob worker_placed_def)
  moreover have "\<not> queued ?ob" by (simp add: queued_def ob)
  moreover have "obj_content s ?ob = c" using content_of_stored [of ?ob _ _ f c] null f by (simp add: obj_content_def ob)
  ultimately show ?thesis
    using binv_add [OF inv, of ?ob _ "(buffer_id s + 1) mod 2 ^ 32"] w(1) path by (simp add: ob worker_placed_def GetBufferObject_def MakeBufferObj_def Let_def)
qed

subsection \<open>Removing objects\<close>

text \<open>The loops over the files delete the files of the listed objects and nothing else.\<close>

lemma CleanupFile_loop:
  assumes "\<And>p. p \<in> set ps \<Longrightarrow> \<exists>ob. objs s p = Some ob \<and> bo_status ob = kClean \<and> data_null (wk ob) \<and> is_absolute (obj_path False ob)"
  shows "rfold BufferObj_CleanupFile ps s =
    Inr (s\<lparr>bm_disk := (\<lambda>path. if \<exists>p \<in> set ps. path = obj_path False (the (objs s p)) then None else bm_disk s path)\<rparr>)"
  using assms
proof (induction ps arbitrary: s)
  case Nil
  then show ?case by simp
next
  case (Cons p ps)
  obtain ob where ob: "objs s p = Some ob" "bo_status ob = kClean" "data_null (wk ob)" "is_absolute (obj_path False ob)" using Cons.prems [of p] by auto
  let ?s = "s\<lparr>bm_disk := (bm_disk s)(obj_path False ob := None)\<rparr>"
  have "BufferObj_CleanupFile p s = Inr ?s"
    using ob by (auto simp: BufferObj_CleanupFile_def CleanupFile_def vs_defs Let_def fun_upd_idem)
  then show ?case using Cons.IH [of ?s] Cons.prems ob(1) by (simp add: fun_eq_iff)
qed

lemma CleanupTempFile_loop:
  assumes "\<And>p. p \<in> set ps \<Longrightarrow> \<exists>ob. objs s p = Some ob \<and> is_absolute (obj_path True ob) \<and> (bo_type ob = kTemp \<or> bm_disk s (obj_path True ob) \<noteq> None)"
    and "\<And>p q. p \<in> set ps \<Longrightarrow> q \<in> set ps \<Longrightarrow> p \<noteq> q \<Longrightarrow> obj_path True (the (objs s p)) \<noteq> obj_path True (the (objs s q))" "distinct ps"
  shows "rfold BufferObj_CleanupTempFile ps s =
    Inr (s\<lparr>bm_disk := (\<lambda>path. if \<exists>p \<in> set ps. bo_type (the (objs s p)) \<noteq> kTemp \<and> path = obj_path True (the (objs s p)) then None else bm_disk s path)\<rparr>)"
  using assms
proof (induction ps arbitrary: s)
  case Nil
  then show ?case by simp
next
  case (Cons p ps)
  obtain ob where ob: "objs s p = Some ob" "is_absolute (obj_path True ob)" "bo_type ob = kTemp \<or> bm_disk s (obj_path True ob) \<noteq> None" using Cons.prems(1) [of p] by auto
  define d where "d = (if bo_type ob = kTemp then bm_disk s else (bm_disk s)(obj_path True ob := None))"
  let ?s = "s\<lparr>bm_disk := d\<rparr>"
  have step: "BufferObj_CleanupTempFile p s = Inr ?s"
    using ob by (auto simp: BufferObj_CleanupTempFile_def CleanupTempFile_def vs_defs Let_def d_def)
  have "\<exists>obq. objs ?s q = Some obq \<and> is_absolute (obj_path True obq) \<and> (bo_type obq = kTemp \<or> bm_disk ?s (obj_path True obq) \<noteq> None)" if q: "q \<in> set ps" for q
  proof -
    obtain obq where obq: "objs s q = Some obq" "is_absolute (obj_path True obq)" "bo_type obq = kTemp \<or> bm_disk s (obj_path True obq) \<noteq> None"
      using Cons.prems(1) [of q] q by auto
    have "q \<noteq> p" using Cons.prems(3) q by auto
    then have "obj_path True obq \<noteq> obj_path True ob" using Cons.prems(2) [of q p] q ob(1) obq(1) by simp
    then show ?thesis using obq by (simp add: d_def)
  qed
  then have ih: "rfold BufferObj_CleanupTempFile ps ?s =
    Inr (?s\<lparr>bm_disk := (\<lambda>path. if \<exists>p \<in> set ps. bo_type (the (objs s p)) \<noteq> kTemp \<and> path = obj_path True (the (objs s p)) then None else d path)\<rparr>)"
    using Cons.IH [of ?s] Cons.prems(2,3) by (simp cong: if_cong)
  have "(if \<exists>p \<in> set ps. bo_type (the (objs s p)) \<noteq> kTemp \<and> path = obj_path True (the (objs s p)) then None else d path) =
    (if \<exists>p \<in> set (p # ps). bo_type (the (objs s p)) \<noteq> kTemp \<and> path = obj_path True (the (objs s p)) then None else bm_disk s path)" for path
    using ob(1) by (cases "bo_type ob = kTemp"; cases "path = obj_path True ob") (auto simp: d_def)
  then show ?case using step ih by simp
qed

lemma erase_loop:
  assumes "\<And>p. p \<in> set ps \<Longrightarrow> \<exists>ob. objs s p = Some ob \<and> buffer_map s (GetFilename ob) = Some p"
    and "\<And>path p. buffer_map s path = Some p \<Longrightarrow> \<exists>ob. objs s p = Some ob \<and> GetFilename ob = path" "distinct ps"
  shows "rfold erase_obj ps s =
    Inr (s\<lparr>buffer_map := (\<lambda>path. if \<exists>p \<in> set ps. buffer_map s path = Some p then None else buffer_map s path), objs := objs s |` (- set ps)\<rparr>)"
  using assms
proof (induction ps arbitrary: s)
  case Nil
  then show ?case by simp
next
  case (Cons p ps)
  obtain ob where ob: "objs s p = Some ob" "buffer_map s (GetFilename ob) = Some p" using Cons.prems(1) [of p] by auto
  let ?s = "s\<lparr>buffer_map := (buffer_map s)(GetFilename ob := None), objs := (objs s)(p := None)\<rparr>"
  have step: "erase_obj p s = Inr ?s" using ob by (simp add: erase_obj_def Let_def)
  have uniq: "path = GetFilename ob" if "buffer_map s path = Some p" for path using Cons.prems(2) [OF that] ob(1) by auto
  have ps: "\<exists>obq. objs ?s q = Some obq \<and> buffer_map ?s (GetFilename obq) = Some q" if q: "q \<in> set ps" for q
  proof -
    obtain obq where obq: "objs s q = Some obq" "buffer_map s (GetFilename obq) = Some q" "q \<noteq> p" using Cons.prems(1) [of q] Cons.prems(3) q by auto
    then have "GetFilename obq \<noteq> GetFilename ob" using ob(2) by auto
    then show ?thesis using obq by simp
  qed
  have map: "\<exists>obq. objs ?s q = Some obq \<and> GetFilename obq = path" if "buffer_map ?s path = Some q" for path q
    using that Cons.prems(2) [of path q] uniq by (auto split: if_splits)
  have "rfold erase_obj ps ?s =
    Inr (?s\<lparr>buffer_map := (\<lambda>path. if \<exists>p \<in> set ps. buffer_map ?s path = Some p then None else buffer_map ?s path), objs := objs ?s |` (- set ps)\<rparr>)"
    by (rule Cons.IH [OF ps map]) (use Cons.prems(3) in simp_all)
  moreover have "objs ?s |` (- set ps) = objs s |` (- set (p # ps))" by (auto simp: fun_eq_iff restrict_map_def)
  moreover have "(if \<exists>p \<in> set ps. buffer_map ?s path = Some p then None else buffer_map ?s path) =
    (if \<exists>p \<in> set (p # ps). buffer_map s path = Some p then None else buffer_map s path)" for path
    using ob(2) uniq [of path] by (cases "path = GetFilename ob") auto
  ultimately show ?case using step by simp
qed

lemma LRUCache_RemoveClean_none: "(\<And>p. p \<in> set ps \<Longrightarrow> p \<notin> set l) \<Longrightarrow> LRUCache_RemoveClean ps l = l"
  unfolding LRUCache_RemoveClean_def by (induction ps) (simp_all add: remove1_idem)

lemma clean_obj:
  assumes "binv dd td k s" "objs s p = Some ob"
  shows "p \<in> set (clean_list s) \<longleftrightarrow> bo_status ob = kClean" "bo_status ob = kClean \<Longrightarrow> data_null (wk ob)"
  using binv_obj [OF assms] by (auto simp: obj_ok_def status_ok_def)

lemma RemoveClean_state:
  assumes inv: "binv dd td 0 s"
  defines "d \<equiv> (\<lambda>path. if \<exists>p \<in> set (clean_temp_set s). bo_type (the (objs s p)) \<noteq> kTemp \<and> path = obj_path True (the (objs s p)) then None
    else if \<exists>p \<in> set (clean_list s). path = obj_path False (the (objs s p)) then None else bm_disk s path)"
  shows "RemoveClean s = Inr (s\<lparr>clean_list := [], bm_disk := d, clean_temp_set := [],
    buffer_map := (\<lambda>path. if \<exists>p \<in> set (clean_list s). buffer_map s path = Some p then None else buffer_map s path), objs := objs s |` (- set (clean_list s))\<rparr>)"
proof -
  have heap: "heap_ok dd td s" "queue_ok s" using inv by (simp_all add: binv_def)
  have ex: "\<exists>ob. objs s p = Some ob" if "p \<in> set (clean_list s) \<union> set (clean_temp_set s)" for p using heap(1) that unfolding heap_ok_def by blast
  define d1 where "d1 = (\<lambda>path. if \<exists>p \<in> set (clean_list s). path = obj_path False (the (objs s p)) then None else bm_disk s path)"
  have "\<exists>ob. objs s p = Some ob \<and> bo_status ob = kClean \<and> data_null (wk ob) \<and> is_absolute (obj_path False ob)" if p: "p \<in> set (clean_list s)" for p
  proof -
    obtain ob where ob: "objs s p = Some ob" using ex [of p] p by auto
    then show ?thesis using clean_obj [OF inv ob] p paths_absolute [OF inv ob] by simp
  qed
  then have 1: "rfold BufferObj_CleanupFile (clean_list s) (s\<lparr>clean_list := []\<rparr>) = Inr (s\<lparr>clean_list := [], bm_disk := d1\<rparr>)"
    using CleanupFile_loop [of "clean_list s" "s\<lparr>clean_list := []\<rparr>"] by (simp add: d1_def cong: if_cong)
  have spill: "d1 (obj_path True ob) = bm_disk s (obj_path True ob)" if p: "objs s p = Some ob" for p ob
  proof -
    have "obj_path True ob \<noteq> obj_path False (the (objs s q))" if "q \<in> set (clean_list s)" for q
      using ex [of q] that binv_paths [OF inv p, of q _ True False] by auto
    then show ?thesis by (auto simp: d1_def)
  qed
  have t1: "\<exists>ob. objs s p = Some ob \<and> is_absolute (obj_path True ob) \<and> (bo_type ob = kTemp \<or> d1 (obj_path True ob) \<noteq> None)" if p: "p \<in> set (clean_temp_set s)" for p
  proof -
    obtain ob where ob: "objs s p = Some ob" using ex [of p] p by auto
    then show ?thesis using p binv_obj [OF inv ob] paths_absolute [OF inv ob] spill [OF ob] by (auto simp: obj_ok_def split: if_splits)
  qed
  have t2: "obj_path True (the (objs s p)) \<noteq> obj_path True (the (objs s q))" if pq: "p \<in> set (clean_temp_set s)" "q \<in> set (clean_temp_set s)" "p \<noteq> q" for p q
  proof -
    obtain ob obq where "objs s p = Some ob" "objs s q = Some obq" using ex [of p] ex [of q] pq by auto
    then show ?thesis using binv_paths [OF inv, of p ob q obq True True] pq by auto
  qed
  have dist: "distinct (clean_temp_set s)" "distinct (clean_list s)" using heap(1) by (simp_all add: heap_ok_def)
  have named: "\<And>p. p \<in> set (clean_list s) \<Longrightarrow> \<exists>ob. objs s p = Some ob \<and> buffer_map s (GetFilename ob) = Some p"
    "\<And>path p. buffer_map s path = Some p \<Longrightarrow> \<exists>ob. objs s p = Some ob \<and> GetFilename ob = path"
    using heap(1) ex unfolding heap_ok_def by blast+
  have 2: "rfold BufferObj_CleanupTempFile (clean_temp_set s) (s\<lparr>clean_list := [], bm_disk := d1, clean_temp_set := []\<rparr>) =
    Inr (s\<lparr>clean_list := [], bm_disk := d, clean_temp_set := []\<rparr>)"
    using CleanupTempFile_loop [of "clean_temp_set s" "s\<lparr>clean_list := [], bm_disk := d1, clean_temp_set := []\<rparr>"] t1 t2 dist
    by (simp add: d_def d1_def cong: if_cong)
  have "LRUCache_RemoveClean (clean_list s) l = l" if l: "l \<in> set (lru_caches s)" for l
  proof -
    obtain i where i: "i < length (lru_caches s)" "l = lru_caches s ! i" using l by (auto simp: in_set_conv_nth)
    have "p \<notin> set l" if p: "p \<in> set (clean_list s)" for p
    proof -
      obtain ob where ob: "objs s p = Some ob" using ex [of p] p by auto
      then have "\<not> queued ob" using p clean_obj [OF inv ob] by (simp add: queued_def)
      then show ?thesis using i heap(2) ob by (simp add: queue_ok_def)
    qed
    then show ?thesis by (rule LRUCache_RemoveClean_none)
  qed
  then have "map (LRUCache_RemoveClean (clean_list s)) (lru_caches s) = lru_caches s" by (rule map_idI)
  moreover have "rfold erase_obj (clean_list s) (s\<lparr>clean_list := [], bm_disk := d, clean_temp_set := []\<rparr>) = Inr (s\<lparr>clean_list := [], bm_disk := d, clean_temp_set := [],
    buffer_map := (\<lambda>path. if \<exists>p \<in> set (clean_list s). buffer_map s path = Some p then None else buffer_map s path), objs := objs s |` (- set (clean_list s))\<rparr>)"
    using erase_loop [of "clean_list s" "s\<lparr>clean_list := [], bm_disk := d, clean_temp_set := []\<rparr>"] named dist by (simp cong: if_cong)
  ultimately show ?thesis using 1 2 by (simp add: RemoveClean_def Let_def)
qed

text \<open>The effect of the removal: the marked objects and their data files are gone, other data files are kept, and a spill file is deleted
  only if its object does not use it.\<close>

definition removed :: "BufferManager \<Rightarrow> BufferManager \<Rightarrow> bool" where
  "removed s s' \<longleftrightarrow> (\<forall>q ob. objs s' q = Some ob \<longleftrightarrow> objs s q = Some ob \<and> bo_status ob \<noteq> kClean) \<and>
     (\<forall>q ob. objs s q = Some ob \<longrightarrow> bm_disk s' (obj_path False ob) = (if bo_status ob = kClean then None else bm_disk s (obj_path False ob)) \<and>
        bm_disk s' (obj_path True ob) = (if q \<in> set (clean_temp_set s) \<and> bo_type ob \<noteq> kTemp then None else bm_disk s (obj_path True ob))) \<and>
     (\<forall>path q. buffer_map s' path = Some q \<longleftrightarrow> buffer_map s path = Some q \<and> q \<notin> set (clean_list s)) \<and>
     clean_list s' = [] \<and> clean_temp_set s' = [] \<and> temp_set s' = temp_set s \<and> next_ptr s' = next_ptr s \<and> lru_caches s' = lru_caches s \<and>
     round_robin s' = round_robin s \<and> memory_limit s' = memory_limit s \<and> current_memory_size s' = current_memory_size s"

lemma RemoveClean_removed:
  assumes inv: "binv dd td 0 s"
  shows "\<exists>s'. RemoveClean s = Inr s' \<and> removed s s'"
proof -
  define d where "d = (\<lambda>path. if \<exists>p \<in> set (clean_temp_set s). bo_type (the (objs s p)) \<noteq> kTemp \<and> path = obj_path True (the (objs s p)) then None
    else if \<exists>p \<in> set (clean_list s). path = obj_path False (the (objs s p)) then None else bm_disk s path)"
  define s' where "s' = s\<lparr>clean_list := [], bm_disk := d, clean_temp_set := [],
    buffer_map := (\<lambda>path. if \<exists>p \<in> set (clean_list s). buffer_map s path = Some p then None else buffer_map s path), objs := objs s |` (- set (clean_list s))\<rparr>"
  have run: "RemoveClean s = Inr s'" using RemoveClean_state [OF inv] by (simp add: s'_def d_def)
  have ex: "objs s p = Some (the (objs s p))" if "p \<in> set (clean_list s) \<union> set (clean_temp_set s)" for p
  proof -
    have "\<exists>ob. objs s p = Some ob" using inv that unfolding binv_def heap_ok_def by blast
    then show ?thesis by auto
  qed
  have live: "objs s' q = Some ob \<longleftrightarrow> objs s q = Some ob \<and> bo_status ob \<noteq> kClean" for q ob
    using clean_obj(1) [OF inv, of q ob] by (auto simp: s'_def restrict_map_def)
  have path: "(obj_path sp ob = obj_path sp' (the (objs s p))) = (p = q \<and> sp = sp')" if "objs s q = Some ob" "p \<in> set (clean_list s) \<union> set (clean_temp_set s)" for q ob p sp sp'
    using binv_paths [OF inv that(1) ex [OF that(2)], of sp sp'] that(1) by auto
  have disk: "bm_disk s' (obj_path False ob) = (if bo_status ob = kClean then None else bm_disk s (obj_path False ob)) \<and>
      bm_disk s' (obj_path True ob) = (if q \<in> set (clean_temp_set s) \<and> bo_type ob \<noteq> kTemp then None else bm_disk s (obj_path True ob))" if q: "objs s q = Some ob" for q ob
  proof -
    have "(\<exists>p \<in> set (clean_temp_set s). bo_type (the (objs s p)) \<noteq> kTemp \<and> obj_path sp ob = obj_path True (the (objs s p))) \<longleftrightarrow>
        q \<in> set (clean_temp_set s) \<and> bo_type ob \<noteq> kTemp \<and> sp" for sp
      using path [OF q] q by auto
    moreover have "(\<exists>p \<in> set (clean_list s). obj_path sp ob = obj_path False (the (objs s p))) \<longleftrightarrow> bo_status ob = kClean \<and> \<not> sp" for sp
      using path [OF q] clean_obj(1) [OF inv q] by auto
    ultimately show ?thesis by (simp add: s'_def d_def)
  qed
  have map: "buffer_map s' path = Some q \<longleftrightarrow> buffer_map s path = Some q \<and> q \<notin> set (clean_list s)" for path q by (auto simp: s'_def)
  show ?thesis
    by (intro exI [of _ s'] conjI run, unfold removed_def, intro conjI allI impI live map) (use disk in \<open>auto simp: s'_def\<close>)
qed

lemma removed_objs:
  assumes "binv dd td 0 s" "removed s s'"
  shows "objs_ok s'"
  unfolding objs_ok_def
proof (intro allI impI)
  fix q ob assume "objs s' q = Some ob"
  then have q: "objs s q = Some ob" "bo_status ob \<noteq> kClean" using assms(2) by (auto simp: removed_def)
  then have "bm_disk s' (obj_path False ob) = bm_disk s (obj_path False ob)"
    "bm_disk s' (obj_path True ob) = (if q \<in> set (clean_temp_set s) \<and> bo_type ob \<noteq> kTemp then None else bm_disk s (obj_path True ob))"
    "temp_set s' = temp_set s" "clean_temp_set s' = []" "clean_list s' = []"
    using assms(2) by (auto simp: removed_def)
  then show "obj_ok (q \<in> set (temp_set s')) (q \<in> set (clean_temp_set s')) (q \<in> set (clean_list s')) (bm_disk s' (obj_path False ob)) (bm_disk s' (obj_path True ob)) ob"
    using binv_obj [OF assms(1) q(1)] q(2) by (simp add: obj_ok_def)
qed

lemma removed_heap:
  assumes inv: "binv dd td 0 s" and r: "removed s s'"
  shows "heap_ok dd td s'"
proof -
  have heap: "heap_ok dd td s" using inv by (simp add: binv_def)
  have live: "\<And>q ob. objs s' q = Some ob \<longleftrightarrow> objs s q = Some ob \<and> bo_status ob \<noteq> kClean" using r by (simp add: removed_def)
  have map: "\<And>path q. buffer_map s' path = Some q \<longleftrightarrow> buffer_map s path = Some q \<and> q \<notin> set (clean_list s)" using r by (simp add: removed_def)
  have frame: "temp_set s' = temp_set s" "clean_temp_set s' = []" "clean_list s' = []" "next_ptr s' = next_ptr s" using r by (simp_all add: removed_def)
  have sub: "dom (objs s') \<subseteq> dom (objs s)" using live by blast
  have temp: "\<exists>ob. objs s' q = Some ob" if t: "q \<in> set (temp_set s)" for q
  proof -
    obtain ob where ob: "objs s q = Some ob" using heap t unfolding heap_ok_def by blast
    then have "bo_status ob \<noteq> kClean" using binv_obj [OF inv ob] t by (simp add: obj_ok_def)
    then show ?thesis using live ob by blast
  qed
  have "named dd td (bo_worker ob) \<and> buffer_map s' (GetFilename ob) = Some q" if "objs s' q = Some ob" for q ob
  proof -
    have q: "objs s q = Some ob" "bo_status ob \<noteq> kClean" using that live by auto
    then show ?thesis using heap clean_obj(1) [OF inv q(1)] map by (simp add: heap_ok_def)
  qed
  moreover have "\<exists>ob. objs s' q = Some ob \<and> GetFilename ob = path" if "buffer_map s' path = Some q" for path q
  proof -
    have q: "buffer_map s path = Some q" "q \<notin> set (clean_list s)" using that map by auto
    then obtain ob where "objs s q = Some ob" "GetFilename ob = path" using heap unfolding heap_ok_def by blast
    then show ?thesis using live clean_obj(1) [OF inv] q(2) by blast
  qed
  moreover have "finite (dom (objs s'))" "\<forall>q \<in> dom (objs s'). q < next_ptr s" using sub heap by (auto simp: heap_ok_def intro: finite_subset)
  ultimately show ?thesis using heap temp by (simp add: heap_ok_def frame)
qed

lemma removed_usage:
  assumes inv: "binv dd td 0 s" and r: "removed s s'"
  shows "usage s' = usage s"
proof -
  have live: "\<And>q ob. objs s' q = Some ob \<longleftrightarrow> objs s q = Some ob \<and> bo_status ob \<noteq> kClean" using r by (simp add: removed_def)
  have "dom (objs s') \<subseteq> dom (objs s)" using live by blast
  moreover have "mem_cost (the (objs s p)) = 0" if p: "p \<in> dom (objs s) - dom (objs s')" for p
  proof -
    obtain ob where ob: "objs s p = Some ob" using p by blast
    moreover have "bo_status ob = kClean" using p live ob by blast
    ultimately show ?thesis using clean_obj(2) [OF inv ob] by (simp add: mem_cost_def)
  qed
  moreover have "the (objs s' p) = the (objs s p)" if p: "p \<in> dom (objs s')" for p
  proof -
    obtain ob where ob: "objs s' p = Some ob" using p by blast
    then have "objs s p = Some ob" using live by simp
    then show ?thesis using ob by simp
  qed
  moreover have "finite (dom (objs s))" using inv by (simp add: binv_def heap_ok_def)
  ultimately show ?thesis unfolding usage_def by (intro sum.mono_neutral_cong_left) auto
qed

lemma removed_contents:
  assumes inv: "binv dd td 0 s" and r: "removed s s'"
  shows "contents_at s' q = contents_at s q"
proof (cases "objs s' q")
  case None
  have "contents_at s q = None"
  proof (cases "objs s q")
    case (Some ob)
    then have "bo_status ob = kClean" using r None unfolding removed_def by (metis option.distinct(1))
    then show ?thesis using Some clean_obj(2) [OF inv Some] by (simp add: contents_at_def obj_content_def content_of_def)
  qed (simp add: contents_at_def)
  then show ?thesis using None by (simp add: contents_at_def)
next
  case (Some ob)
  then have q: "objs s q = Some ob" "bo_status ob \<noteq> kClean" using r by (auto simp: removed_def)
  then have "bm_disk s' (obj_path False ob) = bm_disk s (obj_path False ob)"
    "bo_type ob = kTemp \<Longrightarrow> bm_disk s' (obj_path True ob) = bm_disk s (obj_path True ob)"
    using r by (auto simp: removed_def)
  then show ?thesis using Some q by (simp add: contents_at_def obj_content_def content_of_def)
qed

lemma RemoveClean_spec:
  assumes inv: "binv dd td 0 s"
  shows "\<exists>s'. RemoveClean s = Inr s' \<and> removed s s' \<and> binv dd td 0 s' \<and> (\<forall>q. contents_at s' q = contents_at s q)"
proof -
  obtain s' where s': "RemoveClean s = Inr s'" and r: "removed s s'" using RemoveClean_removed [OF inv] by blast
  have live: "\<And>q ob. objs s' q = Some ob \<longleftrightarrow> objs s q = Some ob \<and> bo_status ob \<noteq> kClean" and frame: "lru_caches s' = lru_caches s" "round_robin s' = round_robin s"
    "memory_limit s' = memory_limit s" "current_memory_size s' = current_memory_size s"
    using r by (simp_all add: removed_def)
  have "\<And>ob. queued ob \<Longrightarrow> bo_status ob \<noteq> kClean" by (simp add: queued_def)
  then have "(\<exists>ob. objs s' q = Some ob \<and> queued ob \<and> LRUIdx ob s' = i) \<longleftrightarrow> (\<exists>ob. objs s q = Some ob \<and> queued ob \<and> LRUIdx ob s = i)" for q i
    using live by (auto simp: LRUIdx_def frame)
  then have "queue_ok s'" using inv by (simp add: binv_def queue_ok_def frame)
  then have "binv dd td 0 s'" using inv removed_objs [OF inv r] removed_heap [OF inv r] removed_usage [OF inv r] by (simp add: binv_def frame)
  then show ?thesis using s' r removed_contents [OF inv r] by blast
qed

end
