(* ===== verification/Buffer_Properties.thy ===== *)
theory Buffer_Properties
  imports Buffer_Changes Buffer_Lifetime
begin

text \<open>
  Runs of the buffer manager.  A client allocates and opens objects, pins and unpins them, writes to pinned objects, saves, maps and
  removes them, in any order, while other threads may hold the locks of other objects.  A run consists of operations that are \<open>allowed\<close>
  where they are called; in particular every append gets the memory it requests.  Every such run stays within the memory limit,
  keeps the bookkeeping consistent and never loses or mixes up the contents of an object.  \<^verbatim>\<open>VarBuffer::Append\<close> carries out an append whose request
  was refused as well; what follows from that is shown apart.
\<close>

subsection \<open>Operations of a client\<close>

datatype buffer_op =
    OpAllocate FileWorker
  | OpGet FileWorker
  | OpLoad nat "nat list"
  | OpCopy nat
  | OpUnload nat "nat list"
  | OpGetMut nat "nat list"
  | OpWrite nat worker
  | OpAppend nat "nat list" "byte list"
  | OpSave nat save_ctx
  | OpToMmap nat
  | OpAddRef nat
  | OpPick nat
  | OpRemoveClean

fun exec :: "buffer_op \<Rightarrow> BufferManager \<Rightarrow> BufferManager res" where
  "exec (OpAllocate w) s = rmap snd (AllocateBufferObject w s)"
| "exec (OpGet w) s = rmap snd (GetBufferObject w False s)"
| "exec (OpLoad p others) s = rmap snd (Load p others s)"
| "exec (OpCopy p) s = LoadInner p s"
| "exec (OpUnload p others) s = UnloadInner p others s"
| "exec (OpGetMut p others) s = rmap snd (GetMutPointer p others s)"
| "exec (OpWrite p w) s = write_data p w s"
| "exec (OpAppend p others b) s = rmap (snd \<circ> snd) (VarBuffer_Append_obj p others b s)"
| "exec (OpSave p ctx) s = rmap snd (Save p ctx s)"
| "exec (OpToMmap p) s = ToMmap p s"
| "exec (OpAddRef p) s = AddObjRc p s"
| "exec (OpPick p) s = PickForCleanup p s"
| "exec OpRemoveClean s = RemoveClean s"

text \<open>The discipline of clients.  A new object has a name of its own; only pinned objects are unpinned and only with a mutable pointer
  written, with data of the same shape; an append is not refused; an object that is still pinned is not removed.\<close>

definition obj_where :: "nat \<Rightarrow> BufferManager \<Rightarrow> (BufferObj \<Rightarrow> bool) \<Rightarrow> bool" where
  "obj_where p s P \<longleftrightarrow> (case objs s p of None \<Rightarrow> False | Some ob \<Rightarrow> P ob)"

definition file_readable :: "disk \<Rightarrow> FileWorker \<Rightarrow> bool" where
  "file_readable d w \<longleftrightarrow>
     (case d (file_path False w) of
        None \<Rightarrow> False
      | Some f \<Rightarrow> (case ReadFromFileImpl f (freed_worker (fw_worker w)) of
          Inl _ \<Rightarrow> False
        | Inr w2 \<Rightarrow> \<not> data_null w2 \<and> worker_ok w2 \<and> freed_worker w2 = freed_worker (fw_worker w)))"

definition append_granted :: "nat \<Rightarrow> nat list \<Rightarrow> byte list \<Rightarrow> BufferManager \<Rightarrow> bool" where
  "append_granted p others b s \<longleftrightarrow> (case VarBuffer_Append_obj p others b s of Inl _ \<Rightarrow> False | Inr (offset, granted, s') \<Rightarrow> granted)"

fun allowed :: "string \<Rightarrow> string \<Rightarrow> buffer_op \<Rightarrow> BufferManager \<Rightarrow> bool" where
  "allowed dd td (OpAllocate w) s \<longleftrightarrow> worker_placed dd td (bm_disk s) w \<and> worker_fresh (fw_worker w) \<and> buffer_map s (GetFilePath w) = None"
| "allowed dd td (OpGet w) s \<longleftrightarrow>
     buffer_map s (GetFilePath w) \<noteq> None \<or> worker_placed dd td (bm_disk s) w \<and> worker_ok (fw_worker w) \<and> file_readable (bm_disk s) w"
| "allowed dd td (OpLoad p others) s \<longleftrightarrow> obj_where p s (\<lambda>ob. bo_status ob \<noteq> kClean)"
| "allowed dd td (OpCopy p) s \<longleftrightarrow> obj_where p s (\<lambda>ob. bo_status ob = kLoaded)"
| "allowed dd td (OpUnload p others) s \<longleftrightarrow> obj_where p s (\<lambda>ob. bo_status ob = kLoaded)"
| "allowed dd td (OpGetMut p others) s \<longleftrightarrow> obj_where p s (\<lambda>ob. bo_status ob = kLoaded)"
| "allowed dd td (OpWrite p w) s \<longleftrightarrow>
     obj_where p s (\<lambda>ob. bo_status ob = kLoaded \<and> bo_type ob = kEphemeral \<and> \<not> data_null w \<and> worker_ok w \<and> same_base w (wk ob))"
| "allowed dd td (OpAppend p others b) s \<longleftrightarrow>
     obj_where p s (\<lambda>ob. bo_status ob = kLoaded \<and> bo_type ob = kEphemeral \<and> GetMemoryCost (wk ob) + length b < 2 ^ 64) \<and> append_granted p others b s"
| "allowed dd td (OpSave p ctx) s \<longleftrightarrow>
     obj_where p s (\<lambda>ob. bo_status ob \<noteq> kNew \<and> bo_status ob \<noteq> kClean \<and> bo_type ob \<noteq> kMmap \<and> (bo_type ob = kEphemeral \<longrightarrow> save_sound ctx (wk ob)))"
| "allowed dd td (OpToMmap p) s \<longleftrightarrow>
     obj_where p s (\<lambda>ob. bo_status ob \<noteq> kNew \<and> bo_status ob \<noteq> kClean \<and> (bo_type ob = kPersistent \<or> bo_type ob = kMmap))"
| "allowed dd td (OpAddRef p) s \<longleftrightarrow> obj_where p s (\<lambda>ob. True)"
| "allowed dd td (OpPick p) s \<longleftrightarrow>
     obj_where p s (\<lambda>ob. 0 < bo_obj_rc ob \<and> (bo_obj_rc ob = 1 \<longrightarrow> bo_status ob \<noteq> kLoaded \<and> bo_status ob \<noteq> kClean))"
| "allowed dd td OpRemoveClean s \<longleftrightarrow> True"

fun run_ops :: "string \<Rightarrow> string \<Rightarrow> buffer_op list \<Rightarrow> BufferManager \<Rightarrow> BufferManager option" where
  "run_ops dd td [] s = Some s"
| "run_ops dd td (x # xs) s =
     (if \<not> allowed dd td x s then None else case exec x s of Inl _ \<Rightarrow> None | Inr s' \<Rightarrow> run_ops dd td xs s')"

text \<open>The specification: which object an operation gives new contents, and which.\<close>

definition append_content :: "byte list \<Rightarrow> content option \<Rightarrow> content option" where
  "append_content b c = (case c of Some (ByteContent a) \<Rightarrow> Some (ByteContent (a @ b)) | _ \<Rightarrow> None)"

definition res_contents :: "worker res \<Rightarrow> content option" where
  "res_contents r = (case r of Inl _ \<Rightarrow> None | Inr w \<Rightarrow> worker_contents w)"

fun effect :: "buffer_op \<Rightarrow> BufferManager \<Rightarrow> (nat \<times> content option) option" where
  "effect (OpAllocate w) s = Some (next_ptr s, res_contents (AllocateInMemory (fw_worker w)))"
| "effect (OpGet w) s =
     (if buffer_map s (GetFilePath w) \<noteq> None then None
      else Some (next_ptr s, case bm_disk s (file_path False w) of None \<Rightarrow> None | Some f \<Rightarrow> res_contents (ReadFromFileImpl f (fw_worker w))))"
| "effect (OpWrite p w) s = Some (p, worker_contents w)"
| "effect (OpAppend p others b) s = Some (p, append_content b (contents_at s p))"
| "effect (OpPick p) s = (if obj_where p s (\<lambda>ob. bo_obj_rc ob = 1) then Some (p, None) else None)"
| "effect _ s = None"

definition apply_effect :: "(nat \<times> content option) option \<Rightarrow> (nat \<Rightarrow> content option) \<Rightarrow> nat \<Rightarrow> content option" where
  "apply_effect e m = (case e of None \<Rightarrow> m | Some (p, c) \<Rightarrow> m(p := c))"

subsection \<open>Every operation is sound\<close>

fun on_mapped :: "buffer_op \<Rightarrow> BufferManager \<Rightarrow> bool" where
  "on_mapped (OpLoad p others) s \<longleftrightarrow> obj_where p s (\<lambda>ob. bo_type ob = kMmap)"
| "on_mapped (OpPick p) s \<longleftrightarrow> obj_where p s (\<lambda>ob. bo_type ob = kMmap)"
| "on_mapped _ s \<longleftrightarrow> False"

fun needs_memory :: "buffer_op \<Rightarrow> bool" where
  "needs_memory (OpLoad p others) \<longleftrightarrow> True"
| "needs_memory (OpGetMut p others) \<longleftrightarrow> True"
| "needs_memory _ \<longleftrightarrow> False"

text \<open>An operation that succeeds keeps the invariant and has exactly its effect.  It fails only when memory is short, or on a mapped object
  when the mapping fails.\<close>

definition sound_op :: "string \<Rightarrow> string \<Rightarrow> buffer_op \<Rightarrow> BufferManager \<Rightarrow> bool" where
  "sound_op dd td x s \<longleftrightarrow>
     (case exec x s of
        Inr s' \<Rightarrow> binv dd td 0 s' \<and> memory_limit s' = memory_limit s \<and> contents_at s' = apply_effect (effect x s) (contents_at s)
      | Inl e \<Rightarrow> e = UnrecoverableError ''Out of memory.'' \<and> needs_memory x \<or> on_mapped x s)"

lemma obj_whereE:
  assumes "obj_where p s P"
  obtains ob where "objs s p = Some ob" "P ob"
  using assms by (auto simp: obj_where_def split: option.splits)

lemma changed_effect:
  "changed dd td p c s s' \<Longrightarrow> binv dd td 0 s' \<and> memory_limit s' = memory_limit s \<and> contents_at s' = (contents_at s)(p := c)"
  by (auto simp: changed_def fun_eq_iff)

lemma sound_same:
  assumes "exec x s = Inr s'" "changed dd td p (contents_at s p) s s'" "effect x s = None"
  shows "sound_op dd td x s"
  using assms changed_effect [OF assms(2)] by (simp add: sound_op_def apply_effect_def)

lemma sound_change:
  assumes "exec x s = Inr s'" "changed dd td p c s s'" "effect x s = Some (p, c)"
  shows "sound_op dd td x s"
  using assms changed_effect [OF assms(2)] by (simp add: sound_op_def apply_effect_def)

lemma sound_OpLoad:
  assumes inv: "binv dd td 0 s" and p: "objs s p = Some ob" "bo_status ob \<noteq> kClean"
  shows "sound_op dd td (OpLoad p others) s"
proof (cases "bo_type ob = kMmap")
  case True
  let ?s = "s\<lparr>total_request_count := total_request_count s + 1\<rparr>"
  show ?thesis
  proof (cases "load_mmap p ob ?s")
    case (Inr x)
    obtain h s' where x: "x = (h, s')" by (cases x)
    have "loaded dd td p ?s h s'" by (rule load_mmap_spec [of _ _ _ _ ob]) (use inv p True Inr x in simp_all)
    then show ?thesis using Inr x p True by (simp add: sound_op_def Load_def Let_def loaded_def apply_effect_def fun_eq_iff)
  qed (use p True in \<open>simp add: sound_op_def obj_where_def Load_def Let_def\<close>)
next
  case False
  let ?s = "s\<lparr>total_request_count := total_request_count s + 1\<rparr>"
  have "(\<exists>h s'. load_memory p others ob ?s = Inr (h, s') \<and> loaded dd td p ?s h s') \<or> load_memory p others ob ?s = Inl (UnrecoverableError ''Out of memory.'')"
    using load_memory_spec [of dd td ?s p ob others] inv p False by auto
  then show ?thesis using p False by (auto simp: sound_op_def Load_def Let_def loaded_def apply_effect_def fun_eq_iff)
qed

lemma sound_OpPick:
  assumes inv: "binv dd td 0 s" and a: "allowed dd td (OpPick p) s"
  shows "sound_op dd td (OpPick p) s"
proof -
  obtain ob where ob: "objs s p = Some ob" "0 < bo_obj_rc ob" "bo_obj_rc ob = 1 \<Longrightarrow> bo_status ob \<notin> {kLoaded, kClean}" using a by (auto elim: obj_whereE)
  show ?thesis
  proof (cases "bo_type ob = kMmap \<and> (\<exists>e. Munmap (bo_worker ob) = Inl e)")
    case True
    then show ?thesis using ob
      by (cases "bo_obj_rc ob = 1")
        (use counts_changed [OF inv ob(1), of "ob\<lparr>bo_obj_rc := bo_obj_rc ob - 1\<rparr>" "bo_obj_rc ob - 1"] in
          \<open>auto simp: sound_op_def obj_where_def PickForCleanup_def Let_def apply_effect_def dest!: changed_effect\<close>)
  next
    case False
    then have w: "bo_type ob = kMmap \<Longrightarrow> Munmap (bo_worker ob) = Inr (case Munmap (bo_worker ob) of Inr w \<Rightarrow> w | Inl _ \<Rightarrow> bo_worker ob)"
      by (auto split: sum.splits)
    obtain s' where s': "PickForCleanup p s = Inr s'" "changed dd td p (if bo_obj_rc ob = 1 then None else contents_at s p) s s'"
      using PickForCleanup_changed [OF inv ob w] by blast
    then show ?thesis
      using ob(1) sound_same [of "OpPick p" s s' dd td p] sound_change [of "OpPick p" s s' dd td p None]
      by (cases "bo_obj_rc ob = 1") (simp_all add: obj_where_def)
  qed
qed

lemma sound_OpAllocate:
  assumes inv: "binv dd td 0 s" and a: "allowed dd td (OpAllocate w) s"
  shows "sound_op dd td (OpAllocate w) s"
proof -
  obtain s' w' where "AllocateBufferObject w s = Inr (next_ptr s, s')" "AllocateInMemory (fw_worker w) = Inr w'" "changed dd td (next_ptr s) (worker_contents w') s s'"
    using AllocateBufferObject_changed [OF inv, of w] a by auto
  then show ?thesis by (intro sound_change [of _ _ s']) (simp_all add: res_contents_def)
qed

lemma sound_OpGet:
  assumes inv: "binv dd td 0 s" and a: "allowed dd td (OpGet w) s"
  shows "sound_op dd td (OpGet w) s"
proof (cases "buffer_map s (GetFilePath w)")
  case (Some p)
  then show ?thesis using inv by (simp add: sound_op_def GetBufferObject_def apply_effect_def)
next
  case None
  then have w: "worker_placed dd td (bm_disk s) w" "worker_ok (fw_worker w)" "file_readable (bm_disk s) w" using a by simp_all
  then obtain f w2 where f: "bm_disk s (file_path False w) = Some f" "ReadFromFileImpl f (freed_worker (fw_worker w)) = Inr w2"
    "\<not> data_null w2" "worker_ok w2" "freed_worker w2 = freed_worker (fw_worker w)"
    by (auto simp: file_readable_def split: option.splits sum.splits)
  have "freed_worker (fw_worker w) = fw_worker w" using w(1) any_worker.freed_null by (simp add: worker_placed_def)
  then have "effect (OpGet w) s = Some (next_ptr s, worker_contents w2)" using None f(1,2) by (simp add: res_contents_def)
  moreover have "any_worker.stored f (fw_worker w) (worker_contents w2)" using f any_worker.contents_null [of w2] by (auto simp: any_worker.stored_def)
  from GetBufferObject_changed [OF inv w(1,2) None f(1) this, of False]
  obtain s' where "GetBufferObject w False s = Inr (next_ptr s, s')" "changed dd td (next_ptr s) (worker_contents w2) s s'" by blast
  ultimately show ?thesis by (intro sound_change [of _ _ s']) simp_all
qed

lemma sound_OpGetMut:
  assumes inv: "binv dd td 0 s" and p: "objs s p = Some ob" "bo_status ob = kLoaded"
  shows "sound_op dd td (OpGetMut p others) s"
proof -
  consider s' where "GetMutPointer p others s = Inr (MemData, s')" "changed dd td p (contents_at s p) s s'"
    | "GetMutPointer p others s = Inl (UnrecoverableError ''Out of memory.'')"
    using GetMutPointer_changed [OF inv p, of others] by blast
  then show ?thesis
  proof cases
    case (1 s')
    then show ?thesis by (intro sound_same [of _ _ s']) simp_all
  qed (simp add: sound_op_def)
qed

lemma sound_OpWrite:
  assumes inv: "binv dd td 0 s" and a: "allowed dd td (OpWrite p w) s"
  shows "sound_op dd td (OpWrite p w) s"
proof -
  obtain ob where "objs s p = Some ob" "bo_status ob = kLoaded" "bo_type ob = kEphemeral" "\<not> data_null w" "worker_ok w" "same_base w (wk ob)"
    using a by (auto elim: obj_whereE)
  then obtain s' where "write_data p w s = Inr s'" "changed dd td p (worker_contents w) s s'" using write_data_changed [OF inv] by blast
  then show ?thesis by (intro sound_change [of _ _ s']) simp_all
qed

lemma sound_OpAppend:
  assumes inv: "binv dd td 0 s" and a: "allowed dd td (OpAppend p others b) s"
  shows "sound_op dd td (OpAppend p others b) s"
proof -
  obtain ob where ob: "objs s p = Some ob" "bo_status ob = kLoaded" "bo_type ob = kEphemeral" "GetMemoryCost (wk ob) + length b < 2 ^ 64"
    using a by (auto elim: obj_whereE)
  obtain off s0 where run: "VarBuffer_Append_obj p others b s = Inr (off, True, s0)"
    using a by (auto simp: append_granted_def split: sum.splits prod.splits)
  then obtain v vb where v: "wk ob = VarWorker v" "vfw_data v = Some vb"
    using ob(1) by (auto simp: VarBuffer_Append_obj_def split: worker.splits option.splits)
  obtain s' where s': "VarBuffer_Append_obj p others b s = Inr (TotalSize vb, True, s')" "changed dd td p (Some (ByteContent (chunk_bytes (vb_buffers vb) @ b))) s s'"
    using Append_changed [OF inv ob(1-3) v ob(4), of others] run by auto
  have "contents_at s p = Some (ByteContent (chunk_bytes (vb_buffers vb)))" using ob(1) v by (simp add: contents_at_def obj_content_def content_of_def)
  then show ?thesis using s' by (intro sound_change [of _ _ s']) (simp_all add: append_content_def)
qed

lemma exec_sound:
  assumes inv: "binv dd td 0 s" and a: "allowed dd td x s"
  shows "sound_op dd td x s"
proof (cases x)
  case (OpLoad p others)
  then show ?thesis using a sound_OpLoad [OF inv] by (auto elim: obj_whereE)
next
  case (OpCopy p)
  then obtain s' where "LoadInner p s = Inr s'" "changed dd td p (contents_at s p) s s'" using a LoadInner_changed [OF inv] by (auto elim!: obj_whereE)
  then show ?thesis using OpCopy by (intro sound_same [of _ _ s']) simp_all
next
  case (OpUnload p others)
  then obtain s' where "UnloadInner p others s = Inr s'" "changed dd td p (contents_at s p) s s'" using a UnloadInner_changed [OF inv, of p _ others] by (fastforce elim!: obj_whereE)
  then show ?thesis using OpUnload by (intro sound_same [of _ _ s']) simp_all
next
  case (OpGetMut p others)
  then show ?thesis using a sound_OpGetMut [OF inv] by (auto elim: obj_whereE)
next
  case (OpSave p ctx)
  then obtain r s' where "Save p ctx s = Inr (r, s')" "changed dd td p (contents_at s p) s s'" using a Save_changed [OF inv, of p _ ctx] by (fastforce elim!: obj_whereE)
  then show ?thesis using OpSave by (intro sound_same [of _ _ s']) simp_all
next
  case (OpToMmap p)
  then obtain s' where "ToMmap p s = Inr s'" "changed dd td p (contents_at s p) s s'" using a ToMmap_changed [OF inv, of p] by (fastforce elim!: obj_whereE)
  then show ?thesis using OpToMmap by (intro sound_same [of _ _ s']) simp_all
next
  case (OpAddRef p)
  then obtain s' where "AddObjRc p s = Inr s'" "changed dd td p (contents_at s p) s s'" using a AddObjRc_changed [OF inv] by (auto elim!: obj_whereE)
  then show ?thesis using OpAddRef by (intro sound_same [of _ _ s']) simp_all
next
  case OpRemoveClean
  then show ?thesis using RemoveClean_spec [OF inv] by (auto simp: sound_op_def removed_def apply_effect_def fun_eq_iff)
qed (use a sound_OpAllocate [OF inv] sound_OpGet [OF inv] sound_OpWrite [OF inv] sound_OpAppend [OF inv] sound_OpPick [OF inv] in simp_all)

subsection \<open>Runs\<close>

lemma binv_new: "dirs_ok dd td \<Longrightarrow> 0 < n \<Longrightarrow> binv dd td 0 (BufferManager_new limit n d)"
  by (auto simp: binv_def BufferManager_new_def heap_ok_def queue_ok_def objs_ok_def usage_def)

lemma run_ops_binv:
  "binv dd td 0 s \<Longrightarrow> run_ops dd td xs s = Some s' \<Longrightarrow> binv dd td 0 s' \<and> memory_limit s' = memory_limit s"
proof (induction xs arbitrary: s)
  case (Cons x xs)
  then obtain s1 where s1: "allowed dd td x s" "exec x s = Inr s1" "run_ops dd td xs s1 = Some s'" by (auto split: if_splits sum.splits)
  then show ?case using Cons.IH [of s1] exec_sound [OF Cons.prems(1) s1(1)] by (simp add: sound_op_def)
qed simp

subsection \<open>Properties\<close>

text \<open>A sample run with a limit of three bytes: an object of two bytes is written and unpinned, and another object of two bytes is loaded, for which the
  first one must leave memory.\<close>

definition demo_file :: "string \<Rightarrow> worker \<Rightarrow> FileWorker" where
  "demo_file name w = \<lparr>fw_data_dir = ''/data'', fw_temp_dir = ''/tmp'', fw_file_dir = ''db'', fw_file_name = name, fw_worker = w, fw_mmap_addr = None\<rparr>"

definition demo_data :: "byte list option \<Rightarrow> worker" where
  "demo_data b = DataWorker \<lparr>dfw_buffer_size = 2, dfw_data = b, dfw_mmap_data = None\<rparr>"

definition demo_before :: "buffer_op list" where
  "demo_before = [OpAllocate (demo_file ''a'' (demo_data None)), OpLoad 0 [], OpGetMut 0 []]"

definition demo_after :: "buffer_op list" where
  "demo_after = [OpUnload 0 [], OpAllocate (demo_file ''b'' (demo_data None)), OpLoad 1 [], OpUnload 1 []]"

lemmas demo_simps = demo_file_def demo_data_def demo_before_def demo_after_def BufferManager_new_def worker_placed_def named_def starts_with_def
  file_path_def ChooseFileDir_def path_append_def GetFilePath_def AllocateBufferObject_def MakeBufferObj_def BufferObj_new_def obj_where_def
  Load_def load_memory_def reserve_def RequestSpace_def visit_order_def LRUCache_RequestSpace_def Free_def GetBufferSize_def
  DataFileWorker_GetMemoryCost_def DataFileWorker_AllocateInMemory_def DataFileWorker_FreeInMemory_def DataFileWorker_WriteToFileImpl_def
  DataFileWorker_ReadFromFileImpl_def DataFileWorker_ok_def pin_def mem_ptr_def set_obj_def set_worker_def set_lru_def GetMutPointer_def write_data_def
  same_base_def UnloadInner_def PushGCQueue_def LRUCache_PushGCQueue_def LRUIdx_def AddTemp_def WriteToFile_def ReadFromFile_def Let_def overwrite_def
  with_obj_def data_magic_def WriteBufAdv_pod_def le_nat_le_bytes u64_add_def word_le_nat_alt word_less_nat_alt

lemma demo_written:
  obtains s where "run_ops ''/data'' ''/tmp'' demo_before (BufferManager_new 3 1 Map.empty) = Some s"
    "run_ops ''/data'' ''/tmp'' (OpWrite 0 (demo_data (Some [7, 8])) # demo_after) s \<noteq> None"
proof -
  have "\<exists>s. run_ops ''/data'' ''/tmp'' demo_before (BufferManager_new 3 1 Map.empty) = Some s \<and>
    run_ops ''/data'' ''/tmp'' (OpWrite 0 (demo_data (Some [7, 8])) # demo_after) s \<noteq> None"
    by (simp add: demo_simps)
  then show thesis using that by blast
qed

lemma demo_dirs: "dirs_ok ''/data'' ''/tmp''"
  by (simp add: dirs_ok_def starts_with_def)

lemma demo_reloaded:
  "\<exists>s s1 h s2. run_ops ''/data'' ''/tmp'' demo_before (BufferManager_new 3 1 Map.empty) = Some s \<and>
    run_ops ''/data'' ''/tmp'' (OpWrite 0 (demo_data (Some [7, 8])) # demo_after) s = Some s1 \<and> Load 0 [] s1 = Inr (h, s2)"
  by (simp add: demo_simps)

text \<open>(C11) Memory: in every run of the buffer manager in which each append gets the memory it requests, with any interleaving of allocating, loading,
  unpinning, writing, appending, saving, mapping
  and removing objects and any locks held by other threads, the accounted memory is exactly the memory that the objects occupy and never exceeds
  the configured limit.  Runs with an append whose request is refused are excluded: the append is carried out all the same and the memory can
  exceed the limit.\<close>

theorem buffer_memory_bounded:
  assumes "dirs_ok dd td" "0 < n" "run_ops dd td xs (BufferManager_new limit n d) = Some s"
  shows "unat (current_memory_size s) = usage s \<and> usage s \<le> unat limit"
  using run_ops_binv [OF binv_new [OF assms(1,2)] assms(3)] by (auto simp: binv_def BufferManager_new_def)

theorem buffer_memory_bounded_witness:
  "\<exists>s. run_ops ''/data'' ''/tmp'' demo_before (BufferManager_new 3 1 Map.empty) = Some s \<and>
    unat (current_memory_size s) = usage s \<and> usage s \<le> unat (3 :: 64 word)"
proof -
  obtain s where s: "run_ops ''/data'' ''/tmp'' demo_before (BufferManager_new 3 1 Map.empty) = Some s" by (rule demo_written)
  from buffer_memory_bounded [OF demo_dirs zero_less_one s] show ?thesis using s by blast
qed

lemma CheckState_ok: "status_ok ob \<Longrightarrow> CheckState ob = Inr ()"
  by (auto simp: status_ok_def CheckState_def Let_def split: BufferStatus.splits)

text \<open>(C15) Bookkeeping: in every run the check of the state of an object passes, an object is in a queue exactly when it is unpinned and its data is
  in memory, it is listed as temporary exactly when its data was spilled, it is listed for removal exactly when it was cleaned, and its file name leads to it.\<close>

theorem buffer_bookkeeping:
  assumes "dirs_ok dd td" "0 < n" "run_ops dd td xs (BufferManager_new limit n d) = Some s" "objs s p = Some ob"
  shows "CheckState ob = Inr () \<and> ((\<exists>l \<in> set (lru_caches s). p \<in> set l) \<longleftrightarrow> bo_status ob = kUnloaded \<and> bo_type ob \<noteq> kMmap) \<and>
    (p \<in> set (temp_set s) \<longleftrightarrow> bo_type ob = kTemp \<and> bo_status ob \<noteq> kClean) \<and> (p \<in> set (clean_list s) \<longleftrightarrow> bo_status ob = kClean) \<and>
    buffer_map s (GetFilename ob) = Some p"
proof -
  have inv: "binv dd td 0 s" using run_ops_binv [OF binv_new [OF assms(1,2)] assms(3)] by simp
  note ok = binv_obj [OF inv assms(4)]
  have "(\<exists>l \<in> set (lru_caches s). p \<in> set l) \<longleftrightarrow> (\<exists>i < length (lru_caches s). p \<in> set (lru_caches s ! i))" by (metis in_set_conv_nth)
  also have "\<dots> \<longleftrightarrow> queued ob" using inv assms(4) LRUIdx_less [OF inv, of ob] by (auto simp: binv_def queue_ok_def)
  finally have "(\<exists>l \<in> set (lru_caches s). p \<in> set l) \<longleftrightarrow> queued ob" .
  then show ?thesis
    using ok inv assms(4) CheckState_ok [OF obj_ok_status [OF ok]] by (simp add: queued_def obj_ok_def binv_def heap_ok_def)
qed

lemma demo_object: "\<exists>s ob. run_ops ''/data'' ''/tmp'' demo_before (BufferManager_new 3 1 Map.empty) = Some s \<and> objs s 0 = Some ob"
  by (simp add: demo_simps)

theorem buffer_bookkeeping_witness:
  "\<exists>s ob. run_ops ''/data'' ''/tmp'' demo_before (BufferManager_new 3 1 Map.empty) = Some s \<and> objs s 0 = Some ob \<and> CheckState ob = Inr () \<and>
    buffer_map s (GetFilename ob) = Some 0"
proof -
  obtain s ob where s: "run_ops ''/data'' ''/tmp'' demo_before (BufferManager_new 3 1 Map.empty) = Some s" "objs s 0 = Some ob" using demo_object by blast
  from buffer_bookkeeping [OF demo_dirs zero_less_one s] show ?thesis using s by blast
qed

text \<open>(C12) Contents: every operation of a client, in every state of every run, has exactly the specified effect on the contents of the objects.
  Writing, appending, allocating, opening and removing change the contents of their object; every other operation, with all the evictions it causes,
  changes nothing.\<close>

theorem buffer_refines_contents:
  assumes "dirs_ok dd td" "0 < n" "run_ops dd td xs (BufferManager_new limit n d) = Some s" "allowed dd td x s" "exec x s = Inr s'"
  shows "contents_at s' = apply_effect (effect x s) (contents_at s)"
proof -
  have "binv dd td 0 s" using run_ops_binv [OF binv_new [OF assms(1,2)] assms(3)] by simp
  from exec_sound [OF this assms(4)] show ?thesis using assms(5) by (simp add: sound_op_def)
qed

lemma demo_write: "\<exists>s s'. run_ops ''/data'' ''/tmp'' demo_before (BufferManager_new 3 1 Map.empty) = Some s \<and>
  allowed ''/data'' ''/tmp'' (OpWrite 0 (demo_data (Some [7, 8]))) s \<and> exec (OpWrite 0 (demo_data (Some [7, 8]))) s = Inr s'"
  by (simp add: demo_simps)

theorem buffer_refines_contents_witness:
  "\<exists>s s'. run_ops ''/data'' ''/tmp'' demo_before (BufferManager_new 3 1 Map.empty) = Some s \<and> exec (OpWrite 0 (demo_data (Some [7, 8]))) s = Inr s' \<and>
    contents_at s' = (contents_at s)(0 := Some (ByteContent [7, 8]))"
proof -
  obtain s s' where s: "run_ops ''/data'' ''/tmp'' demo_before (BufferManager_new 3 1 Map.empty) = Some s"
    "allowed ''/data'' ''/tmp'' (OpWrite 0 (demo_data (Some [7, 8]))) s" "exec (OpWrite 0 (demo_data (Some [7, 8]))) s = Inr s'" using demo_write by blast
  from buffer_refines_contents [OF demo_dirs zero_less_one s] show ?thesis using s(1,3) by (auto simp: apply_effect_def demo_data_def)
qed

text \<open>(C14) Failures: in every state of every run an operation that a client may call fails only for lack of memory, when it loads data or makes
  a mapped object writable, or on a mapped object.  None of the internal checks of the manager, of the queues, of the temporary files and of the reference
  counts ever fails.\<close>

theorem buffer_fails_only_without_memory:
  assumes "dirs_ok dd td" "0 < n" "run_ops dd td xs (BufferManager_new limit n d) = Some s" "allowed dd td x s" "exec x s = Inl e"
  shows "e = UnrecoverableError ''Out of memory.'' \<and> needs_memory x \<or> on_mapped x s"
proof -
  have "binv dd td 0 s" using run_ops_binv [OF binv_new [OF assms(1,2)] assms(3)] by simp
  from exec_sound [OF this assms(4)] show ?thesis using assms(5) by (simp add: sound_op_def)
qed

lemma demo_too_small: "\<exists>s e. run_ops ''/data'' ''/tmp'' [OpAllocate (demo_file ''a'' (demo_data None))] (BufferManager_new 1 1 Map.empty) = Some s \<and>
  allowed ''/data'' ''/tmp'' (OpLoad 0 []) s \<and> exec (OpLoad 0 []) s = Inl e \<and> \<not> on_mapped (OpLoad 0 []) s"
  by (simp add: demo_simps)

theorem buffer_fails_only_without_memory_witness:
  "\<exists>s. run_ops ''/data'' ''/tmp'' [OpAllocate (demo_file ''a'' (demo_data None))] (BufferManager_new 1 1 Map.empty) = Some s \<and>
    exec (OpLoad 0 []) s = Inl (UnrecoverableError ''Out of memory.'')"
proof -
  obtain s e where s: "run_ops ''/data'' ''/tmp'' [OpAllocate (demo_file ''a'' (demo_data None))] (BufferManager_new 1 1 Map.empty) = Some s"
    "allowed ''/data'' ''/tmp'' (OpLoad 0 []) s" "exec (OpLoad 0 []) s = Inl e" "\<not> on_mapped (OpLoad 0 []) s" using demo_too_small by blast
  from buffer_fails_only_without_memory [OF demo_dirs zero_less_one s(1-3)] show ?thesis using s(1,3,4) by blast
qed

fun replaces :: "nat \<Rightarrow> buffer_op \<Rightarrow> bool" where
  "replaces p (OpWrite q w) \<longleftrightarrow> q = p"
| "replaces p (OpAppend q others b) \<longleftrightarrow> q = p"
| "replaces p (OpPick q) \<longleftrightarrow> q = p"
| "replaces p _ \<longleftrightarrow> False"

lemma effect_other:
  assumes "binv dd td 0 s" "\<not> replaces p x" "contents_at s p \<noteq> None" "effect x s = Some (q, c)"
  shows "q \<noteq> p"
proof -
  have "p \<noteq> next_ptr s" using binv_fresh(1) [OF assms(1)] assms(3) by (auto simp: contents_at_def)
  then show ?thesis using assms(2,4) by (cases x) (auto split: if_splits)
qed

lemma run_ops_keeps:
  "binv dd td 0 s \<Longrightarrow> contents_at s p = Some c \<Longrightarrow> list_all (\<lambda>x. \<not> replaces p x) xs \<Longrightarrow> run_ops dd td xs s = Some s' \<Longrightarrow> contents_at s' p = Some c"
proof (induction xs arbitrary: s)
  case (Cons x xs)
  then obtain s1 where s1: "allowed dd td x s" "exec x s = Inr s1" "run_ops dd td xs s1 = Some s'" by (auto split: if_splits sum.splits)
  then have inv: "binv dd td 0 s1" "contents_at s1 = apply_effect (effect x s) (contents_at s)"
    using exec_sound [OF Cons.prems(1) s1(1)] by (simp_all add: sound_op_def)
  have "contents_at s1 p = Some c"
    using effect_other [OF Cons.prems(1), of p x] Cons.prems(2,3) by (cases "effect x s") (auto simp: inv(2) apply_effect_def)
  then show ?case using Cons.IH [OF inv(1)] Cons.prems(3) s1(3) by simp
qed simp

lemma Load_shows:
  assumes inv: "binv dd td 0 s" and l: "Load p others s = Inr (h, s')"
  shows "handle_contents h s' = contents_at s p"
proof -
  let ?s = "s\<lparr>total_request_count := total_request_count s + 1\<rparr>"
  obtain ob where ob: "objs s p = Some ob" using l by (auto simp: Load_def res_simps)
  have "loaded dd td p ?s h s'"
  proof (cases "bo_type ob = kMmap")
    case True
    then show ?thesis using load_mmap_spec [of dd td ?s p ob h s'] inv ob l by (simp add: Load_def Let_def)
  next
    case False
    then have "load_memory p others ob ?s = Inr (h, s')" using ob l by (simp add: Load_def Let_def)
    moreover from this have "bo_status ob \<noteq> kClean" by (auto simp: load_memory_def)
    ultimately show ?thesis using load_memory_spec [of dd td ?s p ob others] inv ob False by auto
  qed
  then show ?thesis by (simp add: loaded_def)
qed

text \<open>(C10) Reading back: what was written to an object is what a handle shows that loads the object later, whatever happened in between, evictions to
  temporary files, saving, mapping and unmapping included, as long as the object itself was not written, appended to or removed.\<close>

theorem buffer_reads_back:
  assumes "dirs_ok dd td" "0 < n" "run_ops dd td xs (BufferManager_new limit n d) = Some s"
    and w: "run_ops dd td (OpWrite p w # ys) s = Some s1" "list_all (\<lambda>y. \<not> replaces p y) ys" and l: "Load p others s1 = Inr (h, s2)"
  shows "handle_contents h s2 = worker_contents w"
proof -
  have inv: "binv dd td 0 s" using run_ops_binv [OF binv_new [OF assms(1,2)] assms(3)] by simp
  obtain s0 where s0: "allowed dd td (OpWrite p w) s" "exec (OpWrite p w) s = Inr s0" "run_ops dd td ys s0 = Some s1" using w(1) by (auto split: if_splits sum.splits)
  have c: "worker_contents w = Some (the (worker_contents w))" using s0(1) any_worker.contents_null [of w] by (auto elim!: obj_whereE)
  have inv0: "binv dd td 0 s0" "contents_at s0 p = worker_contents w"
    using exec_sound [OF inv s0(1)] s0(2) by (simp_all add: sound_op_def apply_effect_def)
  have "contents_at s1 p = worker_contents w" using run_ops_keeps [OF inv0(1) _ w(2) s0(3)] inv0(2) c by metis
  moreover have "binv dd td 0 s1" using run_ops_binv [OF inv0(1) s0(3)] by simp
  ultimately show ?thesis using Load_shows [OF _ l] by simp
qed

theorem buffer_reads_back_witness:
  "\<exists>s s1 h s2. run_ops ''/data'' ''/tmp'' demo_before (BufferManager_new 3 1 Map.empty) = Some s \<and>
    run_ops ''/data'' ''/tmp'' (OpWrite 0 (demo_data (Some [7, 8])) # demo_after) s = Some s1 \<and> Load 0 [] s1 = Inr (h, s2) \<and>
    handle_contents h s2 = Some (ByteContent [7, 8])"
proof -
  obtain s s1 h s2 where s: "run_ops ''/data'' ''/tmp'' demo_before (BufferManager_new 3 1 Map.empty) = Some s"
    "run_ops ''/data'' ''/tmp'' (OpWrite 0 (demo_data (Some [7, 8])) # demo_after) s = Some s1" "Load 0 [] s1 = Inr (h, s2)" using demo_reloaded by blast
  have "list_all (\<lambda>y. \<not> replaces 0 y) demo_after" by (simp add: demo_after_def)
  from buffer_reads_back [OF demo_dirs zero_less_one s(1,2) this s(3)] show ?thesis using s by (auto simp: demo_data_def)
qed

text \<open>(C13) Availability: in every state of every run, when no other thread holds a lock, loading an object succeeds exactly when its data is in memory or
  fits into the limit beside the data of the objects that cannot be evicted.  Unpinned objects never stand in the way.\<close>

theorem buffer_load_succeeds:
  assumes "dirs_ok dd td" "0 < n" "run_ops dd td xs (BufferManager_new limit n d) = Some s"
    and p: "objs s p = Some ob" "bo_status ob \<noteq> kClean" "bo_type ob \<noteq> kMmap"
  shows "(\<exists>h s'. Load p [] s = Inr (h, s')) \<longleftrightarrow> bo_status ob \<in> {kLoaded, kUnloaded} \<or> pinned s + GetMemoryCost (wk ob) \<le> unat limit"
proof -
  let ?s = "s\<lparr>total_request_count := total_request_count s + 1\<rparr>"
  have inv: "binv dd td 0 ?s" "memory_limit s = limit" using run_ops_binv [OF binv_new [OF assms(1,2)] assms(3)] by (simp_all add: BufferManager_new_def)
  have "(\<exists>h s'. load_memory p [] ob ?s = Inr (h, s')) \<longleftrightarrow> bo_status ob \<in> {kLoaded, kUnloaded} \<or> pinned s + GetMemoryCost (wk ob) \<le> unat limit"
    using load_memory_spec [OF inv(1), of p ob "[]"] p inv(2) by (cases "bo_status ob") auto
  then show ?thesis using p by (simp add: Load_def Let_def)
qed

lemma pinned_single: "objs s = [p \<mapsto> ob] \<Longrightarrow> pinned s = (if queued ob then 0 else mem_cost ob)"
  by (simp add: pinned_def)

lemma demo_fits: "\<exists>s ob. run_ops ''/data'' ''/tmp'' [OpAllocate (demo_file ''a'' (demo_data None))] (BufferManager_new 3 1 Map.empty) = Some s \<and>
  objs s 0 = Some ob \<and> bo_status ob \<noteq> kClean \<and> bo_type ob \<noteq> kMmap \<and> pinned s + GetMemoryCost (wk ob) \<le> unat (3 :: 64 word)"
  by (simp add: demo_simps pinned_single mem_cost_def)

theorem buffer_load_succeeds_witness:
  "\<exists>s h s'. run_ops ''/data'' ''/tmp'' [OpAllocate (demo_file ''a'' (demo_data None))] (BufferManager_new 3 1 Map.empty) = Some s \<and> Load 0 [] s = Inr (h, s')"
proof -
  obtain s ob where s: "run_ops ''/data'' ''/tmp'' [OpAllocate (demo_file ''a'' (demo_data None))] (BufferManager_new 3 1 Map.empty) = Some s"
    "objs s 0 = Some ob" "bo_status ob \<noteq> kClean" "bo_type ob \<noteq> kMmap" "pinned s + GetMemoryCost (wk ob) \<le> unat (3 :: 64 word)" using demo_fits by blast
  from buffer_load_succeeds [OF demo_dirs zero_less_one s(1-4)] show ?thesis using s(1,5) by blast
qed

text \<open>(C16) Beyond the limit: an append that is refused is carried out all the same, so the accounted memory can exceed the limit.  From then on unpinning an
  object does not evict anything: the free space is computed by an unsigned subtraction that wraps around, and instead of giving memory back the excess is
  added to the accounted memory once more.\<close>

theorem unpin_over_limit:
  assumes p: "objs s p = Some ob" "bo_status ob = kLoaded" "bo_rc ob = 1" "bo_type ob \<in> {kPersistent, kEphemeral, kTemp}"
    and m: "memory_limit s < current_memory_size s" "2 * (unat (current_memory_size s) - unat (memory_limit s)) \<le> 2 ^ 64"
  shows "\<exists>s'. UnloadInner p others s = Inr s' \<and> (\<forall>q. q \<noteq> p \<longrightarrow> objs s' q = objs s q) \<and>
    current_memory_size s' = current_memory_size s + (current_memory_size s - memory_limit s)"
proof -
  let ?e = "current_memory_size s - memory_limit s"
  have e: "unat ?e = unat (current_memory_size s) - unat (memory_limit s)" using m(1) by (simp add: unat64_sub less_imp_le)
  let ?f = "memory_limit s - current_memory_size s"
  have "(unat ?f + unat ?e) mod 2 ^ 64 = 0" using unat_word_ariths(1) [of ?f ?e] by simp
  moreover have "0 < unat ?e" using m(1) e by (simp add: word_less_nat_alt)
  moreover have "unat ?f < 2 ^ 64" "unat ?e < 2 ^ 64" by (rule word64_less)+
  ultimately have "unat ?f + unat ?e = 2 ^ 64" by (auto simp: mod_eq_0_iff_dvd elim!: dvdE)
  then have "?e \<le> memory_limit s - current_memory_size s" using e m(2) by (simp add: word_le_nat_alt)
  then show ?thesis
    using p m(1) by (auto simp: UnloadInner_def PushGCQueue_def LRUCache_PushGCQueue_def RequestSpace_def Let_def)
qed

definition demo_var :: worker where
  "demo_var = VarWorker \<lparr>vfw_buffer_size = 0, vfw_data = None, vfw_mmap_data = None\<rparr>"

lemma demo_refused: "\<exists>s s1 ob. run_ops ''/data'' ''/tmp'' [OpAllocate (demo_file ''v'' demo_var), OpLoad 0 [], OpGetMut 0 []] (BufferManager_new 3 1 Map.empty) = Some s \<and>
  VarBuffer_Append_obj 0 [] [1, 2, 3, 4, 5] s = Inr (0, False, s1) \<and> objs s1 0 = Some ob \<and> bo_status ob = kLoaded \<and> bo_rc ob = 1 \<and>
  bo_type ob \<in> {kPersistent, kEphemeral, kTemp} \<and> memory_limit s1 = 3 \<and> current_memory_size s1 = 5"
  by (simp add: demo_simps demo_var_def VarBuffer_Append_obj_def VarBuffer_Append_def VarBuffer_new_def AddBufferSize_def VarFileWorker_AllocateInMemory_def
      VarFileWorker_GetMemoryCost_def TotalSize_def)

theorem unpin_over_limit_witness:
  "\<exists>s s1 s2. run_ops ''/data'' ''/tmp'' [OpAllocate (demo_file ''v'' demo_var), OpLoad 0 [], OpGetMut 0 []] (BufferManager_new 3 1 Map.empty) = Some s \<and>
    VarBuffer_Append_obj 0 [] [1, 2, 3, 4, 5] s = Inr (0, False, s1) \<and> current_memory_size s1 = 5 \<and> UnloadInner 0 [] s1 = Inr s2 \<and> current_memory_size s2 = 7"
proof -
  obtain s s1 ob where s: "run_ops ''/data'' ''/tmp'' [OpAllocate (demo_file ''v'' demo_var), OpLoad 0 [], OpGetMut 0 []] (BufferManager_new 3 1 Map.empty) = Some s"
    "VarBuffer_Append_obj 0 [] [1, 2, 3, 4, 5] s = Inr (0, False, s1)" "objs s1 0 = Some ob" "bo_status ob = kLoaded" "bo_rc ob = 1"
    "bo_type ob \<in> {kPersistent, kEphemeral, kTemp}" "memory_limit s1 = 3" "current_memory_size s1 = 5" using demo_refused by blast
  from unpin_over_limit [OF s(3-6), of "[]"] show ?thesis using s(1,2,7,8) by auto
qed

end
