(* ===== verification/Date_Type.thy ===== *)
theory Date_Type
  imports Interval_Type "HOL-Library.Signed_Division"
begin

text \<open>
  Calendar dates (\<^verbatim>\<open>src/src/parser/type/datetime/date_type.cpp\<close>): a date is the number of days since 1970-01-01.  The conversions
  between days and year, month and day use tables of a cycle of 400 years; they are proved equal to counting the days one by one.

  Integers are signed 32 bit numbers in the code; an operation that could leave this range is checked and has undefined
  behaviour when it does.  Division rounds towards zero.  A text is the characters that can be read from the pointer, which may be more
  than the given length; reading behind them is undefined behaviour.  The values that the code formats into its error messages are left out.
\<close>

definition i32 :: "int \<Rightarrow> int res" where
  "i32 x = (if - (2 ^ 31) \<le> x \<and> x < 2 ^ 31 then Inr x else Inl (UndefinedBehaviour ''signed integer overflow''))"

subsection \<open>Tables\<close>

definition MIN_DATE_YEAR :: int where "MIN_DATE_YEAR = - 1969"
definition MAX_DATE_YEAR :: int where "MAX_DATE_YEAR = 9999"
definition EPOCH_YEAR :: int where "EPOCH_YEAR = 1970"
definition YEAR_LEAP :: int where "YEAR_LEAP = 400"
definition DAYS_PER_YEAR_LEAP :: int where "DAYS_PER_YEAR_LEAP = 146097"
definition DAY_HOUR :: int where "DAY_HOUR = 24"
definition DAY_MINUTE :: int where "DAY_MINUTE = DAY_HOUR * 60"
definition DAY_SECOND :: int where "DAY_SECOND = DAY_MINUTE * 60"

definition NORMAL_DAYS :: "int list" where
  "NORMAL_DAYS =
    [0, 31, 28, 31, 30, 31, 30, 31, 31, 30, 31, 30, 31]"

definition CUMULATIVE_DAYS :: "int list" where
  "CUMULATIVE_DAYS =
    [0, 31, 59, 90, 120, 151, 181, 212, 243, 273, 304, 334, 365]"

definition LEAP_DAYS :: "int list" where
  "LEAP_DAYS =
    [0, 31, 29, 31, 30, 31, 30, 31, 31, 30, 31, 30, 31]"

definition CUMULATIVE_LEAP_DAYS :: "int list" where
  "CUMULATIVE_LEAP_DAYS =
    [0, 31, 60, 91, 121, 152, 182, 213, 244, 274, 305, 335, 366]"

definition MONTH_PER_DAY_OF_YEAR :: "int list" where
  "MONTH_PER_DAY_OF_YEAR =
    [1, 1, 1, 1, 1, 1, 1, 1, 1, 1, 1, 1, 1, 1, 1, 1, 1, 1, 1, 1, 1, 1, 1, 1, 1, 1, 1, 1, 1, 1, 1, 2, 2, 2, 2, 2, 2, 2, 2, 2, 2, 2, 2, 2, 2,
     2, 2, 2, 2, 2, 2, 2, 2, 2, 2, 2, 2, 2, 2, 3, 3, 3, 3, 3, 3, 3, 3, 3, 3, 3, 3, 3, 3, 3, 3, 3, 3, 3, 3, 3, 3, 3, 3, 3, 3, 3, 3, 3, 3, 3,
     4, 4, 4, 4, 4, 4, 4, 4, 4, 4, 4, 4, 4, 4, 4, 4, 4, 4, 4, 4, 4, 4, 4, 4, 4, 4, 4, 4, 4, 4, 5, 5, 5, 5, 5, 5, 5, 5, 5, 5, 5, 5, 5, 5, 5,
     5, 5, 5, 5, 5, 5, 5, 5, 5, 5, 5, 5, 5, 5, 5, 5, 6, 6, 6, 6, 6, 6, 6, 6, 6, 6, 6, 6, 6, 6, 6, 6, 6, 6, 6, 6, 6, 6, 6, 6, 6, 6, 6, 6, 6,
     6, 7, 7, 7, 7, 7, 7, 7, 7, 7, 7, 7, 7, 7, 7, 7, 7, 7, 7, 7, 7, 7, 7, 7, 7, 7, 7, 7, 7, 7, 7, 7, 8, 8, 8, 8, 8, 8, 8, 8, 8, 8, 8, 8, 8,
     8, 8, 8, 8, 8, 8, 8, 8, 8, 8, 8, 8, 8, 8, 8, 8, 8, 8, 9, 9, 9, 9, 9, 9, 9, 9, 9, 9, 9, 9, 9, 9, 9, 9, 9, 9, 9, 9, 9, 9, 9, 9, 9, 9, 9,
     9, 9, 9, 10, 10, 10, 10, 10, 10, 10, 10, 10, 10, 10, 10, 10, 10, 10, 10, 10, 10, 10, 10, 10, 10, 10, 10, 10, 10, 10, 10, 10, 10, 10,
     11, 11, 11, 11, 11, 11, 11, 11, 11, 11, 11, 11, 11, 11, 11, 11, 11, 11, 11, 11, 11, 11, 11, 11, 11, 11, 11, 11, 11, 11, 12, 12, 12,
     12, 12, 12, 12, 12, 12, 12, 12, 12, 12, 12, 12, 12, 12, 12, 12, 12, 12, 12, 12, 12, 12, 12, 12, 12, 12, 12, 12]"

definition LEAP_MONTH_PER_DAY_OF_YEAR :: "int list" where
  "LEAP_MONTH_PER_DAY_OF_YEAR =
    [1, 1, 1, 1, 1, 1, 1, 1, 1, 1, 1, 1, 1, 1, 1, 1, 1, 1, 1, 1, 1, 1, 1, 1, 1, 1, 1, 1, 1, 1, 1, 2, 2, 2, 2, 2, 2, 2, 2, 2, 2, 2, 2, 2, 2,
     2, 2, 2, 2, 2, 2, 2, 2, 2, 2, 2, 2, 2, 2, 2, 3, 3, 3, 3, 3, 3, 3, 3, 3, 3, 3, 3, 3, 3, 3, 3, 3, 3, 3, 3, 3, 3, 3, 3, 3, 3, 3, 3, 3, 3,
     3, 4, 4, 4, 4, 4, 4, 4, 4, 4, 4, 4, 4, 4, 4, 4, 4, 4, 4, 4, 4, 4, 4, 4, 4, 4, 4, 4, 4, 4, 4, 5, 5, 5, 5, 5, 5, 5, 5, 5, 5, 5, 5, 5, 5,
     5, 5, 5, 5, 5, 5, 5, 5, 5, 5, 5, 5, 5, 5, 5, 5, 5, 6, 6, 6, 6, 6, 6, 6, 6, 6, 6, 6, 6, 6, 6, 6, 6, 6, 6, 6, 6, 6, 6, 6, 6, 6, 6, 6, 6,
     6, 6, 7, 7, 7, 7, 7, 7, 7, 7, 7, 7, 7, 7, 7, 7, 7, 7, 7, 7, 7, 7, 7, 7, 7, 7, 7, 7, 7, 7, 7, 7, 7, 8, 8, 8, 8, 8, 8, 8, 8, 8, 8, 8, 8,
     8, 8, 8, 8, 8, 8, 8, 8, 8, 8, 8, 8, 8, 8, 8, 8, 8, 8, 8, 9, 9, 9, 9, 9, 9, 9, 9, 9, 9, 9, 9, 9, 9, 9, 9, 9, 9, 9, 9, 9, 9, 9, 9, 9, 9,
     9, 9, 9, 9, 10, 10, 10, 10, 10, 10, 10, 10, 10, 10, 10, 10, 10, 10, 10, 10, 10, 10, 10, 10, 10, 10, 10, 10, 10, 10, 10, 10, 10, 10,
     10, 11, 11, 11, 11, 11, 11, 11, 11, 11, 11, 11, 11, 11, 11, 11, 11, 11, 11, 11, 11, 11, 11, 11, 11, 11, 11, 11, 11, 11, 11, 12, 12,
     12, 12, 12, 12, 12, 12, 12, 12, 12, 12, 12, 12, 12, 12, 12, 12, 12, 12, 12, 12, 12, 12, 12, 12, 12, 12, 12, 12, 12]"

definition CUMULATIVE_YEAR_DAYS :: "int list" where
  "CUMULATIVE_YEAR_DAYS =
    [0, 365, 730, 1096, 1461, 1826, 2191, 2557, 2922, 3287, 3652, 4018, 4383, 4748, 5113, 5479, 5844, 6209, 6574, 6940, 7305, 7670, 8035,
     8401, 8766, 9131, 9496, 9862, 10227, 10592, 10957, 11323, 11688, 12053, 12418, 12784, 13149, 13514, 13879, 14245, 14610, 14975, 15340,
     15706, 16071, 16436, 16801, 17167, 17532, 17897, 18262, 18628, 18993, 19358, 19723, 20089, 20454, 20819, 21184, 21550, 21915, 22280,
     22645, 23011, 23376, 23741, 24106, 24472, 24837, 25202, 25567, 25933, 26298, 26663, 27028, 27394, 27759, 28124, 28489, 28855, 29220,
     29585, 29950, 30316, 30681, 31046, 31411, 31777, 32142, 32507, 32872, 33238, 33603, 33968, 34333, 34699, 35064, 35429, 35794, 36160,
     36525, 36890, 37255, 37621, 37986, 38351, 38716, 39082, 39447, 39812, 40177, 40543, 40908, 41273, 41638, 42004, 42369, 42734, 43099,
     43465, 43830, 44195, 44560, 44926, 45291, 45656, 46021, 46387, 46752, 47117, 47482, 47847, 48212, 48577, 48942, 49308, 49673, 50038,
     50403, 50769, 51134, 51499, 51864, 52230, 52595, 52960, 53325, 53691, 54056, 54421, 54786, 55152, 55517, 55882, 56247, 56613, 56978,
     57343, 57708, 58074, 58439, 58804, 59169, 59535, 59900, 60265, 60630, 60996, 61361, 61726, 62091, 62457, 62822, 63187, 63552, 63918,
     64283, 64648, 65013, 65379, 65744, 66109, 66474, 66840, 67205, 67570, 67935, 68301, 68666, 69031, 69396, 69762, 70127, 70492, 70857,
     71223, 71588, 71953, 72318, 72684, 73049, 73414, 73779, 74145, 74510, 74875, 75240, 75606, 75971, 76336, 76701, 77067, 77432, 77797,
     78162, 78528, 78893, 79258, 79623, 79989, 80354, 80719, 81084, 81450, 81815, 82180, 82545, 82911, 83276, 83641, 84006, 84371, 84736,
     85101, 85466, 85832, 86197, 86562, 86927, 87293, 87658, 88023, 88388, 88754, 89119, 89484, 89849, 90215, 90580, 90945, 91310, 91676,
     92041, 92406, 92771, 93137, 93502, 93867, 94232, 94598, 94963, 95328, 95693, 96059, 96424, 96789, 97154, 97520, 97885, 98250, 98615,
     98981, 99346, 99711, 100076, 100442, 100807, 101172, 101537, 101903, 102268, 102633, 102998, 103364, 103729, 104094, 104459, 104825,
     105190, 105555, 105920, 106286, 106651, 107016, 107381, 107747, 108112, 108477, 108842, 109208, 109573, 109938, 110303, 110669,
     111034, 111399, 111764, 112130, 112495, 112860, 113225, 113591, 113956, 114321, 114686, 115052, 115417, 115782, 116147, 116513,
     116878, 117243, 117608, 117974, 118339, 118704, 119069, 119435, 119800, 120165, 120530, 120895, 121260, 121625, 121990, 122356,
     122721, 123086, 123451, 123817, 124182, 124547, 124912, 125278, 125643, 126008, 126373, 126739, 127104, 127469, 127834, 128200,
     128565, 128930, 129295, 129661, 130026, 130391, 130756, 131122, 131487, 131852, 132217, 132583, 132948, 133313, 133678, 134044,
     134409, 134774, 135139, 135505, 135870, 136235, 136600, 136966, 137331, 137696, 138061, 138427, 138792, 139157, 139522, 139888,
     140253, 140618, 140983, 141349, 141714, 142079, 142444, 142810, 143175, 143540, 143905, 144271, 144636, 145001, 145366, 145732,
     146097]"

subsection \<open>Year, month and day\<close>

definition IsLeapYear :: "int \<Rightarrow> bool" where
  "IsLeapYear year \<longleftrightarrow> year smod 4 = 0 \<and> (year smod 100 \<noteq> 0 \<or> year smod 400 = 0)"

definition IsDateValid :: "int \<Rightarrow> int \<Rightarrow> int \<Rightarrow> bool" where
  "IsDateValid year month day \<longleftrightarrow>
     \<not> (year \<le> MIN_DATE_YEAR \<and> (year < MIN_DATE_YEAR \<or> month < 1 \<or> month = 1 \<and> day < 1)) \<and>
     \<not> (MAX_DATE_YEAR \<le> year \<and> (MAX_DATE_YEAR < year \<or> 12 < month \<or> month = 12 \<and> 31 < day)) \<and>
     \<not> (month < 1 \<or> 12 < month) \<and> \<not> day < 1 \<and>
     (if IsLeapYear year then day \<le> LEAP_DAYS ! nat month else day \<le> NORMAL_DAYS ! nat month)"

definition YMD2Date :: "int \<Rightarrow> int \<Rightarrow> int \<Rightarrow> int option" where
  "YMD2Date year month day =
     (if \<not> IsDateValid year month day then None
      else let result = (if IsLeapYear year then CUMULATIVE_LEAP_DAYS ! nat (month - 1) else CUMULATIVE_DAYS ! nat (month - 1)) + (day - 1)
        in if year < 1970
           then let diff_from_base = 1970 - year; year_index = 400 - diff_from_base smod 400; fractions = diff_from_base sdiv 400
                in Some (result + CUMULATIVE_YEAR_DAYS ! nat year_index - DAYS_PER_YEAR_LEAP - fractions * DAYS_PER_YEAR_LEAP)
           else if 2370 \<le> year
           then let diff_from_base = year - 2370; year_index = diff_from_base smod 400; fractions = diff_from_base sdiv 400
                in Some (result + CUMULATIVE_YEAR_DAYS ! nat year_index + DAYS_PER_YEAR_LEAP + fractions * DAYS_PER_YEAR_LEAP)
           else Some (result + CUMULATIVE_YEAR_DAYS ! nat (year - 1970)))"

text \<open>The three loops of \<^verbatim>\<open>Date2YMD\<close>: to days that are not negative, to days below 400 years, and to the year.\<close>

function raise_days :: "int \<Rightarrow> int \<Rightarrow> int \<times> int" where
  "raise_days days year = (if days < 0 then raise_days (days + DAYS_PER_YEAR_LEAP) (year - YEAR_LEAP) else (days, year))"
  by pat_completeness auto
termination by (relation "measure (\<lambda>(days, year). nat (- days))") (simp_all add: DAYS_PER_YEAR_LEAP_def)

function lower_days :: "int \<Rightarrow> int \<Rightarrow> int \<times> int" where
  "lower_days days year = (if DAYS_PER_YEAR_LEAP \<le> days then lower_days (days - DAYS_PER_YEAR_LEAP) (year + YEAR_LEAP) else (days, year))"
  by pat_completeness auto
termination by (relation "measure (\<lambda>(days, year). nat days)") (simp_all add: DAYS_PER_YEAR_LEAP_def)

declare raise_days.simps [simp del] lower_days.simps [simp del]

fun year_loop :: "int \<Rightarrow> nat \<Rightarrow> nat res" where
  "year_loop days 0 = (if days < CUMULATIVE_YEAR_DAYS ! 0 then Inl (UndefinedBehaviour ''index outside the array'') else Inr 0)"
| "year_loop days (Suc year_offset) =
     (if days < CUMULATIVE_YEAR_DAYS ! Suc year_offset then year_loop days year_offset else Inr (Suc year_offset))"

text \<open>The values of year, month and day, and whether they are a valid date.\<close>

definition Date2YMD :: "int \<Rightarrow> ((int \<times> int \<times> int) \<times> bool) res" where
  "Date2YMD value =
     (let (days0, year0) = raise_days value EPOCH_YEAR; (days, year1) = lower_days days0 year0
      in rbind (year_loop days (nat (days sdiv 365))) (\<lambda>year_offset.
         let year = year1 + int year_offset; day0 = days - CUMULATIVE_YEAR_DAYS ! year_offset;
             month = (if IsLeapYear year then LEAP_MONTH_PER_DAY_OF_YEAR ! nat day0 else MONTH_PER_DAY_OF_YEAR ! nat day0);
             day = day0 - (if IsLeapYear year then CUMULATIVE_LEAP_DAYS ! nat (month - 1) else CUMULATIVE_DAYS ! nat (month - 1)) + 1
         in Inr ((year, month, day), IsDateValid year month day)))"

subsection \<open>Arithmetic\<close>

text \<open>The result is \<open>None\<close> when the operation returns false.\<close>

definition with_YMD :: "int \<Rightarrow> (int \<Rightarrow> int \<Rightarrow> int \<Rightarrow> int option res) \<Rightarrow> int option res" where
  "with_YMD value k = rbind (Date2YMD value) (\<lambda>((year, month, day), valid). if \<not> valid then Inr None else k year month day)"

definition days_of_month :: "int \<Rightarrow> int \<Rightarrow> int" where
  "days_of_month year month = (if IsLeapYear year then LEAP_DAYS ! nat month else NORMAL_DAYS ! nat month)"

definition carry_month :: "int \<Rightarrow> int \<Rightarrow> (int \<times> int) res" where
  "carry_month year month =
     (if 12 < month then rbind (i32 (year + (month - 1) sdiv 12)) (\<lambda>y. Inr (y, 1 + (month - 1) smod 12))
      else if month < 1 then rbind (i32 (month - 12)) (\<lambda>m. rbind (i32 (year + m sdiv 12)) (\<lambda>y. Inr (y, 12 + m smod 12)))
      else Inr (year, month))"

definition DateType_Add :: "int \<Rightarrow> IntervalType \<Rightarrow> int option res" where
  "DateType_Add input interval =
     (case it_unit interval of
        kYear \<Rightarrow> with_YMD input (\<lambda>year month day. rbind (i32 (year + it_value interval)) (\<lambda>year'. Inr (YMD2Date year' month day)))
      | kMonth \<Rightarrow> with_YMD input (\<lambda>year month day.
          rbind (i32 (month + it_value interval)) (\<lambda>month1. rbind (carry_month year month1) (\<lambda>(year', month').
            Inr (YMD2Date year' month' (min day (days_of_month year' month'))))))
      | kDay \<Rightarrow> rbind (i32 (input + it_value interval)) (\<lambda>v. Inr (Some v))
      | kHour \<Rightarrow> rbind (i32 (input + it_value interval sdiv DAY_HOUR)) (\<lambda>v. Inr (Some v))
      | kMinute \<Rightarrow> rbind (i32 (input + it_value interval sdiv DAY_MINUTE)) (\<lambda>v. Inr (Some v))
      | kSecond \<Rightarrow> rbind (i32 (input + it_value interval sdiv DAY_SECOND)) (\<lambda>v. Inr (Some v))
      | kInvalidUnit \<Rightarrow> Inl (ParserError ''Invalid interval unit.''))"

definition negate :: "IntervalType \<Rightarrow> IntervalType res" where
  "negate interval = rbind (i32 (- it_value interval)) (\<lambda>v. Inr (interval\<lparr>it_value := v\<rparr>))"

definition DateType_Subtract :: "int \<Rightarrow> IntervalType \<Rightarrow> int option res" where
  "DateType_Subtract input interval = rbind (negate interval) (DateType_Add input)"

definition GetDatePart :: "int \<Rightarrow> TimeUnit \<Rightarrow> int res" where
  "GetDatePart input unit = rbind (Date2YMD input) (\<lambda>((year, month, day), valid).
     if \<not> valid then Inl (ParserError ''Invalid date value'')
     else case unit of
         kYear \<Rightarrow> Inr year
       | kMonth \<Rightarrow> Inr month
       | kDay \<Rightarrow> Inr day
       | kHour \<Rightarrow> Inl (ParserError ''Can't extract hour from date'')
       | kMinute \<Rightarrow> Inl (ParserError ''Can't extract minute from date'')
       | kSecond \<Rightarrow> Inl (ParserError ''Can't extract second from date'')
       | _ \<Rightarrow> Inl (ParserError ''Invalid time unit''))"

definition DateType_GetEpochTime :: "int \<Rightarrow> int" where
  "DateType_GetEpochTime value = value * (24 * 60 * 60)"

subsection \<open>Texts\<close>

definition DateType_ToString :: "int \<Rightarrow> string res" where
  "DateType_ToString value = rbind (Date2YMD value) (\<lambda>((year, month, day), valid).
     if \<not> valid then Inl (ParserError ''Invalid date'')
     else Inr (format_0d 4 year @ ''-'' @ format_0d 2 month @ ''-'' @ format_0d 2 day))"

definition char_at :: "string \<Rightarrow> nat \<Rightarrow> char res" where
  "char_at mem pos = (if pos < length mem then Inr (mem ! pos) else Inl (UndefinedBehaviour ''read behind the buffer''))"

function skip_spaces :: "string \<Rightarrow> nat \<Rightarrow> nat \<Rightarrow> nat res" where
  "skip_spaces mem n pos =
     (if pos < n then rbind (char_at mem pos) (\<lambda>c. if is_space c then skip_spaces mem n (pos + 1) else Inr pos) else Inr pos)"
  by pat_completeness auto
termination by (relation "measure (\<lambda>(mem, n, pos). n - pos)") auto

declare skip_spaces.simps [simp del]

text \<open>The loops that read a number: \<open>None\<close> when the number exceeds the bound.\<close>

function read_number :: "int \<Rightarrow> string \<Rightarrow> nat \<Rightarrow> int \<Rightarrow> nat \<Rightarrow> (int \<times> nat) option res" where
  "read_number bound mem n acc pos =
     (if pos < n then rbind (char_at mem pos) (\<lambda>c.
        if is_digit c
        then if is_space c then read_number bound mem n acc (pos + 1)
             else let acc' = acc * 10 + (int (of_char c) - 48)
                  in if bound < acc' then Inr None else read_number bound mem n acc' (pos + 1)
        else Inr (Some (acc, pos)))
      else Inr (Some (acc, pos)))"
  by pat_completeness auto
termination by (relation "measure (\<lambda>(bound, mem, n, acc, pos). n - pos)") auto

declare read_number.simps [simp del]

text \<open>Sequencing of steps that may return false.\<close>

definition obind :: "'a option res \<Rightarrow> ('a \<Rightarrow> 'b option res) \<Rightarrow> 'b option res" where
  "obind m k = rbind m (\<lambda>x. case x of None \<Rightarrow> Inr None | Some y \<Rightarrow> k y)"

definition skip_separator :: "char set \<Rightarrow> string \<Rightarrow> nat \<Rightarrow> nat option res" where
  "skip_separator cs mem pos = rbind (char_at mem pos) (\<lambda>c. Inr (if c \<in> cs then Some (pos + 1) else None))"

definition DateType_ConvertFromString :: "string \<Rightarrow> nat \<Rightarrow> (int \<times> nat) option res" where
  "DateType_ConvertFromString mem n =
     rbind (skip_spaces mem n 0) (\<lambda>pos0. rbind (char_at mem pos0) (\<lambda>c.
       let negative_year = (c = CHR ''-''); pos1 = (if negative_year then pos0 + 1 else pos0)
       in obind (read_number 9999 mem n 0 pos1) (\<lambda>(y, pos2).
          let year = (if negative_year then - y else y)
          in obind (skip_separator {CHR ''-'', CHR ''/''} mem pos2) (\<lambda>pos3.
             obind (read_number 12 mem n 0 pos3) (\<lambda>(month, pos4).
             obind (skip_separator {CHR ''-'', CHR ''/''} mem pos4) (\<lambda>pos5.
             obind (read_number 31 mem n 0 pos5) (\<lambda>(day, pos6).
               Inr (map_option (\<lambda>date. (date, pos6)) (YMD2Date year month day)))))))))"

definition DateType_FromString :: "string \<Rightarrow> nat \<Rightarrow> (int \<times> nat) res" where
  "DateType_FromString mem n = rbind (DateType_ConvertFromString mem n) (\<lambda>r.
     case r of None \<Rightarrow> Inl (ParserError ''Invalid date format (YYYY-MM-DD or YYYY/MM/DD).'') | Some x \<Rightarrow> Inr x)"

subsection \<open>The calendar\<close>

text \<open>Leap years up to a year, and the days before a year, counted from 1970-01-01.\<close>

definition leaps :: "int \<Rightarrow> int" where
  "leaps y = y div 4 - y div 100 + y div 400"

definition days_before_year :: "int \<Rightarrow> int" where
  "days_before_year y = 365 * (y - 1970) + leaps (y - 1) - leaps 1969"

lemma smod_zero: "(a :: int) smod b = 0 \<longleftrightarrow> b dvd a"
  by (auto simp: signed_modulo_int_def sgn_if mod_eq_0_iff_dvd)

lemma IsLeapYear_dvd: "IsLeapYear y \<longleftrightarrow> 4 dvd y \<and> (\<not> 100 dvd y \<or> 400 dvd y)"
  by (simp add: IsLeapYear_def smod_zero)

lemma div_pred:
  assumes "0 < (k :: int)"
  shows "y div k = (y - 1) div k + (if k dvd y then 1 else 0)"
proof (cases "k dvd y")
  case True
  then obtain q where "y = k * q" by (rule dvdE)
  moreover have "(k * q - 1) div k = q - 1"
    by (rule int_div_pos_eq [of _ _ _ "k - 1"]) (use assms in \<open>simp_all add: algebra_simps\<close>)
  ultimately show ?thesis using assms True by simp
next
  case False
  have "(y - 1) div k = y div k"
    by (rule int_div_pos_eq [of _ _ _ "y mod k - 1"])
      (use assms False pos_mod_bound [of k y] pos_mod_sign [of k y] in \<open>auto simp: dvd_eq_mod_eq_0 order_less_le\<close>)
  then show ?thesis using False by simp
qed

lemma year_length: "days_before_year (y + 1) = days_before_year y + (if IsLeapYear y then 366 else 365)"
proof -
  have d: "400 dvd y \<Longrightarrow> 100 dvd y" "100 dvd y \<Longrightarrow> 4 dvd y" using dvd_trans [of 100 400 y] dvd_trans [of 4 100 y] by simp_all
  have q: "y div 4 = (y - 1) div 4 + (if 4 dvd y then 1 else 0)" "y div 100 = (y - 1) div 100 + (if 100 dvd y then 1 else 0)"
    "y div 400 = (y - 1) div 400 + (if 400 dvd y then 1 else 0)" by (rule div_pred, simp)+
  have "leaps y = leaps (y - 1) + (if IsLeapYear y then 1 else 0)"
    unfolding leaps_def q using d by (cases "4 dvd y"; cases "100 dvd y"; cases "400 dvd y") (simp_all add: IsLeapYear_dvd)
  then show ?thesis by (simp add: days_before_year_def)
qed

lemma year_period: "days_before_year (y + 400 * k) = days_before_year y + 146097 * k"
proof -
  have "(y + 400 * k - 1) div 4 = (y - 1) div 4 + 100 * k" "(y + 400 * k - 1) div 100 = (y - 1) div 100 + 4 * k" "(y + 400 * k - 1) div 400 = (y - 1) div 400 + k"
    using div_mult_self1 [of 4 "y - 1" "100 * k"] div_mult_self1 [of 100 "y - 1" "4 * k"] div_mult_self1 [of 400 "y - 1" k] by (simp_all add: algebra_simps)
  then have "leaps (y + 400 * k - 1) = leaps (y - 1) + 97 * k" by (simp add: leaps_def)
  then show ?thesis by (simp add: days_before_year_def algebra_simps)
qed

lemma year_table: "CUMULATIVE_YEAR_DAYS = map (\<lambda>i. days_before_year (1970 + int i)) [0..<401]"
  by code_simp

lemma year_days: "i \<le> 400 \<Longrightarrow> CUMULATIVE_YEAR_DAYS ! i = days_before_year (1970 + int i)"
  by (simp add: year_table)

abbreviation cum :: "int \<Rightarrow> int list" where
  "cum y \<equiv> (if IsLeapYear y then CUMULATIVE_LEAP_DAYS else CUMULATIVE_DAYS)"

abbreviation months :: "int \<Rightarrow> int list" where
  "months y \<equiv> (if IsLeapYear y then LEAP_MONTH_PER_DAY_OF_YEAR else MONTH_PER_DAY_OF_YEAR)"

text \<open>The month in the table is the one whose days contain the day of the year.\<close>

fun month_fits :: "int list \<Rightarrow> int \<Rightarrow> int list \<Rightarrow> bool" where
  "month_fits c i [] \<longleftrightarrow> True"
| "month_fits c i (m # ms) \<longleftrightarrow> 1 \<le> m \<and> m \<le> 12 \<and> c ! nat (m - 1) \<le> i \<and> i < c ! nat m \<and> month_fits c (i + 1) ms"

lemma month_fits_nth:
  "month_fits c i ms \<Longrightarrow> k < length ms \<Longrightarrow> 1 \<le> ms ! k \<and> ms ! k \<le> 12 \<and> c ! nat (ms ! k - 1) \<le> i + int k \<and> i + int k < c ! nat (ms ! k)"
proof (induction ms arbitrary: i k)
  case (Cons m ms)
  then show ?case using Cons.IH [of "i + 1" "k - 1"] by (cases k) (auto simp: algebra_simps)
qed simp

lemma month_table: "month_fits CUMULATIVE_DAYS 0 MONTH_PER_DAY_OF_YEAR" "length MONTH_PER_DAY_OF_YEAR = 365"
  by (simp_all add: MONTH_PER_DAY_OF_YEAR_def CUMULATIVE_DAYS_def)

lemma leap_month_table: "month_fits CUMULATIVE_LEAP_DAYS 0 LEAP_MONTH_PER_DAY_OF_YEAR" "length LEAP_MONTH_PER_DAY_OF_YEAR = 366"
  by (simp_all add: LEAP_MONTH_PER_DAY_OF_YEAR_def CUMULATIVE_LEAP_DAYS_def)

lemma month_cases: "1 \<le> (m :: int) \<Longrightarrow> m \<le> 12 \<Longrightarrow> m \<in> {1, 2, 3, 4, 5, 6, 7, 8, 9, 10, 11, 12}"
  by simp presburger

lemma cum_step: "1 \<le> m \<Longrightarrow> m \<le> 12 \<Longrightarrow> cum y ! nat m = cum y ! nat (m - 1) + days_of_month y m" "1 \<le> m \<Longrightarrow> m \<le> 12 \<Longrightarrow> 28 \<le> days_of_month y m"
  using month_cases [of m]
  by (auto simp: days_of_month_def CUMULATIVE_LEAP_DAYS_def CUMULATIVE_DAYS_def NORMAL_DAYS_def LEAP_DAYS_def)

lemma cum_ends: "cum y ! 0 = 0" "cum y ! 12 = (if IsLeapYear y then 366 else 365)"
  by (simp_all add: CUMULATIVE_LEAP_DAYS_def CUMULATIVE_DAYS_def)

lemma cum_mono:
  assumes "0 \<le> a" "a \<le> b" "b \<le> 12"
  shows "cum y ! nat a \<le> cum y ! nat b"
  using assms(2,3)
proof (induction b rule: int_ge_induct)
  case (step b)
  then show ?case using cum_step [of "b + 1" y] assms(1) by auto
qed simp

lemma year_mono: "y \<le> y' \<Longrightarrow> days_before_year y \<le> days_before_year y'"
proof (induction y' rule: int_ge_induct)
  case (step y')
  then show ?case using year_length [of y'] by (auto split: if_splits)
qed simp

text \<open>A day of the calendar, and its number.\<close>

definition proper :: "int \<Rightarrow> int \<Rightarrow> int \<Rightarrow> bool" where
  "proper y m d \<longleftrightarrow> 1 \<le> m \<and> m \<le> 12 \<and> 1 \<le> d \<and> d \<le> days_of_month y m"

definition days_of :: "int \<Rightarrow> int \<Rightarrow> int \<Rightarrow> int" where
  "days_of y m d = days_before_year y + cum y ! nat (m - 1) + (d - 1)"

lemma IsDateValid_proper: "IsDateValid y m d \<longleftrightarrow> proper y m d \<and> - 1969 \<le> y \<and> y \<le> 9999"
proof -
  have "d \<le> 31" if "m = 12" "d \<le> days_of_month y m" using that by (simp add: days_of_month_def LEAP_DAYS_def NORMAL_DAYS_def split: if_splits)
  then show ?thesis by (auto simp: IsDateValid_def proper_def days_of_month_def MIN_DATE_YEAR_def MAX_DATE_YEAR_def)
qed

lemma days_of_month_bounds:
  assumes "proper y m d"
  shows "cum y ! nat (m - 1) \<le> days_of y m d - days_before_year y" "days_of y m d - days_before_year y < cum y ! nat m"
  using assms cum_step(1) [of m y] by (simp_all add: proper_def days_of_def)

lemma days_of_year_bounds:
  assumes "proper y m d"
  shows "days_before_year y \<le> days_of y m d" "days_of y m d < days_before_year (y + 1)"
  using days_of_month_bounds [OF assms] cum_mono [of 0 "m - 1" y] cum_mono [of m 12 y] cum_ends [of y] year_length [of y] assms by (auto simp: proper_def)

lemma days_of_inj:
  assumes "proper y m d" "proper y' m' d'" "days_of y m d = days_of y' m' d'"
  shows "y = y' \<and> m = m' \<and> d = d'"
proof -
  have le: "a \<le> b" if "proper a m1 d1" "proper b m2 d2" "days_of a m1 d1 = days_of b m2 d2" for a b m1 m2 d1 d2
    using days_of_year_bounds [OF that(1)] days_of_year_bounds [OF that(2)] that(3) year_mono [of "b + 1" a] by linarith
  have y: "y = y'" using le [OF assms(1,2,3)] le [OF assms(2,1)] assms(3) by simp
  have ml: "a \<le> b" if "proper y a d1" "proper y b d2" "days_of y a d1 = days_of y b d2" for a b d1 d2
  proof (rule ccontr)
    assume "\<not> a \<le> b"
    then have "cum y ! nat b \<le> cum y ! nat (a - 1)" using that by (intro cum_mono) (auto simp: proper_def)
    then show False using days_of_month_bounds [OF that(1)] days_of_month_bounds [OF that(2)] that(3) by linarith
  qed
  have "m = m'" using ml [of m d m' d'] ml [of m' d' m d] assms y by simp
  then show ?thesis using assms(3) y by (simp add: days_of_def)
qed

lemma sdiv_smod_nonneg: "0 \<le> (a :: int) \<Longrightarrow> 0 < b \<Longrightarrow> a sdiv b = a div b \<and> a smod b = a mod b"
  by (auto simp: signed_divide_int_def signed_modulo_int_def sgn_if)

lemma YMD2Date_days: "YMD2Date y m d = (if IsDateValid y m d then Some (days_of y m d) else None)"
proof (cases "IsDateValid y m d")
  case valid: True
  have idx: "0 \<le> a mod 400" "a mod 400 < 400" "400 * (a div 400) + a mod 400 = a" for a :: int by simp_all
  consider (low) "y < 1970" | (high) "2370 \<le> y" | (mid) "1970 \<le> y" "y < 2370" by linarith
  then show ?thesis
  proof cases
    case low
    let ?a = "1970 - y"
    have "1970 + (400 - ?a mod 400) = y + 400 * (1 + ?a div 400)" using idx(3) [of ?a] by (simp add: algebra_simps)
    then have "days_before_year (1970 + (400 - ?a mod 400)) = days_before_year y + 146097 * (1 + ?a div 400)" by (simp only: year_period)
    moreover have "CUMULATIVE_YEAR_DAYS ! nat (400 - ?a mod 400) = days_before_year (1970 + (400 - ?a mod 400))"
      using year_days [of "nat (400 - ?a mod 400)"] idx(1,2) [of ?a] by simp
    ultimately show ?thesis
      using valid low sdiv_smod_nonneg [of ?a 400] by (simp add: YMD2Date_def days_of_def Let_def DAYS_PER_YEAR_LEAP_def algebra_simps)
  next
    case high
    let ?a = "y - 2370"
    have "y = 1970 + ?a mod 400 + 400 * (1 + ?a div 400)" using idx(3) [of ?a] by (simp add: algebra_simps)
    then have "days_before_year y = days_before_year (1970 + ?a mod 400) + 146097 * (1 + ?a div 400)" by (metis year_period)
    moreover have "CUMULATIVE_YEAR_DAYS ! nat (?a mod 400) = days_before_year (1970 + ?a mod 400)"
      using year_days [of "nat (?a mod 400)"] idx(1,2) [of ?a] by simp
    ultimately show ?thesis
      using valid high sdiv_smod_nonneg [of ?a 400] by (simp add: YMD2Date_def days_of_def Let_def DAYS_PER_YEAR_LEAP_def algebra_simps)
  next
    case mid
    then show ?thesis using valid year_days [of "nat (y - 1970)"] by (simp add: YMD2Date_def days_of_def Let_def)
  qed
qed (simp add: YMD2Date_def)

lemma raise_days_spec: "\<exists>k. 0 \<le> k \<and> raise_days v y = (v + 146097 * k, y - 400 * k) \<and> 0 \<le> v + 146097 * k"
proof (induction v y rule: raise_days.induct)
  case (1 v y)
  show ?case
  proof (cases "v < 0")
    case True
    then obtain k where "0 \<le> k" "raise_days (v + 146097) (y - 400) = (v + 146097 + 146097 * k, y - 400 - 400 * k)" "0 \<le> v + 146097 + 146097 * k"
      using "1.IH" by (auto simp: DAYS_PER_YEAR_LEAP_def YEAR_LEAP_def)
    then show ?thesis
      using True by (intro exI [of _ "k + 1"]) (simp add: raise_days.simps [of v y] DAYS_PER_YEAR_LEAP_def YEAR_LEAP_def algebra_simps)
  qed (auto simp: raise_days.simps [of v y] intro: exI [of _ 0])
qed

lemma lower_days_spec: "0 \<le> v \<Longrightarrow> \<exists>k. 0 \<le> k \<and> lower_days v y = (v - 146097 * k, y + 400 * k) \<and> 0 \<le> v - 146097 * k \<and> v - 146097 * k < 146097"
proof (induction v y rule: lower_days.induct)
  case (1 v y)
  show ?case
  proof (cases "146097 \<le> v")
    case True
    then obtain k where "0 \<le> k" "lower_days (v - 146097) (y + 400) = (v - 146097 - 146097 * k, y + 400 + 400 * k)" "0 \<le> v - 146097 - 146097 * k" "v - 146097 - 146097 * k < 146097"
      using "1.IH" by (auto simp: DAYS_PER_YEAR_LEAP_def YEAR_LEAP_def)
    then show ?thesis
      using True by (intro exI [of _ "k + 1"]) (simp add: lower_days.simps [of v y] DAYS_PER_YEAR_LEAP_def YEAR_LEAP_def algebra_simps)
  qed (use "1.prems" in \<open>auto simp: lower_days.simps [of v y] DAYS_PER_YEAR_LEAP_def intro: exI [of _ 0]\<close>)
qed

lemma year_loop_spec:
  "0 \<le> days \<Longrightarrow> off \<le> 400 \<Longrightarrow> \<exists>r \<le> off. year_loop days off = Inr r \<and> CUMULATIVE_YEAR_DAYS ! r \<le> days \<and> (r < off \<longrightarrow> days < CUMULATIVE_YEAR_DAYS ! Suc r)"
proof (induction off)
  case 0
  have "CUMULATIVE_YEAR_DAYS ! 0 = 0" by (simp add: CUMULATIVE_YEAR_DAYS_def)
  then show ?case using 0 by simp
next
  case (Suc off)
  show ?case
  proof (cases "days < CUMULATIVE_YEAR_DAYS ! Suc off")
    case True
    obtain r where "r \<le> off" "year_loop days off = Inr r" "CUMULATIVE_YEAR_DAYS ! r \<le> days" "r < off \<longrightarrow> days < CUMULATIVE_YEAR_DAYS ! Suc r"
      using Suc by auto
    then show ?thesis using True by (intro exI [of _ r]) (auto simp: le_less less_Suc_eq)
  qed auto
qed

lemma year_at_least: "365 * int i \<le> days_before_year (1970 + int i)"
proof (induction i)
  case 0
  then show ?case by (simp add: days_before_year_def)
next
  case (Suc i)
  then show ?case using year_length [of "1970 + int i"] by (auto simp: algebra_simps split: if_splits)
qed

text \<open>The conversion finds the day of the calendar with the given number, for every number.\<close>

lemma Date2YMD_spec:
  "\<exists>y m d. Date2YMD v = Inr ((y, m, d), IsDateValid y m d) \<and> proper y m d \<and> days_of y m d = v"
proof -
  obtain k where k: "raise_days v 1970 = (v + 146097 * k, 1970 - 400 * k)" "0 \<le> v + 146097 * k" using raise_days_spec by blast
  obtain l where l: "lower_days (v + 146097 * k) (1970 - 400 * k) = (v + 146097 * k - 146097 * l, 1970 - 400 * k + 400 * l)"
    "0 \<le> v + 146097 * k - 146097 * l" "v + 146097 * k - 146097 * l < 146097" using lower_days_spec [OF k(2)] by blast
  define days where "days = v + 146097 * k - 146097 * l"
  have days: "0 \<le> days" "days < 146097" using l by (simp_all add: days_def)
  have off: "nat (days sdiv 365) \<le> 400" "days < 365 * (int (nat (days sdiv 365)) + 1)" using days sdiv_smod_nonneg [of days 365] by auto
  obtain r where r: "r \<le> nat (days sdiv 365)" "year_loop days (nat (days sdiv 365)) = Inr r" "CUMULATIVE_YEAR_DAYS ! r \<le> days"
    "r < nat (days sdiv 365) \<longrightarrow> days < CUMULATIVE_YEAR_DAYS ! Suc r" using year_loop_spec [OF days(1) off(1)] by blast
  have r400: "r < 400"
  proof (rule ccontr)
    assume "\<not> r < 400"
    then have "r = 400" using r(1) off(1) by simp
    then show False using r(3) days(2) by (simp add: CUMULATIVE_YEAR_DAYS_def)
  qed
  define y where "y = 1970 - 400 * k + 400 * l + int r"
  have base: "days_before_year y = CUMULATIVE_YEAR_DAYS ! r + (v - days)"
    using year_period [of "1970 + int r" "l - k"] year_days [of r] r400 by (simp add: y_def days_def algebra_simps)
  have next_year: "days_before_year (y + 1) = days_before_year (1970 + int (Suc r)) + (v - days)"
    using year_period [of "1970 + int (Suc r)" "l - k"] by (simp add: y_def days_def algebra_simps)
  have "days < days_before_year (1970 + int (Suc r))"
    using r(1,4) year_days [of "Suc r"] r400 off(2) year_at_least [of "Suc r"] by (cases "r < nat (days sdiv 365)") auto
  then have len: "days - CUMULATIVE_YEAR_DAYS ! r < (if IsLeapYear y then 366 else 365)" using year_length [of y] base next_year by (auto split: if_splits)
  define day0 where "day0 = days - CUMULATIVE_YEAR_DAYS ! r"
  define m where "m = months y ! nat day0"
  have day0: "0 \<le> day0" "nat day0 < length (months y)" using r(3) len month_table(2) leap_month_table(2) by (simp_all add: day0_def split: if_splits)
  have m: "1 \<le> m" "m \<le> 12" "cum y ! nat (m - 1) \<le> day0" "day0 < cum y ! nat m"
    using month_fits_nth [of "cum y" 0 "months y" "nat day0"] month_table(1) leap_month_table(1) day0 by (auto simp: m_def split: if_splits)
  define d where "d = day0 - cum y ! nat (m - 1) + 1"
  have "proper y m d" using m cum_step(1) [of m y] by (simp add: proper_def d_def)
  moreover have "days_of y m d = v" using base by (simp add: days_of_def d_def day0_def)
  moreover have "Date2YMD v = Inr ((y, m, d), IsDateValid y m d)"
    using k l r(2) by (simp add: Date2YMD_def EPOCH_YEAR_def days_def [symmetric] Let_def y_def [symmetric] day0_def [symmetric] m_def d_def if_distrib [of "\<lambda>l. l ! i" for i])
  ultimately show ?thesis by blast
qed

lemma Date2YMD_days_of: "proper y m d \<Longrightarrow> Date2YMD (days_of y m d) = Inr ((y, m, d), IsDateValid y m d)"
  using Date2YMD_spec [of "days_of y m d"] days_of_inj by (metis (no_types))

text \<open>The day that follows in the calendar.\<close>

definition next_day :: "int \<times> int \<times> int \<Rightarrow> int \<times> int \<times> int" where
  "next_day = (\<lambda>(y, m, d). if d < days_of_month y m then (y, m, d + 1) else if m < 12 then (y, m + 1, 1) else (y + 1, 1, 1))"

lemma next_day_days_of:
  assumes "proper y m d" "next_day (y, m, d) = (y', m', d')"
  shows "proper y' m' d' \<and> days_of y' m' d' = days_of y m d + 1"
proof -
  have m: "1 \<le> m" "m \<le> 12" using assms(1) by (simp_all add: proper_def)
  have pos: "28 \<le> days_of_month y (m + 1)" if "m < 12" using cum_step(2) [of "m + 1" y] m that by simp
  have first: "28 \<le> days_of_month (y + 1) 1" using cum_step(2) [of 1 "y + 1"] by simp
  have dec: "cum y ! 12 = cum y ! nat (m - 1) + days_of_month y m" if "\<not> m < 12" using cum_step(1) [of m y] m that by (simp add: order_antisym)
  show ?thesis
    using assms cum_step(1) [OF m, of y] cum_ends [of y] cum_ends(1) [of "y + 1"] year_length [of y] pos first dec
    by (auto simp: next_day_def proper_def days_of_def split: if_splits)
qed

text \<open>(C36) The calendar: the conversion of days to year, month and day counts the days of the calendar one by one from 1970-01-01, in both directions.  The conversion back is its inverse, for exactly the dates that are valid.\<close>

theorem date_conversion_counts_days:
  "Date2YMD 0 = Inr ((1970, 1, 1), True) \<and> (\<forall>v. \<exists>x b b'. Date2YMD v = Inr (x, b) \<and> Date2YMD (v + 1) = Inr (next_day x, b')) \<and>
   (\<forall>y m d v. YMD2Date y m d = Some v \<longleftrightarrow> Date2YMD v = Inr ((y, m, d), True))"
proof (intro conjI allI)
  have epoch: "proper 1970 1 1" "days_of 1970 1 1 = 0" "IsDateValid 1970 1 1"
    using cum_ends(1) [of 1970] by (simp_all add: IsDateValid_proper proper_def days_of_month_def LEAP_DAYS_def NORMAL_DAYS_def days_of_def days_before_year_def)
  show "Date2YMD 0 = Inr ((1970, 1, 1), True)" using Date2YMD_days_of [OF epoch(1)] epoch(2,3) by simp
  fix v
  obtain y m d where x: "Date2YMD v = Inr ((y, m, d), IsDateValid y m d)" "proper y m d" "days_of y m d = v" using Date2YMD_spec by blast
  obtain y' m' d' where x': "next_day (y, m, d) = (y', m', d')" by (metis prod_cases3)
  have "proper y' m' d'" "days_of y' m' d' = v + 1" using next_day_days_of [OF x(2) x'] x(3) by simp_all
  then have "Date2YMD (v + 1) = Inr (next_day (y, m, d), IsDateValid y' m' d')" using Date2YMD_days_of x' by metis
  then show "\<exists>x b b'. Date2YMD v = Inr (x, b) \<and> Date2YMD (v + 1) = Inr (next_day x, b')" using x(1) by blast
next
  fix y m d v
  obtain y' m' d' where x: "Date2YMD v = Inr ((y', m', d'), IsDateValid y' m' d')" "proper y' m' d'" "days_of y' m' d' = v" using Date2YMD_spec by blast
  then show "YMD2Date y m d = Some v \<longleftrightarrow> Date2YMD v = Inr ((y, m, d), True)"
    using days_of_inj [of y m d y' m' d'] by (auto simp: YMD2Date_days IsDateValid_proper)
qed

end
