(* ===== verification/Date_Time.thy ===== *)
theory Date_Time
  imports Date_Type
begin

text \<open>
  Times of the day (\<^verbatim>\<open>src/src/parser/type/datetime/time_type.cpp\<close>), dates with a time (\<^verbatim>\<open>datetime_type.cpp\<close>), the arithmetic of
  dates and times with intervals, and the conversion to and from texts.
\<close>

subsection \<open>Time of the day\<close>

definition MINUTE_SECOND :: int where "MINUTE_SECOND = 60"
definition HOUR_SECOND :: int where "HOUR_SECOND = 60 * MINUTE_SECOND"

definition IsTimeValid :: "int \<Rightarrow> int \<Rightarrow> int \<Rightarrow> bool" where
  "IsTimeValid hour minute second \<longleftrightarrow> 0 \<le> hour \<and> hour \<le> 23 \<and> 0 \<le> minute \<and> minute \<le> 59 \<and> 0 \<le> second \<and> second \<le> 59"

definition HMS2Time :: "int \<Rightarrow> int \<Rightarrow> int \<Rightarrow> int option" where
  "HMS2Time hour minute second =
     (if \<not> IsTimeValid hour minute second then None else Some (hour * HOUR_SECOND + minute * MINUTE_SECOND + second * 1))"

definition Time2HMS :: "int \<Rightarrow> (int \<times> int \<times> int) option" where
  "Time2HMS seconds =
     (if seconds < 0 \<or> DAY_SECOND \<le> seconds then None
      else let hour = seconds sdiv HOUR_SECOND; seconds' = seconds smod HOUR_SECOND
           in Some (hour, seconds' sdiv MINUTE_SECOND, seconds' smod MINUTE_SECOND))"

text \<open>The total of seconds is computed in 32 bits.\<close>

definition total_seconds :: "int \<Rightarrow> IntervalType \<Rightarrow> int \<Rightarrow> int res" where
  "total_seconds input interval product =
     rbind (i32 (it_value interval * product)) (\<lambda>x. i32 (input + x))"

definition TimeType_Add :: "int \<Rightarrow> IntervalType \<Rightarrow> int res" where
  "TimeType_Add input interval =
     (let calc_time_add = (\<lambda>product. rbind (total_seconds input interval product) (\<lambda>tot. Inr ((tot smod DAY_SECOND + DAY_SECOND) smod DAY_SECOND)))
      in case it_unit interval of
           kYear \<Rightarrow> Inr input
         | kMonth \<Rightarrow> Inr input
         | kDay \<Rightarrow> Inr input
         | kHour \<Rightarrow> calc_time_add HOUR_SECOND
         | kMinute \<Rightarrow> calc_time_add MINUTE_SECOND
         | kSecond \<Rightarrow> calc_time_add 1
         | kInvalidUnit \<Rightarrow> Inl (ParserError ''Invalid interval unit.''))"

definition TimeType_Subtract :: "int \<Rightarrow> IntervalType \<Rightarrow> int res" where
  "TimeType_Subtract input interval = rbind (negate interval) (TimeType_Add input)"

text \<open>The variant that also gives the days that the result is off; the units of whole days leave them unchanged.\<close>

definition TimeType_Add_overflow :: "int \<Rightarrow> IntervalType \<Rightarrow> int \<Rightarrow> (int \<times> int) res" where
  "TimeType_Add_overflow input interval overflow_days =
     (let calc_overflow_days = (\<lambda>product. rbind (total_seconds input interval product) (\<lambda>tot.
            let res = (tot smod DAY_SECOND + DAY_SECOND) smod DAY_SECOND
            in rbind (i32 (tot - res)) (\<lambda>diff. Inr (res, diff sdiv DAY_SECOND))))
      in case it_unit interval of
           kYear \<Rightarrow> Inr (input, overflow_days)
         | kMonth \<Rightarrow> Inr (input, overflow_days)
         | kDay \<Rightarrow> Inr (input, overflow_days)
         | kHour \<Rightarrow> calc_overflow_days HOUR_SECOND
         | kMinute \<Rightarrow> calc_overflow_days MINUTE_SECOND
         | kSecond \<Rightarrow> calc_overflow_days 1
         | kInvalidUnit \<Rightarrow> Inl (ParserError ''Invalid interval unit.''))"

definition TimeType_Subtract_overflow :: "int \<Rightarrow> IntervalType \<Rightarrow> int \<Rightarrow> (int \<times> int) res" where
  "TimeType_Subtract_overflow input interval overflow_days = rbind (negate interval) (\<lambda>i. TimeType_Add_overflow input i overflow_days)"

definition GetTimePart :: "int \<Rightarrow> TimeUnit \<Rightarrow> int res" where
  "GetTimePart input unit =
     (case Time2HMS input of
        None \<Rightarrow> Inl (ParserError ''Invalid time value'')
      | Some (hour, minute, second) \<Rightarrow>
          (case unit of
             kYear \<Rightarrow> Inl (ParserError ''Can't extract year from time'')
           | kMonth \<Rightarrow> Inl (ParserError ''Can't extract month from time'')
           | kDay \<Rightarrow> Inl (ParserError ''Can't extract day from time'')
           | kHour \<Rightarrow> Inr hour
           | kMinute \<Rightarrow> Inr minute
           | kSecond \<Rightarrow> Inr second
           | _ \<Rightarrow> Inl (ParserError ''Invalid time unit'')))"

definition TimeType_ToString :: "int \<Rightarrow> string res" where
  "TimeType_ToString value =
     (case Time2HMS value of
        None \<Rightarrow> Inl (ParserError ''Invalid second value'')
      | Some (hour, minute, second) \<Rightarrow> Inr (format_0d 2 hour @ '':'' @ format_0d 2 minute @ '':'' @ format_0d 2 second))"

definition TimeType_ConvertFromString :: "string \<Rightarrow> nat \<Rightarrow> int option res" where
  "TimeType_ConvertFromString mem n =
     rbind (skip_spaces mem n 0) (\<lambda>pos0.
       obind (read_number 23 mem n 0 pos0) (\<lambda>(hour, pos1).
       obind (skip_separator {CHR '':''} mem pos1) (\<lambda>pos2.
       obind (read_number 59 mem n 0 pos2) (\<lambda>(minute, pos3).
       obind (skip_separator {CHR '':''} mem pos3) (\<lambda>pos4.
       obind (read_number 59 mem n 0 pos4) (\<lambda>(second, pos5).
         Inr (HMS2Time hour minute second)))))))"

definition TimeType_FromString :: "string \<Rightarrow> nat \<Rightarrow> int res" where
  "TimeType_FromString mem n = rbind (TimeType_ConvertFromString mem n) (\<lambda>r.
     case r of None \<Rightarrow> Inl (ParserError ''Invalid time format (need to be HH:MM:SS).'') | Some x \<Rightarrow> Inr x)"

subsection \<open>Date and time\<close>

record DateTimeType =
  dt_date :: int
  dt_time :: int

text \<open>The constructor from seconds since 1970-01-01; the difference is computed in 64 bits and the parts are cut to 32 bits.\<close>

definition DateTimeType_of_epoch :: "int \<Rightarrow> DateTimeType res" where
  "DateTimeType_of_epoch epoch_time =
     (let seconds0 = epoch_time smod 86400; seconds = (if seconds0 < 0 then seconds0 + 86400 else seconds0)
      in if epoch_time - seconds < - (2 ^ 63) then Inl (UndefinedBehaviour ''signed integer overflow'')
         else Inr \<lparr>dt_date = to_i32 ((epoch_time - seconds) sdiv 86400), dt_time = to_i32 seconds\<rparr>)"

definition DateTimeType_Reset :: "DateTimeType \<Rightarrow> DateTimeType" where
  "DateTimeType_Reset x = x\<lparr>dt_date := 0, dt_time := 0\<rparr>"

definition DateTimeType_GetEpochTime :: "DateTimeType \<Rightarrow> int" where
  "DateTimeType_GetEpochTime x = dt_date x * 86400 + dt_time x"

definition DateTimeType_less :: "DateTimeType \<Rightarrow> DateTimeType \<Rightarrow> bool" where
  "DateTimeType_less x y \<longleftrightarrow> dt_date x < dt_date y \<or> dt_date x = dt_date y \<and> dt_time x < dt_time y"

definition DateTimeType_ToString :: "DateTimeType \<Rightarrow> string res" where
  "DateTimeType_ToString x = rbind (DateType_ToString (dt_date x)) (\<lambda>d. rbind (TimeType_ToString (dt_time x)) (\<lambda>t. Inr (d @ '' '' @ t)))"

function skip_blanks :: "string \<Rightarrow> nat \<Rightarrow> nat \<Rightarrow> nat res" where
  "skip_blanks mem n pos =
     (if pos < n then rbind (char_at mem pos) (\<lambda>c. if c = CHR '' '' then skip_blanks mem n (pos + 1) else Inr pos) else Inr pos)"
  by pat_completeness auto
termination by (relation "measure (\<lambda>(mem, n, pos). n - pos)") auto

declare skip_blanks.simps [simp del]

definition DateTimeType_FromString :: "string \<Rightarrow> nat \<Rightarrow> DateTimeType res" where
  "DateTimeType_FromString mem n =
     rbind (DateType_FromString mem n) (\<lambda>(date, date_length0).
     rbind (skip_blanks mem n date_length0) (\<lambda>date_length.
       if date_length < n
       then rbind (TimeType_FromString (drop date_length mem) (n - date_length)) (\<lambda>time. Inr \<lparr>dt_date = date, dt_time = time\<rparr>)
       else Inr \<lparr>dt_date = date, dt_time = 0\<rparr>))"

text \<open>The result of \<^verbatim>\<open>DateType::Add\<close> is written to the date of the argument; when it returns false, the date stays as it was.\<close>

definition add_to_date :: "int \<Rightarrow> IntervalType \<Rightarrow> int res" where
  "add_to_date date interval = rbind (DateType_Add date interval) (\<lambda>r. Inr (case r of None \<Rightarrow> date | Some d \<Rightarrow> d))"

definition DateTimeType_Add :: "DateTimeType \<Rightarrow> IntervalType \<Rightarrow> DateTimeType res" where
  "DateTimeType_Add input interval =
     (let whole_days = rbind (add_to_date (dt_date input) interval) (\<lambda>d. Inr (input\<lparr>dt_date := d\<rparr>));
          part_of_day = rbind (TimeType_Add_overflow (dt_time input) interval 0) (\<lambda>(t, overflow_days).
            if overflow_days \<noteq> 0
            then rbind (add_to_date (dt_date input) \<lparr>it_unit = kDay, it_value = overflow_days\<rparr>) (\<lambda>d. Inr (input\<lparr>dt_time := t, dt_date := d\<rparr>))
            else Inr (input\<lparr>dt_time := t\<rparr>))
      in case it_unit interval of
           kYear \<Rightarrow> whole_days
         | kMonth \<Rightarrow> whole_days
         | kDay \<Rightarrow> whole_days
         | kHour \<Rightarrow> part_of_day
         | kMinute \<Rightarrow> part_of_day
         | kSecond \<Rightarrow> part_of_day
         | kInvalidUnit \<Rightarrow> Inl (ParserError ''Invalid interval unit.''))"

definition DateTimeType_Subtract :: "DateTimeType \<Rightarrow> IntervalType \<Rightarrow> DateTimeType res" where
  "DateTimeType_Subtract input interval = rbind (negate interval) (DateTimeType_Add input)"

definition GetDateTimePart :: "DateTimeType \<Rightarrow> TimeUnit \<Rightarrow> int res" where
  "GetDateTimePart input unit =
     (case unit of
        kYear \<Rightarrow> GetDatePart (dt_date input) unit
      | kMonth \<Rightarrow> GetDatePart (dt_date input) unit
      | kDay \<Rightarrow> GetDatePart (dt_date input) unit
      | kHour \<Rightarrow> GetTimePart (dt_time input) unit
      | kMinute \<Rightarrow> GetTimePart (dt_time input) unit
      | kSecond \<Rightarrow> GetTimePart (dt_time input) unit
      | kInvalidUnit \<Rightarrow> Inl (ParserError ''Invalid time unit''))"

definition YMDHMS2DateTime :: "int \<Rightarrow> int \<Rightarrow> int \<Rightarrow> int \<Rightarrow> int \<Rightarrow> int \<Rightarrow> DateTimeType option" where
  "YMDHMS2DateTime year month day hour minute second =
     (case HMS2Time hour minute second of None \<Rightarrow> None | Some t \<Rightarrow> map_option (\<lambda>d. \<lparr>dt_date = d, dt_time = t\<rparr>) (YMD2Date year month day))"

definition DateTime2YMDHMS :: "int \<Rightarrow> int \<Rightarrow> (int \<times> int \<times> int \<times> int \<times> int \<times> int) option res" where
  "DateTime2YMDHMS days seconds =
     (case Time2HMS seconds of
        None \<Rightarrow> Inr None
      | Some (hour, minute, second) \<Rightarrow> rbind (Date2YMD days) (\<lambda>((year, month, day), valid).
          Inr (if valid then Some (year, month, day, hour, minute, second) else None)))"

definition IsDateTimeValid :: "int \<Rightarrow> int \<Rightarrow> int \<Rightarrow> int \<Rightarrow> int \<Rightarrow> int \<Rightarrow> bool" where
  "IsDateTimeValid year month day hour minute second \<longleftrightarrow> IsTimeValid hour minute second \<and> IsDateValid year month day"

subsection \<open>Arithmetic\<close>

lemma sdiv_neg: "(a :: int) \<le> 0 \<Longrightarrow> 0 < b \<Longrightarrow> a sdiv b = - ((- a) div b) \<and> a smod b = - ((- a) mod b)"
  by (auto simp: signed_divide_int_def signed_modulo_int_def sgn_if)

text \<open>The remainder of the day is the mathematical one, also for negative totals.\<close>

lemma smod_floor:
  assumes "0 < (b :: int)"
  shows "(a smod b + b) smod b = a mod b"
proof (cases "0 \<le> a")
  case True
  then show ?thesis using assms sdiv_smod_nonneg [of a b] sdiv_smod_nonneg [of "a mod b + b" b] by simp
next
  case False
  have "a smod b + b = b - (- a) mod b" using sdiv_neg [of a b] assms False by simp
  moreover have "0 \<le> b - (- a) mod b" using pos_mod_bound [of b "- a"] assms by linarith
  moreover have "(b - (- a) mod b) mod b = a mod b" using mod_minus_eq [of "- a" b] by (simp add: mod_diff_right_eq)
  ultimately show ?thesis using sdiv_smod_nonneg [of "b - (- a) mod b" b] assms by simp
qed

lemma sdiv_exact: "0 < (b :: int) \<Longrightarrow> (a - a mod b) sdiv b = a div b"
proof -
  assume b: "0 < b"
  have e: "a - a mod b = b * (a div b)" by (simp add: minus_mod_eq_mult_div)
  show ?thesis
  proof (cases "0 \<le> a div b")
    case True
    then have "0 \<le> b * (a div b)" using b by simp
    then show ?thesis using sdiv_smod_nonneg [of "b * (a div b)" b] b by (simp add: e)
  next
    case False
    then have "b * (a div b) \<le> 0" using b by (simp add: mult_le_0_iff)
    then show ?thesis using sdiv_neg [of "b * (a div b)" b] b nonzero_mult_div_cancel_left [of b "- (a div b)"] by (simp add: e)
  qed
qed

text \<open>A date and time that is built from an epoch time has this epoch time, and a time of the day.\<close>

lemma DateTimeType_of_epoch_GetEpochTime:
  assumes "- (2 ^ 31) * 86400 \<le> e" "e < 2 ^ 31 * 86400"
  shows "DateTimeType_of_epoch e = Inr \<lparr>dt_date = e div 86400, dt_time = e mod 86400\<rparr>"
    and "DateTimeType_GetEpochTime \<lparr>dt_date = e div 86400, dt_time = e mod 86400\<rparr> = e"
proof -
  have sec: "(if e smod 86400 < 0 then e smod 86400 + 86400 else e smod 86400) = e mod 86400"
    using sdiv_smod_nonneg [of e 86400] sdiv_neg [of e 86400] zmod_zminus1_eq_if [of "- e" 86400] pos_mod_sign [of 86400 "- e"]
    by (cases "0 \<le> e") auto
  have m: "0 \<le> e mod 86400" "e mod 86400 < 86400" by simp_all
  have d: "- (2 ^ 31) \<le> e div 86400" "e div 86400 < 2 ^ 31"
    using assms pos_imp_zdiv_neg_iff div_int_pos_iff zdiv_mono1 [of "- (2 ^ 31) * 86400" e 86400] by (simp_all add: div_less_iff_less_mult)
  have "to_i32 (e div 86400) = e div 86400" "to_i32 (e mod 86400) = e mod 86400" using d m by (simp_all add: to_i32_def)
  moreover have "\<not> e - e mod 86400 < - (2 ^ 63)" using assms(1) m(2) by simp
  ultimately show "DateTimeType_of_epoch e = Inr \<lparr>dt_date = e div 86400, dt_time = e mod 86400\<rparr>"
    unfolding DateTimeType_of_epoch_def Let_def sec sdiv_exact [of 86400 e, simplified] by simp
  show "DateTimeType_GetEpochTime \<lparr>dt_date = e div 86400, dt_time = e mod 86400\<rparr> = e" by (simp add: DateTimeType_GetEpochTime_def)
qed

definition unit_seconds :: "TimeUnit \<Rightarrow> int" where
  "unit_seconds u = (case u of kHour \<Rightarrow> 3600 | kMinute \<Rightarrow> 60 | _ \<Rightarrow> 1)"

text \<open>(C38) Date arithmetic in hours, minutes and seconds: as long as the seconds fit into 32 bits, the result is the date and time that is exactly so
  many seconds later or earlier, with a valid time of the day; days are carried to the date in both directions.\<close>

theorem datetime_add_exact:
  assumes u: "it_unit i \<in> {kHour, kMinute, kSecond}" and t: "0 \<le> dt_time x" "dt_time x < 86400"
    and fit: "\<bar>it_value i * unit_seconds (it_unit i)\<bar> < 2 ^ 31 - 86400" and d: "\<bar>dt_date x\<bar> < 2 ^ 30"
  shows "\<exists>y. DateTimeType_Add x i = Inr y \<and> DateTimeType_GetEpochTime y = DateTimeType_GetEpochTime x + it_value i * unit_seconds (it_unit i) \<and>
    0 \<le> dt_time y \<and> dt_time y < 86400"
proof -
  let ?n = "it_value i * unit_seconds (it_unit i)"
  let ?tot = "dt_time x + ?n"
  have sec: "DAY_SECOND = 86400" "HOUR_SECOND = 3600" "MINUTE_SECOND = 60"
    by (simp_all add: DAY_SECOND_def DAY_MINUTE_def DAY_HOUR_def HOUR_SECOND_def MINUTE_SECOND_def)
  have m: "0 \<le> ?tot mod 86400" "?tot mod 86400 < 86400" "?tot = 86400 * (?tot div 86400) + ?tot mod 86400" by simp_all
  have rng: "- (2 ^ 31) \<le> ?n" "?n < 2 ^ 31" "- (2 ^ 31) \<le> ?tot" "?tot < 2 ^ 31" "- (2 ^ 31) \<le> ?tot - ?tot mod 86400" "?tot - ?tot mod 86400 < 2 ^ 31"
    using fit t m(1,2) by linarith+
  have dv: "\<bar>?tot div 86400\<bar> \<le> 2 ^ 20"
  proof -
    have "- (2 ^ 20) * 86400 \<le> ?tot" "?tot < 2 ^ 20 * 86400" using rng(3,4) by simp_all
    then have "- (2 ^ 20) \<le> ?tot div 86400" "?tot div 86400 < 2 ^ 20 + 1" by linarith+
    then show ?thesis by linarith
  qed
  have time: "TimeType_Add_overflow (dt_time x) i 0 = Inr (?tot mod 86400, ?tot div 86400)"
    using u rng smod_floor [of 86400 ?tot] sdiv_exact [of 86400 ?tot]
    by (auto simp: TimeType_Add_overflow_def total_seconds_def i32_def Let_def sec unit_seconds_def)
  have date: "add_to_date (dt_date x) \<lparr>it_unit = kDay, it_value = ?tot div 86400\<rparr> = Inr (dt_date x + ?tot div 86400)"
    using d dv by (simp add: add_to_date_def DateType_Add_def i32_def abs_le_iff abs_less_iff)
  let ?y = "\<lparr>dt_date = dt_date x + ?tot div 86400, dt_time = ?tot mod 86400\<rparr>"
  have "DateTimeType_Add x i = Inr ?y"
    using u time date by (cases x) (auto simp: DateTimeType_Add_def Let_def)
  moreover have "DateTimeType_GetEpochTime ?y = DateTimeType_GetEpochTime x + ?n"
    using m(3) by (simp add: DateTimeType_GetEpochTime_def algebra_simps)
  ultimately show ?thesis using m(1,2) by (intro exI [of _ ?y]) simp
qed

theorem datetime_add_exact_witness:
  "\<exists>y. DateTimeType_Add \<lparr>dt_date = 0, dt_time = 10\<rparr> \<lparr>it_unit = kMinute, it_value = - 1\<rparr> = Inr y \<and>
    DateTimeType_GetEpochTime y = - 50 \<and> 0 \<le> dt_time y \<and> dt_time y < 86400"
  using datetime_add_exact [of "\<lparr>it_unit = kMinute, it_value = - 1\<rparr>" "\<lparr>dt_date = 0, dt_time = 10\<rparr>"]
  by (simp add: unit_seconds_def DateTimeType_GetEpochTime_def)

subsection \<open>Reading a printed date and time\<close>

definition number :: "int \<Rightarrow> string \<Rightarrow> int" where
  "number acc ds = foldl (\<lambda>n d. n * 10 + (int (of_char d) - 48)) acc ds"

lemma digit_facts: "is_digit c \<Longrightarrow> 48 \<le> (of_char c :: nat)" "is_digit c \<Longrightarrow> \<not> is_space c" "is_digit c \<Longrightarrow> c \<noteq> CHR ''-''"
  by (auto simp: is_digit_def is_space_def less_eq_char_def)

lemma number_ge: "list_all is_digit ds \<Longrightarrow> 0 \<le> acc \<Longrightarrow> acc \<le> number acc ds"
proof (induction ds arbitrary: acc)
  case (Cons d ds)
  have "acc * 10 + (int (of_char d) - 48) \<le> number (acc * 10 + (int (of_char d) - 48)) ds"
    using Cons.prems digit_facts(1) [of d] by (intro Cons.IH) auto
  then show ?case using Cons.prems digit_facts(1) [of d] by (simp add: number_def)
qed (simp add: number_def)

lemma number_digits_value: "list_all is_digit ds \<Longrightarrow> number 0 ds = int (digits_value ds)"
proof (induction ds rule: rev_induct)
  case (snoc d ds)
  then show ?case using digit_facts(1) [of d] by (simp add: digits_value_snoc) (simp add: number_def of_nat_diff)
qed (simp add: number_def digits_value_def)

lemma char_at_append: "char_at (pre @ c # rest) (length pre) = Inr c"
  by (simp add: char_at_def)

lemma read_number_digits:
  assumes "list_all is_digit ds" "0 \<le> acc" "number acc ds \<le> bound" "length pre + length ds \<le> n"
    and "n = length pre + length ds \<or> rest \<noteq> [] \<and> \<not> is_digit (hd rest)"
  shows "read_number bound (pre @ ds @ rest) n acc (length pre) = Inr (Some (number acc ds, length pre + length ds))"
  using assms
proof (induction ds arbitrary: pre acc)
  case Nil
  then show ?case by (subst read_number.simps) (cases rest, auto simp: char_at_append number_def res_simps)
next
  case (Cons d ds)
  let ?acc = "acc * 10 + (int (of_char d) - 48)"
  have d: "is_digit d" "0 \<le> ?acc" "number acc (d # ds) = number ?acc ds"
    using Cons.prems(1,2) digit_facts(1) [of d] by (auto simp: number_def)
  have "?acc \<le> bound" using number_ge [of ds ?acc] Cons.prems(1,3) d(2,3) by simp
  moreover have "read_number bound ((pre @ [d]) @ ds @ rest) n ?acc (length (pre @ [d])) = Inr (Some (number ?acc ds, length (pre @ [d]) + length ds))"
    using Cons.prems d by (intro Cons.IH) auto
  ultimately show ?case
    using Cons.prems(4) d(1,3) digit_facts(2) [of d] by (subst read_number.simps) (simp add: char_at_append res_simps Let_def)
qed

lemma format_0d_digits:
  assumes "0 \<le> v"
  shows "list_all is_digit (format_0d w v)" "number 0 (format_0d w v) = v" "format_0d w v \<noteq> []"
proof -
  have z: "number 0 (replicate k (CHR ''0'') @ ds) = number 0 ds" for k ds by (induction k) (simp_all add: number_def)
  show "list_all is_digit (format_0d w v)"
    using assms show_nat_digits [of "nat \<bar>v\<bar>"] by (auto simp: format_0d_def Let_def list_all_iff is_digit_def less_eq_char_def)
  show "number 0 (format_0d w v) = v"
    using assms show_nat_digits [of "nat \<bar>v\<bar>"] by (simp add: format_0d_def Let_def z number_digits_value digits_value_show_nat)
  show "format_0d w v \<noteq> []" using show_nat_digits [of "nat \<bar>v\<bar>"] by (simp add: format_0d_def Let_def)
qed

text \<open>A printed number that is followed by a separator, or by the end of the text.\<close>

lemma read_printed:
  assumes "0 \<le> v" "v \<le> bound" "mem = pre @ format_0d w v @ rest" "pos = length pre"
    and "n = pos + length (format_0d w v) \<or> pos + length (format_0d w v) < n \<and> rest \<noteq> [] \<and> \<not> is_digit (hd rest)"
  shows "read_number bound mem n 0 pos = Inr (Some (v, pos + length (format_0d w v)))"
  using assms format_0d_digits [of v w] read_number_digits [of "format_0d w v" 0 bound pre n rest] by auto

lemma skip_separator_at: "mem = pre @ c # rest \<Longrightarrow> pos = length pre \<Longrightarrow> c \<in> cs \<Longrightarrow> skip_separator cs mem pos = Inr (Some (pos + 1))"
  by (simp add: skip_separator_def char_at_append res_simps)

lemma first_digit:
  assumes "0 \<le> v" "0 < n"
  shows "skip_spaces (format_0d w v @ rest) n 0 = Inr 0" "\<exists>c. char_at (format_0d w v @ rest) 0 = Inr c \<and> is_digit c"
proof -
  obtain c cs where c: "format_0d w v = c # cs" "is_digit c" using format_0d_digits [of v w] assms(1) by (cases "format_0d w v") auto
  show "skip_spaces (format_0d w v @ rest) n 0 = Inr 0"
    using c assms(2) digit_facts(2) [of c] by (subst skip_spaces.simps) (simp add: char_at_def res_simps)
  show "\<exists>c. char_at (format_0d w v @ rest) 0 = Inr c \<and> is_digit c" using c by (simp add: char_at_def)
qed

lemma TimeType_convert:
  fixes h m s :: int and rest :: string
  assumes r: "0 \<le> h" "h \<le> 23" "0 \<le> m" "m \<le> 59" "0 \<le> s" "s \<le> 59" and hms: "HMS2Time h m s = Some v"
  defines "t \<equiv> format_0d 2 h @ '':'' @ format_0d 2 m @ '':'' @ format_0d 2 s"
  shows "TimeType_ConvertFromString (t @ rest) (length t) = Inr (Some v)"
proof -
  let ?H = "format_0d 2 h" and ?M = "format_0d 2 m" and ?S = "format_0d 2 s" and ?mem = "t @ rest" and ?n = "length t"
  have colon: "\<not> is_digit (CHR '':'')" by (simp add: is_digit_def less_eq_char_def)
  have 0: "skip_spaces ?mem ?n 0 = Inr 0" using first_digit(1) [OF r(1), of ?n 2] by (simp add: t_def)
  have 1: "read_number 23 ?mem ?n 0 0 = Inr (Some (h, 0 + length ?H))"
    by (rule read_printed [where pre = "[]" and rest = "'':'' @ ?M @ '':'' @ ?S @ rest"]) (use r colon in \<open>simp_all add: t_def\<close>)
  have 2: "skip_separator {CHR '':''} ?mem (0 + length ?H) = Inr (Some (0 + length ?H + 1))"
    by (rule skip_separator_at [where pre = ?H and c = "CHR '':''" and rest = "?M @ '':'' @ ?S @ rest"]) (simp_all add: t_def)
  have 3: "read_number 59 ?mem ?n 0 (0 + length ?H + 1) = Inr (Some (m, 0 + length ?H + 1 + length ?M))"
    by (rule read_printed [where pre = "?H @ '':''" and rest = "'':'' @ ?S @ rest"]) (use r colon in \<open>simp_all add: t_def\<close>)
  have 4: "skip_separator {CHR '':''} ?mem (0 + length ?H + 1 + length ?M) = Inr (Some (0 + length ?H + 1 + length ?M + 1))"
    by (rule skip_separator_at [where pre = "?H @ '':'' @ ?M" and c = "CHR '':''" and rest = "?S @ rest"]) (simp_all add: t_def)
  have 5: "read_number 59 ?mem ?n 0 (0 + length ?H + 1 + length ?M + 1) = Inr (Some (s, 0 + length ?H + 1 + length ?M + 1 + length ?S))"
    by (rule read_printed [where pre = "?H @ '':'' @ ?M @ '':''" and rest = rest]) (use r in \<open>simp_all add: t_def\<close>)
  show ?thesis unfolding TimeType_ConvertFromString_def 0 rbind_Inr obind_def option.case prod.case 1 2 3 4 5 hms ..
qed

lemma TimeType_text:
  assumes v: "0 \<le> v" "v < 86400"
  obtains t where "TimeType_ToString v = Inr t" "t \<noteq> []" "hd t \<noteq> CHR '' ''" "\<And>rest. TimeType_FromString (t @ rest) (length t) = Inr v"
proof -
  have sec: "DAY_SECOND = 86400" "HOUR_SECOND = 3600" "MINUTE_SECOND = 60"
    by (simp_all add: DAY_SECOND_def DAY_MINUTE_def DAY_HOUR_def HOUR_SECOND_def MINUTE_SECOND_def)
  have "0 \<le> v mod 3600" by simp
  then obtain h m s where hms: "h = v div 3600" "m = v mod 3600 div 60" "s = v mod 3600 mod 60" "Time2HMS v = Some (h, m, s)"
    using v sdiv_smod_nonneg [of v 3600] sdiv_smod_nonneg [of "v mod 3600" 60] by (simp add: Time2HMS_def Let_def sec)
  have r: "0 \<le> h" "h \<le> 23" "0 \<le> m" "m \<le> 59" "0 \<le> s" "s \<le> 59" using v hms by auto
  have "3600 * h + (60 * m + s) = v" unfolding hms(1-3) mult_div_mod_eq ..
  then have time: "HMS2Time h m s = Some v" using r by (simp add: HMS2Time_def IsTimeValid_def sec)
  let ?t = "format_0d 2 h @ '':'' @ format_0d 2 m @ '':'' @ format_0d 2 s"
  have str: "TimeType_ToString v = Inr ?t" using hms(4) by (simp add: TimeType_ToString_def)
  have "hd ?t \<noteq> CHR '' ''" "?t \<noteq> []"
    using format_0d_digits [OF r(1), of 2] by (cases "format_0d 2 h"; auto simp: is_digit_def less_eq_char_def)+
  moreover have "TimeType_FromString (?t @ rest) (length ?t) = Inr v" for rest
    unfolding TimeType_FromString_def TimeType_convert [OF r time] by simp
  ultimately show thesis using that [of ?t] str by blast
qed

text \<open>The sign of the year is printed before its digits.\<close>

lemma format_0d_sign: "\<exists>w'. format_0d w v = (if v < 0 then ''-'' else []) @ format_0d w' \<bar>v\<bar>"
  by (rule exI [of _ "if v < 0 then w - 1 else w"]) (simp add: format_0d_def Let_def)

lemma sign_read:
  assumes "0 \<le> y" "0 < n"
  shows "skip_spaces ((if neg then ''-'' else []) @ format_0d w y @ rest) n 0 = Inr 0 \<and>
    (\<exists>c. char_at ((if neg then ''-'' else []) @ format_0d w y @ rest) 0 = Inr c \<and> (c = CHR ''-'') = neg)"
proof (cases neg)
  case True
  then show ?thesis using assms(2) by (subst skip_spaces.simps) (simp add: char_at_def is_space_def less_eq_char_def res_simps)
next
  case False
  then show ?thesis using first_digit [OF assms, of w rest] digit_facts(3) by auto
qed

lemma DateType_text:
  assumes date: "Date2YMD v = Inr ((y, m, d), True)"
  obtains t where "DateType_ToString v = Inr t" "t \<noteq> []"
    "\<And>rest n. n = length t \<or> length t < n \<and> rest \<noteq> [] \<and> \<not> is_digit (hd rest) \<Longrightarrow> DateType_FromString (t @ rest) n = Inr (v, length t)"
proof -
  have valid: "IsDateValid y m d" "days_of y m d = v" using Date2YMD_spec [of v] date by auto
  have days: "YMD2Date y m d = Some v" using valid by (simp add: YMD2Date_days)
  have "days_of_month y m \<le> 31"
    using month_cases [of m] valid(1) by (auto simp: IsDateValid_proper proper_def days_of_month_def LEAP_DAYS_def NORMAL_DAYS_def)
  then have r: "0 \<le> \<bar>y\<bar>" "\<bar>y\<bar> \<le> 9999" "0 \<le> m" "m \<le> 12" "0 \<le> d" "d \<le> 31" using valid(1) by (auto simp: IsDateValid_proper proper_def)
  obtain w g where w: "format_0d 4 y = g @ format_0d w \<bar>y\<bar>" and g: "g = (if y < 0 then ''-'' else [])" using format_0d_sign by blast
  let ?Y = "format_0d w \<bar>y\<bar>" and ?M = "format_0d 2 m" and ?D = "format_0d 2 d" and ?seps = "{CHR ''-'', CHR ''/''}"
  let ?t = "g @ ?Y @ ''-'' @ ?M @ ''-'' @ ?D"
  have str: "DateType_ToString v = Inr ?t" by (simp add: DateType_ToString_def date w)
  have dash: "\<not> is_digit (CHR ''-'')" by (simp add: is_digit_def less_eq_char_def)
  have conv: "DateType_ConvertFromString (?t @ rest) n = Inr (Some (v, length ?t))"
    if n: "n = length ?t \<or> length ?t < n \<and> rest \<noteq> [] \<and> \<not> is_digit (hd rest)" for rest n
  proof -
    let ?mem = "?t @ rest" and ?p = "length g"
    have l: "length g + length ?Y + 1 + length ?M + 1 + length ?D \<le> n" using n by auto
    then have "0 < n" by linarith
    then obtain c where c: "skip_spaces ?mem n 0 = Inr 0" "char_at ?mem 0 = Inr c" "(c = CHR ''-'') = (y < 0)"
      using sign_read [OF r(1), of n "y < 0" w "''-'' @ ?M @ ''-'' @ ?D @ rest", folded g] unfolding append_assoc by blast
    have 1: "read_number 9999 ?mem n 0 ?p = Inr (Some (\<bar>y\<bar>, ?p + length ?Y))"
      by (rule read_printed [where pre = g and rest = "''-'' @ ?M @ ''-'' @ ?D @ rest"]) (use r dash l in simp_all)
    have 2: "skip_separator ?seps ?mem (?p + length ?Y) = Inr (Some (?p + length ?Y + 1))"
      by (rule skip_separator_at [where pre = "g @ ?Y" and c = "CHR ''-''" and rest = "?M @ ''-'' @ ?D @ rest"]) simp_all
    have 3: "read_number 12 ?mem n 0 (?p + length ?Y + 1) = Inr (Some (m, ?p + length ?Y + 1 + length ?M))"
      by (rule read_printed [where pre = "g @ ?Y @ ''-''" and rest = "''-'' @ ?D @ rest"]) (use r dash l in simp_all)
    have 4: "skip_separator ?seps ?mem (?p + length ?Y + 1 + length ?M) = Inr (Some (?p + length ?Y + 1 + length ?M + 1))"
      by (rule skip_separator_at [where pre = "g @ ?Y @ ''-'' @ ?M" and c = "CHR ''-''" and rest = "?D @ rest"]) simp_all
    have 5: "read_number 31 ?mem n 0 (?p + length ?Y + 1 + length ?M + 1) = Inr (Some (d, ?p + length ?Y + 1 + length ?M + 1 + length ?D))"
      by (rule read_printed [where pre = "g @ ?Y @ ''-'' @ ?M @ ''-''" and rest = rest]) (use r n in \<open>simp_all add: add.assoc\<close>)
    have p: "(if c = CHR ''-'' then 0 + 1 else 0) = ?p" "(if c = CHR ''-'' then - \<bar>y\<bar> else \<bar>y\<bar>) = y" using c(3) g by simp_all
    show ?thesis
      unfolding DateType_ConvertFromString_def Let_def c(1,2) rbind_Inr p 1 obind_def option.case prod.case 2 3 4 5 days by simp
  qed
  have "?t \<noteq> []" by simp
  then show thesis using that [of ?t] str conv by (simp add: DateType_FromString_def)
qed

text \<open>(C37) Printing and reading: every valid date with a time of the day is printed, and reading the text gives the same date and time back, for years
  before the year 0 too.\<close>

theorem datetime_text_roundtrip:
  assumes "Date2YMD (dt_date x) = Inr ((y, m, d), True)" "0 \<le> dt_time x" "dt_time x < 86400"
  shows "\<exists>t. DateTimeType_ToString x = Inr t \<and> DateTimeType_FromString (t @ rest) (length t) = Inr x"
proof -
  obtain t1 where t1: "DateType_ToString (dt_date x) = Inr t1"
    "\<And>rest n. n = length t1 \<or> length t1 < n \<and> rest \<noteq> [] \<and> \<not> is_digit (hd rest) \<Longrightarrow> DateType_FromString (t1 @ rest) n = Inr (dt_date x, length t1)"
    using DateType_text [OF assms(1)] by metis
  obtain t2 where t2: "TimeType_ToString (dt_time x) = Inr t2" "t2 \<noteq> []" "hd t2 \<noteq> CHR '' ''"
    "\<And>rest. TimeType_FromString (t2 @ rest) (length t2) = Inr (dt_time x)"
    using TimeType_text [OF assms(2,3)] by metis
  let ?mem = "t1 @ '' '' @ t2 @ rest" and ?n = "length t1 + 1 + length t2"
  have date: "DateType_FromString ?mem ?n = Inr (dt_date x, length t1)" by (rule t1(2)) (simp add: is_digit_def less_eq_char_def)
  have blank: "skip_blanks ?mem ?n (length t1) = Inr (length t1 + 1)"
    using t2(2,3) by (cases t2; subst skip_blanks.simps; simp add: char_at_def; subst skip_blanks.simps; simp add: char_at_def nth_append)
  have "DateTimeType_FromString ?mem ?n = Inr x"
    using t2(2) t2(4) [of rest] date blank by (simp add: DateTimeType_FromString_def)
  then show ?thesis using t1(1) t2(1) by (simp add: DateTimeType_ToString_def)
qed

theorem datetime_text_roundtrip_witness:
  "\<exists>t. DateTimeType_ToString \<lparr>dt_date = 0, dt_time = 3661\<rparr> = Inr t \<and> DateTimeType_FromString (t @ []) (length t) = Inr \<lparr>dt_date = 0, dt_time = 3661\<rparr>"
proof -
  have "proper 1970 1 1" "days_of 1970 1 1 = 0" "IsDateValid 1970 1 1"
    using cum_ends(1) [of 1970] by (simp_all add: IsDateValid_proper proper_def days_of_month_def LEAP_DAYS_def NORMAL_DAYS_def days_of_def days_before_year_def)
  then have "Date2YMD 0 = Inr ((1970, 1, 1), True)" using Date2YMD_days_of [of 1970 1 1] by simp
  then show ?thesis by (intro datetime_text_roundtrip) simp_all
qed

subsection \<open>Months and years\<close>

lemma carry_month_floor:
  assumes "\<bar>year\<bar> \<le> 9999" "\<bar>month\<bar> < 2 ^ 30"
  shows "carry_month year month = Inr (year + (month - 1) div 12, (month - 1) mod 12 + 1)"
proof -
  consider (high) "12 < month" | (low) "month < 1" | (mid) "1 \<le> month" "month \<le> 12" by linarith
  then show ?thesis
  proof cases
    case high
    then have "0 \<le> (month - 1) div 12" "(month - 1) div 12 < 2 ^ 30" using assms(2) by (auto simp: pos_imp_zdiv_nonneg_iff)
    then show ?thesis
      using high assms(1) sdiv_smod_nonneg [of "month - 1" 12] by (simp add: carry_month_def i32_def abs_le_iff)
  next
    case low
    let ?a = "12 - month"
    have a: "0 \<le> ?a div 12" "?a div 12 < 2 ^ 30" using low assms(2) by (auto simp: pos_imp_zdiv_nonneg_iff abs_less_iff)
    have e: "month - 1 = 12 * (- (?a div 12)) + (11 - ?a mod 12)" using mult_div_mod_eq [of 12 ?a] by linarith
    have b: "0 \<le> 11 - ?a mod 12" "11 - ?a mod 12 < 12" using pos_mod_bound [of 12 ?a] pos_mod_sign [of 12 ?a] by linarith+
    have d: "(month - 1) div 12 = - (?a div 12)" "(month - 1) mod 12 = 11 - ?a mod 12"
      by (rule int_div_pos_eq [OF e b], rule int_mod_pos_eq [OF e b])
    have "(month - 12) sdiv 12 = - (?a div 12)" "(month - 12) smod 12 = - (?a mod 12)" using sdiv_neg [of "month - 12" 12] low by simp_all
    then show ?thesis using low assms a d by (simp add: carry_month_def i32_def abs_le_iff abs_less_iff)
  next
    case mid
    then show ?thesis by (simp add: carry_month_def)
  qed
qed

text \<open>(C39) Adding months: the months are counted through, in both directions, and the day is the last one of its month at most.  Adding the months to a
  date with a time leaves the time as it is.\<close>

theorem datetime_add_months:
  assumes date: "Date2YMD (dt_date x) = Inr ((y, m, d), True)" and i: "it_unit i = kMonth" "\<bar>it_value i\<bar> < 2 ^ 20"
    and N: "N = 12 * y + (m - 1) + it_value i" and year: "- 1969 \<le> N div 12" "N div 12 \<le> 9999"
  shows "\<exists>v. DateTimeType_Add x i = Inr (x\<lparr>dt_date := v\<rparr>) \<and>
    Date2YMD v = Inr ((N div 12, N mod 12 + 1, min d (days_of_month (N div 12) (N mod 12 + 1))), True)"
proof -
  let ?y = "N div 12" and ?m = "N mod 12 + 1"
  let ?d = "min d (days_of_month ?y ?m)"
  have valid: "IsDateValid y m d" using Date2YMD_spec [of "dt_date x"] date by auto
  then have r: "\<bar>y\<bar> \<le> 9999" "1 \<le> m" "m \<le> 12" "1 \<le> d" by (auto simp: IsDateValid_proper proper_def)
  have m: "1 \<le> ?m" "?m \<le> 12" using pos_mod_bound [of 12 N] pos_mod_sign [of 12 N] by linarith+
  have "proper ?y ?m ?d" using m r(4) cum_step(2) [OF m, of ?y] by (simp add: proper_def)
  then have new: "IsDateValid ?y ?m ?d" "Date2YMD (days_of ?y ?m ?d) = Inr ((?y, ?m, ?d), True)"
    using year Date2YMD_days_of [of ?y ?m ?d] by (simp_all add: IsDateValid_proper)
  have "N = 12 * y + (m + it_value i - 1)" using N by simp
  then have "y + (m + it_value i - 1) div 12 = ?y" "(m + it_value i - 1) mod 12 + 1 = ?m" by simp_all
  then have carry: "carry_month y (m + it_value i) = Inr (?y, ?m)"
    using carry_month_floor [of y "m + it_value i"] r i(2) by simp
  have "i32 (m + it_value i) = Inr (m + it_value i)" using r i(2) by (auto simp: i32_def)
  then have "DateTimeType_Add x i = Inr (x\<lparr>dt_date := days_of ?y ?m ?d\<rparr>)"
    using i(1) date carry new(1) by (simp add: DateTimeType_Add_def add_to_date_def DateType_Add_def with_YMD_def YMD2Date_days)
  then show ?thesis using new(2) by blast
qed

lemma leap_day_2024: "Date2YMD (days_of 2024 2 29) = Inr ((2024, 2, 29), True)"
proof -
  have "IsLeapYear 2024" by (simp add: IsLeapYear_dvd)
  then have "proper 2024 2 29" "IsDateValid 2024 2 29" by (simp_all add: IsDateValid_proper proper_def days_of_month_def LEAP_DAYS_def)
  then show ?thesis using Date2YMD_days_of by metis
qed

theorem datetime_add_months_witness:
  "\<exists>v. DateTimeType_Add \<lparr>dt_date = days_of 2024 2 29, dt_time = 0\<rparr> \<lparr>it_unit = kMonth, it_value = - 12\<rparr> = Inr (\<lparr>dt_date = days_of 2024 2 29, dt_time = 0\<rparr>\<lparr>dt_date := v\<rparr>) \<and>
    Date2YMD v = Inr ((2023, 2, min 29 (days_of_month 2023 2)), True)"
  using datetime_add_months [of "\<lparr>dt_date = days_of 2024 2 29, dt_time = 0\<rparr>" 2024 2 29 "\<lparr>it_unit = kMonth, it_value = - 12\<rparr>" 24277] leap_day_2024 by simp

text \<open>(C40) A failed addition of years is not noticed: the 29th of February plus a number of years that does not lead to a leap year is no valid date, and
  the addition to the date fails; the addition to the date with a time then returns as if it had succeeded, with the date unchanged.\<close>

theorem datetime_add_years_failure_ignored:
  assumes date: "Date2YMD (dt_date x) = Inr ((y, 2, 29), True)" and i: "it_unit i = kYear" "\<bar>it_value i\<bar> < 2 ^ 30" "\<not> IsLeapYear (y + it_value i)"
  shows "DateType_Add (dt_date x) i = Inr None \<and> DateTimeType_Add x i = Inr x"
proof -
  have "\<bar>y\<bar> \<le> 9999" using Date2YMD_spec [of "dt_date x"] date by (auto simp: IsDateValid_proper)
  then have "i32 (y + it_value i) = Inr (y + it_value i)" using i(2) by (auto simp: i32_def)
  moreover have "YMD2Date (y + it_value i) 2 29 = None" using i(3) by (simp add: YMD2Date_days IsDateValid_proper proper_def days_of_month_def NORMAL_DAYS_def)
  ultimately have "DateType_Add (dt_date x) i = Inr None" using i(1) date by (simp add: DateType_Add_def with_YMD_def)
  then show ?thesis using i(1) by (simp add: DateTimeType_Add_def add_to_date_def)
qed

theorem datetime_add_years_failure_ignored_witness:
  "DateType_Add (days_of 2024 2 29) \<lparr>it_unit = kYear, it_value = 1\<rparr> = Inr None \<and>
   DateTimeType_Add \<lparr>dt_date = days_of 2024 2 29, dt_time = 0\<rparr> \<lparr>it_unit = kYear, it_value = 1\<rparr> = Inr \<lparr>dt_date = days_of 2024 2 29, dt_time = 0\<rparr>"
  using datetime_add_years_failure_ignored [of "\<lparr>dt_date = days_of 2024 2 29, dt_time = 0\<rparr>" 2024 "\<lparr>it_unit = kYear, it_value = 1\<rparr>"] leap_day_2024
  by (simp add: IsLeapYear_dvd)

end
