(* ===== verification/Spec2Isabelle.thy ===== *)
theory Spec2Isabelle
  imports Persistence_Properties Index_Make Wal_Recovery Buffer_Properties Date_Time
begin

text \<open>
  A verification development for Infinity, a database engine in C++.  All paths below are under \<^verbatim>\<open>src/src\<close>.

  \<^bold>\<open>The parts of the program that are modelled, and how they interact.\<close>  A statement is logged before it takes effect: a transaction
  becomes a \<^verbatim>\<open>WalEntry\<close> of commands, the log manager appends it to a log file, and a restart reads the log back from its end, repairs
  it and replays the entries since the last checkpoint.  Commands carry table, column and index definitions and literals in a binary form.
  The data of tables lives in buffer objects; the buffer manager keeps them in memory up to a limit, spills them through file workers and
  loads them again.  Files can be kept as parts of larger objects by the persistence manager; log commands then carry the addresses of
  the parts.

  \<^bold>\<open>Conventions.\<close>  Every operation of a component is a definition of the name of the C++ function.  State is a record that an operation
  takes and returns.  Fallible operations return \<open>error + 'a\<close> (\<open>Infinity_Prelude\<close>): thrown exceptions, failed assertions and undefined
  behaviour are values, so a theorem with the result \<open>Inr\<close> says that none of them occurs.  Machine integers are words, or numbers with
  the wrap-around or the check written out.  The disk maps paths to bytes.

  \<^bold>\<open>Foundations.\<close>
  \<^item> \<open>Infinity_Prelude\<close>: errors, sequencing, integer conversions, alignment.  \<open>Std_Algorithm\<close>, \<open>Number_Text\<close>: the binary searches and
    the number conversions of the standard library.
  \<^item> \<open>Serialize\<close> (\<^verbatim>\<open>parser/type/serialize.h\<close>): binary primitives, and the locales \<open>codec\<close>, \<open>normal_codec\<close> and \<open>bounded_codec\<close>, the
    contract of \<^verbatim>\<open>GetSizeInBytes\<close>, \<^verbatim>\<open>WriteAdv\<close> and \<^verbatim>\<open>ReadAdv\<close>; every class below that is stored interprets one of them.
  \<^item> \<open>Crc\<close> (\<^verbatim>\<open>common/utility/crc.cppm\<close>): the table driven checksum is the bit-serial one.
  \<^item> \<open>Virtual_Store\<close> (\<^verbatim>\<open>storage/io/virtual_store.cpp\<close>): local files.

  \<^bold>\<open>Types and definitions.\<close>
  \<^item> \<open>Logical_Type\<close>, \<open>Data_Type\<close>, \<open>Constant_Expr\<close>, \<open>Column_Def\<close> (\<^verbatim>\<open>parser/type\<close>, \<^verbatim>\<open>parser/expr/constant_expr.cpp\<close>,
    \<^verbatim>\<open>parser/definition/column_def.cpp\<close>, \<^verbatim>\<open>storage/definition/table_def.cpp\<close>): round trips of the binary forms, and that every type a
    declaration yields can be stored.
  \<^item> \<open>Index_Base\<close>, \<open>Index_Make\<close> (\<^verbatim>\<open>storage/definition/index_*.cpp\<close>, \<^verbatim>\<open>LogicalPlanner::BuildCreateIndex\<close>, and the choice of the memory index
    in \<^verbatim>\<open>abstract_hnsw.cpp\<close> and \<^verbatim>\<open>abstract_bmp.cppm\<close>): the binary form of the seven
    kinds of index, that an index that creation accepts fits its column and can be stored, and for which accepted HNSW definitions no memory
    index can be set up.
  \<^item> \<open>Interval_Type\<close>, \<open>Date_Type\<close>, \<open>Date_Time\<close> (\<^verbatim>\<open>parser/type/datetime\<close>): intervals, calendar dates, times of the day and their combination.
    The table driven conversions count the days of the calendar; texts are read back; arithmetic is exact as long as 32 bits suffice;
    the failure of an addition of years is not reported.

  \<^bold>\<open>Persistence\<close> (\<^verbatim>\<open>storage/persistence\<close>).
  \<^item> \<open>Obj_Status\<close>: deleted ranges of an object refine the set of deleted bytes.
  \<^item> \<open>Obj_Stat_Accessor\<close>: the tables of objects with their lists for eviction, behind the locale \<open>stat_table\<close>, which both tables interpret;
    the eviction loop terminates and respects the budget.
  \<^item> \<open>Persistence_Manager\<close>, \<open>Persistence_Invariant\<close>, \<open>Persistence_Properties\<close>: \<^verbatim>\<open>Persist\<close>, \<^verbatim>\<open>Cleanup\<close>, \<^verbatim>\<open>GetObjCache\<close> and the other operations of
    \<^verbatim>\<open>persistence_manager.cpp\<close>, their invariant, and that every sequence of them refines a map from paths to file contents.
  \<^item> \<open>Addr_Serializer\<close>: the addresses in the log arrive at a recovering manager.

  \<^bold>\<open>Write-ahead log\<close> (\<^verbatim>\<open>storage/wal\<close>).
  \<^item> \<open>Wal_Info\<close>, \<open>Wal_Cmd\<close>, \<open>Wal_Entry\<close> (\<^verbatim>\<open>wal_entry.cpp\<close>): descriptions, the eighteen commands, entries with their checksum and the file
    iterator in both directions; round trips, detection of corruption, and an iterator that never returns on a torn file.  The size that a
    command announces is exact except for the two commands with Bloom filters, which count \<^verbatim>\<open>sizeof(std::string)\<close> for a text, and for rows whose
    estimate is not exact; \<open>size_misfit\<close> and \<open>entry_misfit\<close> are the differences.
  \<^item> \<open>Wal_List\<close>: the repair of the log after a crash.  \<open>Log_File\<close> (\<^verbatim>\<open>log_file.cpp\<close>): file names and the removal of old files.
  \<^item> \<open>Wal_Manager\<close>, \<open>Wal_Log\<close>, \<open>Wal_Recovery\<close> (\<^verbatim>\<open>wal_manager.cpp\<close>): flushing, closing files and recovery.  An entry is logged exactly when its
    announced size is right; after a crash in the middle of
    a write, a restart replays in order exactly the entries behind the latest checkpoint and the older ones it does not cover, except that it reads outside
    its buffer when only one to three bytes of an entry were written.

  \<^bold>\<open>Buffers\<close> (\<^verbatim>\<open>storage/buffer\<close>, \<^verbatim>\<open>storage/column_vector/var_buffer.cpp\<close>, \<^verbatim>\<open>storage/meta/entry/block_version.cpp\<close>).
  \<^item> \<open>Var_Buffer\<close>, \<open>Block_Version\<close>: values of variable length; which rows a transaction sees, and checkpoints as snapshots.
  \<^item> \<open>File_Worker\<close>: four workers behind the locale \<open>worker_contract\<close>; what was spilled is loaded again.
  \<^item> \<open>Buffer_Manager\<close> (\<^verbatim>\<open>buffer_manager.cpp\<close>, \<^verbatim>\<open>buffer_obj.cpp\<close>, \<^verbatim>\<open>buffer_handle.cpp\<close>): the state machine of an object and the queues of
    unpinned objects.  \<open>Buffer_Invariant\<close>, \<open>Buffer_Steps\<close>, \<open>Buffer_Changes\<close>, \<open>Buffer_Lifetime\<close>: the invariant, kept by every operation.
    \<open>Buffer_Properties\<close>: every run of client operations in which no append is refused its memory stays within the memory limit, keeps the contents
    of all objects, and fails only for lack of memory or on a mapped object; what happens beyond the limit is shown apart.

  \<^bold>\<open>Bounds and fuel.\<close>  Only the reader of nested literals has fuel, one unit more than there are bytes; more fuel never changes its result.
  Loops over a log file are partial functions whose value \<open>None\<close> is not returning, and the theorems say when they return.  All other
  recursion is total with a termination proof.  Sizes of files and objects are natural numbers; the casts to fewer bits that the code makes are written
  out, and the memory sizes of the buffer manager are 64 bit words that wrap.

  \<^bold>\<open>Outside the sources.\<close>  Random object names, the codec and the size estimate of data blocks, \<^verbatim>\<open>sizeof(std::string)\<close>, the conversion of texts to \<^verbatim>\<open>float\<close>, and the pool of analyzers are
  arguments of the definitions, with what is used of them as hypotheses.

  \<^bold>\<open>Not modelled.\<close>  The generated parsers and the generated Thrift code; network, HTTP and peer services; planner, executor, scheduler,
  expressions and functions, which work on data blocks and column vectors; vector, sparse and full text indexes, with floating point
  distances and third-party codecs, beyond the choice of their instance; the catalog and the transactions, hence what replaying an entry does to the catalog; the text
  analyzers; plain dates over \<^verbatim>\<open>std::chrono\<close> (\<^verbatim>\<open>date_type_std.cpp\<close>; the class \<^verbatim>\<open>DateType\<close> that is modelled is the date of a
  \<^verbatim>\<open>DateTimeType\<close>); JSON forms; remote object storage; configuration, cluster management and administration.  Operations that hold a
  lock are atomic steps, and taking a shared lock twice in one thread is undefined behaviour; the interleavings that the lock does not exclude are modelled only for the object locks of the buffer manager.
\<close>

end
